(* ===== verification/Prelude.thy ===== *)
theory Prelude
  imports Main "HOL-Library.Word" "HOL-Library.List_Lexorder" "HOL-Library.Char_ord"
    "HOL-Library.Product_Lexorder" "HOL-Library.Sublist"
begin

text \<open>
  The prelude of the development: the type synonyms that name the model's data, the generic
  list, association-list and integer operations that the components share, and the two
  interfaces (\<open>invariant_system\<close>, \<open>one_shot\<close>) that several components implement.

  Go strings are byte strings, modelled as \<^typ>\<open>string\<close>; Go's byte-wise string order and SQLite's
  BINARY collation are the lexicographic order of \<open>HOL-Library.List_Lexorder\<close> over
  \<open>HOL-Library.Char_ord\<close>. A Go map that is iterated is an association list in the order the
  \<^verbatim>\<open>range\<close> statement visits it. An error return is the left side of a sum.
\<close>

named_theorems store_simps \<open>unfolding equations of the store operations\<close>
named_theorems inv_intros \<open>preservation lemmas of the component invariants\<close>

type_synonym byte = "8 word"
type_synonym ('e, 'a) result = "'e + 'a"

section \<open>Lists\<close>

lemma find_Some_iff_filter: "find P xs = Some x \<Longrightarrow> x \<in> set xs \<and> P x"
  by (induction xs) (auto split: if_splits)

lemma find_None_filter: "find P xs = None \<longleftrightarrow> filter P xs = []"
  by (induction xs) auto

lemma distinct_map_filter_key: "distinct (map f xs) \<Longrightarrow> distinct (map f (filter P xs))"
  by (induction xs) auto

lemma distinct_map_unique:
  "distinct (map f xs) \<Longrightarrow> x \<in> set xs \<Longrightarrow> y \<in> set xs \<Longrightarrow> f x = f y \<Longrightarrow> x = y"
  by (auto simp: distinct_map dest: inj_onD)

lemma find_unique_key:
  assumes "distinct (map f xs)" and "x \<in> set xs"
  shows "find (\<lambda>y. f y = f x) xs = Some x"
  using assms by (induction xs) auto

lemma find_key_Some:
  assumes "distinct (map f xs)"
  shows "find (\<lambda>y. f y = k) xs = Some x \<longleftrightarrow> x \<in> set xs \<and> f x = k"
  using assms find_unique_key [of f xs x] by (auto dest: find_Some_iff_filter)

lemma find_key_None: "find (\<lambda>y. f y = k) xs = None \<longleftrightarrow> k \<notin> f ` set xs"
  by (induction xs) auto

lemma map_map_if_key:
  assumes "\<And>x. f (g x) = f x"
  shows "map f (map (\<lambda>x. if P x then g x else x) xs) = map f xs"
  using assms by simp

text \<open>\<open>update_where p g\<close> is SQL's \<^verbatim>\<open>UPDATE t SET g WHERE p\<close>: every matching row is rewritten in place.
  The number of matching rows is what \<^verbatim>\<open>RowsAffected\<close> reports.\<close>

definition update_where :: "('a \<Rightarrow> bool) \<Rightarrow> ('a \<Rightarrow> 'a) \<Rightarrow> 'a list \<Rightarrow> 'a list" where
  "update_where p g xs = map (\<lambda>x. if p x then g x else x) xs"

definition rows_affected :: "('a \<Rightarrow> bool) \<Rightarrow> 'a list \<Rightarrow> nat" where
  "rows_affected p xs = length (filter p xs)"

lemma length_update_where [simp]: "length (update_where p g xs) = length xs"
  by (simp add: update_where_def)

lemma update_where_Nil [simp]: "update_where p g [] = []"
  by (simp add: update_where_def)

lemma update_where_Cons [simp]:
  "update_where p g (x # xs) = (if p x then g x else x) # update_where p g xs"
  by (simp add: update_where_def)

lemma set_update_where:
  "set (update_where p g xs) = g ` {x \<in> set xs. p x} \<union> {x \<in> set xs. \<not> p x}"
  by (auto simp: update_where_def)

lemma in_update_whereE:
  assumes "y \<in> set (update_where p g xs)"
  obtains x where "x \<in> set xs" and "y = (if p x then g x else x)"
  using assms by (auto simp: update_where_def)

lemma in_update_whereI: "x \<in> set xs \<Longrightarrow> (if p x then g x else x) \<in> set (update_where p g xs)"
  by (auto simp: update_where_def)

lemma map_update_where_key:
  assumes "\<And>x. f (g x) = f x"
  shows "map f (update_where p g xs) = map f xs"
  using assms by (simp add: update_where_def)

lemma update_where_none: "rows_affected p xs = 0 \<Longrightarrow> update_where p g xs = xs"
  by (induction xs) (auto simp: update_where_def rows_affected_def split: if_splits)

lemma rows_affected_pos: "0 < rows_affected p xs \<longleftrightarrow> (\<exists>x \<in> set xs. p x)"
  by (auto simp: rows_affected_def filter_empty_conv)

lemma rows_affected_zero: "rows_affected p xs = 0 \<longleftrightarrow> (\<forall>x \<in> set xs. \<not> p x)"
  by (auto simp: rows_affected_def filter_empty_conv)

lemma rows_affected_update_where:
  assumes "\<And>x. x \<in> set xs \<Longrightarrow> p x \<Longrightarrow> \<not> q (g x)" and "\<And>x. x \<in> set xs \<Longrightarrow> \<not> p x \<Longrightarrow> \<not> q x"
  shows "rows_affected q (update_where p g xs) = 0"
  using assms by (auto simp: rows_affected_zero update_where_def)

section \<open>Results\<close>

text \<open>Sequencing of fallible calls, the \<^verbatim>\<open>if err != nil { return err }\<close> of the source, and a guard that
  returns early with an error.\<close>

definition rbind :: "('e, 'a) result \<Rightarrow> ('a \<Rightarrow> ('e, 'b) result) \<Rightarrow> ('e, 'b) result" where
  "rbind r f = (case r of Inl e \<Rightarrow> Inl e | Inr x \<Rightarrow> f x)"

definition fail_when :: "bool \<Rightarrow> 'e \<Rightarrow> ('e, 'a) result \<Rightarrow> ('e, 'a) result" where
  "fail_when b e r = (if b then Inl e else r)"

lemma rbind_simps [simp]: "rbind (Inl e) f = Inl e" "rbind (Inr x) f = f x"
  by (simp_all add: rbind_def)

lemma rbind_Inr: "rbind r f = Inr y \<longleftrightarrow> (\<exists>x. r = Inr x \<and> f x = Inr y)"
  by (cases r) auto

lemma rbind_Inl: "rbind r f = Inl e \<longleftrightarrow> r = Inl e \<or> (\<exists>x. r = Inr x \<and> f x = Inl e)"
  by (cases r) auto

lemma fail_when_Inr: "fail_when b e r = Inr y \<longleftrightarrow> \<not> b \<and> r = Inr y"
  by (simp add: fail_when_def)

lemmas result_Inr = rbind_Inr fail_when_Inr

text \<open>A loop over a list that threads a state and stops at the first error.\<close>

fun rfold :: "('a \<Rightarrow> 's \<Rightarrow> ('e, 's) result) \<Rightarrow> 'a list \<Rightarrow> 's \<Rightarrow> ('e, 's) result" where
  "rfold f [] s = Inr s"
| "rfold f (x # xs) s = rbind (f x s) (rfold f xs)"

lemma rfold_append: "rfold f (xs @ ys) s = rbind (rfold f xs s) (rfold f ys)"
  by (induction xs arbitrary: s) (auto simp: rbind_def split: sum.splits)

lemma rfold_invariant:
  assumes "rfold f xs s = Inr t" and "P s"
    and "\<And>x s t. x \<in> set xs \<Longrightarrow> P s \<Longrightarrow> f x s = Inr t \<Longrightarrow> P t"
  shows "P t"
  using assms by (induction xs arbitrary: s) (auto simp: rbind_Inr)

section \<open>Go maps\<close>

text \<open>Go maps are association lists; deleting and assigning a key.\<close>

definition map_delete :: "'k \<Rightarrow> ('k \<times> 'v) list \<Rightarrow> ('k \<times> 'v) list" where
  "map_delete k xs = filter (\<lambda>e. fst e \<noteq> k) xs"

definition map_put :: "'k \<Rightarrow> 'v \<Rightarrow> ('k \<times> 'v) list \<Rightarrow> ('k \<times> 'v) list" where
  "map_put k v xs = (k, v) # map_delete k xs"

lemma map_of_delete [simp]: "map_of (map_delete k xs) = (map_of xs)(k := None)"
  by (induction xs) (auto simp: map_delete_def fun_eq_iff)

lemma map_of_put [simp]: "map_of (map_put k v xs) = (map_of xs)(k \<mapsto> v)"
  by (simp add: map_put_def)

lemma length_map_delete: "length (map_delete k xs) \<le> length xs"
  by (simp add: map_delete_def)

lemma set_map_delete: "set (map_delete k xs) = {e \<in> set xs. fst e \<noteq> k}"
  by (auto simp: map_delete_def)

lemma map_delete_new: "k \<notin> fst ` set xs \<Longrightarrow> map_delete k xs = xs"
  by (force simp: map_delete_def filter_id_conv)

section \<open>Go integers\<close>

text \<open>Go's \<^verbatim>\<open>int64\<close> (and \<^verbatim>\<open>int\<close> on the supported platforms) arithmetic wraps at 64 bits.\<close>

definition int64_max :: int where
  "int64_max = 9223372036854775807"

definition int64_min :: int where
  "int64_min = - 9223372036854775808"

definition wrap64 :: "int \<Rightarrow> int" where
  "wrap64 x = (x + 9223372036854775808) mod 18446744073709551616 - 9223372036854775808"

definition in_int64 :: "int \<Rightarrow> bool" where
  "in_int64 x \<longleftrightarrow> int64_min \<le> x \<and> x \<le> int64_max"

lemma wrap64_id: "in_int64 x \<Longrightarrow> wrap64 x = x"
  by (simp add: in_int64_def int64_min_def int64_max_def wrap64_def)

lemma wrap64_in_range: "in_int64 (wrap64 x)"
proof -
  have "0 \<le> (x + 9223372036854775808) mod 18446744073709551616"
    and "(x + 9223372036854775808) mod 18446744073709551616 < 18446744073709551616"
    by simp_all
  then show ?thesis
    by (simp add: in_int64_def int64_min_def int64_max_def wrap64_def)
qed

section \<open>Reachable states and invariants\<close>

text \<open>The states an operational component can reach: the closure of its initial states under
  its step relation. Every component with state instantiates \<open>step\<close> with one rule per
  operation of the code.\<close>

inductive reach :: "('s \<Rightarrow> bool) \<Rightarrow> ('s \<Rightarrow> 's \<Rightarrow> bool) \<Rightarrow> 's \<Rightarrow> bool"
  for init :: "'s \<Rightarrow> bool" and step :: "'s \<Rightarrow> 's \<Rightarrow> bool" where
  reach_init: "init s \<Longrightarrow> reach init step s"
| reach_step: "reach init step s \<Longrightarrow> step s t \<Longrightarrow> reach init step t"

locale invariant_system =
  fixes init :: "'s \<Rightarrow> bool" and step :: "'s \<Rightarrow> 's \<Rightarrow> bool" and inv :: "'s \<Rightarrow> bool"
  assumes inv_init: "init s \<Longrightarrow> inv s"
    and inv_step: "inv s \<Longrightarrow> step s t \<Longrightarrow> inv t"
begin

lemma reach_inv: "reach init step s \<Longrightarrow> inv s"
  by (induction rule: reach.induct) (auto intro: inv_init inv_step)

lemma steps_inv: "step\<^sup>*\<^sup>* s t \<Longrightarrow> inv s \<Longrightarrow> inv t"
  by (induction rule: rtranclp_induct) (auto intro: inv_step)

lemma reach_steps: "step\<^sup>*\<^sup>* s t \<Longrightarrow> reach init step s \<Longrightarrow> reach init step t"
  by (induction rule: rtranclp_induct) (auto intro: reach_step)

end

text \<open>A compare-and-set style operation: \<open>take\<close> succeeds only in an available state and leaves
  the key unavailable, and the other operations of the environment (\<open>env\<close>) never make a key
  available. Then between two successes of \<open>take\<close> on one key something outside \<open>env\<close> ran.\<close>

locale one_shot =
  fixes take :: "'a \<Rightarrow> 'k \<Rightarrow> 's \<Rightarrow> 's option" and available :: "'k \<Rightarrow> 's \<Rightarrow> bool"
    and env :: "'k \<Rightarrow> 's \<Rightarrow> 's \<Rightarrow> bool" and inv :: "'s \<Rightarrow> bool"
  assumes take_available: "inv s \<Longrightarrow> take a k s = Some t \<Longrightarrow> available k s"
    and take_spends: "inv s \<Longrightarrow> take a k s = Some t \<Longrightarrow> \<not> available k t \<and> inv t"
    and env_keeps: "inv s \<Longrightarrow> env k s t \<Longrightarrow> \<not> available k s \<Longrightarrow> \<not> available k t \<and> inv t"
begin

lemma env_steps_keep:
  "(env k)\<^sup>*\<^sup>* s t \<Longrightarrow> inv s \<Longrightarrow> \<not> available k s \<Longrightarrow> \<not> available k t \<and> inv t"
  by (induction rule: rtranclp_induct) (auto dest: env_keeps)

lemma second_take_fails:
  assumes "inv s" and "take a k s = Some t" and "(env k)\<^sup>*\<^sup>* t u"
  shows "take b k u = None"
proof (rule ccontr)
  assume "take b k u \<noteq> None"
  then obtain v where v: "take b k u = Some v" by auto
  have "\<not> available k u \<and> inv u"
    using env_steps_keep [OF assms(3)] take_spends [OF assms(1,2)] by blast
  with take_available [OF _ v] show False by blast
qed

end

text \<open>Refinement of an abstract machine by a concrete one: under the invariant, and where the abstract
  machine allows the operation, each concrete operation commutes with the abstraction.\<close>

primrec allowed_run :: "('op \<Rightarrow> 'a \<Rightarrow> bool) \<Rightarrow> ('op \<Rightarrow> 'a \<Rightarrow> 'a) \<Rightarrow> 'op list \<Rightarrow> 'a \<Rightarrow> bool" where
  "allowed_run ok step [] a = True"
| "allowed_run ok step (op # ops) a = (ok op a \<and> allowed_run ok step ops (step op a))"

locale functional_refinement =
  fixes inv :: "'s \<Rightarrow> bool" and concrete :: "'op \<Rightarrow> 's \<Rightarrow> 's"
    and abs :: "'s \<Rightarrow> 'a" and ok :: "'op \<Rightarrow> 'a \<Rightarrow> bool" and abstract :: "'op \<Rightarrow> 'a \<Rightarrow> 'a"
  assumes keeps_inv: "inv s \<Longrightarrow> ok op (abs s) \<Longrightarrow> inv (concrete op s)"
    and commutes: "inv s \<Longrightarrow> ok op (abs s) \<Longrightarrow> abs (concrete op s) = abstract op (abs s)"
begin

lemma run_refines:
  "inv s \<Longrightarrow> allowed_run ok abstract ops (abs s) \<Longrightarrow>
    inv (fold concrete ops s) \<and> abs (fold concrete ops s) = fold abstract ops (abs s)"
  by (induction ops arbitrary: s) (simp_all add: keeps_inv commutes)

end

end
