(* ===== verification/Frame.thy ===== *)
theory Frame
  imports Prelude
begin

text \<open>
  The wire framing of \<^verbatim>\<open>internal/protocol/frame.go\<close>: a one-byte channel, a four-byte big-endian
  length and the payload. The writer is an \<^verbatim>\<open>io.Writer\<close> that accumulates bytes or fails; the
  reader is the remaining input of an \<^verbatim>\<open>io.Reader\<close>, read with \<^verbatim>\<open>io.ReadFull\<close>.
\<close>

unbundle bit_operations_syntax

record frame =
  Channel :: byte
  Payload :: "byte list"

definition ChannelControl :: byte where
  "ChannelControl = 0"

definition ChannelData :: byte where
  "ChannelData = 1"

definition MaxPayload :: nat where
  "MaxPayload = 4 * 1024 * 1024"

definition headerSize :: nat where
  "headerSize = 5"

datatype frame_error =
    PayloadTooLarge nat
  | WriteFailed
  | EndOfFile
  | UnexpectedEOF
  | FrameTooLarge nat
  | ReadPayload frame_error

text \<open>\<^verbatim>\<open>binary.BigEndian.PutUint32\<close> and \<^verbatim>\<open>Uint32\<close>.\<close>

definition put_uint32 :: "32 word \<Rightarrow> byte list" where
  "put_uint32 v =
    [ucast (drop_bit 24 v), ucast (drop_bit 16 v), ucast (drop_bit 8 v), ucast v]"

definition uint32_of :: "byte \<Rightarrow> byte \<Rightarrow> byte \<Rightarrow> byte \<Rightarrow> 32 word" where
  "uint32_of b0 b1 b2 b3 =
    ucast b3 OR push_bit 8 (ucast b2) OR push_bit 16 (ucast b1) OR push_bit 24 (ucast b0)"

record sink =
  written :: "byte list"
  faulty :: bool

definition sink_write :: "byte list \<Rightarrow> sink \<Rightarrow> (frame_error, sink) result" where
  "sink_write buf w = (if faulty w then Inl WriteFailed else Inr (w\<lparr>written := written w @ buf\<rparr>))"

definition WriteFrame :: "sink \<Rightarrow> byte \<Rightarrow> byte list \<Rightarrow> (frame_error, sink) result" where
  "WriteFrame w channel payload =
    (if MaxPayload < length payload then Inl (PayloadTooLarge (length payload))
     else sink_write (channel # put_uint32 (of_nat (length payload)) @ payload) w)"

text \<open>\<^verbatim>\<open>io.ReadFull\<close>: all of the requested bytes, EOF when none were read, else unexpected EOF.\<close>

definition read_full :: "nat \<Rightarrow> byte list \<Rightarrow> (frame_error, byte list \<times> byte list) result" where
  "read_full n inp =
    (if n \<le> length inp then Inr (take n inp, drop n inp)
     else if inp = [] then Inl EndOfFile else Inl UnexpectedEOF)"

definition ReadFrame :: "byte list \<Rightarrow> (frame_error, frame \<times> byte list) result" where
  "ReadFrame inp =
    (case read_full headerSize inp of
       Inl e \<Rightarrow> Inl e
     | Inr (hdr, rest) \<Rightarrow>
         let len = unat (uint32_of (hdr ! 1) (hdr ! 2) (hdr ! 3) (hdr ! 4)) in
         if MaxPayload < len then Inl (FrameTooLarge len)
         else if len = 0 then Inr (\<lparr>Channel = hdr ! 0, Payload = []\<rparr>, rest)
         else case read_full len rest of
             Inl e \<Rightarrow> Inl (ReadPayload e)
           | Inr (payload, rest') \<Rightarrow> Inr (\<lparr>Channel = hdr ! 0, Payload = payload\<rparr>, rest'))"

text \<open>The read loop of a connection: frames until the input ends cleanly between two frames.\<close>

function read_frames :: "byte list \<Rightarrow> (frame_error, frame list) result" where
  "read_frames inp =
    (if inp = [] then Inr []
     else case ReadFrame inp of
         Inl e \<Rightarrow> Inl e
       | Inr (f, rest) \<Rightarrow>
           if length rest < length inp
           then case read_frames rest of Inl e \<Rightarrow> Inl e | Inr fs \<Rightarrow> Inr (f # fs)
           else Inl UnexpectedEOF)"
  by pat_completeness auto
termination
  by (relation "measure length") auto

declare read_frames.simps [simp del]

fun write_frames :: "sink \<Rightarrow> frame list \<Rightarrow> (frame_error, sink) result" where
  "write_frames w [] = Inr w"
| "write_frames w (f # fs) =
    (case WriteFrame w (Channel f) (Payload f) of Inl e \<Rightarrow> Inl e | Inr w' \<Rightarrow> write_frames w' fs)"

section \<open>Lemmas\<close>

lemma uint32_of_parts:
  "uint32_of (ucast (drop_bit 24 v)) (ucast (drop_bit 16 v)) (ucast (drop_bit 8 v)) (ucast v) = v"
proof (rule bit_word_eqI)
  fix n
  assume "n < LENGTH(32)"
  then consider "n < 8" | "8 \<le> n" "n < 16" | "16 \<le> n" "n < 24" | "24 \<le> n" "n < 32" by fastforce
  then show "bit (uint32_of (ucast (drop_bit 24 v)) (ucast (drop_bit 16 v)) (ucast (drop_bit 8 v))
      (ucast v)) n = bit v n"
    by cases (auto simp: uint32_of_def bit_simps)
qed

lemma uint32_put: "put_uint32 v = [b0, b1, b2, b3] \<Longrightarrow> uint32_of b0 b1 b2 b3 = v"
  using uint32_of_parts [of v] by (auto simp: put_uint32_def)

definition encode :: "byte \<Rightarrow> byte list \<Rightarrow> byte list" where
  "encode c p = c # put_uint32 (of_nat (length p)) @ p"

lemma WriteFrame_ok:
  "WriteFrame w c p = Inr w' \<longleftrightarrow>
     length p \<le> MaxPayload \<and> \<not> faulty w \<and> w' = w\<lparr>written := written w @ encode c p\<rparr>"
  by (auto simp: WriteFrame_def sink_write_def encode_def)

lemma unat_len: "length p \<le> MaxPayload \<Longrightarrow> unat (of_nat (length p) :: 32 word) = length p"
  by (simp add: MaxPayload_def unat_of_nat)

lemma length_encode: "length (encode c p) = headerSize + length p"
  by (simp add: encode_def put_uint32_def headerSize_def)

lemma ReadFrame_encode:
  assumes "length p \<le> MaxPayload"
  shows "ReadFrame (encode c p @ rest) = Inr (\<lparr>Channel = c, Payload = p\<rparr>, rest)"
proof -
  obtain b0 b1 b2 b3 where b: "put_uint32 (of_nat (length p)) = [b0, b1, b2, b3]"
    by (simp add: put_uint32_def)
  then have "unat (uint32_of b0 b1 b2 b3) = length p"
    using assms by (simp add: uint32_put unat_len)
  then show ?thesis
    using assms b by (simp add: ReadFrame_def read_full_def encode_def headerSize_def)
qed

lemma read_full_length:
  "read_full n inp = Inr (a, b) \<Longrightarrow> length a = n \<and> inp = a @ b"
  by (auto simp: read_full_def split: if_splits)

lemma ReadFrame_ok:
  assumes "ReadFrame inp = Inr (f, rest)"
  shows "length (Payload f) \<le> MaxPayload \<and> length inp = headerSize + length (Payload f) + length rest"
proof -
  from assms obtain hdr r where h: "read_full headerSize inp = Inr (hdr, r)"
    by (auto simp: ReadFrame_def split: sum.splits)
  then have l: "length hdr = headerSize" "inp = hdr @ r" by (auto dest: read_full_length)
  show ?thesis using assms h l
    by (auto simp: ReadFrame_def Let_def split: sum.splits if_splits dest!: read_full_length)
qed

section \<open>Streams of frames\<close>

definition fits :: "frame \<Rightarrow> bool" where
  "fits f \<longleftrightarrow> length (Payload f) \<le> MaxPayload"

lemma write_frames_value:
  "write_frames w fs =
    (case find (\<lambda>f. \<not> fits f) fs of
       Some f \<Rightarrow> if faulty w \<and> fits (hd fs) then Inl WriteFailed else Inl (PayloadTooLarge (length (Payload f)))
     | None \<Rightarrow> if faulty w \<and> fs \<noteq> [] then Inl WriteFailed
               else Inr (w\<lparr>written := written w @ concat (map (\<lambda>f. encode (Channel f) (Payload f)) fs)\<rparr>))"
  by (induction fs arbitrary: w)
    (auto simp: WriteFrame_def sink_write_def fits_def encode_def split: option.splits)

lemma encode_not_Nil [simp]: "encode c p \<noteq> []"
  by (simp add: encode_def)

lemma read_frames_step:
  assumes "ReadFrame inp = Inr (f, rest)"
  shows "read_frames inp = (case read_frames rest of Inl e \<Rightarrow> Inl e | Inr fs \<Rightarrow> Inr (f # fs))"
proof -
  have "length rest < length inp" using ReadFrame_ok [OF assms] by (simp add: headerSize_def)
  moreover from this have "inp \<noteq> []" by auto
  ultimately show ?thesis using assms by (subst read_frames.simps) simp
qed

lemma read_frames_error: "inp \<noteq> [] \<Longrightarrow> ReadFrame inp = Inl e \<Longrightarrow> read_frames inp = Inl e"
  by (subst read_frames.simps) simp

lemma read_frames_encoded:
  assumes "list_all fits fs"
  shows "read_frames (concat (map (\<lambda>f. encode (Channel f) (Payload f)) fs)) = Inr fs"
  using assms
proof (induction fs)
  case Nil
  then show ?case by (simp add: read_frames.simps)
next
  case (Cons f fs)
  then have "ReadFrame (encode (Channel f) (Payload f) @ concat (map (\<lambda>f. encode (Channel f) (Payload f)) fs)) =
      Inr (f, concat (map (\<lambda>f. encode (Channel f) (Payload f)) fs))"
    by (simp add: ReadFrame_encode fits_def)
  with Cons show ?case by (simp add: read_frames_step)
qed

definition truncation_errors :: "frame_error set" where
  "truncation_errors = {UnexpectedEOF, ReadPayload EndOfFile, ReadPayload UnexpectedEOF}"

lemma ReadFrame_truncated:
  assumes "length p \<le> MaxPayload" "0 < n" "n < length (encode c p)"
  shows "\<exists>e \<in> truncation_errors. ReadFrame (take n (encode c p)) = Inl e"
proof (cases "n < headerSize")
  case True
  with assms show ?thesis
    by (simp add: ReadFrame_def read_full_def truncation_errors_def encode_def headerSize_def put_uint32_def)
next
  case False
  obtain b0 b1 b2 b3 where b: "put_uint32 (of_nat (length p)) = [b0, b1, b2, b3]"
    by (simp add: put_uint32_def)
  then have len: "unat (uint32_of b0 b1 b2 b3) = length p"
    using assms by (simp add: uint32_put unat_len)
  from False obtain k where k: "n = 5 + k" by (metis headerSize_def le_Suc_ex linorder_not_less)
  have "take n (encode c p) = [c, b0, b1, b2, b3] @ take k p"
    using b k by (simp add: encode_def eval_nat_numeral)
  moreover have "k < length p" using assms k by (simp add: length_encode headerSize_def)
  ultimately show ?thesis
    using len assms by (auto simp: ReadFrame_def read_full_def truncation_errors_def headerSize_def)
qed

lemma read_frames_truncated:
  assumes "list_all fits fs"
  shows "case read_frames (take n (concat (map (\<lambda>f. encode (Channel f) (Payload f)) fs))) of
      Inr gs \<Rightarrow> prefix gs fs | Inl e \<Rightarrow> e \<in> truncation_errors"
  using assms
proof (induction fs arbitrary: n)
  case Nil
  then show ?case by (simp add: read_frames.simps)
next
  case (Cons f fs)
  let ?e = "encode (Channel f) (Payload f)" and ?r = "concat (map (\<lambda>f. encode (Channel f) (Payload f)) fs)"
  have p: "length (Payload f) \<le> MaxPayload" using Cons.prems by (simp add: fits_def)
  consider "n = 0" | "0 < n" "n < length ?e" | "length ?e \<le> n" by linarith
  then show ?case
  proof cases
    case 1
    then show ?thesis by (simp add: read_frames.simps)
  next
    case 2
    then obtain e where "e \<in> truncation_errors" "ReadFrame (take n ?e) = Inl e"
      using ReadFrame_truncated [OF p] by blast
    then show ?thesis using 2 by (simp add: read_frames_error)
  next
    case 3
    then have "take n (?e @ ?r) = ?e @ take (n - length ?e) ?r" by simp
    moreover have "ReadFrame (?e @ take (n - length ?e) ?r) = Inr (f, take (n - length ?e) ?r)"
      using p by (simp add: ReadFrame_encode)
    ultimately show ?thesis
      using Cons.IH [of "n - length ?e"] Cons.prems by (auto simp: read_frames_step split: sum.splits)
  qed
qed

section \<open>Properties\<close>

text \<open>C40: any sequence of frames within the payload limit can be written to a working connection, and
  reading back what was written gives exactly these frames; a sequence with an oversized payload is
  refused with an error that names its size.\<close>

theorem frames_roundtrip:
  assumes "\<not> faulty w" and "written w = []"
  shows "case find (\<lambda>f. \<not> fits f) fs of
      None \<Rightarrow> \<exists>w'. write_frames w fs = Inr w' \<and> read_frames (written w') = Inr fs
    | Some f \<Rightarrow> write_frames w fs = Inl (PayloadTooLarge (length (Payload f)))"
proof (cases "find (\<lambda>f. \<not> fits f) fs")
  case None
  then have "list_all fits fs" by (auto simp: find_None_iff list_all_iff)
  with None show ?thesis using assms by (simp add: write_frames_value read_frames_encoded)
next
  case (Some f)
  then show ?thesis using assms by (simp add: write_frames_value)
qed

definition example_frames :: "frame list" where
  "example_frames = [\<lparr>Channel = ChannelControl, Payload = [1, 2]\<rparr>, \<lparr>Channel = ChannelData, Payload = []\<rparr>]"

lemma example_frames_fit: "list_all fits example_frames"
  by (simp add: example_frames_def fits_def MaxPayload_def)

theorem frames_roundtrip_witness:
  "\<exists>w'. write_frames \<lparr>written = [], faulty = False\<rparr> example_frames = Inr w' \<and>
    read_frames (written w') = Inr example_frames"
proof -
  have "find (\<lambda>f. \<not> fits f) example_frames = None"
    using example_frames_fit by (auto simp: find_None_iff list_all_iff)
  then show ?thesis using frames_roundtrip [of "\<lparr>written = [], faulty = False\<rparr>" example_frames] by simp
qed

text \<open>A connection that is cut off while frames are in flight never yields an altered frame: the
  reader returns the frames that arrived whole, in order, and then either stops cleanly (when the cut
  fell between two frames) or reports a truncated header or payload.\<close>

theorem truncated_input_detected:
  assumes "write_frames \<lparr>written = [], faulty = False\<rparr> fs = Inr w"
  shows "case read_frames (take n (written w)) of
      Inr gs \<Rightarrow> prefix gs fs | Inl e \<Rightarrow> e \<in> truncation_errors"
proof -
  have "find (\<lambda>f. \<not> fits f) fs = None"
    using assms by (auto simp: write_frames_value split: option.splits)
  then have "list_all fits fs" by (auto simp: find_None_iff list_all_iff)
  moreover have "written w = concat (map (\<lambda>f. encode (Channel f) (Payload f)) fs)"
    using assms by (auto simp: write_frames_value split: option.splits)
  ultimately show ?thesis using read_frames_truncated [of fs n] by simp
qed

theorem truncated_input_detected_witness:
  "\<exists>w. write_frames \<lparr>written = [], faulty = False\<rparr> example_frames = Inr w \<and>
    (case read_frames (take 9 (written w)) of
       Inr gs \<Rightarrow> prefix gs example_frames | Inl e \<Rightarrow> e \<in> truncation_errors)"
proof -
  have "find (\<lambda>f. \<not> fits f) example_frames = None"
    using example_frames_fit by (auto simp: find_None_iff list_all_iff)
  then obtain w where w: "write_frames \<lparr>written = [], faulty = False\<rparr> example_frames = Inr w"
    by (simp add: write_frames_value)
  from truncated_input_detected [OF w] w show ?thesis by blast
qed

end
