(* ===== verification/Go_Strings.thy ===== *)
theory Go_Strings
  imports Prelude
begin

text \<open>
  The parts of Go's \<^verbatim>\<open>strings\<close>, \<^verbatim>\<open>sort\<close> and \<^verbatim>\<open>unicode/utf8\<close> packages the daemon relies on, over
  byte strings: \<open>trim_space\<close> (\<^verbatim>\<open>strings.TrimSpace\<close>), \<open>trim_prefix\<close>, \<open>join_with\<close> (\<^verbatim>\<open>strings.Join\<close>),
  \<open>sort_strings\<close> (\<^verbatim>\<open>sort.Strings\<close>) and \<open>rune_size\<close> (the width \<^verbatim>\<open>utf8.DecodeRuneInString\<close> reports).
\<close>

section \<open>White space\<close>

text \<open>The UTF-8 encodings of the code points \<^verbatim>\<open>unicode.IsSpace\<close> accepts.\<close>

definition space_runes :: "string list" where
  "space_runes =
    [[CHR 0x09], [CHR 0x0A], [CHR 0x0B], [CHR 0x0C], [CHR 0x0D], [CHR 0x20],
     [CHR 0xC2, CHR 0x85], [CHR 0xC2, CHR 0xA0], [CHR 0xE1, CHR 0x9A, CHR 0x80],
     [CHR 0xE2, CHR 0x80, CHR 0x80], [CHR 0xE2, CHR 0x80, CHR 0x81], [CHR 0xE2, CHR 0x80, CHR 0x82],
     [CHR 0xE2, CHR 0x80, CHR 0x83], [CHR 0xE2, CHR 0x80, CHR 0x84], [CHR 0xE2, CHR 0x80, CHR 0x85],
     [CHR 0xE2, CHR 0x80, CHR 0x86], [CHR 0xE2, CHR 0x80, CHR 0x87], [CHR 0xE2, CHR 0x80, CHR 0x88],
     [CHR 0xE2, CHR 0x80, CHR 0x89], [CHR 0xE2, CHR 0x80, CHR 0x8A], [CHR 0xE2, CHR 0x80, CHR 0xA8],
     [CHR 0xE2, CHR 0x80, CHR 0xA9], [CHR 0xE2, CHR 0x80, CHR 0xAF], [CHR 0xE2, CHR 0x81, CHR 0x9F],
     [CHR 0xE3, CHR 0x80, CHR 0x80]]"

lemma space_runes_nonempty: "w \<in> set space_runes \<Longrightarrow> w \<noteq> []"
  by (auto simp: space_runes_def)

function strip_runes :: "string list \<Rightarrow> string \<Rightarrow> string" where
  "strip_runes ws s =
    (case find (\<lambda>w. w \<noteq> [] \<and> prefix w s) ws of
       None \<Rightarrow> s
     | Some w \<Rightarrow> strip_runes ws (drop (length w) s))"
  by pat_completeness auto
termination
proof (relation "measure (\<lambda>(ws, s). length s)")
  show "wf (measure (\<lambda>(ws :: string list, s :: string). length s))" by simp
  fix ws :: "string list" and s w
  assume "find (\<lambda>w. w \<noteq> [] \<and> prefix w s) ws = Some w"
  then have "w \<noteq> []" and "prefix w s" by (auto dest: find_Some_iff_filter)
  then show "((ws, drop (length w) s), (ws, s)) \<in> measure (\<lambda>(ws, s). length s)"
    by (cases s) (auto simp: prefix_def)
qed

declare strip_runes.simps [simp del]

definition trim_left :: "string \<Rightarrow> string" where
  "trim_left s = strip_runes space_runes s"

definition trim_right :: "string \<Rightarrow> string" where
  "trim_right s = rev (strip_runes (map rev space_runes) (rev s))"

definition trim_space :: "string \<Rightarrow> string" where
  "trim_space s = trim_right (trim_left s)"

definition no_rune_prefix :: "string list \<Rightarrow> string \<Rightarrow> bool" where
  "no_rune_prefix ws s \<longleftrightarrow> find (\<lambda>w. w \<noteq> [] \<and> prefix w s) ws = None"

lemma strip_runes_fixpoint: "no_rune_prefix ws s \<Longrightarrow> strip_runes ws s = s"
  by (simp add: strip_runes.simps no_rune_prefix_def)

lemma strip_runes_no_prefix: "no_rune_prefix ws (strip_runes ws s)"
proof (induction ws s rule: strip_runes.induct)
  case (1 ws s)
  show ?case
  proof (cases "find (\<lambda>w. w \<noteq> [] \<and> prefix w s) ws")
    case None
    then show ?thesis by (simp add: strip_runes.simps [of ws s]) (simp add: no_rune_prefix_def)
  next
    case (Some w)
    with "1.IH" show ?thesis by (simp add: strip_runes.simps [of ws s])
  qed
qed

lemma strip_runes_suffix: "suffix (strip_runes ws s) s"
proof (induction ws s rule: strip_runes.induct)
  case (1 ws s)
  show ?case
  proof (cases "find (\<lambda>w. w \<noteq> [] \<and> prefix w s) ws")
    case None
    then show ?thesis by (simp add: strip_runes.simps [of ws s])
  next
    case (Some w)
    with "1.IH" have "suffix (strip_runes ws (drop (length w) s)) (drop (length w) s)" by simp
    then have "suffix (strip_runes ws (drop (length w) s)) s"
      using suffix_drop suffix_order.trans by blast
    with Some show ?thesis by (simp add: strip_runes.simps [of ws s])
  qed
qed

lemma no_rune_prefix_mono:
  assumes "no_rune_prefix ws s" and "prefix t s"
  shows "no_rune_prefix ws t"
  using assms prefix_order.trans unfolding no_rune_prefix_def find_None_iff by blast

lemma trim_right_prefix: "prefix (trim_right s) s"
proof -
  have "suffix (strip_runes (map rev space_runes) (rev s)) (rev s)" by (rule strip_runes_suffix)
  then show ?thesis by (simp add: trim_right_def suffix_to_prefix)
qed

lemma trim_space_idem: "trim_space (trim_space s) = trim_space s"
proof -
  have "no_rune_prefix space_runes (trim_left s)"
    by (simp add: trim_left_def strip_runes_no_prefix)
  then have "no_rune_prefix space_runes (trim_space s)"
    unfolding trim_space_def by (rule no_rune_prefix_mono) (rule trim_right_prefix)
  then have l: "trim_left (trim_space s) = trim_space s"
    by (simp add: trim_left_def strip_runes_fixpoint)
  have "trim_right (trim_right t) = trim_right t" for t
    by (simp add: trim_right_def strip_runes_fixpoint strip_runes_no_prefix)
  then show ?thesis using l by (simp add: trim_space_def)
qed

lemma length_trim_space: "length (trim_space s) \<le> length s"
proof -
  have "length (trim_right (trim_left s)) \<le> length (trim_left s)"
    by (rule prefix_length_le [OF trim_right_prefix])
  also have "length (trim_left s) \<le> length s"
    unfolding trim_left_def by (rule suffix_length_le [OF strip_runes_suffix])
  finally show ?thesis by (simp add: trim_space_def)
qed

lemma no_rune_prefix_plain:
  assumes "\<forall>w \<in> set ws. w \<noteq> [] \<longrightarrow> \<not> P (hd w)" "list_all P s"
  shows "no_rune_prefix ws s"
proof -
  have "\<not> prefix w s" if "w \<in> set ws" "w \<noteq> []" for w
    using assms that by (cases w) (auto simp: prefix_def)
  then show ?thesis by (auto simp: no_rune_prefix_def find_None_iff)
qed

section \<open>Prefixes, joining, sorting\<close>

definition trim_prefix :: "string \<Rightarrow> string \<Rightarrow> string" where
  "trim_prefix s p = (if prefix p s then drop (length p) s else s)"

lemma trim_prefix_append [simp]: "trim_prefix (p @ s) p = s"
  by (simp add: trim_prefix_def)

fun join_with :: "string list \<Rightarrow> string \<Rightarrow> string" where
  "join_with [] sep = []"
| "join_with [s] sep = s"
| "join_with (s # t # ss) sep = s @ sep @ join_with (t # ss) sep"

definition sort_strings :: "string list \<Rightarrow> string list" where
  "sort_strings xs = sort xs"

lemma sort_strings_props [simp]:
  "set (sort_strings xs) = set xs"
  "distinct (sort_strings xs) = distinct xs"
  "length (sort_strings xs) = length xs"
  "sorted (sort_strings xs)"
  by (simp_all add: sort_strings_def)

text \<open>The \<^verbatim>\<open>seen\<close>-map loop the code uses to drop later duplicates, keeping first occurrences in
  order.\<close>

fun dedup :: "string list \<Rightarrow> string list \<Rightarrow> string list" where
  "dedup seen [] = []"
| "dedup seen (x # xs) = (if x \<in> set seen then dedup seen xs else x # dedup (x # seen) xs)"

lemma set_dedup: "set (dedup seen xs) = set xs - set seen"
  by (induction seen xs rule: dedup.induct) auto

lemma distinct_dedup: "distinct (dedup seen xs)"
  by (induction seen xs rule: dedup.induct) (auto simp: set_dedup)

section \<open>UTF-8 widths\<close>

definition byte_val :: "char \<Rightarrow> nat" where
  "byte_val c = of_char c"

definition is_cont :: "char \<Rightarrow> bool" where
  "is_cont c \<longleftrightarrow> 128 \<le> byte_val c \<and> byte_val c < 192"

definition in_bytes :: "nat \<Rightarrow> nat \<Rightarrow> char \<Rightarrow> bool" where
  "in_bytes lo hi c \<longleftrightarrow> lo \<le> byte_val c \<and> byte_val c \<le> hi"

text \<open>Text of printable ASCII characters other than the space has nothing to trim.\<close>

definition graphic :: "char \<Rightarrow> bool" where
  "graphic c \<longleftrightarrow> 33 \<le> byte_val c \<and> byte_val c < 127"

lemma spaces_not_graphic:
  "w \<in> set space_runes \<Longrightarrow> w \<noteq> [] \<and> \<not> graphic (hd w) \<and> \<not> graphic (last w)"
  by (auto simp: space_runes_def graphic_def byte_val_def)

lemma trim_space_graphic:
  assumes "list_all graphic s"
  shows "trim_space s = s"
proof -
  have "trim_left s = s" unfolding trim_left_def
    by (rule strip_runes_fixpoint, rule no_rune_prefix_plain [OF _ assms]) (auto dest: spaces_not_graphic)
  moreover have "strip_runes (map rev space_runes) (rev s) = rev s"
    by (rule strip_runes_fixpoint, rule no_rune_prefix_plain [where P = graphic])
      (use assms in \<open>auto dest: spaces_not_graphic simp: hd_rev list_all_iff\<close>)
  ultimately show ?thesis by (simp add: trim_space_def trim_right_def)
qed

text \<open>The size \<^verbatim>\<open>utf8.DecodeRuneInString\<close> returns: 0 on the empty string, the encoding's length on a
  well-formed sequence (shortest form, no surrogates, at most U+10FFFF), 1 otherwise.\<close>

fun rune_size :: "string \<Rightarrow> nat" where
  "rune_size [] = 0"
| "rune_size (a # s) =
    (if byte_val a < 128 then 1
     else case s of
       [] \<Rightarrow> 1
     | b # s' \<Rightarrow>
         if in_bytes 194 223 a \<and> is_cont b then 2
         else case s' of
           [] \<Rightarrow> 1
         | c # s'' \<Rightarrow>
             if is_cont c \<and>
               (byte_val a = 224 \<and> in_bytes 160 191 b \<or> in_bytes 225 236 a \<and> is_cont b \<or>
                byte_val a = 237 \<and> in_bytes 128 159 b \<or> in_bytes 238 239 a \<and> is_cont b) then 3
             else case s'' of
               [] \<Rightarrow> 1
             | d # _ \<Rightarrow>
                 if is_cont c \<and> is_cont d \<and>
                   (byte_val a = 240 \<and> in_bytes 144 191 b \<or> in_bytes 241 243 a \<and> is_cont b \<or>
                    byte_val a = 244 \<and> in_bytes 128 143 b) then 4
                 else 1)"

lemma rune_size_pos: "s \<noteq> [] \<Longrightarrow> 0 < rune_size s"
  by (cases s) (auto split: list.splits)

lemma rune_size_le: "rune_size s \<le> length s"
  by (cases s) (auto split: list.splits)

lemma rune_size_le4: "rune_size s \<le> 4"
  by (cases s) (auto split: list.splits)

text \<open>SQLite's \<^verbatim>\<open>length(text)\<close>: characters before the first NUL, where a lead byte swallows the
  continuation bytes after it.\<close>

function sqlite_length :: "string \<Rightarrow> nat" where
  "sqlite_length [] = 0"
| "sqlite_length (c # s) =
    (if byte_val c = 0 then 0
     else if 192 \<le> byte_val c then Suc (sqlite_length (dropWhile is_cont s))
     else Suc (sqlite_length s))"
  by pat_completeness auto
termination
  by (relation "measure length") (auto simp: le_imp_less_Suc length_dropWhile_le)

lemma sqlite_length_le: "sqlite_length s \<le> length s"
proof (induction s rule: sqlite_length.induct)
  case 1
  then show ?case by simp
next
  case (2 c s)
  have "length (dropWhile is_cont s) \<le> length s" by (rule length_dropWhile_le)
  with 2 show ?case by auto
qed

end
