(* ===== verification/Terminal_Filter.thy ===== *)
theory Terminal_Filter
  imports Go_Strings
begin

text \<open>
  The filter between a child's terminal output and an attached host terminal
  (\<^verbatim>\<open>internal/pty/terminal_authority.go\<close>): a byte-driven state machine that drops terminal queries and
  control strings the daemon's own terminal model answers. A byte is a \<^typ>\<open>char\<close>.
\<close>

datatype terminalFilterState =
    terminalFilterGround
  | terminalFilterEscape
  | terminalFilterCSI
  | terminalFilterString
  | terminalFilterStringEscape

datatype terminalStringKind =
    terminalStringNone
  | terminalStringOSC
  | terminalStringDCS
  | terminalStringAPC
  | terminalStringPM
  | terminalStringSOS

record AttachOutputFilter =
  state :: terminalFilterState
  seq :: string
  kind :: terminalStringKind
  utf8Remaining :: nat

definition initial_filter :: AttachOutputFilter where
  "initial_filter = \<lparr>state = terminalFilterGround, seq = [], kind = terminalStringNone, utf8Remaining = 0\<rparr>"

abbreviation ENQ :: char where "ENQ \<equiv> CHR 0x05"
abbreviation BEL :: char where "BEL \<equiv> CHR 0x07"
abbreviation ESC :: char where "ESC \<equiv> CHR 0x1B"
abbreviation ST :: char where "ST \<equiv> CHR 0x9C"

definition startString :: "terminalStringKind \<Rightarrow> AttachOutputFilter \<Rightarrow> AttachOutputFilter" where
  "startString k f = f\<lparr>seq := [], kind := k, state := terminalFilterString\<rparr>"

definition filter_reset :: "AttachOutputFilter \<Rightarrow> AttachOutputFilter" where
  "filter_reset f = f\<lparr>state := terminalFilterGround, kind := terminalStringNone, seq := [], utf8Remaining := 0\<rparr>"

definition utf8ContinuationCount :: "char \<Rightarrow> nat" where
  "utf8ContinuationCount b =
    (if in_bytes 194 223 b then 1 else if in_bytes 224 239 b then 2 else if in_bytes 240 244 b then 3 else 0)"

definition csiBody :: "string \<Rightarrow> string" where
  "csiBody s =
    (if 2 \<le> length s \<and> s ! 0 = ESC \<and> s ! 1 = CHR ''['' then butlast (drop 2 s)
     else if 1 \<le> length s \<and> s ! 0 = CHR 0x9B then butlast (drop 1 s)
     else [])"

definition daemonOwnsCSI :: "string \<Rightarrow> bool" where
  "daemonOwnsCSI s =
    (if s = [] then False
     else let final = last s; body = csiBody s
          in if final \<in> {CHR ''c'', CHR ''n'', CHR ''t''} then True
             else if final \<in> {CHR ''S'', CHR ''u''} then prefix ''?'' body
             else if final = CHR ''x'' then CHR ''$'' \<notin> set body
             else if final = CHR ''p'' then CHR ''$'' \<in> set body
             else if final = CHR ''q'' then CHR ''>'' \<in> set body \<and> CHR '' '' \<notin> set body
             else False)"

text \<open>Each handler returns the filter's next state and the bytes it lets through.\<close>

definition ground_control :: "AttachOutputFilter \<Rightarrow> char \<Rightarrow> AttachOutputFilter \<times> string" where
  "ground_control f b =
    (if b = ENQ then (f, [])
     else if b = ESC then (f\<lparr>seq := [b], state := terminalFilterEscape\<rparr>, [])
     else if b = CHR 0x90 then (startString terminalStringDCS f, [])
     else if b = CHR 0x98 then (startString terminalStringSOS f, [])
     else if b = CHR 0x9B then (f\<lparr>seq := [b], state := terminalFilterCSI\<rparr>, [])
     else if b = CHR 0x9D then (startString terminalStringOSC f, [])
     else if b = CHR 0x9E then (startString terminalStringPM f, [])
     else if b = CHR 0x9F then (startString terminalStringAPC f, [])
     else (f, [b]))"

definition filterGround :: "AttachOutputFilter \<Rightarrow> char \<Rightarrow> AttachOutputFilter \<times> string" where
  "filterGround f b =
    (if 0 < utf8Remaining f \<and> is_cont b then (f\<lparr>utf8Remaining := utf8Remaining f - 1\<rparr>, [b])
     else
       let f' = (if 0 < utf8Remaining f then f\<lparr>utf8Remaining := 0\<rparr> else f);
           continuation = utf8ContinuationCount b
       in if 0 < continuation then (f'\<lparr>utf8Remaining := continuation\<rparr>, [b]) else ground_control f' b)"

definition filterEscape :: "AttachOutputFilter \<Rightarrow> char \<Rightarrow> AttachOutputFilter \<times> string" where
  "filterEscape f0 b =
    (let f = f0\<lparr>seq := seq f0 @ [b]\<rparr>
     in if b = CHR ''['' then (f\<lparr>state := terminalFilterCSI\<rparr>, [])
        else if b = CHR ''Z'' then (filter_reset f, [])
        else if b = CHR '']'' then (startString terminalStringOSC f, [])
        else if b = CHR ''P'' then (startString terminalStringDCS f, [])
        else if b = CHR ''_'' then (startString terminalStringAPC f, [])
        else if b = CHR ''^'' then (startString terminalStringPM f, [])
        else if b = CHR ''X'' then (startString terminalStringSOS f, [])
        else if in_bytes 48 126 b then (filter_reset f, seq f)
        else (f, []))"

definition filterCSI :: "AttachOutputFilter \<Rightarrow> char \<Rightarrow> AttachOutputFilter \<times> string" where
  "filterCSI f0 b =
    (let f = f0\<lparr>seq := seq f0 @ [b]\<rparr>
     in if byte_val b < 64 \<or> 126 < byte_val b then (f, [])
        else (filter_reset f, if daemonOwnsCSI (seq f) then [] else seq f))"

definition filterString :: "AttachOutputFilter \<Rightarrow> char \<Rightarrow> AttachOutputFilter \<times> string" where
  "filterString f b =
    (if b = BEL then (if kind f = terminalStringOSC then filter_reset f else f, [])
     else if b = ESC then (f\<lparr>state := terminalFilterStringEscape\<rparr>, [])
     else if b = ST then (filter_reset f, [])
     else (f, []))"

definition filterStringEscape :: "AttachOutputFilter \<Rightarrow> char \<Rightarrow> AttachOutputFilter \<times> string" where
  "filterStringEscape f b =
    (if b = CHR 0x5C then (filter_reset f, [])
     else if b \<noteq> ESC then (f\<lparr>state := terminalFilterString\<rparr>, [])
     else (f, []))"

definition filter_byte :: "AttachOutputFilter \<Rightarrow> char \<Rightarrow> AttachOutputFilter \<times> string" where
  "filter_byte f b =
    (case state f of
       terminalFilterGround \<Rightarrow> filterGround f b
     | terminalFilterEscape \<Rightarrow> filterEscape f b
     | terminalFilterCSI \<Rightarrow> filterCSI f b
     | terminalFilterString \<Rightarrow> filterString f b
     | terminalFilterStringEscape \<Rightarrow> filterStringEscape f b)"

fun filter_bytes :: "AttachOutputFilter \<Rightarrow> string \<Rightarrow> AttachOutputFilter \<times> string" where
  "filter_bytes f [] = (f, [])"
| "filter_bytes f (b # p) =
    (case filter_byte f b of (f', out) \<Rightarrow> case filter_bytes f' p of (f'', rest) \<Rightarrow> (f'', out @ rest))"

definition Filter_output :: "AttachOutputFilter \<Rightarrow> string \<Rightarrow> AttachOutputFilter \<times> string" where
  "Filter_output f p = (if p = [] then (f, []) else filter_bytes f p)"

definition Finish :: "AttachOutputFilter \<Rightarrow> AttachOutputFilter" where
  "Finish f = filter_reset f"

definition FilterAttachOutput :: "string \<Rightarrow> string" where
  "FilterAttachOutput p = snd (Filter_output initial_filter p)"

lemma Filter_output_bytes: "Filter_output f p = filter_bytes f p"
  by (simp add: Filter_output_def)

lemma filter_bytes_append:
  "filter_bytes f (p @ q) = (fst (filter_bytes (fst (filter_bytes f p)) q),
     snd (filter_bytes f p) @ snd (filter_bytes (fst (filter_bytes f p)) q))"
  by (induction p arbitrary: f) (simp_all add: case_prod_beta)

section \<open>Chunks\<close>

fun filter_chunks :: "AttachOutputFilter \<Rightarrow> string list \<Rightarrow> AttachOutputFilter \<times> string" where
  "filter_chunks f [] = (f, [])"
| "filter_chunks f (p # ps) =
    (case Filter_output f p of (f', out) \<Rightarrow> case filter_chunks f' ps of (f'', rest) \<Rightarrow> (f'', out @ rest))"

lemma filter_chunks_concat: "filter_chunks f ps = filter_bytes f (concat ps)"
  by (induction ps arbitrary: f) (simp_all add: Filter_output_bytes filter_bytes_append case_prod_beta)

section \<open>What passes\<close>

definition between :: "char \<Rightarrow> bool" where
  "between b \<longleftrightarrow> 32 \<le> byte_val b \<and> \<not> in_bytes 48 126 b"

definition param :: "char \<Rightarrow> bool" where
  "param b \<longleftrightarrow> 32 \<le> byte_val b \<and> \<not> in_bytes 64 126 b"

definition introducers :: string where "introducers = ''[Z]P_^X''"

definition plain_token :: "string \<Rightarrow> bool" where
  "plain_token t \<longleftrightarrow> (\<exists>b. t = [b] \<and> b \<noteq> ENQ \<and> b \<noteq> ESC)"

definition escape_token :: "string \<Rightarrow> bool" where
  "escape_token t \<longleftrightarrow> (\<exists>mid b. t = ESC # mid @ [b] \<and> list_all between mid \<and> in_bytes 48 126 b \<and> b \<notin> set introducers)"

definition csi_token :: "string \<Rightarrow> bool" where
  "csi_token t \<longleftrightarrow> (\<exists>pre ps b. t = ESC # pre @ CHR ''['' # ps @ [b] \<and> list_all between pre \<and> list_all param ps \<and>
     in_bytes 64 126 b \<and> \<not> daemonOwnsCSI t)"

definition good_token :: "string \<Rightarrow> bool" where
  "good_token t \<longleftrightarrow> plain_token t \<or> escape_token t \<or> csi_token t"

text \<open>The invariant of the filter on seven-bit input in which no control character interrupts an escape or
  control sequence.\<close>

definition ok_state :: "AttachOutputFilter \<Rightarrow> bool" where
  "ok_state f \<longleftrightarrow> utf8Remaining f = 0 \<and>
    (case state f of
       terminalFilterEscape \<Rightarrow> \<exists>mid. seq f = ESC # mid \<and> list_all between mid
     | terminalFilterCSI \<Rightarrow> \<exists>pre ps. seq f = ESC # pre @ CHR ''['' # ps \<and> list_all between pre \<and> list_all param ps
     | _ \<Rightarrow> True)"

definition interrupts :: "AttachOutputFilter \<Rightarrow> char \<Rightarrow> bool" where
  "interrupts f b \<longleftrightarrow> byte_val b < 32 \<and> state f \<in> {terminalFilterEscape, terminalFilterCSI}"

fun uninterrupted :: "AttachOutputFilter \<Rightarrow> string \<Rightarrow> bool" where
  "uninterrupted f [] = True"
| "uninterrupted f (b # p) = (\<not> interrupts f b \<and> uninterrupted (fst (filter_byte f b)) p)"

definition step_ok :: "AttachOutputFilter \<times> string \<Rightarrow> bool" where
  "step_ok r \<longleftrightarrow> ok_state (fst r) \<and> (snd r = [] \<or> good_token (snd r))"

lemma ok_reset: "utf8Remaining f = 0 \<Longrightarrow> ok_state (filter_reset f)"
  by (simp add: ok_state_def filter_reset_def)

lemma ok_start: "utf8Remaining f = 0 \<Longrightarrow> ok_state (startString k f)"
  by (simp add: ok_state_def startString_def)

lemma seven_bit_C1:
  "byte_val b < 128 \<Longrightarrow> b \<noteq> CHR 0x90 \<and> b \<noteq> CHR 0x98 \<and> b \<noteq> CHR 0x9B \<and> b \<noteq> CHR 0x9D \<and> b \<noteq> CHR 0x9E \<and> b \<noteq> CHR 0x9F"
  by (auto simp: byte_val_def)

lemma ground_ok:
  assumes "ok_state f" "state f = terminalFilterGround" "byte_val b < 128"
  shows "step_ok (filterGround f b)"
proof -
  have "utf8ContinuationCount b = 0" using assms(3) by (simp add: utf8ContinuationCount_def in_bytes_def)
  moreover have "utf8Remaining f = 0" using assms(1) by (simp add: ok_state_def)
  ultimately have "filterGround f b = ground_control f b" by (simp add: filterGround_def)
  then show ?thesis using assms seven_bit_C1 [OF assms(3)]
    by (auto simp: step_ok_def ground_control_def ok_state_def good_token_def plain_token_def)
qed

lemma escape_ok:
  assumes "ok_state f" "state f = terminalFilterEscape" "byte_val b < 128" "32 \<le> byte_val b"
  shows "step_ok (filterEscape f b)"
proof -
  have u: "utf8Remaining f = 0" using assms(1) by (simp add: ok_state_def)
  obtain mid where m: "seq f = ESC # mid" "list_all between mid" using assms(1,2) by (auto simp: ok_state_def)
  consider (csi) "b = CHR ''[''" | (intro) "b \<noteq> CHR ''[''" "b \<in> set introducers"
    | (final) "b \<notin> set introducers" "in_bytes 48 126 b" | (more) "b \<notin> set introducers" "\<not> in_bytes 48 126 b" by blast
  then show ?thesis
  proof cases
    case csi
    have "\<exists>pre ps. seq f @ [CHR ''[''] = ESC # pre @ CHR ''['' # ps \<and> list_all between pre \<and> list_all param ps"
      using m by (intro exI [of _ mid] exI [of _ "[]"]) simp
    then show ?thesis using csi u by (simp add: step_ok_def filterEscape_def ok_state_def)
  next
    case intro
    then have "b \<in> {CHR ''Z'', CHR '']'', CHR ''P'', CHR ''_'', CHR ''^'', CHR ''X''}" by (auto simp: introducers_def)
    then show ?thesis using u by (auto simp: step_ok_def filterEscape_def ok_reset ok_start)
  next
    case final
    then have "filterEscape f b = (filter_reset (f\<lparr>seq := seq f @ [b]\<rparr>), seq f @ [b])"
      by (simp add: filterEscape_def introducers_def)
    then show ?thesis using u m final by (auto simp: step_ok_def ok_reset good_token_def escape_token_def)
  next
    case more
    then have "filterEscape f b = (f\<lparr>seq := seq f @ [b]\<rparr>, [])" by (simp add: filterEscape_def introducers_def)
    moreover have "between b" using more assms(4) by (simp add: between_def)
    ultimately show ?thesis using u m assms(2) by (simp add: step_ok_def ok_state_def)
  qed
qed

lemma csi_ok:
  assumes "ok_state f" "state f = terminalFilterCSI" "32 \<le> byte_val b"
  shows "step_ok (filterCSI f b)"
proof -
  have u: "utf8Remaining f = 0" using assms(1) by (simp add: ok_state_def)
  obtain pre ps where s: "seq f = ESC # pre @ CHR ''['' # ps" "list_all between pre" "list_all param ps"
    using assms(1,2) by (auto simp: ok_state_def)
  show ?thesis
  proof (cases "in_bytes 64 126 b")
    case True
    then have "filterCSI f b = (filter_reset (f\<lparr>seq := seq f @ [b]\<rparr>), if daemonOwnsCSI (seq f @ [b]) then [] else seq f @ [b])"
      by (auto simp: filterCSI_def in_bytes_def)
    moreover have "csi_token (seq f @ [b])" if "\<not> daemonOwnsCSI (seq f @ [b])"
      unfolding csi_token_def using s True that by (intro exI [of _ pre] exI [of _ ps] exI [of _ b]) simp
    ultimately show ?thesis using u by (simp add: step_ok_def ok_reset good_token_def)
  next
    case False
    then have "filterCSI f b = (f\<lparr>seq := seq f @ [b]\<rparr>, [])" by (auto simp: filterCSI_def in_bytes_def)
    moreover have "param b" using False assms(3) by (simp add: param_def)
    then have "\<exists>pre' ps'. seq f @ [b] = ESC # pre' @ CHR ''['' # ps' \<and> list_all between pre' \<and> list_all param ps'"
      using s by (intro exI [of _ pre] exI [of _ "ps @ [b]"]) simp
    ultimately show ?thesis using u assms(2) by (simp add: step_ok_def ok_state_def)
  qed
qed

lemma filter_byte_ok:
  assumes "ok_state f" "byte_val b < 128" "\<not> interrupts f b"
  shows "step_ok (filter_byte f b)"
proof (cases "state f")
  case terminalFilterGround
  then show ?thesis using ground_ok assms by (simp add: filter_byte_def)
next
  case terminalFilterEscape
  then show ?thesis using escape_ok assms by (simp add: filter_byte_def interrupts_def)
next
  case terminalFilterCSI
  then show ?thesis using csi_ok assms by (simp add: filter_byte_def interrupts_def)
next
  case terminalFilterString
  then show ?thesis using assms(1)
    by (auto simp: filter_byte_def filterString_def step_ok_def ok_state_def filter_reset_def)
next
  case terminalFilterStringEscape
  then show ?thesis using assms(1)
    by (auto simp: filter_byte_def filterStringEscape_def step_ok_def ok_state_def filter_reset_def)
qed

lemma filter_bytes_tokens:
  assumes "ok_state f" "list_all (\<lambda>b. byte_val b < 128) p" "uninterrupted f p"
  shows "\<exists>ts. snd (filter_bytes f p) = concat ts \<and> list_all good_token ts"
  using assms
proof (induction p arbitrary: f)
  case Nil
  show ?case by (rule exI [of _ "[]"]) simp
next
  case (Cons b p)
  have ok: "step_ok (filter_byte f b)" using filter_byte_ok Cons.prems by simp
  then have "ok_state (fst (filter_byte f b))" by (simp add: step_ok_def)
  from Cons.IH [OF this] Cons.prems obtain ts where
    ts: "snd (filter_bytes (fst (filter_byte f b)) p) = concat ts" "list_all good_token ts" by auto
  have "snd (filter_bytes f (b # p)) = snd (filter_byte f b) @ concat ts" using ts(1) by (simp add: case_prod_beta)
  then show ?case using ok ts(2)
    by (cases "snd (filter_byte f b) = []")
      (auto simp: step_ok_def intro: exI [of _ ts] exI [of _ "snd (filter_byte f b) # ts"])
qed

section \<open>Queries do not pass\<close>

text \<open>The byte sequences a host terminal must not see: the enquiry, the introducers of control strings and of
  the identification request, and a complete control sequence the daemon owns.\<close>

definition complete_csi :: "string \<Rightarrow> bool" where
  "complete_csi s \<longleftrightarrow> (\<exists>ps b. s = ESC # CHR ''['' # ps @ [b] \<and> list_all param ps \<and> in_bytes 64 126 b)"

definition forbidden :: "string \<Rightarrow> bool" where
  "forbidden s \<longleftrightarrow> s = [ENQ] \<or> (\<exists>c \<in> set ''Z]P_^X''. s = [ESC, c]) \<or> complete_csi s \<and> daemonOwnsCSI s"

lemma between_not_ctrl: "list_all between xs \<Longrightarrow> ESC \<notin> set xs \<and> ENQ \<notin> set xs \<and> CHR ''['' \<notin> set xs"
  by (auto simp: list_all_iff between_def in_bytes_def byte_val_def)

lemma param_not_ctrl: "list_all param xs \<Longrightarrow> ESC \<notin> set xs \<and> ENQ \<notin> set xs"
  by (auto simp: list_all_iff param_def in_bytes_def byte_val_def)

lemma final_not_ctrl: "in_bytes 48 126 b \<Longrightarrow> b \<noteq> ESC \<and> b \<noteq> ENQ" "in_bytes 64 126 b \<Longrightarrow> b \<noteq> ESC \<and> b \<noteq> ENQ"
  by (auto simp: in_bytes_def byte_val_def)

lemma token_ctrl: "good_token t \<Longrightarrow> t \<noteq> [] \<and> ENQ \<notin> set t \<and> ESC \<notin> set (tl t)"
  unfolding good_token_def plain_token_def escape_token_def csi_token_def
  using between_not_ctrl param_not_ctrl final_not_ctrl by fastforce

text \<open>An escape character in a sequence of tokens begins a token.\<close>

lemma escape_begins_token:
  assumes "list_all good_token ts" "concat ts = xs @ ESC # ys"
  shows "\<exists>t ts'. good_token t \<and> hd t = ESC \<and> ESC # ys = t @ concat ts'"
  using assms
proof (induction ts arbitrary: xs)
  case (Cons t ts)
  have t: "good_token t" "t \<noteq> []" "ESC \<notin> set (tl t)" using Cons.prems(1) token_ctrl by auto
  from Cons.prems(2) have "t @ concat ts = xs @ ESC # ys" by simp
  then consider (inside) us where "t = xs @ us" "us @ concat ts = ESC # ys" "us \<noteq> []"
    | (after) us where "xs = t @ us" "concat ts = us @ ESC # ys"
    by (fastforce simp: append_eq_append_conv2)
  then show ?case
  proof cases
    case inside
    then have us: "hd us = ESC" by (cases us) auto
    have "xs = []"
    proof (rule ccontr)
      assume "xs \<noteq> []"
      then have "set us \<subseteq> set (tl t)" using inside(1) by (cases xs) auto
      then show False using us inside(3) t(3) by (cases us) auto
    qed
    then show ?thesis using inside us t(1) by (intro exI [of _ t] exI [of _ ts]) auto
  next
    case after
    then show ?thesis using Cons.IH [of us] Cons.prems(1) by simp
  qed
qed simp

lemma first_final_unique:
  assumes "ps @ b # rest = ps' @ b' # rest'" "\<forall>x \<in> set ps. P x" "\<forall>x \<in> set ps'. P x" "\<not> P b" "\<not> P b'"
  shows "ps = ps' \<and> b = b'"
  using assms
proof (induction ps arbitrary: ps')
  case Nil
  then show ?case by (cases ps') auto
next
  case (Cons x ps)
  then show ?case by (cases ps') auto
qed

lemma token_not_forbidden:
  assumes "good_token t" "hd t = ESC" "t @ rest = s @ rest'" "forbidden s" "s \<noteq> [ENQ]"
  shows False
proof -
  obtain c s' where s: "s = ESC # c # s'" and c: "c \<in> set ''Z]P_^X'' \<or> c = CHR ''['' \<and> complete_csi s \<and> daemonOwnsCSI s"
    using assms(4,5) by (auto simp: forbidden_def complete_csi_def)
  have "\<not> plain_token t" using assms(2) by (auto simp: plain_token_def)
  then consider (esc) "escape_token t" | (csi) "csi_token t" using assms(1) by (auto simp: good_token_def)
  then show False
  proof cases
    case esc
    then obtain mid b where t: "t = ESC # mid @ [b]" "list_all between mid" "b \<notin> set introducers"
      by (auto simp: escape_token_def)
    have "c \<in> set introducers" using c by (auto simp: introducers_def)
    moreover have "\<not> between x" if "x \<in> set introducers" for x
      using that by (auto simp: introducers_def between_def in_bytes_def byte_val_def)
    ultimately show False using t assms(3) s by (cases mid) auto
  next
    case csi
    then obtain pre ps b where t: "t = ESC # pre @ CHR ''['' # ps @ [b]" "list_all between pre" "list_all param ps"
      "in_bytes 64 126 b" "\<not> daemonOwnsCSI t" by (auto simp: csi_token_def)
    have "\<not> between x" if "x \<in> set ''Z]P_^X'' \<or> x = CHR ''[''" for x
      using that by (auto simp: between_def in_bytes_def byte_val_def)
    then have pre: "pre = []" "c = CHR ''[''" using t(1,2) c assms(3) s by (cases pre; auto)+
    then have "complete_csi s" "daemonOwnsCSI s" using c by auto
    then obtain qs d where q: "s = ESC # CHR ''['' # qs @ [d]" "list_all param qs" "in_bytes 64 126 d"
      by (auto simp: complete_csi_def)
    have "ps @ b # rest = qs @ d # rest'" using assms(3) t(1) q(1) pre(1) by simp
    then have "ps = qs \<and> b = d"
      by (rule first_final_unique [where P = param]) (use t(3,4) q(2,3) in \<open>auto simp: list_all_iff param_def\<close>)
    then show False using t(1,5) q(1) pre(1) \<open>daemonOwnsCSI s\<close> by simp
  qed
qed


definition example_output :: "string list" where
  "example_output = [''hi '' @ [ESC], ''[31mred'' @ [ESC] @ ''[c'' @ [ESC] @ '']0;title'', [BEL] @ ''!'']"


text \<open>The condition is needed. A terminal that meets an escape character inside a control sequence drops that
  sequence and starts a new one; the filter takes the next introducer for the final byte instead, so
  a device query and a clipboard write pass unchanged, each of which it removes when sent plainly. An
  enquiry passes inside a harmless sequence in the same way.\<close>

theorem interrupted_sequences_pass:
  "FilterAttachOutput ([ESC] @ ''[c'') = [] \<and>
   FilterAttachOutput ([ESC] @ ''['' @ [ESC] @ ''[c'') = [ESC] @ ''['' @ [ESC] @ ''[c'' \<and>
   FilterAttachOutput ([ESC] @ '']52;c;aGk='' @ [BEL]) = [] \<and>
   FilterAttachOutput ([ESC] @ ''['' @ [ESC] @ '']52;c;aGk='' @ [BEL]) = [ESC] @ ''['' @ [ESC] @ '']52;c;aGk='' @ [BEL] \<and>
   FilterAttachOutput [ENQ] = [] \<and>
   FilterAttachOutput ([ESC] @ ''['' @ [ENQ] @ ''m'') = [ESC] @ ''['' @ [ENQ] @ ''m''"
  by code_simp

end
