(* ===== verification/Attach_Output.thy ===== *)
theory Attach_Output
  imports Terminal_Filter
begin

text \<open>
  The bounded queue between a session's terminal output and one attached client
  (\<^verbatim>\<open>attach_backpressure.go\<close>). The session's reader calls \<open>Write\<close>; the writer's goroutine takes a chunk
  and writes it to the connection, the two interleaving at will; a client that falls behind is
  disconnected rather than shown output with a hole in it. Telemetry and logging are left out, and the
  \<open>wire\<close> component records the bytes the connection has accepted.
\<close>

datatype attachOutputMode = attachOutputRaw | attachOutputCoalesced

record attachOutputStats =
  enqueuedFrames :: int
  enqueuedBytes :: int
  writtenFrames :: int
  writtenBytes :: int
  coalesced :: int
  droppedFrames :: int
  droppedBytes :: int

record boundedAttachDataWriter =
  mode :: attachOutputMode
  maxBytes :: nat
  maxChunks :: nat
  coalesceBytes :: nat
  ofilter :: AttachOutputFilter
  queue :: "string list"
  queuedBytes :: int
  closed :: bool
  overflowed :: bool
  stats :: attachOutputStats
  connClosed :: bool
  inflight :: "string option"
  wire :: string

definition no_stats :: attachOutputStats where
  "no_stats = \<lparr>enqueuedFrames = 0, enqueuedBytes = 0, writtenFrames = 0, writtenBytes = 0, coalesced = 0,
     droppedFrames = 0, droppedBytes = 0\<rparr>"

definition defaultAttachOutputQueueMaxBytes :: int where "defaultAttachOutputQueueMaxBytes = 1048576"
definition defaultAttachOutputQueueMaxChunks :: int where "defaultAttachOutputQueueMaxChunks = 16384"
definition defaultAttachOutputCoalesceBytes :: int where "defaultAttachOutputCoalesceBytes = 32768"

definition newAttachDataWriter :: "attachOutputMode option \<Rightarrow> int \<Rightarrow> int \<Rightarrow> int \<Rightarrow> boundedAttachDataWriter" where
  "newAttachDataWriter cfgMode cfgBytes cfgChunks cfgCoalesce =
    \<lparr>mode = (case cfgMode of None \<Rightarrow> attachOutputRaw | Some m \<Rightarrow> m),
     maxBytes = nat (if cfgBytes \<le> 0 then defaultAttachOutputQueueMaxBytes else cfgBytes),
     maxChunks = nat (if cfgChunks \<le> 0 then defaultAttachOutputQueueMaxChunks else cfgChunks),
     coalesceBytes = nat (if cfgCoalesce \<le> 0 then defaultAttachOutputCoalesceBytes else cfgCoalesce),
     ofilter = initial_filter, queue = [], queuedBytes = 0, closed = False, overflowed = False, stats = no_stats,
     connClosed = False, inflight = None, wire = []\<rparr>"

definition recordDroppedLocked :: "nat \<Rightarrow> boundedAttachDataWriter \<Rightarrow> boundedAttachDataWriter" where
  "recordDroppedLocked n w =
    (if \<not> overflowed w then w
     else w\<lparr>stats := (stats w)\<lparr>droppedFrames := droppedFrames (stats w) + 1, droppedBytes := droppedBytes (stats w) + int n\<rparr>\<rparr>)"

definition enqueueCoalesced :: "nat \<Rightarrow> boundedAttachDataWriter \<Rightarrow> boundedAttachDataWriter" where
  "enqueueCoalesced n w =
    (if closed w then recordDroppedLocked n w
     else if queue w \<noteq> [] then w\<lparr>stats := (stats w)\<lparr>coalesced := coalesced (stats w) + 1\<rparr>\<rparr>
     else w\<lparr>queue := queue w @ [[]], stats := (stats w)\<lparr>enqueuedFrames := enqueuedFrames (stats w) + 1\<rparr>\<rparr>)"

definition tryCoalesceRawLocked :: "string \<Rightarrow> boundedAttachDataWriter \<Rightarrow> string list option" where
  "tryCoalesceRawLocked payload w =
    (if mode w \<noteq> attachOutputRaw \<or> queue w = [] then None
     else if coalesceBytes w < length (last (queue w)) + length payload then None
     else Some (butlast (queue w) @ [last (queue w) @ payload]))"

definition overflow :: "string \<Rightarrow> boundedAttachDataWriter \<Rightarrow> boundedAttachDataWriter" where
  "overflow payload w =
    w\<lparr>closed := True, overflowed := True,
      stats := (stats w)\<lparr>droppedFrames := droppedFrames (stats w) + int (length (queue w)) + 1,
        droppedBytes := droppedBytes (stats w) + (queuedBytes w + int (length payload))\<rparr>,
      queue := [], queuedBytes := 0, connClosed := True\<rparr>"

definition enqueueRaw :: "string \<Rightarrow> boundedAttachDataWriter \<Rightarrow> boundedAttachDataWriter" where
  "enqueueRaw payload w =
    (let w1 = (case tryCoalesceRawLocked payload w of
                 Some q \<Rightarrow> w\<lparr>queue := q, stats := (stats w)\<lparr>coalesced := coalesced (stats w) + 1\<rparr>\<rparr>
               | None \<Rightarrow> w\<lparr>queue := queue w @ [payload]\<rparr>)
     in w1\<lparr>queuedBytes := queuedBytes w + int (length payload),
           stats := (stats w1)\<lparr>enqueuedFrames := enqueuedFrames (stats w1) + 1,
             enqueuedBytes := enqueuedBytes (stats w1) + int (length payload)\<rparr>\<rparr>)"

definition Write :: "string \<Rightarrow> boundedAttachDataWriter \<Rightarrow> boundedAttachDataWriter" where
  "Write p w =
    (if mode w = attachOutputCoalesced then enqueueCoalesced (length p) w
     else if p = [] then w
     else if closed w then recordDroppedLocked (length p) w
     else case Filter_output (ofilter w) p of (f, payload) \<Rightarrow>
       let w1 = w\<lparr>ofilter := f\<rparr>
       in if payload = [] then w1
          else if maxChunks w \<le> length (queue w) \<or> int (maxBytes w) < queuedBytes w + int (length payload)
          then overflow payload w1
          else enqueueRaw payload w1)"

definition Close_writer :: "boundedAttachDataWriter \<Rightarrow> boundedAttachDataWriter" where
  "Close_writer w = (if closed w then w else w\<lparr>closed := True, queue := [], queuedBytes := 0\<rparr>)"

text \<open>The goroutine: it takes the oldest chunk (and waits when there is none), then writes it.\<close>

definition nextPayload :: "boundedAttachDataWriter \<Rightarrow> boundedAttachDataWriter" where
  "nextPayload w =
    (if inflight w \<noteq> None then w
     else case queue w of
         [] \<Rightarrow> w
       | chunk # rest \<Rightarrow> w\<lparr>inflight := Some chunk, queue := rest, queuedBytes := queuedBytes w - int (length chunk)\<rparr>)"

text \<open>The result of writing the chunk taken: all of it is accepted, or the write fails after some of it
  (\<open>partial\<close> of its bytes) and the client is disconnected.\<close>

definition write_result :: "nat option \<Rightarrow> boundedAttachDataWriter \<Rightarrow> boundedAttachDataWriter" where
  "write_result failed w =
    (case inflight w of
       None \<Rightarrow> w
     | Some chunk \<Rightarrow>
         (case failed of
            None \<Rightarrow> w\<lparr>inflight := None, wire := wire w @ chunk,
                      stats := (stats w)\<lparr>writtenFrames := writtenFrames (stats w) + 1,
                        writtenBytes := writtenBytes (stats w) + int (length chunk)\<rparr>\<rparr>
          | Some partial \<Rightarrow>
              w\<lparr>inflight := None, wire := wire w @ take partial chunk, closed := True, queue := [], queuedBytes := 0,
                connClosed := True\<rparr>))"

section \<open>Interleavings\<close>

datatype writer_event = EWrite string | ETake | EWritten "nat option" | EClose

definition writer_step :: "writer_event \<Rightarrow> boundedAttachDataWriter \<Rightarrow> boundedAttachDataWriter" where
  "writer_step e w =
    (case e of
       EWrite p \<Rightarrow> Write p w
     | ETake \<Rightarrow> nextPayload w
     | EWritten r \<Rightarrow> write_result r w
     | EClose \<Rightarrow> Close_writer w)"

definition run_writer :: "writer_event list \<Rightarrow> boundedAttachDataWriter \<Rightarrow> boundedAttachDataWriter" where
  "run_writer es w = fold writer_step es w"

text \<open>The output handed to the writer, in order.\<close>

definition offered :: "writer_event list \<Rightarrow> string" where
  "offered es = concat (map (\<lambda>e. case e of EWrite p \<Rightarrow> p | _ \<Rightarrow> []) es)"

definition unsent :: "boundedAttachDataWriter \<Rightarrow> string" where
  "unsent w = (case inflight w of None \<Rightarrow> [] | Some c \<Rightarrow> c) @ concat (queue w)"

definition writer_inv :: "string \<Rightarrow> boundedAttachDataWriter \<Rightarrow> bool" where
  "writer_inv input w \<longleftrightarrow>
    queuedBytes w = int (length (concat (queue w))) \<and> queuedBytes w \<le> int (maxBytes w) \<and> length (queue w) \<le> maxChunks w \<and>
    (if closed w then queue w = [] \<and> prefix (wire w @ unsent w) (FilterAttachOutput input)
     else ofilter w = fst (filter_bytes initial_filter input) \<and> wire w @ unsent w = FilterAttachOutput input)"

section \<open>The invariant\<close>

lemma FilterAttachOutput_append:
  "FilterAttachOutput (p @ q) =
    FilterAttachOutput p @ snd (filter_bytes (fst (filter_bytes initial_filter p)) q)"
  by (simp add: FilterAttachOutput_def Filter_output_bytes filter_bytes_append)

lemma prefix_longer: "prefix x (FilterAttachOutput p) \<Longrightarrow> prefix x (FilterAttachOutput (p @ q))"
  by (simp add: FilterAttachOutput_append)

lemma recordDropped_simps [simp]:
  "queue (recordDroppedLocked n w) = queue w" "queuedBytes (recordDroppedLocked n w) = queuedBytes w"
  "closed (recordDroppedLocked n w) = closed w" "inflight (recordDroppedLocked n w) = inflight w"
  "wire (recordDroppedLocked n w) = wire w" "maxBytes (recordDroppedLocked n w) = maxBytes w"
  "maxChunks (recordDroppedLocked n w) = maxChunks w" "mode (recordDroppedLocked n w) = mode w"
  "connClosed (recordDroppedLocked n w) = connClosed w"
  by (simp_all add: recordDroppedLocked_def)

lemma coalesced_bytes: "tryCoalesceRawLocked payload w = Some q \<Longrightarrow>
    concat q = concat (queue w) @ payload \<and> length q = length (queue w) \<and> q \<noteq> []"
  by (cases "queue w" rule: rev_cases) (auto simp: tryCoalesceRawLocked_def split: if_splits)

lemma enqueueRaw_simps:
  "concat (queue (enqueueRaw payload w)) = concat (queue w) @ payload"
  "length (queue (enqueueRaw payload w)) \<le> Suc (length (queue w))"
  "queuedBytes (enqueueRaw payload w) = queuedBytes w + int (length payload)"
  "inflight (enqueueRaw payload w) = inflight w" "wire (enqueueRaw payload w) = wire w"
  "closed (enqueueRaw payload w) = closed w" "maxBytes (enqueueRaw payload w) = maxBytes w"
  "maxChunks (enqueueRaw payload w) = maxChunks w" "ofilter (enqueueRaw payload w) = ofilter w"
  "mode (enqueueRaw payload w) = mode w" "connClosed (enqueueRaw payload w) = connClosed w"
  using coalesced_bytes [of payload w] by (auto simp: enqueueRaw_def Let_def split: option.split)

lemma unsent_enqueueRaw: "unsent (enqueueRaw payload w) = unsent w @ payload"
  by (simp add: unsent_def enqueueRaw_simps)

lemma Write_inv:
  assumes inv: "writer_inv input w" and raw: "mode w = attachOutputRaw"
  shows "writer_inv (input @ p) (Write p w)"
proof (cases "p = [] \<or> closed w")
  case True
  have "unsent (recordDroppedLocked (length p) w) = unsent w" by (simp add: unsent_def)
  then show ?thesis using inv raw True by (auto simp: Write_def writer_inv_def prefix_longer)
next
  case False
  obtain f payload where f: "filter_bytes (ofilter w) p = (f, payload)" by fastforce
  from inv False have old: "ofilter w = fst (filter_bytes initial_filter input)" "wire w @ unsent w = FilterAttachOutput input"
    "queuedBytes w = int (length (concat (queue w)))" "length (queue w) \<le> maxChunks w" "queuedBytes w \<le> int (maxBytes w)"
    by (auto simp: writer_inv_def)
  have new: "fst (filter_bytes initial_filter (input @ p)) = f" "FilterAttachOutput (input @ p) = FilterAttachOutput input @ payload"
    using f old(1) by (simp_all add: filter_bytes_append FilterAttachOutput_append)
  let ?w = "w\<lparr>ofilter := f\<rparr>"
  have w: "Write p w = (if payload = [] then ?w
      else if maxChunks w \<le> length (queue w) \<or> int (maxBytes w) < queuedBytes w + int (length payload) then overflow payload ?w
      else enqueueRaw payload ?w)"
    using False raw f by (simp add: Write_def Filter_output_bytes)
  have us: "unsent ?w = unsent w" by (simp add: unsent_def)
  show ?thesis
  proof (cases "payload = []")
    case True
    then show ?thesis using w old new us False by (simp add: writer_inv_def)
  next
    case nonempty: False
    show ?thesis
    proof (cases "maxChunks w \<le> length (queue w) \<or> int (maxBytes w) < queuedBytes w + int (length payload)")
      case True
      have "prefix (wire w @ unsent (overflow payload ?w)) (FilterAttachOutput input)"
        unfolding old(2) [symmetric] by (simp add: unsent_def overflow_def split: option.split)
      then show ?thesis using True w nonempty prefix_longer by (simp add: writer_inv_def overflow_def)
    next
      case fits: False
      then show ?thesis using w nonempty old new us False
        using enqueueRaw_simps(2) [of payload ?w] by (simp add: writer_inv_def enqueueRaw_simps unsent_enqueueRaw)
    qed
  qed
qed

lemma nextPayload_inv: "writer_inv input w \<Longrightarrow> writer_inv input (nextPayload w)"
  by (cases "queue w") (auto simp: nextPayload_def writer_inv_def unsent_def)

lemma write_result_inv:
  assumes "writer_inv input w"
  shows "writer_inv input (write_result r w)"
proof (cases "inflight w")
  case None
  then show ?thesis using assms by (simp add: write_result_def)
next
  case (Some chunk)
  have pre: "prefix (wire w @ chunk @ concat (queue w)) (FilterAttachOutput input)"
    using assms Some by (auto simp: writer_inv_def unsent_def split: if_splits)
  show ?thesis
  proof (cases r)
    case None
    then show ?thesis using assms Some by (auto simp: write_result_def writer_inv_def unsent_def)
  next
    case r: (Some n)
    have "prefix (wire w @ take n chunk) (wire w @ chunk @ concat (queue w))" by (simp add: take_is_prefix prefix_append)
    with pre have "prefix (wire w @ take n chunk) (FilterAttachOutput input)" by (rule prefix_order.trans [rotated])
    then show ?thesis using assms Some r by (auto simp: write_result_def writer_inv_def unsent_def)
  qed
qed

lemma sent_prefix: "writer_inv input w \<Longrightarrow> prefix (wire w @ (case inflight w of None \<Rightarrow> [] | Some c \<Rightarrow> c)) (FilterAttachOutput input)"
  by (cases "closed w") (auto simp: writer_inv_def unsent_def dest: sym)

lemma Close_inv: "writer_inv input w \<Longrightarrow> writer_inv input (Close_writer w)"
  using sent_prefix [of input w] by (cases "closed w") (auto simp: Close_writer_def writer_inv_def unsent_def)

lemma writer_step_mode: "mode (writer_step e w) = mode w"
  by (cases e) (auto simp: writer_step_def Write_def enqueueCoalesced_def nextPayload_def write_result_def Close_writer_def
      overflow_def enqueueRaw_simps Let_def split: prod.split list.split option.split)

lemma writer_step_inv:
  "writer_inv input w \<Longrightarrow> mode w = attachOutputRaw \<Longrightarrow> writer_inv (input @ offered [e]) (writer_step e w)"
  by (cases e) (simp_all add: writer_step_def offered_def Write_inv nextPayload_inv write_result_inv Close_inv)

lemma run_writer_inv:
  "writer_inv input w \<Longrightarrow> mode w = attachOutputRaw \<Longrightarrow> writer_inv (input @ offered es) (run_writer es w)"
proof (induction es arbitrary: input w)
  case (Cons e es)
  then have "writer_inv (input @ offered [e]) (writer_step e w)" "mode (writer_step e w) = attachOutputRaw"
    by (simp_all add: writer_step_inv writer_step_mode)
  from Cons.IH [OF this] show ?case by (simp add: run_writer_def offered_def)
qed (simp add: run_writer_def offered_def)

text \<open>A writer that is closed although nobody asked for it has disconnected its client.\<close>

lemma closed_disconnects:
  "closed w \<longrightarrow> connClosed w \<Longrightarrow> e \<noteq> EClose \<Longrightarrow> closed (writer_step e w) \<longrightarrow> connClosed (writer_step e w)"
  by (cases e) (auto simp: writer_step_def Write_def enqueueCoalesced_def nextPayload_def write_result_def
      overflow_def enqueueRaw_simps Let_def split: prod.split list.split option.split)

lemma run_disconnects:
  "closed w \<longrightarrow> connClosed w \<Longrightarrow> EClose \<notin> set es \<Longrightarrow> closed (run_writer es w) \<longrightarrow> connClosed (run_writer es w)"
proof (induction es arbitrary: w)
  case (Cons e es)
  then have "closed (writer_step e w) \<longrightarrow> connClosed (writer_step e w)" by (intro closed_disconnects) auto
  from Cons.IH [OF this] Cons.prems show ?case by (simp add: run_writer_def)
qed (simp add: run_writer_def)

text \<open>When the client keeps up, rounds of taking and writing a chunk empty the queue.\<close>

definition drain :: "nat \<Rightarrow> writer_event list" where
  "drain n = concat (replicate n [ETake, EWritten None])"

lemma drain_queue:
  "inflight w = None \<Longrightarrow> length (queue w) = n \<Longrightarrow>
    wire (run_writer (drain n) w) = wire w @ concat (queue w) \<and> queue (run_writer (drain n) w) = []"
proof (induction n arbitrary: w)
  case 0
  then show ?case by (simp add: drain_def run_writer_def)
next
  case (Suc n)
  then obtain c rest where q: "queue w = c # rest" by (cases "queue w") auto
  let ?w = "write_result None (nextPayload w)"
  have w: "inflight ?w = None" "queue ?w = rest" "wire ?w = wire w @ c"
    using Suc.prems q by (simp_all add: nextPayload_def write_result_def)
  have "run_writer (drain (Suc n)) w = run_writer (drain n) ?w"
    by (simp add: drain_def run_writer_def writer_step_def)
  then show ?case using Suc.IH [of ?w] Suc.prems q w by simp
qed

lemma drain_all:
  "wire (run_writer (EWritten None # drain (length (queue w))) w) = wire w @ unsent w"
proof -
  let ?w = "write_result None w"
  have w: "inflight ?w = None" "queue ?w = queue w" "wire ?w = wire w @ (case inflight w of None \<Rightarrow> [] | Some c \<Rightarrow> c)"
    by (auto simp: write_result_def split: option.split)
  have "run_writer (EWritten None # drain (length (queue w))) w = run_writer (drain (length (queue w))) ?w"
    by (simp add: run_writer_def writer_step_def)
  then show ?thesis using drain_queue [of ?w "length (queue w)"] w by (simp add: unsent_def)
qed



section \<open>The gate\<close>

text \<open>While the first snapshot is on its way, live output is held back (\<^verbatim>\<open>gatedDataWriter\<close>). \<open>sent\<close> are the
  writes passed to the target; the empty one is the repaint hint.\<close>

record gatedDataWriter =
  released :: bool
  discarded :: bool
  dirty :: bool
  sent :: "string list"

definition newGatedDataWriter :: gatedDataWriter where
  "newGatedDataWriter = \<lparr>released = False, discarded = False, dirty = False, sent = []\<rparr>"

definition gated_Write :: "string \<Rightarrow> gatedDataWriter \<Rightarrow> gatedDataWriter" where
  "gated_Write p g =
    (if \<not> released g then g\<lparr>dirty := True\<rparr> else if discarded g then g else g\<lparr>sent := sent g @ [p]\<rparr>)"

definition Release_gate :: "gatedDataWriter \<Rightarrow> gatedDataWriter" where
  "Release_gate g =
    (if released g then g
     else if discarded g \<or> \<not> dirty g then g\<lparr>released := True, dirty := False\<rparr>
     else g\<lparr>released := True, dirty := False, sent := sent g @ [[]]\<rparr>)"

definition Discard_gate :: "gatedDataWriter \<Rightarrow> gatedDataWriter" where
  "Discard_gate g = g\<lparr>released := True, discarded := True, dirty := False\<rparr>"

lemma gate_holds: "fold gated_Write ps newGatedDataWriter = newGatedDataWriter\<lparr>dirty := ps \<noteq> []\<rparr>"
  by (induction ps rule: rev_induct) (auto simp: gated_Write_def newGatedDataWriter_def)

lemma gate_passes: "released g \<Longrightarrow> \<not> discarded g \<Longrightarrow> fold gated_Write qs g = g\<lparr>sent := sent g @ qs\<rparr>"
  by (induction qs arbitrary: g) (simp_all add: gated_Write_def)

text \<open>Output that arrives before the snapshot is replaced by exactly one repaint hint, sent at the release, and
  everything after it is passed on in order.\<close>

theorem gate_one_hint:
  "sent (fold gated_Write qs (Release_gate (fold gated_Write ps newGatedDataWriter))) = (if ps = [] then [] else [[]]) @ qs"
  unfolding gate_holds by (subst gate_passes) (simp_all add: Release_gate_def newGatedDataWriter_def)

end
