(* ===== verification/Cronx.thy ===== *)
theory Cronx
  imports Go_Strings
begin

text \<open>
  The cron grammar of triggers (\<^verbatim>\<open>internal/cronx/cronx.go\<close>). The parser of the schedule library is the
  parameter \<open>specParser\<close>, and \<open>to_lower\<close> is \<^verbatim>\<open>strings.ToLower\<close>; the rules in front of the parser are the
  program's own.
\<close>

text \<open>\<^verbatim>\<open>strings.Fields\<close>: the maximal runs of runes that are not white space.\<close>

function fields_loop :: "string \<Rightarrow> string \<Rightarrow> string list" where
  "fields_loop cur s =
    (if s = [] then (if cur = [] then [] else [cur])
     else let r = take (rune_size s) s; rest = drop (rune_size s) s
          in if r \<in> set space_runes then (if cur = [] then [] else [cur]) @ fields_loop [] rest
             else fields_loop (cur @ r) rest)"
  by pat_completeness auto
termination
  by (relation "measure (length \<circ> snd)") (simp_all add: rune_size_pos diff_less)

declare fields_loop.simps [simp del]

definition fields :: "string \<Rightarrow> string list" where
  "fields s = fields_loop [] s"

definition allowedDescriptors :: "(string \<times> string) list" where
  "allowedDescriptors =
    [(''@hourly'', ''0 * * * *''), (''@daily'', ''0 0 * * *''), (''@weekly'', ''0 0 * * 0''), (''@monthly'', ''0 0 1 * *'')]"

definition rejectedChars :: string where "rejectedChars = ''?LlWw#''"

datatype cron_error =
    EmptyCron
  | UnsupportedDescriptor string
  | FieldCount nat
  | UnsupportedCharacter char
  | InvalidCron string

definition validateFields :: "string \<Rightarrow> cron_error option" where
  "validateFields spec =
    (if length (fields spec) \<noteq> 5 then Some (FieldCount (length (fields spec)))
     else case find (\<lambda>c. c \<in> set rejectedChars) spec of
         Some c \<Rightarrow> Some (UnsupportedCharacter c)
       | None \<Rightarrow> None)"

definition Parse ::
  "(string \<Rightarrow> string) \<Rightarrow> (string \<Rightarrow> 's option) \<Rightarrow> string \<Rightarrow> (cron_error, 's) result" where
  "Parse to_lower specParser spec =
    (let trimmed = trim_space spec;
         run = (\<lambda>t. case specParser t of None \<Rightarrow> Inl (InvalidCron spec) | Some s \<Rightarrow> Inr s)
     in if trimmed = [] then Inl EmptyCron
        else if prefix ''@'' trimmed then
          (case map_of allowedDescriptors (to_lower trimmed) of
             None \<Rightarrow> Inl (UnsupportedDescriptor trimmed)
           | Some canonical \<Rightarrow> run canonical)
        else case validateFields trimmed of
            Some e \<Rightarrow> Inl e
          | None \<Rightarrow> run trimmed)"

definition Validate :: "(string \<Rightarrow> string) \<Rightarrow> (string \<Rightarrow> 's option) \<Rightarrow> string \<Rightarrow> cron_error option" where
  "Validate to_lower specParser spec = (case Parse to_lower specParser spec of Inl e \<Rightarrow> Some e | Inr _ \<Rightarrow> None)"

text \<open>What the schedule library is handed: the canonical form of one of the four descriptors, or a text of
  five fields without the characters of the rejected extensions.\<close>

definition accepted_spec :: "(string \<Rightarrow> string) \<Rightarrow> string \<Rightarrow> string option" where
  "accepted_spec to_lower spec =
    (let t = trim_space spec
     in if prefix ''@'' t then map_of allowedDescriptors (to_lower t)
        else if length (fields t) = 5 \<and> set t \<inter> set rejectedChars = {} then Some t else None)"

lemma fields_empty: "fields [] = []"
  by (simp add: fields_def fields_loop.simps)

text \<open>Configuration and runtime accept the same cron expressions. An expression is accepted exactly when
  it is one of the four descriptors or has five fields free of the rejected characters, and the
  schedule library accepts that form; validation reports an error exactly when parsing fails.\<close>

theorem cron_parse_exact:
  "(Parse to_lower specParser spec = Inr s \<longleftrightarrow>
      (\<exists>t. accepted_spec to_lower spec = Some t \<and> specParser t = Some s)) \<and>
   (Validate to_lower specParser spec = None \<longleftrightarrow>
      (\<exists>t. accepted_spec to_lower spec = Some t \<and> specParser t \<noteq> None))"
proof -
  have valid: "validateFields t = None \<longleftrightarrow> length (fields t) = 5 \<and> set t \<inter> set rejectedChars = {}" for t
    by (auto simp: validateFields_def find_None_iff find_Some_iff split: option.split) (meson disjoint_iff nth_mem)
  have p: "Parse to_lower specParser spec = Inr x \<longleftrightarrow>
      (\<exists>t. accepted_spec to_lower spec = Some t \<and> specParser t = Some x)" for x
    using valid [of "trim_space spec"]
    by (cases "validateFields (trim_space spec)") (auto simp: Parse_def accepted_spec_def Let_def fields_empty split: option.splits)
  have "Validate to_lower specParser spec = None \<longleftrightarrow> (\<exists>x. Parse to_lower specParser spec = Inr x)"
    by (auto simp: Validate_def split: sum.split)
  then show ?thesis by (auto simp: p)
qed

text \<open>The grammar promises the month names JAN to DEC and the day names SUN to SAT, but two of them contain a
  rejected letter: every expression naming July or Wednesday is refused, whatever the library accepts.\<close>

theorem cron_refuses_july_and_wednesday:
  "Parse (\<lambda>s. s) specParser ''0 9 * * WED'' = Inl (UnsupportedCharacter CHR ''W'') \<and>
   Parse (\<lambda>s. s) specParser ''0 9 1 JUL *'' = Inl (UnsupportedCharacter CHR ''L'')"
proof -
  have "trim_space ''0 9 * * WED'' = ''0 9 * * WED''" "trim_space ''0 9 1 JUL *'' = ''0 9 1 JUL *''" by code_simp+
  moreover have "validateFields ''0 9 * * WED'' = Some (UnsupportedCharacter CHR ''W'')"
    "validateFields ''0 9 1 JUL *'' = Some (UnsupportedCharacter CHR ''L'')" by code_simp+
  ultimately show ?thesis by (simp add: Parse_def Let_def)
qed

end
