(* ===== verification/Go_Time.thy ===== *)
theory Go_Time
  imports Prelude
begin

text \<open>
  Instants and their text form. An instant is a number of nanoseconds since the Unix epoch;
  \<open>rfc3339nano\<close> is what \<^verbatim>\<open>t.UTC().Format(time.RFC3339Nano)\<close> prints: the civil date and time, then the
  fraction of the second with its trailing zeros dropped (and no point when it is zero), then Z.
  The stores write these strings and compare them as strings in SQL. Years outside 0 to 9999
  are not rendered the way Go does.
\<close>

definition digit_char :: "int \<Rightarrow> char" where
  "digit_char d =
    (if d = 0 then CHR ''0'' else if d = 1 then CHR ''1'' else if d = 2 then CHR ''2''
     else if d = 3 then CHR ''3'' else if d = 4 then CHR ''4'' else if d = 5 then CHR ''5''
     else if d = 6 then CHR ''6'' else if d = 7 then CHR ''7'' else if d = 8 then CHR ''8''
     else CHR ''9'')"

text \<open>\<open>digits w n\<close> prints the last \<open>w\<close> decimal digits of \<open>n\<close>, zero-padded.\<close>

fun digits :: "nat \<Rightarrow> int \<Rightarrow> string" where
  "digits 0 n = []"
| "digits (Suc w) n = digits w (n div 10) @ [digit_char (n mod 10)]"

text \<open>The proleptic Gregorian date of a day number (day 0 is 1970-01-01).\<close>

definition civil_from_days :: "int \<Rightarrow> int \<times> int \<times> int" where
  "civil_from_days z0 =
    (let z = z0 + 719468;
         era = z div 146097;
         doe = z mod 146097;
         yoe = (doe - doe div 1460 + doe div 36524 - doe div 146096) div 365;
         doy = doe - (365 * yoe + yoe div 4 - yoe div 100);
         mp = (5 * doy + 2) div 153;
         d = doy - (153 * mp + 2) div 5 + 1;
         m = (if mp < 10 then mp + 3 else mp - 9);
         y = yoe + era * 400
     in (if m \<le> 2 then y + 1 else y, m, d))"

definition strip_zeros :: "string \<Rightarrow> string" where
  "strip_zeros s = rev (dropWhile (\<lambda>c. c = CHR ''0'') (rev s))"

definition frac_str :: "int \<Rightarrow> string" where
  "frac_str ns = (if ns = 0 then [] else CHR ''.'' # strip_zeros (digits 9 ns))"

definition rfc3339nano :: "int \<Rightarrow> string" where
  "rfc3339nano t =
    (let secs = t div 1000000000; ns = t mod 1000000000; sod = secs mod 86400
     in case civil_from_days (secs div 86400) of
          (y, m, d) \<Rightarrow>
            digits 4 y @ ''-'' @ digits 2 m @ ''-'' @ digits 2 d @ ''T'' @
            digits 2 (sod div 3600) @ '':'' @ digits 2 (sod div 60 mod 60) @ '':'' @
            digits 2 (sod mod 60) @ frac_str ns @ ''Z'')"

lemma length_digits [simp]: "length (digits w n) = w"
  by (induction w n rule: digits.induct) auto

lemma rfc3339nano_example: "rfc3339nano 1709164800000000001 = ''2024-02-29T00:00:00.000000001Z''"
  by code_simp

text \<open>The text form does not order as the instants do: within one second, an instant with a
  fraction prints a point where the whole second prints Z, and the point sorts first.\<close>

lemma rfc3339nano_not_monotone:
  "rfc3339nano 1750000000500000000 < rfc3339nano 1750000000000000000"
  by code_simp

text \<open>Decimal text of an integer (\<^verbatim>\<open>%d\<close>).\<close>

function dec_str :: "int \<Rightarrow> string" where
  "dec_str n = (if n < 10 then [digit_char n] else dec_str (n div 10) @ [digit_char (n mod 10)])"
  by pat_completeness auto
termination
  by (relation "measure nat") auto

declare dec_str.simps [simp del]

definition int_str :: "int \<Rightarrow> string" where
  "int_str n = (if n < 0 then ''-'' @ dec_str (- n) else dec_str n)"

end
