(* ===== verification/Msg_Store.thy ===== *)
theory Msg_Store
  imports Go_Strings Go_Time
begin

text \<open>
  The message store (msgstore.go): streams of sequence-numbered messages, per-subscriber cursors
  and individual acknowledgements, the per-stream high-water mark, and the live subscriptions.
  Tables are lists in insertion (rowid) order. A subscriber channel is its identity, capacity
  and queued messages; a send that finds the buffer full is dropped, as the \<^verbatim>\<open>select\<close> with a
  \<^verbatim>\<open>default\<close> does. The operations on the quarantine table of the same database are in theory \<^verbatim>\<open>Jail\<close>.
\<close>

section \<open>Data\<close>

record Message =
  msg_ID :: string
  msg_Seq :: int
  msg_Stream :: string
  msg_SenderID :: string
  msg_SenderName :: string
  msg_Body :: string
  msg_ThreadID :: string
  msg_ReplyTo :: string
  msg_NoReply :: bool
  msg_CreatedAt :: string
  msg_System :: bool

record StreamInfo =
  si_Name :: string
  si_Total :: nat
  si_Unread :: nat
  si_LatestAt :: string
  si_LatestPreview :: string

record PublishOpts =
  po_Stream :: string
  po_SenderID :: string
  po_SenderName :: string
  po_Body :: string
  po_ThreadID :: string
  po_ReplyTo :: string
  po_NoReply :: bool

record cursor =
  cur_subscriber :: string
  cur_stream :: string
  cur_ack_seq :: int
  cur_updated_at :: string

record JailedComment =
  jc_ID :: string
  jc_CommentID :: int
  jc_Surface :: string
  jc_PRNumber :: int
  jc_RepoSlug :: string
  jc_Branch :: string
  jc_Author :: string
  jc_Association :: string
  jc_IsBot :: bool
  jc_Path :: string
  jc_Line :: int
  jc_Body :: string
  jc_TargetSession :: string
  jc_TargetName :: string
  jc_JailedAt :: string
  jc_ReleasedAt :: string

record channel =
  ch_id :: nat
  ch_cap :: nat
  ch_queue :: "Message list"

text \<open>\<^verbatim>\<open>thread_id\<close> and \<^verbatim>\<open>reply_to\<close> are stored as NULL when empty and read back with COALESCE, so a stored
  row is kept as the message it is read as. \<open>acked\<close> holds (subscriber, stream, seq).\<close>

record MsgStore =
  messages :: "Message list"
  cursors :: "cursor list"
  acked :: "(string \<times> string \<times> int) list"
  stream_hwm :: "(string \<times> int) list"
  jailed :: "JailedComment list"
  subs :: "(string \<times> channel) list"
  subscriberBuffer :: int
  jailListLimit :: int

record MsgStoreSettings =
  ms_BusyTimeout :: int
  ms_SubscriberBuffer :: int
  ms_JailListLimit :: int

datatype msg_error = MsgConstraint

section \<open>Settings\<close>

definition MessagesBusyTimeoutDefault :: int where "MessagesBusyTimeoutDefault = 5000000000"
definition MessagesSubscriberBufferDefault :: int where "MessagesSubscriberBufferDefault = 64"
definition MessagesJailListLimitDefault :: int where "MessagesJailListLimitDefault = 2000"
definition MessagesJailListLimitCeiling :: int where "MessagesJailListLimitCeiling = 100000"
definition msgBusyTimeoutResolution :: int where "msgBusyTimeoutResolution = 1000000"

definition resolved_msg :: "MsgStoreSettings \<Rightarrow> MsgStoreSettings" where
  "resolved_msg s =
    s\<lparr>ms_BusyTimeout :=
        (if ms_BusyTimeout s \<le> 0 then MessagesBusyTimeoutDefault
         else if ms_BusyTimeout s < msgBusyTimeoutResolution then msgBusyTimeoutResolution
         else ms_BusyTimeout s),
      ms_SubscriberBuffer :=
        (if ms_SubscriberBuffer s < 1 then MessagesSubscriberBufferDefault else ms_SubscriberBuffer s),
      ms_JailListLimit :=
        (if ms_JailListLimit s < 1 then MessagesJailListLimitDefault else ms_JailListLimit s)\<rparr>"

text \<open>\<^verbatim>\<open>d.Milliseconds()\<close> divides toward zero.\<close>

definition sqliteBusyTimeoutMillis :: "int \<Rightarrow> int" where
  "sqliteBusyTimeoutMillis d =
    (let ms = sgn d * (\<bar>d\<bar> div 1000000) in if 0 < d \<and> ms < 1 then 1 else ms)"

definition SetJailListLimit :: "MsgStore \<Rightarrow> int \<Rightarrow> MsgStore" where
  "SetJailListLimit s limit =
    s\<lparr>jailListLimit :=
      (if limit < 1 \<or> MessagesJailListLimitCeiling < limit then MessagesJailListLimitDefault else limit)\<rparr>"

section \<open>Publishing\<close>

definition systemSenderID :: string where "systemSenderID = ''graith:system''"

definition isSystemSender :: "string \<Rightarrow> bool" where
  "isSystemSender senderID \<longleftrightarrow> senderID = systemSenderID"

definition max_int :: "int list \<Rightarrow> int" where
  "max_int xs = fold max xs 0"

text \<open>The highest sequence number a stream ever used: \<^verbatim>\<open>COALESCE(MAX(seq), 0)\<close> of its messages and its
  high-water mark (sequence numbers are positive).\<close>

definition last_seq :: "MsgStore \<Rightarrow> string \<Rightarrow> int" where
  "last_seq s stream =
    max (max_int (map msg_Seq (filter (\<lambda>m. msg_Stream m = stream) (messages s))))
        (max_int (map snd (filter (\<lambda>h. fst h = stream) (stream_hwm s))))"

definition bump_hwm :: "string \<Rightarrow> int \<Rightarrow> (string \<times> int) list \<Rightarrow> (string \<times> int) list" where
  "bump_hwm stream seq hs =
    (if stream \<in> fst ` set hs
     then update_where (\<lambda>h. fst h = stream) (\<lambda>h. (fst h, max (snd h) seq)) hs
     else hs @ [(stream, seq)])"

definition offer :: "string \<Rightarrow> Message \<Rightarrow> string \<times> channel \<Rightarrow> string \<times> channel" where
  "offer stream m e =
    (if fst e = stream \<and> length (ch_queue (snd e)) < ch_cap (snd e)
     then (fst e, (snd e)\<lparr>ch_queue := ch_queue (snd e) @ [m]\<rparr>) else e)"

definition new_message :: "PublishOpts \<Rightarrow> string \<Rightarrow> int \<Rightarrow> int \<Rightarrow> Message" where
  "new_message opts i seq now =
    \<lparr>msg_ID = i, msg_Seq = seq, msg_Stream = po_Stream opts, msg_SenderID = po_SenderID opts,
     msg_SenderName = po_SenderName opts, msg_Body = po_Body opts, msg_ThreadID = po_ThreadID opts,
     msg_ReplyTo = po_ReplyTo opts, msg_NoReply = po_NoReply opts, msg_CreatedAt = rfc3339nano now,
     msg_System = isSystemSender (po_SenderID opts)\<rparr>"

definition Publish ::
  "MsgStore \<Rightarrow> PublishOpts \<Rightarrow> string \<Rightarrow> int \<Rightarrow> MsgStore \<times> (msg_error, Message) result" where
  "Publish s opts i now =
    (let seq = last_seq s (po_Stream opts) + 1; m = new_message opts i seq now
     in if i \<in> msg_ID ` set (messages s) then (s, Inl MsgConstraint)
        else (s\<lparr>messages := messages s @ [m],
                stream_hwm := bump_hwm (po_Stream opts) seq (stream_hwm s),
                subs := map (offer (po_Stream opts) m) (subs s)\<rparr>, Inr m))"

section \<open>Reading and acknowledging\<close>

definition ack_seq_of :: "MsgStore \<Rightarrow> string \<Rightarrow> string \<Rightarrow> int" where
  "ack_seq_of s subscriber stream =
    (case find (\<lambda>c. cur_subscriber c = subscriber \<and> cur_stream c = stream) (cursors s) of
       None \<Rightarrow> 0 | Some c \<Rightarrow> cur_ack_seq c)"

definition is_acked :: "MsgStore \<Rightarrow> string \<Rightarrow> Message \<Rightarrow> bool" where
  "is_acked s subscriber m \<longleftrightarrow>
    msg_Seq m \<le> ack_seq_of s subscriber (msg_Stream m) \<or>
    (subscriber, msg_Stream m, msg_Seq m) \<in> set (acked s)"

definition Read_msgs ::
  "MsgStore \<Rightarrow> string \<Rightarrow> string \<Rightarrow> bool \<Rightarrow> string \<Rightarrow> Message list" where
  "Read_msgs s stream subscriber onlyUnread threadID =
    map (\<lambda>m. m\<lparr>msg_System := isSystemSender (msg_SenderID m)\<rparr>)
      (sort_key msg_Seq
        (filter (\<lambda>m. msg_Stream m = stream \<and>
            (onlyUnread \<and> subscriber \<noteq> [] \<longrightarrow> \<not> is_acked s subscriber m) \<and>
            (threadID \<noteq> [] \<longrightarrow> msg_ThreadID m = threadID)) (messages s)))"

definition inbox_of :: "string \<Rightarrow> string" where
  "inbox_of self = ''inbox:'' @ self"

definition takeLast :: "nat \<Rightarrow> 'a list \<Rightarrow> 'a list" where
  "takeLast n xs = drop (length xs - n) xs"

definition in_conversation :: "string \<Rightarrow> Message \<Rightarrow> bool" where
  "in_conversation self m \<longleftrightarrow>
    msg_Stream m = inbox_of self \<or>
    msg_SenderID m = self \<and> prefix ''inbox:'' (msg_Stream m) \<and> msg_Stream m \<noteq> inbox_of self"

definition Conversation :: "MsgStore \<Rightarrow> string \<Rightarrow> int \<Rightarrow> Message list" where
  "Conversation s self limit =
    (let ms = filter (in_conversation self) (messages s)
     in map (\<lambda>m. m\<lparr>msg_System := isSystemSender (msg_SenderID m)\<rparr>)
          (if 0 < limit then takeLast (nat limit) ms else ms))"

definition Ack :: "MsgStore \<Rightarrow> string \<Rightarrow> string \<Rightarrow> int \<Rightarrow> int \<Rightarrow> MsgStore" where
  "Ack s stream subscriber upToSeq now =
    (let p = (\<lambda>c. cur_subscriber c = subscriber \<and> cur_stream c = stream)
     in if \<exists>c \<in> set (cursors s). p c
        then s\<lparr>cursors := update_where p (\<lambda>c. c\<lparr>cur_ack_seq := max (cur_ack_seq c) upToSeq,
                 cur_updated_at := rfc3339nano now\<rparr>) (cursors s)\<rparr>
        else s\<lparr>cursors := cursors s @ [\<lparr>cur_subscriber = subscriber, cur_stream = stream,
                 cur_ack_seq = upToSeq, cur_updated_at = rfc3339nano now\<rparr>]\<rparr>)"

definition AckMessages ::
  "MsgStore \<Rightarrow> string \<Rightarrow> string \<Rightarrow> int list \<Rightarrow> MsgStore" where
  "AckMessages s stream subscriber seqs =
    s\<lparr>acked := fold (\<lambda>q xs. if (subscriber, stream, q) \<in> set xs then xs else xs @ [(subscriber, stream, q)])
        seqs (acked s)\<rparr>"

definition AckLatest :: "MsgStore \<Rightarrow> string \<Rightarrow> string \<Rightarrow> int \<Rightarrow> MsgStore" where
  "AckLatest s stream subscriber now = Ack s stream subscriber (last_seq s stream) now"

definition TotalUnread :: "MsgStore \<Rightarrow> string \<Rightarrow> nat" where
  "TotalUnread s subscriber =
    length (filter (\<lambda>m. msg_Stream m = inbox_of subscriber \<and>
      ack_seq_of s subscriber (msg_Stream m) < msg_Seq m \<and>
      (subscriber, msg_Stream m, msg_Seq m) \<notin> set (acked s)) (messages s))"

section \<open>Opening\<close>

definition initSchema :: "MsgStore \<Rightarrow> MsgStore" where
  "initSchema s =
    s\<lparr>stream_hwm := stream_hwm s @
      map (\<lambda>st. (st, max_int (map msg_Seq (filter (\<lambda>m. msg_Stream m = st) (messages s)))))
        (filter (\<lambda>st. st \<notin> fst ` set (stream_hwm s)) (dedup [] (map msg_Stream (messages s))))\<rparr>"

definition NewMsgStore :: "MsgStore \<Rightarrow> MsgStoreSettings \<Rightarrow> MsgStore" where
  "NewMsgStore tables settings =
    (let st = resolved_msg settings
     in (initSchema tables)\<lparr>subs := [], subscriberBuffer := ms_SubscriberBuffer st,
          jailListLimit := ms_JailListLimit st\<rparr>)"

definition empty_tables :: MsgStore where
  "empty_tables = \<lparr>messages = [], cursors = [], acked = [], stream_hwm = [], jailed = [], subs = [],
     subscriberBuffer = 0, jailListLimit = 0\<rparr>"

section \<open>Listing streams\<close>

definition ascii_lower :: "char \<Rightarrow> char" where
  "ascii_lower c = (if 65 \<le> byte_val c \<and> byte_val c \<le> 90 then char_of (byte_val c + 32) else c)"

text \<open>The text after its first character, where a lead byte swallows its continuation bytes.\<close>

definition drop_char :: "string \<Rightarrow> string" where
  "drop_char s =
    (case s of [] \<Rightarrow> [] | c # cs \<Rightarrow> if 192 \<le> byte_val c then dropWhile is_cont cs else cs)"

text \<open>SQLite's \<^verbatim>\<open>LIKE '_system.%'\<close>: the underscore matches any one character, letters compare without
  case.\<close>

definition like_system :: "string \<Rightarrow> bool" where
  "like_system s \<longleftrightarrow> s \<noteq> [] \<and> prefix ''system.'' (map ascii_lower (drop_char s))"

fun sqlite_substr :: "nat \<Rightarrow> string \<Rightarrow> string" where
  "sqlite_substr 0 s = []"
| "sqlite_substr (Suc n) s =
    (case s of
       [] \<Rightarrow> []
     | c # cs \<Rightarrow>
         if byte_val c = 0 then []
         else if 192 \<le> byte_val c
           then c # takeWhile is_cont cs @ sqlite_substr n (dropWhile is_cont cs)
         else c # sqlite_substr n cs)"

definition max_string :: "string list \<Rightarrow> string" where
  "max_string xs = fold max xs []"

definition stream_info :: "MsgStore \<Rightarrow> string \<Rightarrow> string \<Rightarrow> StreamInfo" where
  "stream_info s subscriber st =
    (let ms = filter (\<lambda>m. msg_Stream m = st) (messages s);
         newest = sort_key (\<lambda>m. (msg_CreatedAt m, msg_Seq m)) ms
     in \<lparr>si_Name = st, si_Total = length ms,
         si_Unread = length ms - length (filter (is_acked s subscriber) ms),
         si_LatestAt = max_string (map msg_CreatedAt ms),
         si_LatestPreview = (if newest = [] then [] else sqlite_substr 240 (msg_Body (last newest)))\<rparr>)"

definition ListStreams :: "MsgStore \<Rightarrow> string \<Rightarrow> bool \<Rightarrow> StreamInfo list" where
  "ListStreams s subscriber includeSystem =
    rev (sort_key si_LatestAt
      (map (stream_info s subscriber)
        (dedup [] (map msg_Stream
          (filter (\<lambda>m. includeSystem \<or> \<not> like_system (msg_Stream m)) (messages s))))))"

section \<open>Subscriptions\<close>

definition Subscribe :: "MsgStore \<Rightarrow> string \<Rightarrow> nat \<Rightarrow> MsgStore" where
  "Subscribe s stream ch =
    (let buffer = (if subscriberBuffer s < 1 then MessagesSubscriberBufferDefault else subscriberBuffer s)
     in s\<lparr>subs := subs s @ [(stream, \<lparr>ch_id = ch, ch_cap = nat buffer, ch_queue = []\<rparr>)]\<rparr>)"

fun remove_first :: "('a \<Rightarrow> bool) \<Rightarrow> 'a list \<Rightarrow> 'a list" where
  "remove_first p [] = []"
| "remove_first p (x # xs) = (if p x then xs else x # remove_first p xs)"

definition unsub :: "MsgStore \<Rightarrow> string \<Rightarrow> nat \<Rightarrow> MsgStore" where
  "unsub s stream ch = s\<lparr>subs := remove_first (\<lambda>e. fst e = stream \<and> ch_id (snd e) = ch) (subs s)\<rparr>"

section \<open>Retention\<close>

definition expire_age :: "string \<Rightarrow> MsgStore \<Rightarrow> MsgStore" where
  "expire_age cutoff s =
    s\<lparr>messages := filter (\<lambda>m. \<not> msg_CreatedAt m < cutoff) (messages s),
      jailed := filter (\<lambda>j. \<not> jc_JailedAt j < cutoff) (jailed s)\<rparr>"

definition newest_ids :: "nat \<Rightarrow> string \<Rightarrow> Message list \<Rightarrow> string list" where
  "newest_ids n st ms =
    take n (rev (map msg_ID (sort_key msg_Seq (filter (\<lambda>m. msg_Stream m = st) ms))))"

definition trim_stream :: "nat \<Rightarrow> string \<Rightarrow> Message list \<Rightarrow> Message list" where
  "trim_stream n st ms =
    filter (\<lambda>m. msg_Stream m = st \<longrightarrow> msg_ID m \<in> set (newest_ids n st ms)) ms"

definition over_quota :: "nat \<Rightarrow> Message list \<Rightarrow> string list" where
  "over_quota n ms =
    filter (\<lambda>st. n < length (filter (\<lambda>m. msg_Stream m = st) ms)) (dedup [] (map msg_Stream ms))"

definition trim_streams :: "nat \<Rightarrow> MsgStore \<Rightarrow> MsgStore" where
  "trim_streams n s = s\<lparr>messages := fold (trim_stream n) (over_quota n (messages s)) (messages s)\<rparr>"

definition drop_orphans :: "MsgStore \<Rightarrow> MsgStore" where
  "drop_orphans s =
    s\<lparr>acked := filter (\<lambda>(w, st, q). \<exists>m \<in> set (messages s). msg_Stream m = st \<and> msg_Seq m = q) (acked s),
      cursors := filter (\<lambda>c. \<exists>m \<in> set (messages s). msg_Stream m = cur_stream c) (cursors s)\<rparr>"

definition Cleanup :: "MsgStore \<Rightarrow> int \<Rightarrow> int \<Rightarrow> int \<Rightarrow> MsgStore \<times> nat" where
  "Cleanup s maxAge maxPerStream now =
    (let cutoff = rfc3339nano (now - maxAge);
         s1 = (if 0 < maxAge then expire_age cutoff s else s);
         s2 = (if 0 < maxPerStream then trim_streams (nat maxPerStream) s1 else s1);
         s3 = drop_orphans s2;
         s4 = (if 0 < maxAge
               then s3\<lparr>cursors := filter (\<lambda>c. \<not> cur_updated_at c < cutoff) (cursors s3)\<rparr> else s3)
     in (s4, (length (messages s) - length (messages s2)) + (length (jailed s) - length (jailed s2))))"

end
