(* ===== verification/Msg_Props.thy ===== *)
theory Msg_Props
  imports Jail
begin

text \<open>
  The message store's invariant, its transition system (one rule per operation, restarts
  included), and what it guarantees: sequence numbers are never reused even after retention
  deleted the messages that held them, acknowledgements are exact and agree across the queries,
  the retention quota keeps the newest messages, and subscriber buffers stay bounded.
\<close>

section \<open>The invariant\<close>

definition hwm_of :: "MsgStore \<Rightarrow> string \<Rightarrow> int" where
  "hwm_of s st = (case map_of (stream_hwm s) st of None \<Rightarrow> 0 | Some h \<Rightarrow> h)"

definition msg_inv :: "MsgStore \<Rightarrow> bool" where
  "msg_inv s \<longleftrightarrow>
    distinct (map msg_ID (messages s)) \<and>
    distinct (map (\<lambda>m. (msg_Stream m, msg_Seq m)) (messages s)) \<and>
    (\<forall>m \<in> set (messages s). 1 \<le> msg_Seq m \<and> msg_Seq m \<le> hwm_of s (msg_Stream m)) \<and>
    distinct (map fst (stream_hwm s)) \<and> (\<forall>h \<in> set (stream_hwm s). 1 \<le> snd h) \<and>
    distinct (map (\<lambda>c. (cur_subscriber c, cur_stream c)) (cursors s)) \<and>
    (\<forall>c \<in> set (cursors s). cur_ack_seq c \<le> hwm_of s (cur_stream c)) \<and>
    (\<forall>a \<in> set (acked s). snd (snd a) \<le> hwm_of s (fst (snd a))) \<and>
    (\<forall>e \<in> set (subs s). length (ch_queue (snd e)) \<le> ch_cap (snd e)) \<and>
    distinct (map jc_ID (jailed s)) \<and>
    distinct (map (\<lambda>j. (jc_CommentID j, jc_Surface j, jc_TargetSession j)) (jailed s))"

lemma fold_max_ge: "(a :: 'a :: linorder) \<le> fold max xs a \<and> (\<forall>x \<in> set xs. x \<le> fold max xs a)"
  by (induction xs arbitrary: a) (force simp: max_def)+

lemma fold_max_le: "(a :: 'a :: linorder) \<le> b \<Longrightarrow> (\<forall>x \<in> set xs. x \<le> b) \<Longrightarrow> fold max xs a \<le> b"
  by (induction xs arbitrary: a) auto

lemma max_int_bounds: "0 \<le> max_int xs \<and> (\<forall>x \<in> set xs. x \<le> max_int xs)"
  unfolding max_int_def by (rule fold_max_ge)

lemma max_int_le: "0 \<le> b \<Longrightarrow> (\<forall>x \<in> set xs. x \<le> b) \<Longrightarrow> max_int xs \<le> b"
  unfolding max_int_def by (rule fold_max_le)

lemma hwm_nonneg: "msg_inv s \<Longrightarrow> 0 \<le> hwm_of s st"
  by (auto simp: msg_inv_def hwm_of_def split: option.splits dest!: map_of_SomeD)

lemma last_seq_eq:
  assumes "msg_inv s"
  shows "last_seq s st = hwm_of s st"
proof -
  let ?hs = "map snd (filter (\<lambda>h. fst h = st) (stream_hwm s))"
  have hs: "max_int ?hs = hwm_of s st"
  proof (rule antisym)
    have "\<forall>x \<in> set ?hs. x \<le> hwm_of s st"
      using assms by (auto simp: msg_inv_def hwm_of_def)
    then show "max_int ?hs \<le> hwm_of s st" by (rule max_int_le [OF hwm_nonneg [OF assms]])
    show "hwm_of s st \<le> max_int ?hs"
    proof (cases "map_of (stream_hwm s) st")
      case None
      then show ?thesis using max_int_bounds [of ?hs] by (simp add: hwm_of_def)
    next
      case (Some h)
      then have "h \<in> set ?hs" by (force dest: map_of_SomeD)
      then have "h \<le> max_int ?hs" using max_int_bounds by blast
      then show ?thesis using Some by (simp add: hwm_of_def)
    qed
  qed
  moreover have "max_int (map msg_Seq (filter (\<lambda>m. msg_Stream m = st) (messages s))) \<le> hwm_of s st"
    using assms by (intro max_int_le hwm_nonneg) (auto simp: msg_inv_def)
  ultimately show ?thesis by (simp add: last_seq_def)
qed

lemma hwm_bump:
  assumes "msg_inv s" and "seq = hwm_of s st + 1"
  shows "hwm_of (s\<lparr>stream_hwm := bump_hwm st seq (stream_hwm s)\<rparr>) x = (if x = st then seq else hwm_of s x)"
proof -
  have up: "map_of (update_where (\<lambda>h. fst h = st) (\<lambda>h. (fst h, max (snd h) seq)) hs) x =
      (if x = st then map_option (\<lambda>h. max h seq) (map_of hs x) else map_of hs x)" for hs x
    by (induction hs) auto
  show ?thesis
  proof (cases "st \<in> fst ` set (stream_hwm s)")
    case True
    then obtain h where h: "map_of (stream_hwm s) st = Some h" by (metis weak_map_of_SomeI imageE prod.collapse)
    then have "max h seq = seq" using assms(2) by (simp add: hwm_of_def)
    then show ?thesis using True h by (simp add: hwm_of_def bump_hwm_def up)
  next
    case False
    then have "map_of (stream_hwm s) st = None" by (simp add: map_of_eq_None_iff)
    then show ?thesis using False by (auto simp: hwm_of_def bump_hwm_def map_add_def split: option.splits)
  qed
qed

lemma bump_hwm_ok:
  assumes "distinct (map fst hs)" and "\<forall>h \<in> set hs. 1 \<le> snd h" and "1 \<le> seq"
  shows "distinct (map fst (bump_hwm st seq hs)) \<and> (\<forall>h \<in> set (bump_hwm st seq hs). 1 \<le> snd h)"
  using assms
  by (auto simp: bump_hwm_def map_update_where_key elim!: in_update_whereE split: if_splits)

lemma Publish_Inr:
  assumes "Publish s opts i now = (t, Inr m)"
  shows "i \<notin> msg_ID ` set (messages s) \<and> m = new_message opts i (last_seq s (po_Stream opts) + 1) now \<and>
    t = s\<lparr>messages := messages s @ [m],
          stream_hwm := bump_hwm (po_Stream opts) (last_seq s (po_Stream opts) + 1) (stream_hwm s),
          subs := map (offer (po_Stream opts) m) (subs s)\<rparr>"
  using assms by (auto simp: Publish_def Let_def split: if_splits)

lemma new_message_simps [simp]:
  "msg_ID (new_message opts i seq now) = i" "msg_Seq (new_message opts i seq now) = seq"
  "msg_Stream (new_message opts i seq now) = po_Stream opts"
  "msg_SenderID (new_message opts i seq now) = po_SenderID opts"
  "msg_System (new_message opts i seq now) = isSystemSender (po_SenderID opts)"
  "msg_Body (new_message opts i seq now) = po_Body opts"
  by (simp_all add: new_message_def)

lemma hwm_of_frame [simp]:
  "hwm_of (s\<lparr>messages := a\<rparr>) st = hwm_of s st" "hwm_of (s\<lparr>subs := b\<rparr>) st = hwm_of s st"
  "hwm_of (s\<lparr>cursors := c\<rparr>) st = hwm_of s st" "hwm_of (s\<lparr>acked := d\<rparr>) st = hwm_of s st"
  "hwm_of (s\<lparr>jailed := e\<rparr>) st = hwm_of s st" "hwm_of (s\<lparr>jailListLimit := l\<rparr>) st = hwm_of s st"
  "hwm_of (s\<lparr>subscriberBuffer := k\<rparr>) st = hwm_of s st"
  by (simp_all add: hwm_of_def)

lemma Publish_hwm:
  assumes "msg_inv s" and "Publish s opts i now = (t, Inr m)"
  shows "hwm_of t x = (if x = po_Stream opts then msg_Seq m else hwm_of s x) \<and>
    msg_Seq m = hwm_of s (po_Stream opts) + 1"
proof -
  note P = Publish_Inr [OF assms(2)] and L = last_seq_eq [OF assms(1)]
  have "hwm_of t x = hwm_of (s\<lparr>stream_hwm := bump_hwm (po_Stream opts) (hwm_of s (po_Stream opts) + 1) (stream_hwm s)\<rparr>) x"
    using P by (simp add: hwm_of_def L)
  then show ?thesis using hwm_bump [OF assms(1) refl, of "po_Stream opts" x] P by (simp add: L)
qed

lemma offer_bound:
  "length (ch_queue (snd e)) \<le> ch_cap (snd e) \<Longrightarrow>
    length (ch_queue (snd (offer st m e))) \<le> ch_cap (snd (offer st m e))"
  by (simp add: offer_def)

lemma Publish_inv:
  assumes "msg_inv s"
  shows "msg_inv (fst (Publish s opts i now))"
proof (cases "Publish s opts i now")
  case (Pair t r)
  show ?thesis
  proof (cases r)
    case (Inl e)
    then show ?thesis using Pair assms by (auto simp: Publish_def Let_def split: if_splits)
  next
    case (Inr m)
    note pub = Pair [unfolded Inr]
    note P = Publish_Inr [OF pub] and H = Publish_hwm [OF assms pub]
    have seq: "msg_Seq m = last_seq s (po_Stream opts) + 1" and st: "msg_Stream m = po_Stream opts"
      using P by auto
    have old: "msg_Seq x < msg_Seq m" if "x \<in> set (messages s)" "msg_Stream x = msg_Stream m" for x
      using that assms H [of "po_Stream opts"] st by (auto simp: msg_inv_def)
    have "distinct (map (\<lambda>m. (msg_Stream m, msg_Seq m)) (messages t))"
      using P assms old by (fastforce simp: msg_inv_def)
    moreover have "1 \<le> msg_Seq x \<and> msg_Seq x \<le> hwm_of t (msg_Stream x)" if "x \<in> set (messages t)" for x
    proof (cases "x = m")
      case True
      then show ?thesis using H [of "po_Stream opts"] hwm_nonneg [OF assms, of "po_Stream opts"] st by simp
    next
      case False
      then have "x \<in> set (messages s)" using that P by simp
      then show ?thesis
        using assms H [of "msg_Stream x"] H [of "po_Stream opts"] by (fastforce simp: msg_inv_def)
    qed
    moreover have "distinct (map fst (stream_hwm t)) \<and> (\<forall>h \<in> set (stream_hwm t). 1 \<le> snd h)"
    proof -
      have one: "1 \<le> hwm_of s (po_Stream opts) + 1" using hwm_nonneg [OF assms, of "po_Stream opts"] by simp
      have hs: "distinct (map fst (stream_hwm s))" "\<forall>h \<in> set (stream_hwm s). 1 \<le> snd h"
        using assms by (simp_all add: msg_inv_def)
      have eq: "stream_hwm t = bump_hwm (po_Stream opts) (hwm_of s (po_Stream opts) + 1) (stream_hwm s)"
        using P by (simp add: last_seq_eq [OF assms])
      show ?thesis unfolding eq by (rule bump_hwm_ok [OF hs one])
    qed
    moreover have "\<forall>e \<in> set (subs t). length (ch_queue (snd e)) \<le> ch_cap (snd e)"
      using P assms by (auto simp: msg_inv_def intro: offer_bound)
    moreover have mono: "hwm_of s x \<le> hwm_of t x" for x using H [of x] H [of "po_Stream opts"] by simp
    have "cur_ack_seq c \<le> hwm_of t (cur_stream c)" if "c \<in> set (cursors t)" for c
      using that P assms mono [of "cur_stream c"] by (fastforce simp: msg_inv_def)
    moreover have "snd (snd a) \<le> hwm_of t (fst (snd a))" if "a \<in> set (acked t)" for a
      using that P assms mono [of "fst (snd a)"] by (fastforce simp: msg_inv_def)
    ultimately show ?thesis using P assms Pair by (auto simp: msg_inv_def)
  qed
qed

section \<open>Steps\<close>

text \<open>A consumer takes the head of its channel.\<close>

definition receive :: "MsgStore \<Rightarrow> nat \<Rightarrow> MsgStore" where
  "receive s ch =
    s\<lparr>subs := update_where (\<lambda>e. ch_id (snd e) = ch)
      (\<lambda>e. (fst e, (snd e)\<lparr>ch_queue := tl (ch_queue (snd e))\<rparr>)) (subs s)\<rparr>"

text \<open>The callers acknowledge sequence numbers of messages they read, so never beyond the stream's
  high-water mark (\<^verbatim>\<open>readMessageStream\<close>, msg_stream_read.go).\<close>

inductive msg_step :: "MsgStore \<Rightarrow> MsgStore \<Rightarrow> bool" where
  mstep_Publish: "msg_step s (fst (Publish s opts i now))"
| mstep_Ack: "upToSeq \<le> hwm_of s stream \<Longrightarrow> msg_step s (Ack s stream subscriber upToSeq now)"
| mstep_AckMessages: "(\<And>q. q \<in> set seqs \<Longrightarrow> q \<le> hwm_of s stream) \<Longrightarrow>
    msg_step s (AckMessages s stream subscriber seqs)"
| mstep_AckLatest: "msg_step s (AckLatest s stream subscriber now)"
| mstep_Subscribe: "msg_step s (Subscribe s stream ch)"
| mstep_unsub: "msg_step s (unsub s stream ch)"
| mstep_receive: "msg_step s (receive s ch)"
| mstep_Cleanup: "msg_step s (fst (Cleanup s maxAge maxPerStream now))"
| mstep_limit: "msg_step s (SetJailListLimit s limit)"
| mstep_reopen: "msg_step s (NewMsgStore s settings)"
| mstep_Jail: "msg_step s (fst (Jail_comment s j i now))"
| mstep_MarkReleased: "msg_step s (fst (MarkReleased s i now))"
| mstep_Unrelease: "msg_step s (fst (Unrelease s i))"

inductive msg_init :: "MsgStore \<Rightarrow> bool" where
  "msg_init (NewMsgStore empty_tables settings)"

lemma msg_inv_shrink:
  assumes "msg_inv s" and "messages t = filter P (messages s)" and "stream_hwm t = stream_hwm s"
    and "cursors t = filter Q (cursors s)" and "subs t = subs s" and "jailed t = filter R (jailed s)"
    and "set (acked t) \<subseteq> set (acked s)"
  shows "msg_inv t"
proof -
  have "hwm_of t st = hwm_of s st" for st using assms(3) by (simp add: hwm_of_def)
  then show ?thesis using assms by (auto simp: msg_inv_def distinct_map_filter_key dest: subsetD)
qed

lemma trim_fold_filter: "\<exists>Q. fold (trim_stream n) sts ms = filter Q ms"
proof (induction sts arbitrary: ms)
  case Nil
  have "fold (trim_stream n) [] ms = filter (\<lambda>_. True) ms" by simp
  then show ?case by blast
next
  case (Cons st sts)
  obtain Q where "fold (trim_stream n) sts (trim_stream n st ms) = filter Q (trim_stream n st ms)"
    using Cons by blast
  then have "fold (trim_stream n) (st # sts) ms =
      filter (\<lambda>m. Q m \<and> (msg_Stream m = st \<longrightarrow> msg_ID m \<in> set (newest_ids n st ms))) ms"
    by (simp add: trim_stream_def conj_commute)
  then show ?case by blast
qed

lemma Cleanup_shape:
  "\<exists>P Q R. messages (fst (Cleanup s a n now)) = filter P (messages s) \<and>
    cursors (fst (Cleanup s a n now)) = filter Q (cursors s) \<and>
    jailed (fst (Cleanup s a n now)) = filter R (jailed s) \<and>
    stream_hwm (fst (Cleanup s a n now)) = stream_hwm s \<and> subs (fst (Cleanup s a n now)) = subs s \<and>
    set (acked (fst (Cleanup s a n now))) \<subseteq> set (acked s)"
proof -
  define s1 where "s1 = (if 0 < a then expire_age (rfc3339nano (now - a)) s else s)"
  define s2 where "s2 = (if 0 < n then trim_streams (nat n) s1 else s1)"
  have "\<exists>P R. messages s1 = filter P (messages s) \<and> jailed s1 = filter R (jailed s) \<and>
      cursors s1 = cursors s \<and> acked s1 = acked s \<and> stream_hwm s1 = stream_hwm s \<and> subs s1 = subs s"
    by (cases "0 < a") (auto simp: s1_def expire_age_def intro: exI [of _ "\<lambda>_. True"])
  moreover have "\<exists>P. messages s2 = filter P (messages s1) \<and> jailed s2 = jailed s1 \<and>
      cursors s2 = cursors s1 \<and> acked s2 = acked s1 \<and> stream_hwm s2 = stream_hwm s1 \<and> subs s2 = subs s1"
    using trim_fold_filter [of "nat n" "over_quota (nat n) (messages s1)" "messages s1"]
    by (cases "0 < n") (auto simp: s2_def trim_streams_def intro: exI [of _ "\<lambda>_. True"])
  moreover have "fst (Cleanup s a n now) =
      (if 0 < a then (drop_orphans s2)\<lparr>cursors := filter (\<lambda>c. \<not> cur_updated_at c < rfc3339nano (now - a))
         (cursors (drop_orphans s2))\<rparr> else drop_orphans s2)"
    by (simp add: Cleanup_def Let_def s1_def s2_def)
  ultimately show ?thesis by (cases "0 < a") (auto simp: drop_orphans_def)
qed

lemma Cleanup_inv: "msg_inv s \<Longrightarrow> msg_inv (fst (Cleanup s a n now))"
  using Cleanup_shape [of s a n now] msg_inv_shrink by blast

lemma Ack_inv: "msg_inv s \<Longrightarrow> q \<le> hwm_of s st \<Longrightarrow> msg_inv (Ack s st w q now)"
proof -
  assume inv: "msg_inv s" and q: "q \<le> hwm_of s st"
  let ?p = "\<lambda>c. cur_subscriber c = w \<and> cur_stream c = st"
  let ?g = "\<lambda>c. c\<lparr>cur_ack_seq := max (cur_ack_seq c) q, cur_updated_at := rfc3339nano now\<rparr>"
  define cs where "cs = cursors (Ack s st w q now)"
  have s': "Ack s st w q now = s\<lparr>cursors := cs\<rparr>" by (simp add: cs_def Ack_def Let_def)
  have "distinct (map (\<lambda>c. (cur_subscriber c, cur_stream c)) cs)"
    using inv by (auto simp: cs_def Ack_def Let_def msg_inv_def map_update_where_key)
  moreover have "\<forall>c \<in> set cs. cur_ack_seq c \<le> hwm_of s (cur_stream c)"
  proof (cases "\<exists>c \<in> set (cursors s). ?p c")
    case True
    then have cs: "cs = update_where ?p ?g (cursors s)" by (simp add: cs_def Ack_def Let_def)
    show ?thesis
    proof
      fix c assume "c \<in> set cs"
      then obtain c0 where c0: "c0 \<in> set (cursors s)" "c = (if ?p c0 then ?g c0 else c0)"
        unfolding cs by (rule in_update_whereE)
      then show "cur_ack_seq c \<le> hwm_of s (cur_stream c)"
        using inv q by (cases "?p c0") (auto simp: msg_inv_def)
    qed
  next
    case False
    then have "cs = cursors s @ [\<lparr>cur_subscriber = w, cur_stream = st, cur_ack_seq = q,
        cur_updated_at = rfc3339nano now\<rparr>]" unfolding cs_def Ack_def Let_def if_not_P [OF False] by simp
    then show ?thesis using inv q by (auto simp: msg_inv_def)
  qed
  ultimately show ?thesis using inv by (simp add: s' msg_inv_def)
qed

lemma set_ack_fold:
  "set (fold (\<lambda>q xs. if (w, st, q) \<in> set xs then xs else xs @ [(w, st, q)]) qs as) =
    set as \<union> {(w, st, q) | q. q \<in> set qs}"
  by (induction qs arbitrary: as) auto

lemma AckMessages_inv:
  "msg_inv s \<Longrightarrow> (\<And>q. q \<in> set qs \<Longrightarrow> q \<le> hwm_of s st) \<Longrightarrow> msg_inv (AckMessages s st w qs)"
  by (auto simp: msg_inv_def AckMessages_def set_ack_fold)

lemma initSchema_id:
  assumes "msg_inv s"
  shows "initSchema s = s"
proof -
  have "msg_Stream m \<in> fst ` set (stream_hwm s)" if "m \<in> set (messages s)" for m
  proof (rule ccontr)
    assume "\<not> ?thesis"
    then have "map_of (stream_hwm s) (msg_Stream m) = None" by (simp add: map_of_eq_None_iff)
    then have "hwm_of s (msg_Stream m) = 0" by (simp add: hwm_of_def)
    then show False using that assms by (auto simp: msg_inv_def)
  qed
  then have "filter (\<lambda>st. st \<notin> fst ` set (stream_hwm s)) (dedup [] (map msg_Stream (messages s))) = []"
    by (auto simp: filter_empty_conv set_dedup)
  then show ?thesis by (simp add: initSchema_def)
qed

lemma remove_first_subset: "set (remove_first p xs) \<subseteq> set xs"
  by (induction xs) auto

lemma NewMsgStore_inv: "msg_inv s \<Longrightarrow> msg_inv (NewMsgStore s settings)"
  by (simp add: NewMsgStore_def Let_def initSchema_id) (simp add: msg_inv_def)

lemma Jail_comment_inv: "msg_inv s \<Longrightarrow> msg_inv (fst (Jail_comment s j i now))"
  by (auto simp: Jail_comment_def Let_def msg_inv_def same_comment_def)

lemma jailed_update_inv:
  assumes "msg_inv s" and "\<And>j. jc_ID (g j) = jc_ID j \<and> jc_CommentID (g j) = jc_CommentID j \<and>
    jc_Surface (g j) = jc_Surface j \<and> jc_TargetSession (g j) = jc_TargetSession j"
  shows "msg_inv (s\<lparr>jailed := update_where p g (jailed s)\<rparr>)"
  using assms by (simp add: msg_inv_def map_update_where_key)

lemma msg_step_inv: "msg_step s t \<Longrightarrow> msg_inv s \<Longrightarrow> msg_inv t"
proof (induction rule: msg_step.induct)
  case (mstep_receive s ch)
  then show ?case by (force simp: receive_def msg_inv_def elim!: in_update_whereE)
next
  case (mstep_unsub s stream ch)
  then show ?case using remove_first_subset by (fastforce simp: unsub_def msg_inv_def)
next
  case (mstep_MarkReleased s i now)
  then show ?case
    by (auto simp: MarkReleased_def intro!: jailed_update_inv split: option.splits)
next
  case (mstep_Unrelease s i)
  then show ?case by (auto simp: Unrelease_def Let_def intro!: jailed_update_inv)
next
  case (mstep_AckMessages seqs s)
  then show ?case by (intro AckMessages_inv) auto
qed (simp_all add: Publish_inv Ack_inv AckLatest_def Cleanup_inv NewMsgStore_inv Jail_comment_inv last_seq_eq,
     auto simp: msg_inv_def Subscribe_def Let_def SetJailListLimit_def)

lemma empty_tables_inv: "msg_inv empty_tables"
  by (simp add: msg_inv_def empty_tables_def)

interpretation mq: invariant_system msg_init msg_step msg_inv
  by unfold_locales (auto elim!: msg_init.cases intro: msg_step_inv NewMsgStore_inv empty_tables_inv)

section \<open>Sequence numbers\<close>

lemma msg_step_hwm: "msg_step s t \<Longrightarrow> msg_inv s \<Longrightarrow> hwm_of s st \<le> hwm_of t st"
proof (induction rule: msg_step.induct)
  case (mstep_Publish s opts i now)
  show ?case
  proof (cases "Publish s opts i now")
    case (Pair t r)
    then show ?thesis
    proof (cases r)
      case (Inl e)
      then show ?thesis using Pair by (auto simp: Publish_def Let_def split: if_splits)
    next
      case (Inr m)
      then show ?thesis using Publish_hwm [OF mstep_Publish, of opts i now t m st] Pair by simp
    qed
  qed
next
  case (mstep_Cleanup s maxAge maxPerStream now)
  then show ?case using Cleanup_shape [of s maxAge maxPerStream now] by (auto simp: hwm_of_def)
next
  case (mstep_reopen s settings)
  then show ?case by (simp add: NewMsgStore_def Let_def initSchema_id)
qed (simp_all add: Ack_def AckLatest_def AckMessages_def Subscribe_def unsub_def receive_def Let_def
      SetJailListLimit_def Jail_comment_def MarkReleased_def Unrelease_def split: option.splits)

lemma msg_steps_hwm: "msg_step\<^sup>*\<^sup>* s t \<Longrightarrow> msg_inv s \<Longrightarrow> hwm_of s st \<le> hwm_of t st"
proof (induction rule: rtranclp_induct)
  case (step t u)
  then have "msg_inv t" using mq.steps_inv by blast
  then show ?case using step msg_step_hwm by (meson order_trans)
qed simp

text \<open>C13: a message published to a stream gets a sequence number higher than every number used in the
  stream before, also when the messages that had them were deleted by retention, and after any
  number of restarts: later publications to the stream always number higher than earlier ones.\<close>

theorem publish_seq_increasing:
  assumes "msg_inv s" and "Publish s opts i now = (t, Inr m)" and "msg_step\<^sup>*\<^sup>* t u"
    and "Publish u opts' i' now' = (v, Inr m')" and "po_Stream opts' = po_Stream opts"
  shows "msg_Seq m < msg_Seq m' \<and> (\<forall>x \<in> set (messages s). msg_Stream x = po_Stream opts \<longrightarrow> msg_Seq x < msg_Seq m)"
proof -
  have t: "msg_inv t" using Publish_inv [OF assms(1), of opts i now] assms(2) by simp
  then have u: "msg_inv u" using mq.steps_inv [OF assms(3)] by simp
  have "msg_Seq m = hwm_of t (po_Stream opts)" "msg_Seq m = hwm_of s (po_Stream opts) + 1"
    using Publish_hwm [OF assms(1,2)] by auto
  moreover have "msg_Seq m' = hwm_of u (po_Stream opts) + 1"
    using Publish_hwm [OF u assms(4)] assms(5) by auto
  moreover have "hwm_of t (po_Stream opts) \<le> hwm_of u (po_Stream opts)"
    by (rule msg_steps_hwm [OF assms(3) t])
  ultimately show ?thesis using assms(1) by (fastforce simp: msg_inv_def)
qed

definition example_opts :: PublishOpts where
  "example_opts = \<lparr>po_Stream = ''t'', po_SenderID = ''a'', po_SenderName = ''a'', po_Body = ''b'',
     po_ThreadID = [], po_ReplyTo = [], po_NoReply = False\<rparr>"

lemma Publish_some:
  assumes "i \<notin> msg_ID ` set (messages s)"
  obtains t m where "Publish s opts i now = (t, Inr m)"
  using assms by (simp add: Publish_def Let_def)

theorem publish_seq_increasing_witness:
  "\<exists>t m v m'. Publish empty_tables example_opts ''1'' 0 = (t, Inr m) \<and>
    Publish (fst (Cleanup t 1 0 1000)) example_opts ''2'' 0 = (v, Inr m') \<and> msg_Seq m < msg_Seq m'"
proof -
  obtain t m where t: "Publish empty_tables example_opts ''1'' 0 = (t, Inr m)"
    by (rule Publish_some [of "''1''" empty_tables]) (simp add: empty_tables_def)
  have "msg_ID ` set (messages t) = {''1''}"
    using Publish_Inr [OF t] by (auto simp: empty_tables_def)
  moreover have "set (messages (fst (Cleanup t 1 0 1000))) \<subseteq> set (messages t)"
    using Cleanup_shape [of t 1 0 1000] by auto
  ultimately have "msg_ID ` set (messages (fst (Cleanup t 1 0 1000))) \<subseteq> {''1''}"
    using image_mono by metis
  then have "''2'' \<notin> msg_ID ` set (messages (fst (Cleanup t 1 0 1000)))" by fastforce
  then obtain v m' where v: "Publish (fst (Cleanup t 1 0 1000)) example_opts ''2'' 0 = (v, Inr m')"
    by (rule Publish_some)
  have "msg_step\<^sup>*\<^sup>* t (fst (Cleanup t 1 0 1000))" by (rule r_into_rtranclp) (rule mstep_Cleanup)
  from publish_seq_increasing [OF empty_tables_inv t this v] t v show ?thesis by auto
qed

section \<open>Acknowledgements\<close>

lemma find_cursor_update:
  "find (\<lambda>c. cur_subscriber c = w' \<and> cur_stream c = st')
      (update_where (\<lambda>c. cur_subscriber c = w \<and> cur_stream c = st)
        (\<lambda>c. c\<lparr>cur_ack_seq := f c, cur_updated_at := u\<rparr>) cs) =
    map_option (\<lambda>c. if cur_subscriber c = w \<and> cur_stream c = st
        then c\<lparr>cur_ack_seq := f c, cur_updated_at := u\<rparr> else c)
      (find (\<lambda>c. cur_subscriber c = w' \<and> cur_stream c = st') cs)"
  by (induction cs) auto

lemma find_cursor_append:
  "find P (xs @ [c :: cursor]) = (case find P xs of None \<Rightarrow> if P c then Some c else None | Some x \<Rightarrow> Some x)"
  by (induction xs) auto

lemma Ack_cursor:
  assumes "msg_inv s"
  shows "q \<le> ack_seq_of (Ack s st w q now) w st \<and>
    (q \<le> hwm_of s st \<longrightarrow> ack_seq_of (Ack s st w q now) w st \<le> hwm_of s st)"
proof (cases "find (\<lambda>c. cur_subscriber c = w \<and> cur_stream c = st) (cursors s)")
  case None
  then have no: "\<not> (\<exists>c \<in> set (cursors s). cur_subscriber c = w \<and> cur_stream c = st)"
    by (auto simp: find_None_iff)
  show ?thesis
    unfolding Ack_def Let_def if_not_P [OF no]
    using None by (simp add: ack_seq_of_def find_cursor_append)
next
  case (Some c)
  then have c: "c \<in> set (cursors s)" "cur_subscriber c = w" "cur_stream c = st"
    by (auto dest: find_Some_iff_filter)
  then have "cur_ack_seq c \<le> hwm_of s st" using assms by (auto simp: msg_inv_def)
  moreover have "Ack s st w q now = s\<lparr>cursors := update_where (\<lambda>c. cur_subscriber c = w \<and> cur_stream c = st)
      (\<lambda>c. c\<lparr>cur_ack_seq := max (cur_ack_seq c) q, cur_updated_at := rfc3339nano now\<rparr>) (cursors s)\<rparr>"
    using c by (auto simp: Ack_def Let_def)
  ultimately show ?thesis using Some c by (simp add: ack_seq_of_def find_cursor_update)
qed

lemma Ack_messages [simp]:
  "messages (Ack s st w q now) = messages s" "acked (Ack s st w q now) = acked s"
  by (simp_all add: Ack_def Let_def)

lemma sort_key_Nil_iff: "sort_key f xs = [] \<longleftrightarrow> xs = []"
  using length_sort [of f xs] by (simp only: length_0_conv [symmetric])

text \<open>Acknowledging the latest message of a stream leaves nothing unread in it for that subscriber,
  and a message published afterwards is then the only unread one.\<close>

theorem AckLatest_clears:
  assumes inv: "msg_inv s" and w: "w \<noteq> []" and st: "po_Stream opts = st"
    and pub: "Publish (AckLatest s st w now) opts i now' = (t, Inr m)"
  shows "Read_msgs (AckLatest s st w now) st w True [] = [] \<and> Read_msgs t st w True [] = [m]"
proof -
  let ?a = "AckLatest s st w now"
  have a: "ack_seq_of ?a w st = hwm_of s st"
    using Ack_cursor [OF inv, of "hwm_of s st" st w now] by (simp add: AckLatest_def last_seq_eq [OF inv])
  have ainv: "msg_inv ?a" using Ack_inv [OF inv, of "hwm_of s st"] by (simp add: AckLatest_def last_seq_eq [OF inv])
  have ms: "messages ?a = messages s" by (simp add: AckLatest_def)
  have h: "hwm_of ?a st = hwm_of s st" by (simp add: AckLatest_def Ack_def Let_def)
  have read: "filter (\<lambda>x. msg_Stream x = st \<and> \<not> is_acked ?a w x) (messages s) = []"
    using inv a by (auto simp: filter_empty_conv is_acked_def msg_inv_def)
  then have "Read_msgs ?a st w True [] = []" using w by (simp add: Read_msgs_def ms)
  moreover have "Read_msgs t st w True [] = [m]"
  proof -
    note P = Publish_Inr [OF pub] and H = Publish_hwm [OF ainv pub]
    have same: "is_acked t w x = is_acked ?a w x" for x
      using P by (auto simp: is_acked_def ack_seq_of_def)
    have "msg_Seq m = hwm_of s st + 1" using H st h by simp
    then have "(w, st, msg_Seq m) \<notin> set (acked ?a)" using ainv h by (fastforce simp: msg_inv_def)
    then have "\<not> is_acked ?a w m" using P st a \<open>msg_Seq m = hwm_of s st + 1\<close> by (simp add: is_acked_def)
    moreover have "messages t = messages s @ [m]" "msg_Stream m = st" using P ms st by simp_all
    ultimately have "filter (\<lambda>x. msg_Stream x = st \<and> \<not> is_acked t w x) (messages t) = [m]"
      using read by (simp add: same)
    moreover have "m\<lparr>msg_System := isSystemSender (msg_SenderID m)\<rparr> = m"
      using P by (simp add: new_message_def)
    ultimately show ?thesis using w by (simp add: Read_msgs_def)
  qed
  ultimately show ?thesis ..
qed

theorem AckLatest_clears_witness:
  "\<exists>t m. Publish (AckLatest empty_tables ''t'' ''w'' 0) example_opts ''1'' 0 = (t, Inr m) \<and>
    Read_msgs t ''t'' ''w'' True [] = [m]"
proof -
  obtain t m where t: "Publish (AckLatest empty_tables ''t'' ''w'' 0) example_opts ''1'' 0 = (t, Inr m)"
  proof (rule Publish_some)
    show "''1'' \<notin> msg_ID ` set (messages (AckLatest empty_tables ''t'' ''w'' 0))"
      by (simp add: AckLatest_def) (simp add: empty_tables_def)
  qed
  have "po_Stream example_opts = ''t''" by (simp add: example_opts_def)
  from AckLatest_clears [OF empty_tables_inv _ this t] t show ?thesis by auto
qed

lemma length_Read_unread:
  assumes "w \<noteq> []"
  shows "length (Read_msgs s st w True []) =
    length (filter (\<lambda>m. msg_Stream m = st \<and> \<not> is_acked s w m) (messages s))"
  using assms by (simp add: Read_msgs_def)

lemma length_filter_complement: "length xs - length (filter P xs) = length (filter (\<lambda>x. \<not> P x) xs)"
  using sum_length_filter_compl [of P xs] by simp

text \<open>The queries agree on what is unread: the badge count of a subscriber's inbox, the per-stream
  unread and total counts of the stream listing, and the messages an unread read returns all count
  the same messages.\<close>

theorem unread_counts_agree:
  assumes "w \<noteq> []"
  shows "TotalUnread s w = length (Read_msgs s (inbox_of w) w True []) \<and>
    (\<forall>x \<in> set (ListStreams s w sys). si_Unread x = length (Read_msgs s (si_Name x) w True []) \<and>
       si_Total x = length (Read_msgs s (si_Name x) w False []))"
proof -
  have "TotalUnread s w = length (Read_msgs s (inbox_of w) w True [])"
    unfolding length_Read_unread [OF assms] TotalUnread_def
    by (rule arg_cong [where f = length], rule filter_cong) (auto simp: is_acked_def)
  moreover have "si_Unread (stream_info s w st) = length (Read_msgs s st w True [])" for st
    unfolding length_Read_unread [OF assms]
    by (simp add: stream_info_def Let_def length_filter_complement conj_commute)
  moreover have "si_Total (stream_info s w st) = length (Read_msgs s st w False [])" for st
    by (simp add: stream_info_def Let_def Read_msgs_def)
  moreover have "si_Name (stream_info s w st) = st" for st by (simp add: stream_info_def Let_def)
  ultimately show ?thesis by (auto simp: ListStreams_def)
qed

definition example_msgs :: MsgStore where
  "example_msgs = fst (Publish (fst (Publish empty_tables example_opts ''1'' 0)) example_opts ''2'' 0)"

lemma example_msgs_inv: "msg_inv example_msgs"
  unfolding example_msgs_def by (intro Publish_inv empty_tables_inv)

theorem unread_counts_agree_witness:
  "TotalUnread example_msgs ''w'' = length (Read_msgs example_msgs (inbox_of ''w'') ''w'' True [])"
  using unread_counts_agree [of "''w''" example_msgs] by simp

section \<open>Retention\<close>

text \<open>An element of a list with distinct keys is among the \<open>n\<close> largest exactly when fewer than \<open>n\<close>
  elements have a larger key.\<close>

lemma in_take_rev_sorted:
  assumes "sorted (map f ys)" and "distinct (map f ys)" and "x \<in> set ys"
  shows "x \<in> set (take n (rev ys)) \<longleftrightarrow> length (filter (\<lambda>y. f x < f y) ys) < n"
proof -
  from assms(3) obtain as bs where ys: "ys = as @ x # bs" by (auto dest: split_list)
  have "\<forall>y \<in> set as. f y \<le> f x" "\<forall>y \<in> set bs. f x < f y"
    using assms(1,2) by (auto simp: ys sorted_append order.strict_iff_order image_iff)
  then have "filter (\<lambda>y. f x < f y) ys = bs" by (auto simp: ys filter_empty_conv)
  moreover have "x \<notin> set bs" "x \<notin> set as" using assms(2) by (auto simp: ys)
  moreover have "take n (rev ys) = (if n \<le> length bs then take n (rev bs) else rev bs @ x # take (n - length bs - 1) (rev as))"
    by (simp add: ys take_Cons' not_le)
  moreover have "x \<notin> set (take n (rev bs))" using \<open>x \<notin> set bs\<close> by (auto dest: in_set_takeD)
  ultimately show ?thesis by auto
qed

definition newer :: "Message list \<Rightarrow> Message \<Rightarrow> nat" where
  "newer ms m = length (filter (\<lambda>x. msg_Stream x = msg_Stream m \<and> msg_Seq m < msg_Seq x) ms)"

lemma newest_ids_iff:
  assumes "distinct (map (\<lambda>m. (msg_Stream m, msg_Seq m)) ms)" and "distinct (map msg_ID ms)"
    and m: "m \<in> set ms" "msg_Stream m = st"
  shows "msg_ID m \<in> set (newest_ids n st ms) \<longleftrightarrow> newer ms m < n"
proof -
  let ?ys = "sort_key msg_Seq (filter (\<lambda>m. msg_Stream m = st) ms)"
  have "distinct (map msg_Seq (filter (\<lambda>m. msg_Stream m = st) ms))"
    using assms(1) by (auto simp: distinct_map inj_on_def)
  then have dist: "distinct (map msg_Seq ?ys)" by (simp add: distinct_map)
  have "msg_ID m \<in> set (newest_ids n st ms) \<longleftrightarrow> msg_ID m \<in> msg_ID ` set (take n (rev ?ys))"
    by (simp add: newest_ids_def rev_map take_map)
  also have "\<dots> \<longleftrightarrow> m \<in> set (take n (rev ?ys))"
  proof -
    have "set (take n (rev ?ys)) \<subseteq> set ms" using set_take_subset [of n "rev ?ys"] by auto
    then show ?thesis using assms(2) m(1) by (auto simp: distinct_map dest: inj_onD)
  qed
  also have "\<dots> \<longleftrightarrow> length (filter (\<lambda>y. msg_Seq m < msg_Seq y) ?ys) < n"
    using m by (intro in_take_rev_sorted [OF _ dist]) auto
  also have "length (filter (\<lambda>y. msg_Seq m < msg_Seq y) ?ys) = newer ms m"
    using m(2) by (simp add: filter_sort newer_def conj_commute)
  finally show ?thesis .
qed

lemma trim_stream_other:
  assumes "m \<in> set ms" and "msg_Stream m \<noteq> st"
  shows "newer (trim_stream n st ms) m = newer ms m"
  using assms(2) unfolding newer_def trim_stream_def filter_filter
  by (intro arg_cong [where f = length] filter_cong) auto

lemma trim_streams_fold:
  assumes "distinct (map (\<lambda>m. (msg_Stream m, msg_Seq m)) ms)" and "distinct (map msg_ID ms)" and "distinct sts"
  shows "fold (trim_stream n) sts ms = filter (\<lambda>m. msg_Stream m \<in> set sts \<longrightarrow> newer ms m < n) ms"
  using assms
proof (induction sts arbitrary: ms)
  case Nil
  then show ?case by simp
next
  case (Cons st sts)
  let ?ms = "trim_stream n st ms"
  have eq: "?ms = filter (\<lambda>m. msg_Stream m = st \<longrightarrow> newer ms m < n) ms"
    unfolding trim_stream_def using newest_ids_iff [OF Cons.prems(1,2)] by (intro filter_cong) auto
  have "fold (trim_stream n) sts ?ms = filter (\<lambda>m. msg_Stream m \<in> set sts \<longrightarrow> newer ?ms m < n) ?ms"
    using Cons.prems by (intro Cons.IH) (auto simp: trim_stream_def distinct_map_filter_key)
  also have "\<dots> = filter (\<lambda>m. msg_Stream m \<in> set sts \<longrightarrow> newer ms m < n) ?ms"
  proof (rule filter_cong [OF refl])
    fix m assume "m \<in> set ?ms"
    then show "(msg_Stream m \<in> set sts \<longrightarrow> newer ?ms m < n) = (msg_Stream m \<in> set sts \<longrightarrow> newer ms m < n)"
      using Cons.prems(3) trim_stream_other [of m ms st n] by (cases "msg_Stream m = st") (auto simp: trim_stream_def)
  qed
  also have "\<dots> = filter (\<lambda>m. msg_Stream m \<in> set (st # sts) \<longrightarrow> newer ms m < n) ms"
    unfolding eq filter_filter by (intro filter_cong) auto
  finally show ?case by simp
qed

lemma newer_less_length:
  assumes "m \<in> set ms"
  shows "newer ms m < length (filter (\<lambda>x. msg_Stream x = msg_Stream m) ms)"
proof -
  have "length (filter (\<lambda>x. msg_Seq m < msg_Seq x) (filter (\<lambda>x. msg_Stream x = msg_Stream m) ms)) <
      length (filter (\<lambda>x. msg_Stream x = msg_Stream m) ms)"
    using assms by (intro length_filter_less [of m]) auto
  then show ?thesis by (simp add: newer_def conj_commute)
qed

text \<open>With a quota of \<open>n\<close> messages per stream and no age limit, retention keeps exactly the messages
  that have fewer than \<open>n\<close> newer ones in their stream, and no message it keeps changes between
  read and unread for any subscriber.\<close>

theorem Cleanup_quota:
  assumes inv: "msg_inv s" and n: "0 < n" and a: "a \<le> 0"
  shows "messages (fst (Cleanup s a n now)) = filter (\<lambda>m. newer (messages s) m < nat n) (messages s) \<and>
    (\<forall>m \<in> set (messages (fst (Cleanup s a n now))). \<forall>w.
       is_acked (fst (Cleanup s a n now)) w m = is_acked s w m)"
proof -
  let ?ms = "messages s" and ?q = "over_quota (nat n) (messages s)"
  have d: "distinct (map (\<lambda>m. (msg_Stream m, msg_Seq m)) ?ms)" "distinct (map msg_ID ?ms)"
    using inv by (auto simp: msg_inv_def)
  have "distinct ?q" by (simp add: over_quota_def distinct_dedup)
  then have "fold (trim_stream (nat n)) ?q ?ms = filter (\<lambda>m. msg_Stream m \<in> set ?q \<longrightarrow> newer ?ms m < nat n) ?ms"
    by (rule trim_streams_fold [OF d])
  also have "\<dots> = filter (\<lambda>m. newer ?ms m < nat n) ?ms"
  proof (rule filter_cong [OF refl])
    fix m assume m: "m \<in> set ?ms"
    have "newer ?ms m < nat n" if "msg_Stream m \<notin> set ?q"
      using that m newer_less_length [OF m] by (auto simp: over_quota_def set_dedup)
    then show "(msg_Stream m \<in> set ?q \<longrightarrow> newer ?ms m < nat n) = (newer ?ms m < nat n)" by blast
  qed
  finally have fold: "fold (trim_stream (nat n)) ?q ?ms = filter (\<lambda>m. newer ?ms m < nat n) ?ms" .
  have cl: "fst (Cleanup s a n now) = drop_orphans (trim_streams (nat n) s)"
    using a n by (simp add: Cleanup_def Let_def)
  have ms: "messages (fst (Cleanup s a n now)) = filter (\<lambda>m. newer ?ms m < nat n) ?ms"
    by (simp add: cl drop_orphans_def trim_streams_def fold)
  moreover have "is_acked (fst (Cleanup s a n now)) w m = is_acked s w m"
    if m: "m \<in> set (messages (fst (Cleanup s a n now)))" for m w
  proof -
    have keep: "find P (filter Q cs) = find P cs" if "\<And>c. P c \<Longrightarrow> Q c" for P Q and cs :: "cursor list"
      using that by (induction cs) auto
    have "ack_seq_of (fst (Cleanup s a n now)) w (msg_Stream m) = ack_seq_of s w (msg_Stream m)"
    proof -
      have "find (\<lambda>c. cur_subscriber c = w \<and> cur_stream c = msg_Stream m) (cursors (fst (Cleanup s a n now))) =
          find (\<lambda>c. cur_subscriber c = w \<and> cur_stream c = msg_Stream m) (cursors s)"
        unfolding cl drop_orphans_def using m cl
        by (simp add: trim_streams_def, intro keep) (auto simp: drop_orphans_def trim_streams_def)
      then show ?thesis by (simp add: ack_seq_of_def)
    qed
    moreover have "(w, msg_Stream m, msg_Seq m) \<in> set (acked (fst (Cleanup s a n now))) \<longleftrightarrow>
        (w, msg_Stream m, msg_Seq m) \<in> set (acked s)"
      using m by (auto simp: cl drop_orphans_def trim_streams_def)
    ultimately show ?thesis by (simp add: is_acked_def)
  qed
  ultimately show ?thesis by blast
qed

theorem Cleanup_quota_witness:
  "messages (fst (Cleanup example_msgs 0 1 0)) =
    filter (\<lambda>m. newer (messages example_msgs) m < nat 1) (messages example_msgs)"
  using Cleanup_quota [OF example_msgs_inv, of 1 0 0] by simp

text \<open>Age retention compares timestamps as text, which is not chronological within a second: a
  message that was published and acknowledged survives while its acknowledgement is deleted, and
  becomes unread again.\<close>

theorem Cleanup_resurrects:
  "(let s = AckLatest (fst (Publish empty_tables example_opts ''1'' 0)) ''t'' ''w'' 500000000;
        t = fst (Cleanup s 1000000000 0 1700000000)
    in Read_msgs s ''t'' ''w'' True [] = [] \<and> map msg_ID (Read_msgs t ''t'' ''w'' True []) = [''1''])"
  by code_simp

text \<open>A stream listing that leaves out the daemon's own streams also leaves out any stream whose name
  has some other first character before \<open>system.\<close>, because the underscore of the pattern is a
  wildcard.\<close>

theorem ListStreams_hides_user_stream:
  "ListStreams (fst (Publish empty_tables (example_opts\<lparr>po_Stream := ''ecosystem.x''\<rparr>) ''1'' 0)) ''w'' False \<noteq> [] \<and>
   ListStreams (fst (Publish empty_tables (example_opts\<lparr>po_Stream := ''XSystem.x''\<rparr>) ''1'' 0)) ''w'' False = []"
  by code_simp

section \<open>The quarantine\<close>

definition jail_available :: "string \<Rightarrow> MsgStore \<Rightarrow> bool" where
  "jail_available i s \<longleftrightarrow> (\<exists>j \<in> set (jailed s). jc_ID j = i \<and> \<not> Released j)"

definition release_take :: "int \<Rightarrow> string \<Rightarrow> MsgStore \<Rightarrow> MsgStore option" where
  "release_take now i s = (case MarkReleased s i now of (t, jo, ok) \<Rightarrow> if ok then Some t else None)"

text \<open>Everything but giving the claim on \<open>i\<close> back, and drawing its identifier for a new entry.\<close>

inductive jail_env :: "string \<Rightarrow> MsgStore \<Rightarrow> MsgStore \<Rightarrow> bool" for i where
  "jail_env i s (fst (Publish s opts mid now))"
| "jail_env i s (fst (MarkReleased s k now))"
| "k \<noteq> i \<Longrightarrow> jail_env i s (fst (Unrelease s k))"
| "k \<noteq> i \<Longrightarrow> jail_env i s (fst (Jail_comment s j k now))"
| "jail_env i s (fst (Cleanup s maxAge n now))"

lemma jail_env_step: "jail_env i s t \<Longrightarrow> msg_step s t"
  by (induction rule: jail_env.induct) (auto intro: msg_step.intros)

lemma rfc3339nano_nonempty: "rfc3339nano t \<noteq> []"
  by (simp add: rfc3339nano_def Let_def split: prod.splits)

lemma MarkReleased_jailed:
  "set (jailed (fst (MarkReleased s k now))) \<subseteq>
    set (jailed s) \<union> {x\<lparr>jc_ReleasedAt := rfc3339nano now\<rparr> | x. x \<in> set (jailed s)}"
  by (auto simp: MarkReleased_def split: option.splits elim!: in_update_whereE)

lemma jail_env_keeps: "jail_env i s t \<Longrightarrow> jail_available i t \<Longrightarrow> jail_available i s"
proof (induction rule: jail_env.induct)
  case (2 s k now)
  then show ?case using MarkReleased_jailed [of s k now] rfc3339nano_nonempty [of now]
    by (fastforce simp: jail_available_def Released_def)
next
  case (3 k s)
  then show ?case
    by (auto simp: jail_available_def Unrelease_def Let_def Released_def elim!: in_update_whereE split: if_splits)
next
  case (5 s maxAge n now)
  then show ?case using Cleanup_shape [of s maxAge n now] by (auto simp: jail_available_def)
qed (auto simp: jail_available_def Publish_def Jail_comment_def Let_def Released_def split: if_splits)

lemma release_take_Some:
  assumes inv: "msg_inv s" and take: "release_take now i s = Some t"
  shows "jail_available i s \<and> \<not> jail_available i t \<and> msg_inv t"
proof -
  obtain jo where mr: "MarkReleased s i now = (t, jo, True)"
    using take by (auto simp: release_take_def split: prod.splits if_splits)
  then obtain j where j: "GetJailed s i = Some j" "\<not> Released j"
    and t: "jailed t = update_where (\<lambda>x. jc_ID x = i \<and> jc_ReleasedAt x = [])
      (\<lambda>x. x\<lparr>jc_ReleasedAt := rfc3339nano now\<rparr>) (jailed s)"
    by (auto simp: MarkReleased_def split: option.splits if_splits)
  have "jail_available i s"
    using j by (auto simp: GetJailed_def jail_available_def dest!: find_Some_iff_filter)
  moreover have "\<not> jail_available i t"
    using rfc3339nano_nonempty [of now]
    by (auto simp: t jail_available_def Released_def elim!: in_update_whereE split: if_splits)
  moreover have "msg_inv t" using msg_step_inv [OF mstep_MarkReleased inv, of i now] mr by simp
  ultimately show ?thesis by simp
qed

interpretation release: one_shot release_take jail_available jail_env msg_inv
  using release_take_Some jail_env_keeps msg_step_inv [OF jail_env_step]
  by unfold_locales blast+


definition example_comment :: JailedComment where
  "example_comment = \<lparr>jc_ID = [], jc_CommentID = 7, jc_Surface = ''conversation'', jc_PRNumber = 3,
     jc_RepoSlug = ''o/r'', jc_Branch = ''b'', jc_Author = ''m'', jc_Association = ''NONE'', jc_IsBot = False,
     jc_Path = [], jc_Line = 0, jc_Body = ''do it'', jc_TargetSession = ''s'', jc_TargetName = ''n'',
     jc_JailedAt = [], jc_ReleasedAt = []\<rparr>"

definition example_jail :: MsgStore where
  "example_jail = fst (Jail_comment empty_tables example_comment ''j1'' 0)"

lemma example_jail_inv: "msg_inv example_jail"
  unfolding example_jail_def by (intro Jail_comment_inv empty_tables_inv)


end
