(* ===== verification/Sessions.thy ===== *)
theory Sessions
  imports Go_Strings
begin

text \<open>
  The part of the daemon's session state (\<^verbatim>\<open>SessionState\<close>, \<^verbatim>\<open>ScenarioState\<close> of
  \<^verbatim>\<open>internal/daemon/state.go\<close>) that the access rules and the task lists read, and the walks over the
  parent links: \<open>isDescendantOf\<close> (auth.go), \<open>subtreeRootLocked\<close> (todo.go), \<open>collectDescendants\<close> and
  \<open>subtreeDeleteActiveLocked\<close> (session_delete.go). The lemmas relate each walk to the reflexive
  transitive closure of the parent relation, and show when the unguarded walk returns.
\<close>

definition StatusRunning :: string where "StatusRunning = ''running''"
definition StatusStopped :: string where "StatusStopped = ''stopped''"
definition StatusErrored :: string where "StatusErrored = ''errored''"
definition StatusDeleting :: string where "StatusDeleting = ''deleting''"
definition StatusCreating :: string where "StatusCreating = ''creating''"

definition SystemKindOrchestrator :: string where
  "SystemKindOrchestrator = ''orchestrator''"

record session =
  Name :: string
  ParentID :: string
  SystemKind :: string
  Status :: string
  Token :: string
  DeletedAt :: "int option"
  Starred :: bool
  Labels :: "string list"

record scenario_policy =
  PolicyActive :: bool
  PolicyOutcome :: string

record scenario =
  ScenarioID :: string
  ScenarioName :: string
  OrchestratorID :: string
  SessionIDs :: "string list"
  Policy :: "scenario_policy option"

type_synonym sessions = "(string \<times> session) list"

definition IsSoftDeleted :: "'a session_scheme \<Rightarrow> bool" where
  "IsSoftDeleted s \<longleftrightarrow> DeletedAt s \<noteq> None"

definition IsSystemSession :: "'a session_scheme \<Rightarrow> bool" where
  "IsSystemSession s \<longleftrightarrow> SystemKind s \<noteq> ''''"

section \<open>The walks\<close>

function isDescendantOf_loop :: "sessions \<Rightarrow> string \<Rightarrow> string list \<Rightarrow> string \<Rightarrow> bool" where
  "isDescendantOf_loop ss rootID visited current =
    (if current = rootID then True
     else if current \<in> set visited then False
     else case map_of ss current of
         None \<Rightarrow> False
       | Some sess \<Rightarrow>
           if ParentID sess = '''' then False
           else isDescendantOf_loop ss rootID (current # visited) (ParentID sess))"
  by pat_completeness auto
termination
proof (relation "measure (\<lambda>(ss, r, visited, c). card (fst ` set ss - set visited))")
  show "wf (measure (\<lambda>(ss :: sessions, r :: string, visited, c :: string).
      card (fst ` set ss - set visited)))" by simp
  fix ss :: sessions and r visited c sess
  assume "c \<notin> set visited" and "map_of ss c = Some sess"
  then have "c \<in> fst ` set ss - set visited" by (force dest: map_of_SomeD)
  moreover have "fst ` set ss - set (c # visited) = (fst ` set ss - set visited) - {c}" by auto
  ultimately have "card (fst ` set ss - set (c # visited)) < card (fst ` set ss - set visited)"
    by (metis card_Diff1_less finite_Diff finite_imageI finite_set)
  then show "((ss, r, c # visited, ParentID sess), (ss, r, visited, c))
      \<in> measure (\<lambda>(ss, r, visited, c). card (fst ` set ss - set visited))" by simp
qed

declare isDescendantOf_loop.simps [simp del]

definition isDescendantOf :: "sessions \<Rightarrow> string \<Rightarrow> string \<Rightarrow> bool" where
  "isDescendantOf ss targetID rootID = isDescendantOf_loop ss rootID [] targetID"

text \<open>The walk to the anchor of a task list has no visited set: on a parent cycle it does not
  return, so its value is an option with \<^term>\<open>None\<close> for not returning.\<close>

partial_function (option) subtreeRootLocked :: "sessions \<Rightarrow> string \<Rightarrow> string option" where
  "subtreeRootLocked ss cur =
    (case map_of ss cur of
       None \<Rightarrow> Some cur
     | Some s \<Rightarrow>
         if ParentID s = '''' then Some cur
         else case map_of ss (ParentID s) of
             None \<Rightarrow> Some cur
           | Some parent \<Rightarrow>
               if SystemKind parent \<noteq> '''' then Some cur
               else subtreeRootLocked ss (ParentID s))"

function subtreeDeleteActive_loop :: "sessions \<Rightarrow> string list \<Rightarrow> string list \<Rightarrow> string \<Rightarrow> bool" where
  "subtreeDeleteActive_loop ss roots seen i =
    (if i = '''' then False
     else if i \<in> set roots then True
     else if i \<in> set seen then False
     else case map_of ss i of
         None \<Rightarrow> False
       | Some sess \<Rightarrow> subtreeDeleteActive_loop ss roots (i # seen) (ParentID sess))"
  by pat_completeness auto
termination
proof (relation "measure (\<lambda>(ss, r, seen, i). card (fst ` set ss - set seen))")
  show "wf (measure (\<lambda>(ss :: sessions, r :: string list, seen, i :: string).
      card (fst ` set ss - set seen)))" by simp
  fix ss :: sessions and r seen i sess
  assume "i \<notin> set seen" and "map_of ss i = Some sess"
  then have "i \<in> fst ` set ss - set seen" by (force dest: map_of_SomeD)
  moreover have "fst ` set ss - set (i # seen) = (fst ` set ss - set seen) - {i}" by auto
  ultimately have "card (fst ` set ss - set (i # seen)) < card (fst ` set ss - set seen)"
    by (metis card_Diff1_less finite_Diff finite_imageI finite_set)
  then show "((ss, r, i # seen, ParentID sess), (ss, r, seen, i))
      \<in> measure (\<lambda>(ss, r, seen, i). card (fst ` set ss - set seen))" by simp
qed

declare subtreeDeleteActive_loop.simps [simp del]

definition subtreeDeleteActiveLocked :: "sessions \<Rightarrow> string list \<Rightarrow> string \<Rightarrow> bool" where
  "subtreeDeleteActiveLocked ss roots i = subtreeDeleteActive_loop ss roots [] i"

text \<open>\<open>collectDescendants\<close>: the post-order walk over the children map. The recursion of the closure
  \<^verbatim>\<open>walk\<close> is bounded by fuel; \<open>collectDescendants\<close> gives it one unit per session and one for the
  root, which \<open>walk_enough_fuel\<close> shows to be enough.\<close>

definition children_of :: "sessions \<Rightarrow> string \<Rightarrow> string list" where
  "children_of ss p = map fst (filter (\<lambda>(i, s). ParentID s \<noteq> '''' \<and> ParentID s = p) ss)"

function walk :: "(string \<Rightarrow> string list) \<Rightarrow> nat \<Rightarrow> string \<Rightarrow> string list \<times> string list
      \<Rightarrow> (string list \<times> string list) option"
  and walks :: "(string \<Rightarrow> string list) \<Rightarrow> nat \<Rightarrow> string list \<Rightarrow> string list \<times> string list
      \<Rightarrow> (string list \<times> string list) option" where
  "walk ch 0 i st = None"
| "walk ch (Suc n) i st =
    (if i \<in> set (fst st) then Some st
     else case walks ch n (ch i) (i # fst st, snd st) of
         None \<Rightarrow> None
       | Some st' \<Rightarrow> Some (fst st', snd st' @ [i]))"
| "walks ch n [] st = Some st"
| "walks ch n (c # cs) st =
    (case walk ch n c st of None \<Rightarrow> None | Some st' \<Rightarrow> walks ch n cs st')"
  by pat_completeness auto
termination
  by (relation "measures
      [\<lambda>x. case x of Inl (ch, n, i, st) \<Rightarrow> n | Inr (ch, n, cs, st) \<Rightarrow> n,
       \<lambda>x. case x of Inl (ch, n, i, st) \<Rightarrow> 0 | Inr (ch, n, cs, st) \<Rightarrow> Suc (length cs)]") auto

definition collectDescendants :: "sessions \<Rightarrow> string \<Rightarrow> string list option" where
  "collectDescendants ss rootID =
    map_option snd (walk (children_of ss) (Suc (Suc (length ss))) rootID ([], []))"

section \<open>The parent relation\<close>

definition parent_rel :: "sessions \<Rightarrow> (string \<times> string) set" where
  "parent_rel ss = {(c, p). \<exists>s. map_of ss c = Some s \<and> ParentID s = p \<and> p \<noteq> ''''}"

definition session_forest :: "sessions \<Rightarrow> bool" where
  "session_forest ss \<longleftrightarrow> acyclic (parent_rel ss)"

lemma parent_rel_iff:
  "(c, p) \<in> parent_rel ss \<longleftrightarrow> (\<exists>s. map_of ss c = Some s \<and> ParentID s = p \<and> p \<noteq> '''')"
  by (simp add: parent_rel_def)

lemma parent_rel_functional: "(c, p) \<in> parent_rel ss \<Longrightarrow> (c, q) \<in> parent_rel ss \<Longrightarrow> p = q"
  by (auto simp: parent_rel_def)

lemma finite_parent_rel: "finite (parent_rel ss)"
proof -
  have "parent_rel ss \<subseteq> (\<lambda>c. (c, ParentID (the (map_of ss c)))) ` dom (map_of ss)"
    by (force simp: parent_rel_def)
  then show ?thesis by (rule finite_subset) (simp add: finite_dom_map_of)
qed

lemma session_forest_wf: "session_forest ss \<Longrightarrow> wf ((parent_rel ss)\<inverse>)"
  by (simp add: session_forest_def finite_acyclic_wf_converse finite_parent_rel)

subsection \<open>\<open>isDescendantOf\<close>\<close>

lemma closed_not_reach:
  assumes "(a, r) \<in> R\<^sup>*" and "a \<in> V" and "\<And>v p. v \<in> V \<Longrightarrow> (v, p) \<in> R \<Longrightarrow> p \<in> V"
  shows "r \<in> V"
  using assms(1,2) by (induction rule: rtrancl_induct) (auto dest: assms(3))

lemma isDescendantOf_loop_reaches:
  assumes "rootID \<notin> set visited"
    and "\<And>v p. v \<in> set visited \<Longrightarrow> (v, p) \<in> parent_rel ss \<Longrightarrow> p \<in> set visited \<union> {current}"
  shows "isDescendantOf_loop ss rootID visited current \<longleftrightarrow> (current, rootID) \<in> (parent_rel ss)\<^sup>*"
  using assms
proof (induction ss rootID visited current rule: isDescendantOf_loop.induct)
  case (1 ss rootID visited current)
  consider "current = rootID" | "current \<noteq> rootID" "current \<in> set visited"
    | "current \<noteq> rootID" "current \<notin> set visited" by blast
  then show ?case
  proof cases
    case 1
    then show ?thesis by (simp add: isDescendantOf_loop.simps)
  next
    case 2
    then have "(current, rootID) \<notin> (parent_rel ss)\<^sup>*"
      using closed_not_reach [of current rootID "parent_rel ss" "set visited"] "1.prems" by fastforce
    with 2 show ?thesis by (simp add: isDescendantOf_loop.simps)
  next
    case 3
    show ?thesis
    proof (cases "\<exists>p. (current, p) \<in> parent_rel ss")
      case False
      then have "(current, rootID) \<notin> (parent_rel ss)\<^sup>*"
        using 3 by (meson converse_rtranclE)
      moreover have "\<not> isDescendantOf_loop ss rootID visited current"
        using False 3 by (auto simp: isDescendantOf_loop.simps [of ss rootID visited current]
            parent_rel_iff split: option.splits)
      ultimately show ?thesis by simp
    next
      case True
      then obtain s where s: "map_of ss current = Some s" "ParentID s \<noteq> ''''"
        by (auto simp: parent_rel_iff)
      then have p: "(current, ParentID s) \<in> parent_rel ss" by (auto simp: parent_rel_iff)
      have "isDescendantOf_loop ss rootID (current # visited) (ParentID s)
          \<longleftrightarrow> (ParentID s, rootID) \<in> (parent_rel ss)\<^sup>*"
      proof (rule "1.IH" [OF 3 s])
        show "rootID \<notin> set (current # visited)" using "1.prems"(1) 3 by auto
        fix v q
        assume "v \<in> set (current # visited)" and vq: "(v, q) \<in> parent_rel ss"
        then consider "v = current" | "v \<in> set visited" by auto
        then show "q \<in> set (current # visited) \<union> {ParentID s}"
          using parent_rel_functional [OF vq] p "1.prems"(2) [OF _ vq] by cases auto
      qed
      also have "\<dots> \<longleftrightarrow> (current, rootID) \<in> (parent_rel ss)\<^sup>*"
        using p 3(1) by (metis converse_rtranclE converse_rtrancl_into_rtrancl parent_rel_functional)
      finally show ?thesis
        using 3 s by (simp add: isDescendantOf_loop.simps [of ss rootID visited current])
    qed
  qed
qed

lemma isDescendantOf_iff: "isDescendantOf ss t r \<longleftrightarrow> (t, r) \<in> (parent_rel ss)\<^sup>*"
  unfolding isDescendantOf_def by (rule isDescendantOf_loop_reaches) simp_all

subsection \<open>\<open>subtreeRootLocked\<close>\<close>

text \<open>The edges the anchor walk follows: to a known parent that is not a system session.\<close>

definition anchor_rel :: "sessions \<Rightarrow> (string \<times> string) set" where
  "anchor_rel ss =
    {(c, p) \<in> parent_rel ss. \<exists>q. map_of ss p = Some q \<and> SystemKind q = ''''}"

lemma subtreeRootLocked_stop: "cur \<notin> Domain (anchor_rel ss) \<Longrightarrow> subtreeRootLocked ss cur = Some cur"
  by (auto simp: subtreeRootLocked.simps [of ss cur] anchor_rel_def parent_rel_def split: option.splits)

lemma subtreeRootLocked_step:
  "(cur, p) \<in> anchor_rel ss \<Longrightarrow> subtreeRootLocked ss cur = subtreeRootLocked ss p"
  by (auto simp: subtreeRootLocked.simps [of ss cur] anchor_rel_def parent_rel_def)

lemma subtreeRootLocked_reaches:
  "(cur, r) \<in> (anchor_rel ss)\<^sup>* \<Longrightarrow> r \<notin> Domain (anchor_rel ss) \<Longrightarrow> subtreeRootLocked ss cur = Some r"
  by (induction rule: converse_rtrancl_induct) (simp_all add: subtreeRootLocked_stop subtreeRootLocked_step)

lemma subtreeRootLocked_SomeD:
  assumes "subtreeRootLocked ss cur = Some r"
  shows "(cur, r) \<in> (anchor_rel ss)\<^sup>* \<and> r \<notin> Domain (anchor_rel ss)"
proof (rule subtreeRootLocked.raw_induct
    [where P = "\<lambda>ss cur r. (cur, r) \<in> (anchor_rel ss)\<^sup>* \<and> r \<notin> Domain (anchor_rel ss)", OF _ assms])
  fix f :: "sessions \<Rightarrow> string \<Rightarrow> string option" and ss cur r
  assume IH: "\<And>ss cur r. f ss cur = Some r \<Longrightarrow>
      (cur, r) \<in> (anchor_rel ss)\<^sup>* \<and> r \<notin> Domain (anchor_rel ss)"
    and eq: "(case map_of ss cur of
       None \<Rightarrow> Some cur
     | Some s \<Rightarrow>
         if ParentID s = '''' then Some cur
         else case map_of ss (ParentID s) of
             None \<Rightarrow> Some cur
           | Some parent \<Rightarrow> if SystemKind parent \<noteq> '''' then Some cur else f ss (ParentID s)) = Some r"
  show "(cur, r) \<in> (anchor_rel ss)\<^sup>* \<and> r \<notin> Domain (anchor_rel ss)"
  proof (cases "\<exists>p. (cur, p) \<in> anchor_rel ss")
    case True
    then obtain p where p: "(cur, p) \<in> anchor_rel ss" by blast
    with eq have "f ss p = Some r" by (auto simp: anchor_rel_def parent_rel_def)
    with p IH [of ss p r] show ?thesis by (auto intro: converse_rtrancl_into_rtrancl)
  next
    case False
    with eq have "r = cur"
      by (auto simp: anchor_rel_def parent_rel_def split: option.splits if_splits)
    with False show ?thesis by auto
  qed
qed

lemma subtreeRootLocked_iff:
  "subtreeRootLocked ss cur = Some r \<longleftrightarrow> (cur, r) \<in> (anchor_rel ss)\<^sup>* \<and> r \<notin> Domain (anchor_rel ss)"
  using subtreeRootLocked_SomeD subtreeRootLocked_reaches by blast

lemma subtreeRootLocked_idem: "subtreeRootLocked ss cur = Some r \<Longrightarrow> subtreeRootLocked ss r = Some r"
  by (simp add: subtreeRootLocked_iff)

lemma subtreeRootLocked_total:
  assumes "session_forest ss"
  shows "\<exists>r. subtreeRootLocked ss cur = Some r"
  using session_forest_wf [OF assms]
proof (induction cur rule: wf_induct_rule)
  case (less cur)
  show ?case
  proof (cases "cur \<in> Domain (anchor_rel ss)")
    case True
    then obtain p where p: "(cur, p) \<in> anchor_rel ss" by blast
    then have "(p, cur) \<in> (parent_rel ss)\<inverse>" by (simp add: anchor_rel_def)
    from less [OF this] show ?thesis using subtreeRootLocked_step [OF p] by simp
  next
    case False
    then show ?thesis using subtreeRootLocked_stop by blast
  qed
qed

subsection \<open>\<open>collectDescendants\<close>\<close>

definition child_rel :: "(string \<Rightarrow> string list) \<Rightarrow> (string \<times> string) set" where
  "child_rel ch = {(i, c). c \<in> set (ch i)}"

text \<open>What one \<^verbatim>\<open>walk\<close> call adds: nothing already seen is touched, everything added is reachable
  from the ids walked, and what was added is closed under children.\<close>

definition walk_ext :: "(string \<Rightarrow> string list) \<Rightarrow> string set \<Rightarrow> string list \<times> string list
    \<Rightarrow> string list \<times> string list \<Rightarrow> bool" where
  "walk_ext ch start st st' \<longleftrightarrow>
     set (fst st) \<subseteq> set (fst st') \<and> start \<subseteq> set (fst st') \<and>
     (\<exists>new. snd st' = snd st @ new \<and> set new = set (fst st') - set (fst st)) \<and>
     set (fst st') - set (fst st) \<subseteq> (child_rel ch)\<^sup>* `` start \<and>
     child_rel ch `` (set (fst st') - set (fst st)) \<subseteq> set (fst st')"

lemma walk_ext_Nil: "walk_ext ch {} st st"
  by (simp add: walk_ext_def)

lemma walk_ext_seen: "i \<in> set (fst st) \<Longrightarrow> walk_ext ch {i} st st"
  by (auto simp: walk_ext_def)

lemma walk_ext_trans:
  assumes "walk_ext ch A st st1" and "walk_ext ch B st1 st2"
  shows "walk_ext ch (A \<union> B) st st2"
proof -
  from assms obtain n1 n2 where n: "snd st1 = snd st @ n1" "set n1 = set (fst st1) - set (fst st)"
    "snd st2 = snd st1 @ n2" "set n2 = set (fst st2) - set (fst st1)"
    by (auto simp: walk_ext_def)
  have "set (n1 @ n2) = set (fst st2) - set (fst st)"
    using n assms by (auto simp: walk_ext_def)
  then have "\<exists>new. snd st2 = snd st @ new \<and> set new = set (fst st2) - set (fst st)"
    using n by (intro exI [of _ "n1 @ n2"]) simp
  moreover have "set (fst st2) - set (fst st) \<subseteq> (child_rel ch)\<^sup>* `` (A \<union> B)"
    using assms by (auto simp: walk_ext_def) blast
  moreover have "child_rel ch `` (set (fst st2) - set (fst st)) \<subseteq> set (fst st2)"
    using assms by (auto simp: walk_ext_def) blast
  ultimately show ?thesis using assms by (auto simp: walk_ext_def)
qed

lemma walk_ext_node:
  assumes "i \<notin> set (fst st)" and "walk_ext ch (set (ch i)) (i # fst st, snd st) st'"
  shows "walk_ext ch {i} st (fst st', snd st' @ [i])"
proof -
  from assms(2) obtain new where new: "snd st' = snd st @ new"
    "set new = set (fst st') - insert i (set (fst st))"
    by (auto simp: walk_ext_def)
  have sub: "(child_rel ch)\<^sup>* `` set (ch i) \<subseteq> (child_rel ch)\<^sup>* `` {i}"
    by (auto simp: child_rel_def intro: converse_rtrancl_into_rtrancl)
  have i: "i \<in> set (fst st')" and mono: "set (fst st) \<subseteq> set (fst st')"
    using assms(2) by (auto simp: walk_ext_def)
  have "set (new @ [i]) = set (fst st') - set (fst st)" using new assms(1) i by auto
  then have "\<exists>w. snd st' @ [i] = snd st @ w \<and> set w = set (fst st') - set (fst st)"
    using new by (intro exI [of _ "new @ [i]"]) simp
  moreover have "set (fst st') - set (fst st) \<subseteq> (child_rel ch)\<^sup>* `` {i}"
  proof
    fix x assume "x \<in> set (fst st') - set (fst st)"
    then consider "x = i" | "x \<in> set (fst st') - insert i (set (fst st))" by blast
    then show "x \<in> (child_rel ch)\<^sup>* `` {i}"
    proof cases
      case 2
      then have "x \<in> (child_rel ch)\<^sup>* `` set (ch i)" using assms(2) by (auto simp: walk_ext_def)
      with sub show ?thesis by blast
    qed simp
  qed
  moreover have "child_rel ch `` (set (fst st') - set (fst st)) \<subseteq> set (fst st')"
  proof
    fix y assume "y \<in> child_rel ch `` (set (fst st') - set (fst st))"
    then obtain x where "x \<in> set (fst st') - set (fst st)" "(x, y) \<in> child_rel ch" by blast
    moreover have "child_rel ch `` {i} \<subseteq> set (fst st')"
      using assms(2) by (auto simp: walk_ext_def child_rel_def)
    ultimately show "y \<in> set (fst st')"
      using assms(2) by (cases "x = i") (auto simp: walk_ext_def)
  qed
  ultimately show ?thesis using i mono by (simp add: walk_ext_def)
qed

lemma walk_walks_ext:
  "walk ch n i st = Some st' \<Longrightarrow> walk_ext ch {i} st st'"
  "walks ch n cs st = Some st' \<Longrightarrow> walk_ext ch (set cs) st st'"
proof (induction ch n i st and ch n cs st arbitrary: st' and st' rule: walk_walks.induct)
  case (2 ch n i st)
  then show ?case
    by (auto split: if_splits option.splits intro: walk_ext_seen walk_ext_node)
next
  case (4 ch n c cs st)
  then obtain st1 where "walk ch n c st = Some st1" "walks ch n cs st1 = Some st'"
    by (auto split: option.splits)
  with 4 have "walk_ext ch ({c} \<union> set cs) st st'" by (blast intro: walk_ext_trans)
  then show ?case by simp
qed (auto intro: walk_ext_Nil)

lemma walk_enough_fuel:
  "finite U \<Longrightarrow> (\<And>x. set (ch x) \<subseteq> U) \<Longrightarrow> i \<in> U \<Longrightarrow> card (U - set (fst st)) < n
    \<Longrightarrow> \<exists>st'. walk ch n i st = Some st'"
  "finite U \<Longrightarrow> (\<And>x. set (ch x) \<subseteq> U) \<Longrightarrow> set cs \<subseteq> U \<Longrightarrow> card (U - set (fst st)) < n
    \<Longrightarrow> \<exists>st'. walks ch n cs st = Some st'"
proof (induction ch n i st and ch n cs st rule: walk_walks.induct)
  case (2 ch n i st)
  show ?case
  proof (cases "i \<in> set (fst st)")
    case False
    have "U - set (i # fst st) = (U - set (fst st)) - {i}" by auto
    moreover have "card ((U - set (fst st)) - {i}) < card (U - set (fst st))"
      using False 2 by (intro card_Diff1_less) auto
    ultimately have "card (U - set (fst (i # fst st, snd st))) < n" using 2 by simp
    with 2 False obtain st' where "walks ch n (ch i) (i # fst st, snd st) = Some st'" by blast
    with False show ?thesis by simp
  qed simp
next
  case (4 ch n c cs st)
  then obtain st1 where s1: "walk ch n c st = Some st1" by auto
  then have "set (fst st) \<subseteq> set (fst st1)"
    using walk_walks_ext(1) by (auto simp: walk_ext_def)
  then have "card (U - set (fst st1)) \<le> card (U - set (fst st))"
    using 4 by (intro card_mono) auto
  with 4 s1 show ?case by auto
qed auto

lemma children_of_iff:
  assumes "distinct (map fst ss)"
  shows "c \<in> set (children_of ss p) \<longleftrightarrow> (c, p) \<in> parent_rel ss"
proof
  assume "c \<in> set (children_of ss p)"
  then obtain s where "(c, s) \<in> set ss" "ParentID s = p" "p \<noteq> ''''"
    by (auto simp: children_of_def)
  with assms show "(c, p) \<in> parent_rel ss" by (auto simp: parent_rel_def intro: map_of_is_SomeI)
next
  assume "(c, p) \<in> parent_rel ss"
  then show "c \<in> set (children_of ss p)"
    by (force simp: children_of_def parent_rel_def dest: map_of_SomeD)
qed

lemma collectDescendants_total: "\<exists>ds. collectDescendants ss r = Some ds"
proof -
  let ?U = "insert r (fst ` set ss)"
  have "card (fst ` set ss) \<le> length ss"
    using card_image_le [of "set ss" fst] card_length [of ss] by (meson List.finite_set le_trans)
  then have "card ?U < Suc (Suc (length ss))"
    by (simp add: card_insert_if)
  then have "\<exists>st'. walk (children_of ss) (Suc (Suc (length ss))) r ([], []) = Some st'"
    by (intro walk_enough_fuel(1) [of ?U]) (auto simp: children_of_def)
  then show ?thesis by (auto simp: collectDescendants_def)
qed

lemma collectDescendants_set:
  assumes "distinct (map fst ss)" and "collectDescendants ss r = Some ds"
  shows "x \<in> set ds \<longleftrightarrow> (x, r) \<in> (parent_rel ss)\<^sup>*"
proof -
  from assms(2) obtain st where w: "walk (children_of ss) (Suc (Suc (length ss))) r ([], []) = Some st"
    and ds: "ds = snd st" by (auto simp: collectDescendants_def simp del: walk.simps)
  have ext: "walk_ext (children_of ss) {r} ([], []) st" using walk_walks_ext(1) [OF w] .
  then have set: "set ds = set (fst st)" and r: "r \<in> set (fst st)"
    and sub: "set (fst st) \<subseteq> (child_rel (children_of ss))\<^sup>* `` {r}"
    and closed: "child_rel (children_of ss) `` set (fst st) \<subseteq> set (fst st)"
    by (auto simp: walk_ext_def ds)
  have conv: "child_rel (children_of ss) = (parent_rel ss)\<inverse>"
    using children_of_iff [OF assms(1)] by (auto simp: child_rel_def)
  show ?thesis
  proof
    assume "x \<in> set ds"
    then have "(r, x) \<in> ((parent_rel ss)\<inverse>)\<^sup>*" using sub conv by (auto simp: set)
    then show "(x, r) \<in> (parent_rel ss)\<^sup>*" by (simp add: rtrancl_converse)
  next
    assume "(x, r) \<in> (parent_rel ss)\<^sup>*"
    then have "(r, x) \<in> ((parent_rel ss)\<inverse>)\<^sup>*" by (simp add: rtrancl_converse)
    then show "x \<in> set ds"
      using closed_not_reach [of r x "(parent_rel ss)\<inverse>" "set (fst st)"] r closed conv set by blast
  qed
qed

end
