(* ===== verification/Dependency_Notify.thy ===== *)
theory Dependency_Notify
  imports Dependency_Health
begin

text \<open>
  The daemon's side of dependency health (\<^verbatim>\<open>internal/daemon/dependency_notify.go\<close>): observations and
  transitions reach the durable envelope, a transition puts one entry per affected session into the outbox,
  and delivery passes turn entries into inbox messages. \<^verbatim>\<open>state.go\<close> writes the envelope into the state file and
  a sidecar and prefers the sidecar when it loads.
\<close>

section \<open>State and persistence\<close>

record DepState =
  dep_sessions :: agent_sessions
  DependencyHealth :: "PersistedState option"
  disk_main :: "PersistedState option"
  disk_sidecar :: "PersistedState option"
  dep_msgs :: MsgStore

datatype save_result = SaveFails | SidecarFails | Saved

definition health_or_new :: "DepState \<Rightarrow> PersistedState" where
  "health_or_new st = (case DependencyHealth st of None \<Rightarrow> new_health | Some h \<Rightarrow> h)"

text \<open>Saving writes the state file, then the sidecar; either write can fail.\<close>

definition save_health :: "save_result \<Rightarrow> DepState \<Rightarrow> DepState" where
  "save_health r st =
    (case r of
       SaveFails \<Rightarrow> st
     | SidecarFails \<Rightarrow> st\<lparr>disk_main := DependencyHealth st\<rparr>
     | Saved \<Rightarrow> st\<lparr>disk_main := DependencyHealth st, disk_sidecar := Some (health_or_new st)\<rparr>)"

text \<open>Loading decodes the envelope of the state file, replaces it by the sidecar's when that decodes to the
  current schema version, and starts a new one when there is none.\<close>

definition load_health :: "PersistedState option \<Rightarrow> PersistedState option \<Rightarrow> PersistedState" where
  "load_health main sidecar =
    (let h0 = map_option UnmarshalJSON main;
         h1 = (case sidecar of
                 None \<Rightarrow> h0
               | Some s \<Rightarrow> if SchemaVersion (UnmarshalJSON s) = StateSchemaVersion then Some (UnmarshalJSON s) else h0)
     in case h1 of None \<Rightarrow> new_health | Some h \<Rightarrow> h)"

definition dep_restart :: "DepState \<Rightarrow> DepState" where
  "dep_restart st = st\<lparr>DependencyHealth := Some (load_health (disk_main st) (disk_sidecar st))\<rparr>"

section \<open>Observations and transitions\<close>

definition update_service :: "string \<Rightarrow> (ServiceState \<Rightarrow> ServiceState) \<Rightarrow> DepState \<Rightarrow> DepState" where
  "update_service name f st =
    (let h = health_or_new st
     in st\<lparr>DependencyHealth := Some (h\<lparr>Services := map_put name (f (map_get zero_ServiceState (Services h) name)) (Services h)\<rparr>)\<rparr>)"

definition persistDependencyObservation :: "save_result \<Rightarrow> Observation \<Rightarrow> DepState \<Rightarrow> DepState" where
  "persistDependencyObservation r observation st =
    save_health r
      (update_service (ob_Service observation)
        (\<lambda>previous. previous\<lparr>ss_ObservedState := ob_State observation, ss_SourceHealth := ob_SourceHealth observation,
            ss_ObservedAt := ob_ObservedAt observation, ss_IncidentIDs := ob_IncidentIDs observation,
            ss_LastSuccessAt := (if ob_LastSuccessAt observation \<noteq> None then ob_LastSuccessAt observation
                                 else ss_LastSuccessAt previous),
            ss_LastFailureAt := (if ob_LastFailureAt observation \<noteq> None then ob_LastFailureAt observation
                                 else ss_LastFailureAt previous)\<rparr>) st)"

type_synonym pending_key = "string \<times> 64 word \<times> string"

definition pending_key :: "Transition \<Rightarrow> pending_key" where
  "pending_key t = (tr_Service t, tr_Generation t, TargetSessionID t)"

definition dependencyHealthPendingKey :: "ObservationTransition \<Rightarrow> string \<Rightarrow> pending_key" where
  "dependencyHealthPendingKey change targetID = (sanitizeDependencyField (ot_Service change), ot_Generation change, targetID)"

definition dependencyOutboxContains :: "Transition list \<Rightarrow> pending_key \<Rightarrow> bool" where
  "dependencyOutboxContains outbox key \<longleftrightarrow> list_ex (\<lambda>p. pending_key p = key) outbox"

definition outbox_limit :: nat where "outbox_limit = MaxServices * 32"

definition enqueue_target :: "ObservationTransition \<Rightarrow> Observation \<Rightarrow> int \<Rightarrow> string \<Rightarrow> Transition list \<Rightarrow> Transition list" where
  "enqueue_target change observation now targetID outbox =
    (case dependencyHealthPendingKey change targetID of (service, generation, _) \<Rightarrow>
      if dependencyOutboxContains outbox (dependencyHealthPendingKey change targetID) then outbox
      else takeLast outbox_limit (outbox @
        [\<lparr>tr_Service = service, tr_Generation = generation, tr_ObservedState = ot_Current change,
          tr_PreviousState = ot_Previous change, tr_SourceURL = ob_SourceURL observation,
          tr_IncidentIDs = ob_IncidentIDs observation, TargetSessionID = targetID, NextAttemptAt = Some now, Attempts = 0\<rparr>]))"

definition enqueueDependencyHealthTransition ::
  "save_result \<Rightarrow> int \<Rightarrow> ObservationTransition \<Rightarrow> Observation list \<Rightarrow> (string \<times> dependencyHealthRoute) list \<Rightarrow> DepState \<Rightarrow> DepState" where
  "enqueueDependencyHealthTransition r now change obs routes st =
    (let observation = (case find (\<lambda>c. ob_Service c = ot_Service change) obs of None \<Rightarrow> zero_Observation | Some c \<Rightarrow> c);
         st1 = update_service (ot_Service change)
           (\<lambda>s. s\<lparr>ss_ObservedState := ot_Current change, ss_SourceHealth := Fresh, ss_ObservedAt := ob_ObservedAt observation,
                  ss_IncidentIDs := ob_IncidentIDs observation, ss_Generation := ot_Generation change\<rparr>) st;
         targets = dependencyHealthTargetsLocked (dep_sessions st)
           (map_get \<lparr>Global = False, AgentTypes = []\<rparr> routes (ot_Service change));
         h = health_or_new st1
     in save_health r
          (st1\<lparr>DependencyHealth := Some (h\<lparr>Outbox := fold (enqueue_target change observation now) targets (Outbox h)\<rparr>)\<rparr>))"

section \<open>Delivery\<close>

definition notice_body :: "Transition \<Rightarrow> string" where
  "notice_body item = formatDependencyHealthNotification
     \<lparr>dh_Service = tr_Service item, dh_SourceURL = tr_SourceURL item, dh_State = tr_ObservedState item,
      dh_Previous = tr_PreviousState item, dh_ObservedAt = None, dh_IncidentIDs = tr_IncidentIDs item\<rparr>"

definition dependencyMessageExists :: "Message list \<Rightarrow> string \<Rightarrow> bool" where
  "dependencyMessageExists ms body \<longleftrightarrow> list_ex (\<lambda>m. msg_SenderID m = systemSenderID \<and> msg_Body m = body) ms"

definition removeDependencyOutbox :: "save_result \<Rightarrow> Transition \<Rightarrow> DepState \<Rightarrow> DepState" where
  "removeDependencyOutbox r item st =
    (case DependencyHealth st of
       None \<Rightarrow> st
     | Some h \<Rightarrow> save_health r (st\<lparr>DependencyHealth :=
         Some (h\<lparr>Outbox := filter (\<lambda>p. pending_key p \<noteq> pending_key item) (Outbox h)\<rparr>)\<rparr>))"

definition retry_delay :: "int \<Rightarrow> int" where
  "retry_delay attempts = 1000000000 * 2 ^ nat (min attempts 6)"

definition bump :: "int \<Rightarrow> Transition \<Rightarrow> Transition" where
  "bump now p = p\<lparr>Attempts := Attempts p + 1, NextAttemptAt := Some (now + retry_delay (Attempts p + 1))\<rparr>"

fun update_first :: "('a \<Rightarrow> bool) \<Rightarrow> ('a \<Rightarrow> 'a) \<Rightarrow> 'a list \<Rightarrow> 'a list" where
  "update_first P f [] = []"
| "update_first P f (x # xs) = (if P x then f x # xs else x # update_first P f xs)"

definition bumpDependencyOutboxRetry :: "save_result \<Rightarrow> int \<Rightarrow> Transition \<Rightarrow> DepState \<Rightarrow> DepState" where
  "bumpDependencyOutboxRetry r now item st =
    (case DependencyHealth st of
       None \<Rightarrow> st
     | Some h \<Rightarrow> save_health r (st\<lparr>DependencyHealth :=
         Some (h\<lparr>Outbox := update_first (\<lambda>p. pending_key p = pending_key item) (bump now) (Outbox h)\<rparr>)\<rparr>))"

text \<open>What the environment decides while one entry is handled: whether the pass was cancelled, whether reading
  and publishing succeed, the new message's id, the clock, the outcome of saving.\<close>

record deliver_env =
  de_cancelled :: bool
  de_read_ok :: bool
  de_publish_ok :: bool
  de_mid :: string
  de_now :: int
  de_save :: save_result

definition publish_notice :: "deliver_env \<Rightarrow> Transition \<Rightarrow> MsgStore \<Rightarrow> MsgStore \<times> bool" where
  "publish_notice env item s =
    (if \<not> de_publish_ok env then (s, False)
     else case Publish s \<lparr>po_Stream = inbox_of (TargetSessionID item), po_SenderID = systemSenderID,
              po_SenderName = systemSenderName, po_Body = notice_body item,
              po_ThreadID = dependencyHealthThread (tr_Service item), po_ReplyTo = [], po_NoReply = False\<rparr>
            (de_mid env) (de_now env) of
         (s', Inl _) \<Rightarrow> (s', False)
       | (s', Inr _) \<Rightarrow> (s', True))"

definition deliver_item :: "int \<Rightarrow> agent_sessions \<Rightarrow> deliver_env \<Rightarrow> Transition \<Rightarrow> DepState \<Rightarrow> DepState" where
  "deliver_item now sessions env item st =
    (if (case NextAttemptAt item of None \<Rightarrow> False | Some t \<Rightarrow> now < t) then st
     else if (case map_of sessions (TargetSessionID item) of
                None \<Rightarrow> True
              | Some s \<Rightarrow> \<not> dependencyHealthTargetActive (target_of (TargetSessionID item, s)))
     then removeDependencyOutbox (de_save env) item st
     else if de_read_ok env \<and>
       dependencyMessageExists
         (Read_msgs (dep_msgs st) (inbox_of (TargetSessionID item)) [] False (dependencyHealthThread (tr_Service item)))
         (notice_body item)
     then removeDependencyOutbox (de_save env) item st
     else case publish_notice env item (dep_msgs st) of
         (s', ok) \<Rightarrow>
           if ok then removeDependencyOutbox (de_save env) item (st\<lparr>dep_msgs := s'\<rparr>)
           else bumpDependencyOutboxRetry (de_save env) (de_now env) item (st\<lparr>dep_msgs := s'\<rparr>))"

fun deliver_items :: "int \<Rightarrow> agent_sessions \<Rightarrow> (Transition \<Rightarrow> deliver_env) \<Rightarrow> Transition list \<Rightarrow> DepState \<Rightarrow> DepState" where
  "deliver_items now sessions env [] st = st"
| "deliver_items now sessions env (item # items) st =
    (if de_cancelled (env item) then st
     else deliver_items now sessions env items (deliver_item now sessions (env item) item st))"

definition deliverDependencyHealthOnce :: "int \<Rightarrow> (Transition \<Rightarrow> deliver_env) \<Rightarrow> DepState \<Rightarrow> DepState" where
  "deliverDependencyHealthOnce now env st =
    (case DependencyHealth st of
       None \<Rightarrow> st
     | Some h \<Rightarrow> deliver_items now (dep_sessions st) env (Outbox h) st)"

section \<open>The running system\<close>

text \<open>The callbacks of one poll: the observation is persisted, then the transition, if any, is put into the
  outbox. A configuration reload and a restart start a new poller from the envelope.\<close>

definition after_poll :: "save_result \<Rightarrow> save_result \<Rightarrow> int \<Rightarrow> (string \<times> dependencyHealthRoute) list \<Rightarrow>
    Poller \<Rightarrow> Observation \<Rightarrow> ObservationTransition option \<Rightarrow> DepState \<Rightarrow> DepState" where
  "after_poll r r' now routes p o' tr st =
    (let st1 = persistDependencyObservation r o' st
     in case tr of None \<Rightarrow> st1 | Some change \<Rightarrow> enqueueDependencyHealthTransition r' now change (Snapshot p) routes st1)"

definition restored_observation :: "string \<times> ServiceState \<Rightarrow> Observation" where
  "restored_observation e = zero_Observation\<lparr>ob_Service := fst e, ob_State := ss_ObservedState (snd e),
     ob_SourceHealth := ss_SourceHealth (snd e), ob_ObservedAt := ss_ObservedAt (snd e), ob_IncidentIDs := ss_IncidentIDs (snd e)\<rparr>"

definition runDependencyHealthPoller :: "ServiceConfig list \<Rightarrow> DepState \<Rightarrow> Poller" where
  "runDependencyHealthPoller services st =
    (case DependencyHealth st of
       None \<Rightarrow> NewPoller services
     | Some h \<Rightarrow> Seed (map restored_observation (Services h)) (map (\<lambda>e. (fst e, ss_Generation (snd e))) (Services h))
         (NewPoller services))"

text \<open>What the provider promises of a successful poll: the observation names the service it polled and its state
  is one of the four.\<close>

definition provider_ok :: "ServiceConfig \<Rightarrow> Observation option \<Rightarrow> bool" where
  "provider_ok service outcome =
    (case outcome of None \<Rightarrow> True | Some o' \<Rightarrow> ob_Service o' = sc_Name service \<and> validObservedState (ob_State o'))"

text \<open>\<open>universe\<close> is every service that is configured at some time. A crash can hit between the two callbacks.\<close>

inductive dep_step :: "ServiceConfig set \<Rightarrow> Poller \<times> DepState \<Rightarrow> Poller \<times> DepState \<Rightarrow> bool"
  for universe :: "ServiceConfig set" where
  step_poll: "service \<in> universe \<Longrightarrow> provider_ok service outcome \<Longrightarrow> record_poll p service outcome now = (p', o', tr) \<Longrightarrow>
    dep_step universe (p, st) (p', after_poll r r' now' routes p' o' tr st)"
| step_crash: "service \<in> universe \<Longrightarrow> provider_ok service outcome \<Longrightarrow> record_poll p service outcome now = (p', o', tr) \<Longrightarrow>
    set ss \<subseteq> universe \<Longrightarrow> st' = dep_restart (persistDependencyObservation r o' st) \<Longrightarrow>
    dep_step universe (p, st) (runDependencyHealthPoller ss st', st')"
| step_deliver: "dep_step universe (p, st) (p, deliverDependencyHealthOnce now env st)"
| step_environment: "dep_step universe (p, st) (p, st\<lparr>dep_sessions := sessions, dep_msgs := m\<rparr>)"
| step_reload: "set ss \<subseteq> universe \<Longrightarrow> dep_step universe (p, st) (runDependencyHealthPoller ss st, st)"
| step_restart: "set ss \<subseteq> universe \<Longrightarrow>
    dep_step universe (p, st) (runDependencyHealthPoller ss (dep_restart st), dep_restart st)"

section \<open>The invariant\<close>

definition transition_ok :: "Transition \<Rightarrow> bool" where
  "transition_ok t \<longleftrightarrow> serviceNameRE (tr_Service t) \<and> validObservedState (tr_ObservedState t) \<and> 0 \<le> Attempts t"

definition outbox_ok :: "Transition list \<Rightarrow> bool" where
  "outbox_ok ob \<longleftrightarrow> distinct (map pending_key ob) \<and> length ob \<le> outbox_limit \<and> list_all transition_ok ob"

definition service_entry_ok :: "string set \<Rightarrow> string \<times> ServiceState \<Rightarrow> bool" where
  "service_entry_ok names e \<longleftrightarrow> fst e \<in> names \<and> validObservedState (ss_ObservedState (snd e)) \<and>
    validSourceHealth (ss_SourceHealth (snd e))"

definition health_ok :: "string set \<Rightarrow> PersistedState \<Rightarrow> bool" where
  "health_ok names h \<longleftrightarrow> SchemaVersion h = StateSchemaVersion \<and> distinct (map fst (Services h)) \<and>
    list_all (service_entry_ok names) (Services h) \<and> outbox_ok (Outbox h)"

definition good_names :: "string set \<Rightarrow> bool" where
  "good_names names \<longleftrightarrow> finite names \<and> card names \<le> MaxServices \<and> (\<forall>n \<in> names. serviceNameRE n)"

definition dep_inv :: "string set \<Rightarrow> DepState \<Rightarrow> bool" where
  "dep_inv names st \<longleftrightarrow> pred_option (health_ok names) (DependencyHealth st) \<and> pred_option (health_ok names) (disk_main st) \<and>
    pred_option (health_ok names) (disk_sidecar st)"

definition observation_ok :: "string set \<Rightarrow> string \<times> Observation \<Rightarrow> bool" where
  "observation_ok names e \<longleftrightarrow> fst e \<in> names \<and> ob_Service (snd e) = fst e \<and> validObservedState (ob_State (snd e)) \<and>
    validSourceHealth (ob_SourceHealth (snd e))"

lemma length_entries:
  assumes "good_names names" "distinct (map fst xs)" "fst ` set xs \<subseteq> names"
  shows "length xs \<le> MaxServices"
proof -
  have "length xs = card (fst ` set xs)" using assms(2) by (metis distinct_card length_map set_map)
  also have "\<dots> \<le> card names" using assms by (intro card_mono) (simp_all add: good_names_def)
  finally show ?thesis using assms(1) by (simp add: good_names_def)
qed

lemma health_ok_decodes:
  assumes "good_names names" "health_ok names h"
  shows "UnmarshalJSON h = h"
proof -
  have e: "e \<in> set (Services h) \<Longrightarrow> service_entry_ok names e" for e using assms(2) by (simp add: health_ok_def list_all_iff)
  have t: "t \<in> set (Outbox h) \<Longrightarrow> transition_ok t" for t using assms(2) by (simp add: health_ok_def outbox_ok_def list_all_iff)
  have "length (Services h) \<le> MaxServices"
    using assms e by (intro length_entries) (auto simp: health_ok_def service_entry_ok_def)
  moreover have "length (Outbox h) \<le> MaxServices * 32" using assms(2) by (simp add: health_ok_def outbox_ok_def outbox_limit_def)
  moreover have "\<not> (\<exists>e \<in> set (Services h). \<not> serviceNameRE (fst e) \<or> \<not> validObservedState (ss_ObservedState (snd e)) \<or>
       \<not> validSourceHealth (ss_SourceHealth (snd e)))" using e assms(1) by (auto simp: service_entry_ok_def good_names_def)
  moreover have "\<not> (\<exists>t \<in> set (Outbox h). \<not> serviceNameRE (tr_Service t) \<or> \<not> validObservedState (tr_ObservedState t) \<or> Attempts t < 0)"
    using t by (fastforce simp: transition_ok_def)
  ultimately show ?thesis using assms(2) unfolding UnmarshalJSON_def health_ok_def by (simp only: if_False) simp
qed

lemma new_health_ok: "health_ok names new_health"
  by (simp add: health_ok_def new_health_def outbox_ok_def)

lemma health_or_new_ok: "dep_inv names st \<Longrightarrow> health_ok names (health_or_new st)"
  by (auto simp: dep_inv_def health_or_new_def new_health_ok split: option.split)

lemma save_health_inv: "dep_inv names st \<Longrightarrow> dep_inv names (save_health r st)"
  using health_or_new_ok [of names st] by (cases r) (auto simp: save_health_def dep_inv_def)

lemma set_health_inv: "dep_inv names st \<Longrightarrow> health_ok names h \<Longrightarrow> dep_inv names (st\<lparr>DependencyHealth := Some h\<rparr>)"
  by (simp add: dep_inv_def)

lemma load_health_ok:
  assumes "good_names names" "dep_inv names st"
  shows "health_ok names (load_health (disk_main st) (disk_sidecar st))"
proof -
  have "UnmarshalJSON h = h" if "disk_main st = Some h \<or> disk_sidecar st = Some h" for h
    using assms that by (auto intro: health_ok_decodes simp: dep_inv_def)
  then show ?thesis using assms(2)
    by (cases "disk_main st"; cases "disk_sidecar st") (auto simp: load_health_def Let_def dep_inv_def new_health_ok)
qed

lemma dep_restart_inv: "good_names names \<Longrightarrow> dep_inv names st \<Longrightarrow> dep_inv names (dep_restart st)"
  using load_health_ok [of names st] by (simp add: dep_restart_def set_health_inv)

lemma distinct_map_put: "distinct (map fst xs) \<Longrightarrow> distinct (map fst (map_put k v xs))"
  by (auto simp: map_put_def map_delete_def distinct_map_filter)

lemma update_service_inv:
  assumes "dep_inv names st" "service_entry_ok names (name, f (map_get zero_ServiceState (Services (health_or_new st)) name))"
  shows "dep_inv names (update_service name f st)"
  unfolding update_service_def Let_def
proof (rule set_health_inv [OF assms(1)])
  let ?h = "health_or_new st"
  have "health_ok names ?h" by (rule health_or_new_ok [OF assms(1)])
  then show "health_ok names (?h\<lparr>Services := map_put name (f (map_get zero_ServiceState (Services ?h) name)) (Services ?h)\<rparr>)"
    using assms(2) by (simp add: health_ok_def distinct_map_put) (auto simp: map_put_def map_delete_def list_all_iff)
qed

lemma persist_inv:
  assumes "dep_inv names st" "observation_ok names (ob_Service o', o')"
  shows "dep_inv names (persistDependencyObservation r o' st)"
  unfolding persistDependencyObservation_def using assms
  by (intro save_health_inv update_service_inv) (simp_all add: observation_ok_def service_entry_ok_def)

lemma enqueue_target_ok:
  assumes "outbox_ok ob" "serviceNameRE (ot_Service change)" "validObservedState (ot_Current change)"
  shows "outbox_ok (enqueue_target change observation now targetID ob)"
proof (cases "dependencyOutboxContains ob (dependencyHealthPendingKey change targetID)")
  case True
  then show ?thesis using assms(1) by (simp add: enqueue_target_def dependencyHealthPendingKey_def)
next
  case False
  define t where "t = \<lparr>tr_Service = ot_Service change, tr_Generation = ot_Generation change, tr_ObservedState = ot_Current change,
          tr_PreviousState = ot_Previous change, tr_SourceURL = ob_SourceURL observation,
          tr_IncidentIDs = ob_IncidentIDs observation, TargetSessionID = targetID, NextAttemptAt = Some now, Attempts = 0\<rparr>"
  have eq: "enqueue_target change observation now targetID ob = takeLast outbox_limit (ob @ [t])"
    using False sanitize_serviceName [OF assms(2)] by (simp add: enqueue_target_def dependencyHealthPendingKey_def t_def)
  have "pending_key t = dependencyHealthPendingKey change targetID"
    using sanitize_serviceName [OF assms(2)] by (simp add: pending_key_def dependencyHealthPendingKey_def t_def)
  then have "distinct (map pending_key (ob @ [t]))" using assms(1) False
    by (auto simp: outbox_ok_def dependencyOutboxContains_def list_ex_iff)
  then have "distinct (map pending_key (takeLast outbox_limit (ob @ [t])))"
    unfolding takeLast_def by (simp only: drop_map [symmetric] distinct_drop)
  moreover have "list_all transition_ok (ob @ [t])" using assms by (simp add: outbox_ok_def transition_ok_def t_def)
  then have "list_all transition_ok (takeLast outbox_limit (ob @ [t]))"
    unfolding takeLast_def list_all_iff by (meson in_set_dropD)
  ultimately show ?thesis by (simp add: eq outbox_ok_def takeLast_def)
qed

lemma enqueue_targets_ok:
  assumes "serviceNameRE (ot_Service change)" "validObservedState (ot_Current change)"
  shows "outbox_ok ob \<Longrightarrow> outbox_ok (fold (enqueue_target change observation now) targets ob)"
  by (induction targets arbitrary: ob) (simp_all add: enqueue_target_ok assms)

lemma set_outbox_inv:
  "dep_inv names st \<Longrightarrow> DependencyHealth st = Some h \<Longrightarrow> outbox_ok ob \<Longrightarrow>
    dep_inv names (st\<lparr>DependencyHealth := Some (h\<lparr>Outbox := ob\<rparr>)\<rparr>)"
  by (simp add: dep_inv_def health_ok_def)

lemma dep_inv_outbox: "dep_inv names st \<Longrightarrow> DependencyHealth st = Some h \<Longrightarrow> outbox_ok (Outbox h)"
  by (simp add: dep_inv_def health_ok_def)

lemma enqueue_inv:
  assumes "dep_inv names st" "good_names names" "ot_Service change \<in> names" "validObservedState (ot_Current change)"
  shows "dep_inv names (enqueueDependencyHealthTransition r now change obs routes st)"
proof -
  define observation where
    "observation = (case find (\<lambda>c. ob_Service c = ot_Service change) obs of None \<Rightarrow> zero_Observation | Some c \<Rightarrow> c)"
  define st1 where "st1 = update_service (ot_Service change)
           (\<lambda>s. s\<lparr>ss_ObservedState := ot_Current change, ss_SourceHealth := Fresh, ss_ObservedAt := ob_ObservedAt observation,
                  ss_IncidentIDs := ob_IncidentIDs observation, ss_Generation := ot_Generation change\<rparr>) st"
  have i1: "dep_inv names st1" unfolding st1_def
    using assms by (intro update_service_inv) (simp_all add: service_entry_ok_def validSourceHealth_def)
  obtain h where h: "DependencyHealth st1 = Some h" by (simp add: st1_def update_service_def Let_def)
  have "outbox_ok (Outbox h)" using i1 h by (simp add: dep_inv_def health_ok_def)
  then have "outbox_ok (fold (enqueue_target change observation now) targets (Outbox h))" for targets
    using assms(2-4) by (intro enqueue_targets_ok) (simp_all add: good_names_def)
  then have "dep_inv names (st1\<lparr>DependencyHealth := Some (h\<lparr>Outbox := fold (enqueue_target change observation now) targets (Outbox h)\<rparr>)\<rparr>)"
    for targets by (rule set_outbox_inv [OF i1 h])
  then show ?thesis
    unfolding enqueueDependencyHealthTransition_def Let_def observation_def [symmetric] st1_def [symmetric]
    by (intro save_health_inv) (simp add: health_or_new_def h)
qed

lemma bump_key [simp]: "pending_key (bump now t) = pending_key t"
  by (simp add: pending_key_def bump_def)

lemma bump_first_keys [simp]: "map pending_key (update_first P (bump now) xs) = map pending_key xs"
  by (induction xs) auto

lemma update_first_all: "(\<And>x. Q x \<Longrightarrow> Q (f x)) \<Longrightarrow> list_all Q xs \<Longrightarrow> list_all Q (update_first P f xs)"
  by (induction xs) auto

lemma bump_first_ok: "outbox_ok ob \<Longrightarrow> outbox_ok (update_first P (bump now) ob)"
proof -
  assume ok: "outbox_ok ob"
  have "list_all transition_ok (update_first P (bump now) ob)"
    using ok by (intro update_first_all) (auto simp: outbox_ok_def transition_ok_def bump_def)
  moreover have "length (update_first P (bump now) ob) = length ob" by (metis bump_first_keys length_map)
  ultimately show ?thesis using ok by (simp add: outbox_ok_def)
qed

lemma filter_outbox_ok: "outbox_ok ob \<Longrightarrow> outbox_ok (filter P ob)"
  by (auto simp: outbox_ok_def distinct_map_filter list_all_iff intro: order_trans [OF length_filter_le])

lemma remove_inv: "dep_inv names st \<Longrightarrow> dep_inv names (removeDependencyOutbox r item st)"
  by (cases "DependencyHealth st")
    (auto simp: removeDependencyOutbox_def intro!: save_health_inv set_outbox_inv filter_outbox_ok dest: dep_inv_outbox)

lemma bump_inv: "dep_inv names st \<Longrightarrow> dep_inv names (bumpDependencyOutboxRetry r now item st)"
  by (cases "DependencyHealth st")
    (auto simp: bumpDependencyOutboxRetry_def intro!: save_health_inv set_outbox_inv bump_first_ok dest: dep_inv_outbox)

lemma msgs_inv: "dep_inv names (st\<lparr>dep_msgs := m\<rparr>) = dep_inv names st"
  by (simp add: dep_inv_def)

lemma deliver_item_inv: "dep_inv names st \<Longrightarrow> dep_inv names (deliver_item now sessions env item st)"
  by (cases "publish_notice env item (dep_msgs st)") (simp add: deliver_item_def remove_inv bump_inv msgs_inv)

lemma deliver_items_inv: "dep_inv names st \<Longrightarrow> dep_inv names (deliver_items now sessions env items st)"
  by (induction items arbitrary: st) (simp_all add: deliver_item_inv)

lemma deliver_inv: "dep_inv names st \<Longrightarrow> dep_inv names (deliverDependencyHealthOnce now env st)"
  by (simp add: deliverDependencyHealthOnce_def deliver_items_inv split: option.split)

lemma record_poll_observation_ok:
  assumes "list_all (observation_ok names) (observations p)" "sc_Name service \<in> names" "provider_ok service outcome"
    and r: "record_poll p service outcome now = (p', o', tr)"
  shows "observation_ok names (sc_Name service, o')"
proof (cases outcome)
  case None
  have "observation_ok names (sc_Name service, x)" if "map_of (observations p) (sc_Name service) = Some x" for x
    using assms(1) map_of_SomeD [OF that] by (auto simp: list_all_iff)
  then show ?thesis using r None assms(2)
    by (auto simp: record_poll_def record_failure_def Let_def observation_ok_def zero_Observation_def validObservedState_def
        validSourceHealth_def split: option.splits)
next
  case (Some ob)
  have "ob_Service o' = ob_Service ob" "ob_State o' = ob_State ob" "ob_SourceHealth o' = Fresh"
    using record_success_transition(3-5) [of p service ob now p' o' tr] r Some by simp_all
  then show ?thesis using assms(2,3) Some by (simp add: observation_ok_def provider_ok_def validSourceHealth_def)
qed

lemma map_put_all: "list_all P xs \<Longrightarrow> P (k, v) \<Longrightarrow> list_all P (map_put k v xs)"
  by (auto simp: map_put_def map_delete_def list_all_iff)

lemma transition_valid:
  assumes "record_poll p service outcome now = (p', o', Some t)"
  shows "ot_Service t = sc_Name service \<and> validObservedState (ot_Current t)"
proof (cases outcome)
  case None
  then show ?thesis using record_failure_keeps assms by blast
next
  case (Some ob)
  have "source_trusted p (sc_Name service) \<and> isNotifiable (known_state p (sc_Name service)) (ob_State ob)"
    using record_success_transition(1) assms Some by blast
  then show ?thesis using record_success_transition(6) [of p service ob now p' o' "Some t" t] assms Some
    by (auto simp: isNotifiable_def validObservedState_def)
qed

lemma seeded_observations:
  "observations (Seed obs gens (NewPoller ss)) = fold (\<lambda>x. map_put (ob_Service x) x) obs []"
  by (simp add: Seed_def NewPoller_def)

lemma fold_put_all: "list_all P xs \<Longrightarrow> \<forall>x \<in> set obs. P (k x, x) \<Longrightarrow> list_all P (fold (\<lambda>x. map_put (k x) x) obs xs)"
  by (induction obs arbitrary: xs) (simp_all add: map_put_all)

lemma restored_poller_ok:
  assumes "dep_inv names st"
  shows "list_all (observation_ok names) (observations (runDependencyHealthPoller ss st))"
proof (cases "DependencyHealth st")
  case None
  then show ?thesis by (simp add: runDependencyHealthPoller_def NewPoller_def)
next
  case (Some h)
  have "service_entry_ok names e" if "e \<in> set (Services h)" for e
    using assms Some that by (simp add: dep_inv_def health_ok_def list_all_iff)
  then have "\<forall>x \<in> set (map restored_observation (Services h)). observation_ok names (ob_Service x, x)"
    by (auto simp: service_entry_ok_def observation_ok_def restored_observation_def)
  then show ?thesis using Some by (simp add: runDependencyHealthPoller_def seeded_observations fold_put_all)
qed

definition universe_names :: "ServiceConfig set \<Rightarrow> string set" where
  "universe_names universe = sc_Name ` universe"

definition system_inv :: "ServiceConfig set \<Rightarrow> Poller \<times> DepState \<Rightarrow> bool" where
  "system_inv universe s \<longleftrightarrow> good_names (universe_names universe) \<and>
    list_all (observation_ok (universe_names universe)) (observations (fst s)) \<and> dep_inv (universe_names universe) (snd s)"

definition system_init :: "ServiceConfig set \<Rightarrow> Poller \<times> DepState \<Rightarrow> bool" where
  "system_init universe s \<longleftrightarrow> good_names (universe_names universe) \<and>
    observations (fst s) = [] \<and> DependencyHealth (snd s) = Some new_health \<and> disk_main (snd s) = None \<and> disk_sidecar (snd s) = None"

lemma after_poll_inv:
  assumes inv: "dep_inv names st" "good_names names" "list_all (observation_ok names) (observations p)"
    and "sc_Name service \<in> names" "provider_ok service outcome"
    and r: "record_poll p service outcome now = (p', o', tr)"
  shows "list_all (observation_ok names) (observations p')" "dep_inv names (persistDependencyObservation s o' st)"
    "dep_inv names (after_poll s s' now' routes p' o' tr st)"
proof -
  have ok: "observation_ok names (sc_Name service, o')" by (rule record_poll_observation_ok [OF inv(3) assms(4,5) r])
  then have n: "ob_Service o' = sc_Name service" by (simp add: observation_ok_def)
  show "list_all (observation_ok names) (observations p')" using record_poll_map [OF r] inv(3) ok by (simp add: map_put_all)
  show p: "dep_inv names (persistDependencyObservation s o' st)" for s using inv(1) ok n by (intro persist_inv) simp_all
  show "dep_inv names (after_poll s s' now' routes p' o' tr st)"
  proof (cases tr)
    case None
    then show ?thesis by (simp add: after_poll_def p)
  next
    case (Some t)
    then show ?thesis using transition_valid r assms(4) p inv(2) by (simp add: after_poll_def enqueue_inv)
  qed
qed

lemma dep_step_inv:
  assumes "system_inv universe s" "dep_step universe s t"
  shows "system_inv universe t"
  using assms(2,1)
proof (cases rule: dep_step.cases)
  case (step_poll service outcome p now p' o' tr st r r' now' routes)
  then have pre: "dep_inv (universe_names universe) st" "good_names (universe_names universe)"
    "list_all (observation_ok (universe_names universe)) (observations p)" "sc_Name service \<in> universe_names universe"
    using assms(1) by (simp_all add: system_inv_def universe_names_def)
  show ?thesis using step_poll(1,2) pre(2) after_poll_inv(1,3) [OF pre step_poll(4,5)] by (simp add: system_inv_def)
next
  case (step_crash service outcome p now p' o' tr ss st' r st)
  then have pre: "dep_inv (universe_names universe) st" "good_names (universe_names universe)"
    "list_all (observation_ok (universe_names universe)) (observations p)" "sc_Name service \<in> universe_names universe"
    using assms(1) by (simp_all add: system_inv_def universe_names_def)
  show ?thesis using step_crash(1,2,7) pre(2) after_poll_inv(2) [OF pre step_crash(4,5)]
    by (simp add: system_inv_def dep_restart_inv restored_poller_ok)
next
  case (step_environment p st sessions m)
  then show ?thesis using assms(1) by (simp add: system_inv_def dep_inv_def)
qed (use assms(1) in \<open>simp_all add: system_inv_def deliver_inv restored_poller_ok dep_restart_inv\<close>)

lemma system_init_inv: "system_init universe s \<Longrightarrow> system_inv universe s"
  by (simp add: system_init_def system_inv_def dep_inv_def new_health_ok)

interpretation dep: invariant_system "system_init universe" "dep_step universe" "system_inv universe" for universe
  by unfold_locales (auto intro: system_init_inv dep_step_inv)

definition empty_dep :: DepState where
  "empty_dep = \<lparr>dep_sessions = [], DependencyHealth = Some new_health, disk_main = None, disk_sidecar = None,
     dep_msgs = \<lparr>messages = [], cursors = [], acked = [], stream_hwm = [], jailed = [], subs = [], subscriberBuffer = 1,
       jailListLimit = 100\<rparr>\<rparr>"

text \<open>One configured service, one running session, one poll that finds the service down.\<close>

definition demo_service :: ServiceConfig where
  "demo_service = \<lparr>sc_Name = ''github'', BaseURL = ''https://www.githubstatus.com'', PollInterval = 300000000000,
     RecoveryPollInterval = 30000000000\<rparr>"

definition demo_observation :: Observation where
  "demo_observation = zero_Observation\<lparr>ob_Service := ''github'', ob_State := Down, ob_SourceURL := ''https://www.githubstatus.com'',
     ob_IncidentIDs := [''gh-1'']\<rparr>"

definition demo_routes :: "(string \<times> dependencyHealthRoute) list" where
  "demo_routes = [(''github'', \<lparr>Global = True, AgentTypes = []\<rparr>)]"

definition demo_sessions :: agent_sessions where
  "demo_sessions = [(''a'', \<lparr>Name = ''a'', ParentID = [], SystemKind = [], Status = StatusRunning, Token = ''t'', DeletedAt = None,
     Starred = False, Labels = [], Agent = ''claude''\<rparr>)]"

definition demo_start :: DepState where
  "demo_start = empty_dep\<lparr>dep_sessions := demo_sessions\<rparr>"

definition demo_state :: DepState where
  "demo_state = (case record_poll (NewPoller [demo_service]) demo_service (Some demo_observation) 0 of
     (p, o', tr) \<Rightarrow> after_poll Saved Saved 0 demo_routes p o' tr demo_start)"

lemma demo_outbox: "length (Outbox (health_or_new demo_state)) = 1"
  by code_simp

text \<open>C37: as long as the services configured over time have at most 32 different valid names, dependency health
  survives restarts: in every reachable state, whatever polls, deliveries, failed saves, crashes, reloads and
  restarts came before, saving the envelope and loading it again gives it back unchanged. The outbox it
  carries has one entry per service, generation and session and stays within its limit.\<close>

theorem health_survives_restart:
  assumes "reach (system_init universe) (dep_step universe) (p, st)"
  shows "load_health (disk_main (save_health Saved st)) (disk_sidecar (save_health Saved st)) = health_or_new st \<and>
    distinct (map pending_key (Outbox (health_or_new st))) \<and> length (Outbox (health_or_new st)) \<le> outbox_limit"
proof -
  have "system_inv universe (p, st)" by (rule dep.reach_inv [OF assms])
  then have g: "good_names (universe_names universe)" and i: "dep_inv (universe_names universe) st" by (simp_all add: system_inv_def)
  have ok: "health_ok (universe_names universe) (health_or_new st)" by (rule health_or_new_ok [OF i])
  have "UnmarshalJSON (health_or_new st) = health_or_new st" by (rule health_ok_decodes [OF g ok])
  then show ?thesis using ok by (simp add: load_health_def save_health_def Let_def health_ok_def outbox_ok_def)
qed

theorem health_survives_restart_witness:
  "load_health (disk_main (save_health Saved demo_state)) (disk_sidecar (save_health Saved demo_state)) = health_or_new demo_state \<and>
   distinct (map pending_key (Outbox (health_or_new demo_state))) \<and> length (Outbox (health_or_new demo_state)) = 1"
proof -
  have init: "system_init {demo_service} (NewPoller [demo_service], demo_start)"
    by (simp add: system_init_def good_names_def universe_names_def demo_service_def demo_start_def empty_dep_def NewPoller_def MaxServices_def
        serviceNameRE_def alnum_byte_def in_bytes_def byte_val_def)
  obtain p' o' tr where poll: "record_poll (NewPoller [demo_service]) demo_service (Some demo_observation) 0 = (p', o', tr)"
    using prod_cases3 by blast
  then have st: "demo_state = after_poll Saved Saved 0 demo_routes p' o' tr demo_start" by (simp add: demo_state_def)
  have "dep_step {demo_service} (NewPoller [demo_service], demo_start) (p', demo_state)" unfolding st
    by (rule step_poll [OF _ _ poll]) (simp_all add: provider_ok_def demo_observation_def demo_service_def validObservedState_def)
  with init have "reach (system_init {demo_service}) (dep_step {demo_service}) (p', demo_state)" by (blast intro: reach.intros)
  from health_survives_restart [OF this] show ?thesis
    by (simp add: demo_outbox)
qed

section \<open>Delivery passes\<close>

definition notice_for :: "Transition \<Rightarrow> Message \<Rightarrow> bool" where
  "notice_for item m \<longleftrightarrow> msg_Stream m = inbox_of (TargetSessionID item) \<and> msg_SenderID m = systemSenderID \<and>
    msg_Body m = notice_body item \<and> msg_ThreadID m = dependencyHealthThread (tr_Service item)"

definition notice_in :: "MsgStore \<Rightarrow> Transition \<Rightarrow> bool" where
  "notice_in s item \<longleftrightarrow> (\<exists>m \<in> set (messages s). notice_for item m)"

definition outbox_of :: "DepState \<Rightarrow> Transition list" where
  "outbox_of st = (case DependencyHealth st of None \<Rightarrow> [] | Some h \<Rightarrow> Outbox h)"

definition outbox_entry :: "DepState \<Rightarrow> pending_key \<Rightarrow> Transition option" where
  "outbox_entry st key = find (\<lambda>t. pending_key t = key) (outbox_of st)"

definition waits :: "int \<Rightarrow> Transition \<Rightarrow> bool" where
  "waits now item = (case NextAttemptAt item of None \<Rightarrow> False | Some t \<Rightarrow> now < t)"

definition active_target :: "agent_sessions \<Rightarrow> string \<Rightarrow> bool" where
  "active_target sessions i = (case map_of sessions i of None \<Rightarrow> False | Some s \<Rightarrow> dependencyHealthTargetActive (target_of (i, s)))"

definition publish_refused :: "deliver_env \<Rightarrow> MsgStore \<Rightarrow> bool" where
  "publish_refused env s \<longleftrightarrow> \<not> de_publish_ok env \<or> de_mid env \<in> msg_ID ` set (messages s)"

lemma thread_nonempty [simp]: "dependencyHealthThread service \<noteq> []"
  by (simp add: dependencyHealthThread_def)

lemma notice_exists:
  "dependencyMessageExists (Read_msgs s (inbox_of (TargetSessionID item)) [] False (dependencyHealthThread (tr_Service item))) (notice_body item)
    = notice_in s item"
  by (auto simp: dependencyMessageExists_def Read_msgs_def list_ex_iff notice_in_def notice_for_def)

lemma deliver_item_cases:
  "deliver_item now sessions env item st =
    (if waits now item then st
     else if \<not> active_target sessions (TargetSessionID item) \<or> de_read_ok env \<and> notice_in (dep_msgs st) item
     then removeDependencyOutbox (de_save env) item st
     else case publish_notice env item (dep_msgs st) of
         (s', ok) \<Rightarrow> if ok then removeDependencyOutbox (de_save env) item (st\<lparr>dep_msgs := s'\<rparr>)
           else bumpDependencyOutboxRetry (de_save env) (de_now env) item (st\<lparr>dep_msgs := s'\<rparr>))"
  unfolding deliver_item_def notice_exists waits_def active_target_def
  by (cases "map_of sessions (TargetSessionID item)") simp_all

lemma publish_notice_cases:
  "publish_notice env item s =
    (if publish_refused env s then (s, False)
     else (fst (Publish s \<lparr>po_Stream = inbox_of (TargetSessionID item), po_SenderID = systemSenderID,
              po_SenderName = systemSenderName, po_Body = notice_body item,
              po_ThreadID = dependencyHealthThread (tr_Service item), po_ReplyTo = [], po_NoReply = False\<rparr>
            (de_mid env) (de_now env)), True))"
  by (simp add: publish_notice_def publish_refused_def Publish_def Let_def)

lemma publish_notice_messages:
  assumes "publish_notice env item s = (s', ok)"
  shows "\<exists>ms. messages s' = messages s @ ms \<and> (\<forall>m \<in> set ms. notice_for item m)" "ok \<Longrightarrow> notice_in s' item"
    "\<not> ok \<Longrightarrow> publish_refused env s"
  using assms by (auto simp: publish_notice_cases publish_refused_def Publish_def Let_def new_message_def notice_for_def notice_in_def
      split: if_splits)

lemma save_health_simps [simp]:
  "DependencyHealth (save_health r st) = DependencyHealth st" "dep_msgs (save_health r st) = dep_msgs st"
  "dep_sessions (save_health r st) = dep_sessions st"
  by (cases r; simp add: save_health_def)+

lemma remove_outbox [simp]:
  "outbox_of (removeDependencyOutbox r item st) = filter (\<lambda>p. pending_key p \<noteq> pending_key item) (outbox_of st)"
  "dep_msgs (removeDependencyOutbox r item st) = dep_msgs st"
  by (cases "DependencyHealth st"; simp add: removeDependencyOutbox_def outbox_of_def)+

lemma bump_outbox [simp]:
  "outbox_of (bumpDependencyOutboxRetry r now item st) = update_first (\<lambda>p. pending_key p = pending_key item) (bump now) (outbox_of st)"
  "dep_msgs (bumpDependencyOutboxRetry r now item st) = dep_msgs st"
  by (cases "DependencyHealth st"; simp add: bumpDependencyOutboxRetry_def outbox_of_def)+

lemma find_filter_key:
  "find (\<lambda>t. pending_key t = k) (filter (\<lambda>t. pending_key t \<noteq> k') xs) = (if k = k' then None else find (\<lambda>t. pending_key t = k) xs)"
  by (induction xs) auto

lemma find_bump_key:
  "find (\<lambda>t. pending_key t = k) (update_first (\<lambda>t. pending_key t = k') (bump now) xs) =
    (if k = k' then map_option (bump now) (find (\<lambda>t. pending_key t = k) xs) else find (\<lambda>t. pending_key t = k) xs)"
  by (induction xs) auto

lemmas entry_simps = outbox_entry_def find_filter_key find_bump_key

lemma outbox_msgs [simp]: "outbox_of (st\<lparr>dep_msgs := m\<rparr>) = outbox_of st"
  by (simp add: outbox_of_def)

lemma deliver_item_frame:
  assumes "k \<noteq> pending_key item"
  shows "outbox_entry (deliver_item now sessions env item st) k = outbox_entry st k"
  using assms by (cases "publish_notice env item (dep_msgs st)") (simp add: deliver_item_cases entry_simps)

lemma deliver_item_messages:
  "\<exists>ms. messages (dep_msgs (deliver_item now sessions env item st)) = messages (dep_msgs st) @ ms \<and>
    (\<forall>m \<in> set ms. notice_for item m \<and> active_target sessions (TargetSessionID item))"
proof (cases "publish_notice env item (dep_msgs st)")
  case (Pair s' ok)
  then show ?thesis using publish_notice_messages(1) [OF Pair] by (auto simp: deliver_item_cases)
qed

text \<open>What a pass does with one entry.\<close>

definition entry_result :: "int \<Rightarrow> agent_sessions \<Rightarrow> deliver_env \<Rightarrow> Transition \<Rightarrow> MsgStore \<Rightarrow> Transition option \<Rightarrow> bool" where
  "entry_result now sessions env item s entry =
    (if waits now item then entry = Some item
     else if \<not> active_target sessions (TargetSessionID item) then entry = None
     else (entry = None \<and> notice_in s item) \<or> (entry = Some (bump (de_now env) item) \<and> publish_refused env s))"

lemma deliver_item_entry:
  assumes "outbox_entry st (pending_key item) = Some item"
  shows "entry_result now sessions env item (dep_msgs (deliver_item now sessions env item st))
    (outbox_entry (deliver_item now sessions env item st) (pending_key item))"
proof (cases "publish_notice env item (dep_msgs st)")
  case (Pair s' ok)
  have "publish_refused env s'" if "\<not> ok"
    using publish_notice_messages(1,3) [OF Pair] that by (auto simp: publish_refused_def)
  then show ?thesis using assms Pair publish_notice_messages(2) [OF Pair]
    by (auto simp: deliver_item_cases entry_result_def entry_simps)
qed

lemma entry_result_mono:
  assumes "entry_result now sessions env item s entry" "set (messages s) \<subseteq> set (messages s')"
  shows "entry_result now sessions env item s' entry"
  using assms unfolding entry_result_def notice_in_def publish_refused_def by (auto split: if_splits)

lemma deliver_items_messages:
  "\<exists>ms. messages (dep_msgs (deliver_items now sessions env items st)) = messages (dep_msgs st) @ ms \<and>
    (\<forall>m \<in> set ms. \<exists>item \<in> set items. notice_for item m \<and> active_target sessions (TargetSessionID item))"
proof (induction items arbitrary: st)
  case (Cons item items)
  show ?case
  proof (cases "de_cancelled (env item)")
    case False
    obtain ms ms' where "messages (dep_msgs (deliver_item now sessions (env item) item st)) = messages (dep_msgs st) @ ms"
      "\<forall>m \<in> set ms. notice_for item m \<and> active_target sessions (TargetSessionID item)"
      "messages (dep_msgs (deliver_items now sessions env items (deliver_item now sessions (env item) item st))) =
        messages (dep_msgs (deliver_item now sessions (env item) item st)) @ ms'"
      "\<forall>m \<in> set ms'. \<exists>item \<in> set items. notice_for item m \<and> active_target sessions (TargetSessionID item)"
      using deliver_item_messages Cons.IH by meson
    then show ?thesis using False by (intro exI [of _ "ms @ ms'"]) auto
  qed simp
qed simp

lemma deliver_items_frame:
  "k \<notin> pending_key ` set items \<Longrightarrow> outbox_entry (deliver_items now sessions env items st) k = outbox_entry st k"
  by (induction items arbitrary: st) (auto simp: deliver_item_frame)

lemma deliver_items_entry:
  assumes "distinct (map pending_key items)" "\<forall>i \<in> set items. outbox_entry st (pending_key i) = Some i"
    and "\<forall>i. \<not> de_cancelled (env i)" "item \<in> set items"
  shows "entry_result now sessions (env item) item (dep_msgs (deliver_items now sessions env items st))
    (outbox_entry (deliver_items now sessions env items st) (pending_key item))"
  using assms
proof (induction items arbitrary: st)
  case (Cons i items)
  define st1 where "st1 = deliver_item now sessions (env i) i st"
  have run: "deliver_items now sessions env (i # items) st = deliver_items now sessions env items st1"
    using Cons.prems(3) by (simp add: st1_def)
  show ?case
  proof (cases "item = i")
    case True
    have "entry_result now sessions (env i) i (dep_msgs st1) (outbox_entry st1 (pending_key i))"
      unfolding st1_def using Cons.prems(2) by (intro deliver_item_entry) simp
    moreover have "set (messages (dep_msgs st1)) \<subseteq> set (messages (dep_msgs (deliver_items now sessions env items st1)))"
      using deliver_items_messages [of now sessions env items st1] by auto
    moreover have "outbox_entry (deliver_items now sessions env items st1) (pending_key i) = outbox_entry st1 (pending_key i)"
      using Cons.prems(1) by (intro deliver_items_frame) simp
    ultimately show ?thesis unfolding run True by (simp add: entry_result_mono)
  next
    case False
    have "\<forall>j \<in> set items. outbox_entry st1 (pending_key j) = Some j"
    proof
      fix j assume j: "j \<in> set items"
      moreover have "pending_key i \<notin> pending_key ` set items" using Cons.prems(1) by simp
      ultimately have "pending_key j \<noteq> pending_key i" by (metis imageI)
      then show "outbox_entry st1 (pending_key j) = Some j" using Cons.prems(2) j by (simp add: st1_def deliver_item_frame)
    qed
    then show ?thesis unfolding run using Cons.prems(1,3,4) False by (intro Cons.IH) simp_all
  qed
qed simp

lemma find_key_distinct: "distinct (map pending_key xs) \<Longrightarrow> x \<in> set xs \<Longrightarrow> find (\<lambda>t. pending_key t = pending_key x) xs = Some x"
  by (induction xs) (auto simp: image_iff)

text \<open>A pending notice is never lost by delivery. A pass that is not cancelled keeps every entry that is not
  due; it drops an entry whose session is gone or not running; any other entry leaves the outbox only when its
  notice is in the session's inbox, and otherwise (publishing failed) stays with one more attempt counted and
  a pause of between 2 and 64 seconds. The pass adds no message other than such notices, and none to a
  session that is not running.\<close>

theorem dependency_delivery_exact:
  assumes "DependencyHealth st = Some h" "outbox_ok (Outbox h)" "item \<in> set (Outbox h)" "\<forall>i. \<not> de_cancelled (env i)"
  shows "entry_result now (dep_sessions st) (env item) item (dep_msgs (deliverDependencyHealthOnce now env st))
      (outbox_entry (deliverDependencyHealthOnce now env st) (pending_key item)) \<and>
    NextAttemptAt (bump t item) \<in> Some ` {t + 2000000000 .. t + 64000000000} \<and>
    (\<exists>ms. messages (dep_msgs (deliverDependencyHealthOnce now env st)) = messages (dep_msgs st) @ ms \<and>
      (\<forall>m \<in> set ms. \<exists>i \<in> set (Outbox h). notice_for i m \<and> active_target (dep_sessions st) (TargetSessionID i)))"
proof -
  have d: "distinct (map pending_key (Outbox h))" using assms(2) by (simp add: outbox_ok_def)
  then have "\<forall>i \<in> set (Outbox h). outbox_entry st (pending_key i) = Some i"
    using assms(1) by (simp add: outbox_entry_def outbox_of_def find_key_distinct)
  note pass = deliver_items_entry [OF d this assms(4,3)] deliver_items_messages
  have "0 \<le> Attempts item" using assms(2,3) by (simp add: outbox_ok_def list_all_iff transition_ok_def)
  then have "1 \<le> nat (min (Attempts item + 1) 6)" "nat (min (Attempts item + 1) 6) \<le> 6" by simp_all
  then have "(2::int) ^ 1 \<le> 2 ^ nat (min (Attempts item + 1) 6)" "(2::int) ^ nat (min (Attempts item + 1) 6) \<le> 2 ^ 6"
    by (intro power_increasing; simp)+
  then have "NextAttemptAt (bump t item) \<in> Some ` {t + 2000000000 .. t + 64000000000}"
    by (simp add: bump_def retry_delay_def)
  then show ?thesis using pass assms(1) by (simp add: deliverDependencyHealthOnce_def)
qed

definition demo_env :: deliver_env where
  "demo_env = \<lparr>de_cancelled = False, de_read_ok = True, de_publish_ok = True, de_mid = ''m1'', de_now = 1, de_save = Saved\<rparr>"

lemma demo_delivery:
  "DependencyHealth demo_state = Some (health_or_new demo_state)" "outbox_ok (Outbox (health_or_new demo_state))"
  "outbox_entry (deliverDependencyHealthOnce 1 (\<lambda>i. demo_env) demo_state) (''github'', 1, ''a'') = None"
  "length (messages (dep_msgs (deliverDependencyHealthOnce 1 (\<lambda>i. demo_env) demo_state))) = 1"
  "waits 1 (hd (Outbox (health_or_new demo_state))) = False" "pending_key (hd (Outbox (health_or_new demo_state))) = (''github'', 1, ''a'')"
  "active_target (dep_sessions demo_state) ''a''" "dep_sessions demo_state = demo_sessions"
  by code_simp+

theorem dependency_delivery_exact_witness:
  "notice_in (dep_msgs (deliverDependencyHealthOnce 1 (\<lambda>i. demo_env) demo_state)) (hd (Outbox (health_or_new demo_state)))"
proof -
  let ?item = "hd (Outbox (health_or_new demo_state))"
  have "Outbox (health_or_new demo_state) \<noteq> []" using demo_outbox by auto
  then have i: "?item \<in> set (Outbox (health_or_new demo_state))" by simp
  have t: "TargetSessionID ?item = ''a''" using demo_delivery(6) by (simp add: pending_key_def)
  have "\<forall>i. \<not> de_cancelled ((\<lambda>i :: Transition. demo_env) i)" by (simp add: demo_env_def)
  from dependency_delivery_exact [OF demo_delivery(1,2) i this, of 1 0] show ?thesis
    using demo_delivery(3,5-8) t by (simp add: entry_result_def)
qed

section \<open>Where the envelope falls short\<close>

text \<open>A notice is recognised by its text, which carries neither the generation nor the time. While the notice of
  an outage is still in the inbox, the notice of a second outage of the same kind is dropped unsent.\<close>

theorem second_outage_suppressed:
  assumes "notice_in (dep_msgs st) old" "TargetSessionID new = TargetSessionID old" "tr_Service new = tr_Service old"
    and "tr_ObservedState new = tr_ObservedState old" "tr_PreviousState new = tr_PreviousState old"
    and "tr_SourceURL new = tr_SourceURL old" "tr_IncidentIDs new = tr_IncidentIDs old"
    and "de_read_ok env" "\<not> waits now new"
  shows "dep_msgs (deliver_item now sessions env new st) = dep_msgs st \<and>
    outbox_entry (deliver_item now sessions env new st) (pending_key new) = None"
proof -
  have "notice_for new = notice_for old" using assms(2-7) by (simp add: notice_for_def notice_body_def fun_eq_iff)
  then have "notice_in (dep_msgs st) new" using assms(1) by (simp add: notice_in_def)
  then show ?thesis using assms(8,9) by (simp add: deliver_item_cases entry_simps)
qed

text \<open>An envelope that was discarded once has schema version 0. No operation sets the version, so what is saved
  from then on is discarded again by every later restart.\<close>

definition forgotten :: "DepState \<Rightarrow> bool" where
  "forgotten st \<longleftrightarrow> (\<exists>h. DependencyHealth st = Some h \<and> SchemaVersion h = 0) \<and>
    (\<exists>d. disk_main st = Some d \<and> UnmarshalJSON d = zero_health) \<and>
    (\<forall>d. disk_sidecar st = Some d \<longrightarrow> UnmarshalJSON d = zero_health)"

lemma zero_schema_discarded: "SchemaVersion h = 0 \<Longrightarrow> UnmarshalJSON h = zero_health"
  by (simp add: UnmarshalJSON_def StateSchemaVersion_def)

lemma forgotten_save: "forgotten st \<Longrightarrow> forgotten (save_health r st)"
  by (cases r) (auto simp: forgotten_def save_health_def health_or_new_def zero_schema_discarded)

lemma forgotten_set: "forgotten st \<Longrightarrow> SchemaVersion h = 0 \<Longrightarrow> forgotten (st\<lparr>DependencyHealth := Some h\<rparr>)"
  by (simp add: forgotten_def)

lemma forgotten_health: "forgotten st \<Longrightarrow> SchemaVersion (health_or_new st) = 0"
  by (auto simp: forgotten_def health_or_new_def)

lemma forgotten_update: "forgotten st \<Longrightarrow> forgotten (update_service n f st)"
  by (simp add: update_service_def Let_def forgotten_set forgotten_health)

lemma forgotten_restart: "forgotten st \<Longrightarrow> forgotten (dep_restart st) \<and> DependencyHealth (dep_restart st) = Some zero_health"
  by (cases "disk_sidecar st") (auto simp: forgotten_def dep_restart_def load_health_def Let_def zero_health_def StateSchemaVersion_def)

lemma forgotten_persist: "forgotten st \<Longrightarrow> forgotten (persistDependencyObservation r o' st)"
  by (simp add: persistDependencyObservation_def forgotten_save forgotten_update)

lemma forgotten_enqueue: "forgotten st \<Longrightarrow> forgotten (enqueueDependencyHealthTransition r now change obs routes st)"
  unfolding enqueueDependencyHealthTransition_def Let_def
  by (intro forgotten_save forgotten_set forgotten_update) (simp_all add: forgotten_health forgotten_update)

lemma forgotten_after_poll: "forgotten st \<Longrightarrow> forgotten (after_poll r r' now routes p o' tr st)"
  by (cases tr) (simp_all add: after_poll_def forgotten_persist forgotten_enqueue)

lemma forgotten_remove: "forgotten st \<Longrightarrow> forgotten (removeDependencyOutbox r item st)"
  by (cases "DependencyHealth st")
    (auto simp: removeDependencyOutbox_def intro!: forgotten_save forgotten_set, simp add: forgotten_def)

lemma forgotten_bump: "forgotten st \<Longrightarrow> forgotten (bumpDependencyOutboxRetry r now item st)"
  by (cases "DependencyHealth st")
    (auto simp: bumpDependencyOutboxRetry_def intro!: forgotten_save forgotten_set, simp add: forgotten_def)

lemma forgotten_env: "forgotten (st\<lparr>dep_msgs := m\<rparr>) = forgotten st" "forgotten (st\<lparr>dep_sessions := ss\<rparr>) = forgotten st"
  by (simp_all add: forgotten_def)

lemma forgotten_deliver_items: "forgotten st \<Longrightarrow> forgotten (deliver_items now sessions env items st)"
proof (induction items arbitrary: st)
  case (Cons item items)
  have "forgotten (deliver_item now sessions (env item) item st)"
    using Cons.prems by (cases "publish_notice (env item) item (dep_msgs st)")
      (simp add: deliver_item_cases forgotten_remove forgotten_bump forgotten_env)
  then show ?case using Cons by simp
qed simp

lemma forgotten_step: "dep_step universe s t \<Longrightarrow> forgotten (snd s) \<Longrightarrow> forgotten (snd t)"
  by (induction rule: dep_step.induct)
    (auto simp: forgotten_after_poll forgotten_restart forgotten_persist forgotten_deliver_items forgotten_env
      deliverDependencyHealthOnce_def split: option.split)

theorem discarded_health_never_restored:
  assumes "disk_main st = Some d" "disk_sidecar st = Some d'" "UnmarshalJSON d = zero_health" "UnmarshalJSON d' = zero_health"
    and "(dep_step universe)\<^sup>*\<^sup>* (p, dep_restart st) (p', st')"
  shows "DependencyHealth (dep_restart st') = Some zero_health"
proof -
  have "forgotten (dep_restart st)" using assms(1-4)
    by (simp add: forgotten_def dep_restart_def load_health_def Let_def zero_health_def StateSchemaVersion_def)
  moreover have "forgotten (snd t)" if "(dep_step universe)\<^sup>*\<^sup>* s t" "forgotten (snd s)" for s t
    using that by (induction rule: rtranclp_induct) (auto intro: forgotten_step)
  ultimately have "forgotten st'" using assms(5) by fastforce
  then show ?thesis using forgotten_restart by simp
qed

text \<open>Two ways into that state. A configuration whose service name has a space in front passes validation, which
  trims the name; the envelope keeps the name as written and is refused at the next start. And a service that
  is no longer configured is never removed, so a list that changes over time, always short, fills it up.\<close>

definition observed :: "string \<Rightarrow> Observation" where
  "observed name = zero_Observation\<lparr>ob_Service := name, ob_State := Operational, ob_SourceHealth := Fresh\<rparr>"

theorem spaced_name_discarded:
  "let service = \<lparr>sv_Name = '' github'', sv_Provider = ''statuspage'', sv_BaseURL = ''https://www.githubstatus.com'',
        sv_Global = True, sv_AgentTypes = []\<rparr>;
       st = persistDependencyObservation Saved (observed '' github'') empty_dep
   in services_errors (\<lambda>u. True) [] [] [service] = [] \<and> DependencyHealth (dep_restart st) = Some zero_health"
  by code_simp

theorem renamed_services_discarded:
  "DependencyHealth (dep_restart (fold (\<lambda>n. persistDependencyObservation Saved (observed (''s'' @ dec_str (int n)))) [0..<33] empty_dep))
    = Some zero_health"
  by code_simp

text \<open>The observation and the outbox entries are saved one after the other. A crash in between loses the notice: the
  restarted poller already knows the new state.\<close>

theorem crash_loses_notice:
  "let (p1, o1, t1) = record_poll (NewPoller [demo_service]) demo_service (Some demo_observation) 0;
       st = dep_restart (persistDependencyObservation Saved o1 demo_start);
       (p2, o2, t2) = record_poll (runDependencyHealthPoller [demo_service] st) demo_service (Some demo_observation) 1
   in t1 \<noteq> None \<and> outbox_of st = [] \<and> t2 = None"
  by code_simp

end
