(* ===== verification/Triggers.thy ===== *)
theory Triggers
  imports Msg_Store Sessions "HOL-Library.Multiset"
begin

text \<open>
  The schedule triggers of the daemon (\<^verbatim>\<open>internal/daemon/trigger.go\<close>, \<^verbatim>\<open>triggerstate.go\<close>, \<^verbatim>\<open>scenariotrigger.go\<close>):
  arming and advancing the next-fire cursors, the durable fire commit, the overlap guard, the concurrency cap
  and the rolling rate limit. Times are integers; \<open>None\<close> is Go's zero time. The cron library, the parsing
  of durations and numbers and the hash of a definition are the fields of \<open>trigger_env\<close>.
\<close>

section \<open>Definitions and state\<close>

record ScheduleConfig =
  Cron :: string
  Every :: string
  Timezone :: string

record TriggerPolicy =
  Overlap :: string
  RateLimit :: string
  CatchUp :: bool

record TriggerConfig =
  tg_Name :: string
  tg_Enabled :: "bool option"
  tg_Schedule :: "ScheduleConfig option"
  tg_Watch :: bool
  tg_GCX :: bool
  tg_Completion :: bool
  tg_Policy :: TriggerPolicy

datatype trigger_error = BadCron string | CronDormant string | BadInterval string | ActionFailed string

record TriggerRun =
  run_ScheduledAt :: int
  run_Cause :: string
  run_Result :: string

record TriggerRuntimeState =
  Fingerprint :: string
  Paused :: bool
  ActivatedAt :: "int option"
  LastScheduledFireAt :: "int option"
  NextScheduledFireAt :: "int option option"
  LastError :: "trigger_error option"
  RunCount :: int
  History :: "TriggerRun list"

text \<open>The in-memory state, the persisted table and its copy in memory. \<open>saves\<close> holds the outcomes of the coming
  writes of the state file; a write succeeds when the list is used up.\<close>

record triggerState =
  cron :: "(string \<times> string) list"
  nextFire :: "(string \<times> int option) list"
  inFlight :: "(string \<times> int) list"
  rateLog :: "(string \<times> int list) list"
  running :: int
  TriggerRuntime :: "(string \<times> TriggerRuntimeState) list"
  disk_runtime :: "(string \<times> TriggerRuntimeState) list"
  scenario_ids :: "string list"
  saves :: "bool list"

record trigger_env =
  parseCron :: "string \<Rightarrow> bool"
  cronNext :: "string \<Rightarrow> string \<Rightarrow> int \<Rightarrow> int option"
  parseDuration :: "string \<Rightarrow> int option"
  scanInt :: "string \<Rightarrow> int option"
  triggerFingerprint :: "TriggerConfig \<Rightarrow> string"

definition newTriggerState :: "(string \<times> TriggerRuntimeState) list \<Rightarrow> string list \<Rightarrow> triggerState" where
  "newTriggerState rt ids =
    \<lparr>cron = [], nextFire = [], inFlight = [], rateLog = [], running = 0, TriggerRuntime = rt, disk_runtime = rt,
     scenario_ids = ids, saves = []\<rparr>"

definition get :: "'v \<Rightarrow> (string \<times> 'v) list \<Rightarrow> string \<Rightarrow> 'v" where
  "get zero m k = (case map_of m k of None \<Rightarrow> zero | Some v \<Rightarrow> v)"

definition TriggerEnabled :: "TriggerConfig \<Rightarrow> bool" where
  "TriggerEnabled t = (case tg_Enabled t of None \<Rightarrow> True | Some b \<Rightarrow> b)"

definition IsSchedule :: "TriggerConfig \<Rightarrow> bool" where
  "IsSchedule t \<longleftrightarrow> tg_Schedule t \<noteq> None"

definition OverlapSkip :: string where "OverlapSkip = ''skip''"

definition OverlapMode :: "TriggerPolicy \<Rightarrow> string" where
  "OverlapMode p = (if Overlap p = [] then OverlapSkip else Overlap p)"

definition defaultRateLimitN :: int where "defaultRateLimitN = 5"
definition defaultRateLimitWin :: int where "defaultRateLimitWin = 1800000000000"
definition defaultMaxConcurrent :: int where "defaultMaxConcurrent = 4"
definition defaultRunHistoryMax :: int where "defaultRunHistoryMax = 20"

definition cut :: "char \<Rightarrow> string \<Rightarrow> (string \<times> string) option" where
  "cut c s = (if c \<in> set s then Some (takeWhile (\<lambda>x. x \<noteq> c) s, tl (dropWhile (\<lambda>x. x \<noteq> c) s)) else None)"

definition RateLimitParsed :: "trigger_env \<Rightarrow> TriggerPolicy \<Rightarrow> int \<times> int" where
  "RateLimitParsed env p =
    (let d = (defaultRateLimitN, defaultRateLimitWin)
     in if RateLimit p = [] then d
        else case cut (CHR ''/'') (RateLimit p) of
            None \<Rightarrow> d
          | Some (a, b) \<Rightarrow>
              (case scanInt env (trim_space a) of
                 None \<Rightarrow> d
               | Some n \<Rightarrow>
                   if n \<le> 0 then d
                   else case parseDuration env (trim_space b) of
                       None \<Rightarrow> d
                     | Some win \<Rightarrow> if win \<le> 0 then d else (n, win)))"

definition MaxConcurrentOr :: "int \<Rightarrow> int" where
  "MaxConcurrentOr configured = (if configured \<le> 0 then defaultMaxConcurrent else configured)"

definition RunHistoryMax :: "int \<Rightarrow> int" where
  "RunHistoryMax configured = (if configured \<le> 0 then defaultRunHistoryMax else configured)"

section \<open>Names of scenario triggers\<close>

definition scenarioTriggerPrefix :: string where "scenarioTriggerPrefix = ''scenario:''"

definition scenarioTriggerName :: "string \<Rightarrow> string \<Rightarrow> string" where
  "scenarioTriggerName i bare = scenarioTriggerPrefix @ i @ '':'' @ bare"

definition parseScenarioTriggerName :: "string \<Rightarrow> (string \<times> string) option" where
  "parseScenarioTriggerName name =
    (if prefix scenarioTriggerPrefix name then cut (CHR '':'') (trim_prefix name scenarioTriggerPrefix) else None)"

lemma cut_append: "c \<notin> set a \<Longrightarrow> cut c (a @ c # b) = Some (a, b)"
  unfolding cut_def by (induction a) auto

text \<open>Scenario ids contain no colon, so the full name determines the scenario and the bare name.\<close>

lemma scenarioTriggerName_roundtrip:
  "CHR '':'' \<notin> set i \<Longrightarrow> parseScenarioTriggerName (scenarioTriggerName i bare) = Some (i, bare)"
  by (simp add: parseScenarioTriggerName_def scenarioTriggerName_def cut_append)

record trig_scenario =
  ts_ID :: string
  ts_Members :: "(string \<times> bool) list"
  ts_Triggers :: "TriggerConfig list"

definition scenarioActiveLocked :: "sessions \<Rightarrow> trig_scenario \<Rightarrow> bool" where
  "scenarioActiveLocked ss sc \<longleftrightarrow>
    list_ex (\<lambda>(i, shared). \<not> shared \<and>
      (case map_of ss i of None \<Rightarrow> False | Some s \<Rightarrow> Status s = StatusRunning \<and> \<not> IsSoftDeleted s)) (ts_Members sc)"

definition allTriggers :: "TriggerConfig list \<Rightarrow> sessions \<Rightarrow> trig_scenario list \<Rightarrow> TriggerConfig list" where
  "allTriggers configured ss scenarios =
    configured @ concat (map (\<lambda>sc. map (\<lambda>t. t\<lparr>tg_Name := scenarioTriggerName (ts_ID sc) (tg_Name t)\<rparr>)
      (filter (\<lambda>t. tg_Completion t \<or> scenarioActiveLocked ss sc) (ts_Triggers sc))) scenarios)"

definition scenarioTriggerOrphanedLocked :: "string \<Rightarrow> triggerState \<Rightarrow> bool" where
  "scenarioTriggerOrphanedLocked name st =
    (case parseScenarioTriggerName name of None \<Rightarrow> False | Some (i, _) \<Rightarrow> i \<notin> set (scenario_ids st))"

section \<open>The persisted table\<close>

definition saveTriggers :: "triggerState \<Rightarrow> triggerState \<times> bool" where
  "saveTriggers st =
    (case saves st of
       [] \<Rightarrow> (st\<lparr>disk_runtime := TriggerRuntime st\<rparr>, True)
     | ok # rest \<Rightarrow> (st\<lparr>saves := rest, disk_runtime := (if ok then TriggerRuntime st else disk_runtime st)\<rparr>, ok))"

definition zero_runtime :: TriggerRuntimeState where
  "zero_runtime = \<lparr>Fingerprint = [], Paused = False, ActivatedAt = None, LastScheduledFireAt = None, NextScheduledFireAt = None,
     LastError = None, RunCount = 0, History = []\<rparr>"

definition getTriggerRuntime :: "string \<Rightarrow> triggerState \<Rightarrow> TriggerRuntimeState option" where
  "getTriggerRuntime name st = map_of (TriggerRuntime st) name"

definition putTriggerRuntime :: "string \<Rightarrow> TriggerRuntimeState \<Rightarrow> triggerState \<Rightarrow> triggerState" where
  "putTriggerRuntime name rt st =
    (if scenarioTriggerOrphanedLocked name st then st
     else fst (saveTriggers (st\<lparr>TriggerRuntime := map_put name rt (TriggerRuntime st)\<rparr>)))"

text \<open>The result tells whether the change is durable.\<close>

definition updateTriggerRuntime ::
  "string \<Rightarrow> (TriggerRuntimeState \<Rightarrow> TriggerRuntimeState) \<Rightarrow> triggerState \<Rightarrow> triggerState \<times> bool" where
  "updateTriggerRuntime name f st =
    (if scenarioTriggerOrphanedLocked name st then (st, True)
     else saveTriggers (st\<lparr>TriggerRuntime := map_put name (f (get zero_runtime (TriggerRuntime st) name)) (TriggerRuntime st)\<rparr>))"

definition recordTriggerError :: "string \<Rightarrow> trigger_error \<Rightarrow> triggerState \<Rightarrow> triggerState" where
  "recordTriggerError name e st = fst (updateTriggerRuntime name (\<lambda>r. r\<lparr>LastError := Some e\<rparr>) st)"

definition recordTriggerRun :: "int \<Rightarrow> string \<Rightarrow> TriggerRun \<Rightarrow> triggerState \<Rightarrow> triggerState" where
  "recordTriggerRun maxHistory name run st =
    fst (updateTriggerRuntime name
      (\<lambda>r. r\<lparr>RunCount := RunCount r + 1, History := takeLast (nat maxHistory) (History r @ [run])\<rparr>) st)"

section \<open>Cursors\<close>

text \<open>The loop \<^verbatim>\<open>for !next.After(now) { next = next.Add(every) }\<close>.\<close>

function advance_past :: "int \<Rightarrow> int \<Rightarrow> int \<Rightarrow> int" where
  "advance_past every now next = (if now < next \<or> every \<le> 0 then next else advance_past every now (next + every))"
  by pat_completeness auto
termination
  by (relation "measure (\<lambda>(every, now, next). nat (now - next + 1))") auto

declare advance_past.simps [simp del]

definition set_cursor :: "TriggerConfig \<Rightarrow> TriggerRuntimeState \<Rightarrow> int \<Rightarrow> int option \<Rightarrow> triggerState \<Rightarrow> triggerState" where
  "set_cursor t rt now next0 st =
    (let missed = (case NextScheduledFireAt rt of
             None \<Rightarrow> False | Some None \<Rightarrow> True | Some (Some x) \<Rightarrow> x < now);
         next = (if CatchUp (tg_Policy t) \<and> missed then Some now else next0)
     in fst (updateTriggerRuntime (tg_Name t) (\<lambda>r. r\<lparr>NextScheduledFireAt := Some next\<rparr>)
          (st\<lparr>nextFire := map_put (tg_Name t) next (nextFire st)\<rparr>)))"

definition armSchedule :: "trigger_env \<Rightarrow> TriggerConfig \<Rightarrow> ScheduleConfig \<Rightarrow> TriggerRuntimeState \<Rightarrow> int \<Rightarrow> triggerState \<Rightarrow> triggerState" where
  "armSchedule env t sched rt now st =
    (if Cron sched \<noteq> [] then
       if \<not> parseCron env (Cron sched) then recordTriggerError (tg_Name t) (BadCron (Cron sched)) st
       else let st1 = st\<lparr>cron := map_put (tg_Name t) (Cron sched) (cron st)\<rparr>;
                next = cronNext env (Cron sched) (Timezone sched) now;
                st2 = (if next = None then recordTriggerError (tg_Name t) (CronDormant (Cron sched)) st1 else st1)
            in set_cursor t rt now next st2
     else if Every sched \<noteq> [] then
       (case parseDuration env (Every sched) of
          None \<Rightarrow> recordTriggerError (tg_Name t) (BadInterval (Every sched)) st
        | Some every \<Rightarrow>
            if every \<le> 0 then recordTriggerError (tg_Name t) (BadInterval (Every sched)) st
            else let anchor = (case LastScheduledFireAt rt of
                        Some f \<Rightarrow> f
                      | None \<Rightarrow> case ActivatedAt rt of Some a \<Rightarrow> a | None \<Rightarrow> now)
                 in set_cursor t rt now (Some (advance_past every now (anchor + every))) st)
     else set_cursor t rt now None st)"

definition live_schedule :: "TriggerConfig \<Rightarrow> bool" where
  "live_schedule t \<longleftrightarrow> IsSchedule t \<and> TriggerEnabled t"

text \<open>A new or redefined trigger starts from a fresh row; one that is not armed yet (after a start) is armed.\<close>

definition redefined :: "trigger_env \<Rightarrow> TriggerConfig \<Rightarrow> triggerState \<Rightarrow> bool" where
  "redefined env t st =
    (case getTriggerRuntime (tg_Name t) st of None \<Rightarrow> True | Some rt \<Rightarrow> Fingerprint rt \<noteq> triggerFingerprint env t)"

definition fresh_runtime :: "trigger_env \<Rightarrow> int \<Rightarrow> TriggerConfig \<Rightarrow> TriggerRuntimeState" where
  "fresh_runtime env now t = zero_runtime\<lparr>Fingerprint := triggerFingerprint env t, ActivatedAt := Some now\<rparr>"

definition reconcile_one :: "trigger_env \<Rightarrow> int \<Rightarrow> TriggerConfig \<Rightarrow> triggerState \<Rightarrow> triggerState" where
  "reconcile_one env now t st =
    (case tg_Schedule t of
       None \<Rightarrow> st
     | Some sched \<Rightarrow>
         if \<not> TriggerEnabled t then st
         else if redefined env t st
         then armSchedule env t sched (fresh_runtime env now t) now (putTriggerRuntime (tg_Name t) (fresh_runtime env now t) st)
         else if map_of (cron st) (tg_Name t) = None \<and> map_of (nextFire st) (tg_Name t) = None
         then armSchedule env t sched (the (getTriggerRuntime (tg_Name t) st)) now st
         else st)"

definition prune_schedules :: "string list \<Rightarrow> triggerState \<Rightarrow> triggerState" where
  "prune_schedules live st =
    (let gone = filter (\<lambda>n. n \<notin> set live) (map fst (nextFire st))
     in st\<lparr>cron := filter (\<lambda>e. fst e \<in> set live) (cron st), nextFire := filter (\<lambda>e. fst e \<in> set live) (nextFire st),
           inFlight := filter (\<lambda>e. fst e \<notin> set gone) (inFlight st), rateLog := filter (\<lambda>e. fst e \<notin> set gone) (rateLog st)\<rparr>)"

definition reconcileSchedules :: "trigger_env \<Rightarrow> TriggerConfig list \<Rightarrow> int \<Rightarrow> triggerState \<Rightarrow> triggerState" where
  "reconcileSchedules env triggers now st =
    prune_schedules (map tg_Name (filter live_schedule triggers)) (fold (reconcile_one env now) triggers st)"

section \<open>Reservations\<close>

definition reserveFireLocked :: "string \<Rightarrow> string \<Rightarrow> triggerState \<Rightarrow> triggerState \<times> bool" where
  "reserveFireLocked name overlap st =
    (if overlap = OverlapSkip \<and> 0 < get 0 (inFlight st) name then (st, False)
     else (st\<lparr>inFlight := map_put name (get 0 (inFlight st) name + 1) (inFlight st)\<rparr>, True))"

definition releaseFire :: "string \<Rightarrow> triggerState \<Rightarrow> triggerState" where
  "releaseFire name st =
    (let n = get 0 (inFlight st) name;
         n' = (if 0 < n then n - 1 else n)
     in if n' \<le> 0 then st\<lparr>inFlight := map_delete name (inFlight st)\<rparr> else st\<lparr>inFlight := map_put name n' (inFlight st)\<rparr>)"

definition acquireSlot :: "int \<Rightarrow> triggerState \<Rightarrow> triggerState \<times> bool" where
  "acquireSlot configured st =
    (if MaxConcurrentOr configured \<le> running st then (st, False) else (st\<lparr>running := running st + 1\<rparr>, True))"

definition releaseSlot :: "triggerState \<Rightarrow> triggerState" where
  "releaseSlot st = (if 0 < running st then st\<lparr>running := running st - 1\<rparr> else st)"

definition reserveRateSlots :: "string \<Rightarrow> int \<Rightarrow> int \<Rightarrow> int \<Rightarrow> int \<Rightarrow> triggerState \<Rightarrow> triggerState \<times> int" where
  "reserveRateSlots key n window now wanted st =
    (let recent = filter (\<lambda>ts. now - window < ts) (get [] (rateLog st) key);
         available = n - int (length recent)
     in if available \<le> 0 \<or> wanted \<le> 0 then (st\<lparr>rateLog := map_put key recent (rateLog st)\<rparr>, 0)
        else let reserved = min available wanted
             in (st\<lparr>rateLog := map_put key (recent @ replicate (nat reserved) now) (rateLog st)\<rparr>, reserved))"

definition releaseRateSlots :: "string \<Rightarrow> int \<Rightarrow> triggerState \<Rightarrow> triggerState" where
  "releaseRateSlots key wanted st =
    (if wanted \<le> 0 then st
     else let entries = get [] (rateLog st) key;
              c = min (nat wanted) (length entries);
              entries' = take (length entries - c) entries
          in if entries' = [] then st\<lparr>rateLog := map_delete key (rateLog st)\<rparr>
             else st\<lparr>rateLog := map_put key entries' (rateLog st)\<rparr>)"

definition rateLimited :: "string \<Rightarrow> int \<Rightarrow> int \<Rightarrow> int \<Rightarrow> triggerState \<Rightarrow> triggerState \<times> bool" where
  "rateLimited key n window now st = (case reserveRateSlots key n window now 1 st of (st', r) \<Rightarrow> (st', r = 0))"

section \<open>Ticks and fires\<close>

definition advanceSchedule :: "trigger_env \<Rightarrow> TriggerConfig \<Rightarrow> int \<Rightarrow> triggerState \<Rightarrow> triggerState \<times> int option" where
  "advanceSchedule env t now st =
    (let name = tg_Name t;
         sched = (case tg_Schedule t of None \<Rightarrow> \<lparr>Cron = [], Every = [], Timezone = []\<rparr> | Some s \<Rightarrow> s);
         next = (case map_of (cron st) name of
             Some c \<Rightarrow> cronNext env c (Timezone sched) now
           | None \<Rightarrow>
               let every = (case parseDuration env (Every sched) of
                       None \<Rightarrow> 60000000000 | Some e \<Rightarrow> if e \<le> 0 then 60000000000 else e);
                   previous = (case get None (nextFire st) name of None \<Rightarrow> 0 | Some x \<Rightarrow> x)
               in Some (advance_past every now (previous + every)))
     in (st\<lparr>nextFire := map_put name next (nextFire st)\<rparr>, next))"

text \<open>One name of \<^verbatim>\<open>dueSchedules\<close>: the new state and, when the fire was committed durably, the scheduled instant and
  the next one.\<close>

definition due_one :: "trigger_env \<Rightarrow> TriggerConfig list \<Rightarrow> int \<Rightarrow> string \<Rightarrow> triggerState \<Rightarrow> triggerState \<times> (int \<times> int option) option" where
  "due_one env triggers now name st =
    (case map_of (rev (map (\<lambda>t. (tg_Name t, t)) triggers)) name of
       None \<Rightarrow> (st, None)
     | Some t \<Rightarrow>
         if \<not> TriggerEnabled t then (st, None)
         else if (case getTriggerRuntime name st of None \<Rightarrow> False | Some rt \<Rightarrow> Paused rt) then (st, None)
         else case get None (nextFire st) name of
             None \<Rightarrow> (st, None)
           | Some fireAt \<Rightarrow>
               if now < fireAt then (st, None)
               else case reserveFireLocked name (OverlapMode (tg_Policy t)) st of
                   (st1, False) \<Rightarrow>
                     (case advanceSchedule env t now st1 of (st2, nn) \<Rightarrow>
                        (fst (updateTriggerRuntime name (\<lambda>r. r\<lparr>NextScheduledFireAt := Some nn\<rparr>) st2), None))
                 | (st1, True) \<Rightarrow>
                     (case advanceSchedule env t now st1 of (st2, nn) \<Rightarrow>
                        (case updateTriggerRuntime name
                            (\<lambda>r. r\<lparr>LastScheduledFireAt := Some fireAt, NextScheduledFireAt := Some nn\<rparr>) st2 of
                           (st3, durable) \<Rightarrow> if durable then (st3, Some (fireAt, nn)) else (releaseFire name st3, None))))"

fun due_names :: "trigger_env \<Rightarrow> TriggerConfig list \<Rightarrow> int \<Rightarrow> string list \<Rightarrow> triggerState \<Rightarrow>
    triggerState \<times> (string \<times> int \<times> int option) list" where
  "due_names env triggers now [] st = (st, [])"
| "due_names env triggers now (name # names) st =
    (case due_one env triggers now name st of (st1, fired) \<Rightarrow>
     case due_names env triggers now names st1 of (st2, due) \<Rightarrow>
       (st2, (case fired of None \<Rightarrow> due | Some f \<Rightarrow> (name, f) # due)))"

definition dueSchedules :: "trigger_env \<Rightarrow> TriggerConfig list \<Rightarrow> int \<Rightarrow> triggerState \<Rightarrow>
    triggerState \<times> (string \<times> int \<times> int option) list" where
  "dueSchedules env triggers now st = due_names env triggers now (map fst (nextFire st)) st"

definition triggerByName :: "TriggerConfig list \<Rightarrow> string \<Rightarrow> TriggerConfig option" where
  "triggerByName triggers name = find (\<lambda>t. tg_Name t = name) triggers"

text \<open>\<^verbatim>\<open>fireSchedule\<close> up to the action, and what follows it. The first part ends the reservation itself when the fire is
  rate limited or no slot is free.\<close>

definition fire_begin :: "trigger_env \<Rightarrow> TriggerConfig list \<Rightarrow> int \<Rightarrow> string \<Rightarrow> int \<Rightarrow> triggerState \<Rightarrow> triggerState \<times> bool" where
  "fire_begin env triggers configured name now st =
    (case triggerByName triggers name of
       None \<Rightarrow> (releaseFire name st, False)
     | Some t \<Rightarrow>
         (case RateLimitParsed env (tg_Policy t) of (n, win) \<Rightarrow>
          case rateLimited name n win now st of
            (st1, True) \<Rightarrow> (releaseFire name st1, False)
          | (st1, False) \<Rightarrow>
              (case acquireSlot configured st1 of
                 (st2, False) \<Rightarrow> (releaseFire name st2, False)
               | (st2, True) \<Rightarrow> (st2, True))))"

definition fire_end :: "int \<Rightarrow> string \<Rightarrow> TriggerRun \<Rightarrow> trigger_error option \<Rightarrow> triggerState \<Rightarrow> triggerState" where
  "fire_end maxHistory name run err st =
    (let st1 = recordTriggerRun maxHistory name run st;
         st2 = (case err of None \<Rightarrow> st1 | Some e \<Rightarrow> recordTriggerError name e st1)
     in releaseFire name (releaseSlot st2))"

datatype run_error = TriggerNotFound | IsWatchTrigger | IsGCXTrigger | IsCompletionTrigger | AlreadyRunning | DisabledInConfig

definition TriggerRunNow :: "TriggerConfig list \<Rightarrow> string \<Rightarrow> triggerState \<Rightarrow> triggerState \<times> run_error option" where
  "TriggerRunNow triggers name st =
    (case triggerByName triggers name of
       None \<Rightarrow> (st, Some TriggerNotFound)
     | Some t \<Rightarrow>
         if tg_Watch t then (st, Some IsWatchTrigger)
         else if tg_GCX t then (st, Some IsGCXTrigger)
         else if tg_Completion t then (st, Some IsCompletionTrigger)
         else case reserveFireLocked name (OverlapMode (tg_Policy t)) st of
             (st1, False) \<Rightarrow> (st1, Some AlreadyRunning)
           | (st1, True) \<Rightarrow> (st1, None))"

definition TriggerPause :: "TriggerConfig list \<Rightarrow> string \<Rightarrow> bool \<Rightarrow> triggerState \<Rightarrow> triggerState \<times> run_error option" where
  "TriggerPause triggers name pause st =
    (case triggerByName triggers name of
       None \<Rightarrow> (st, Some TriggerNotFound)
     | Some t \<Rightarrow>
         if \<not> pause \<and> \<not> TriggerEnabled t then (st, Some DisabledInConfig)
         else (fst (updateTriggerRuntime name (\<lambda>r. r\<lparr>Paused := pause\<rparr>) st), None))"

text \<open>A restart keeps what was saved.\<close>

definition trigger_restart :: "triggerState \<Rightarrow> triggerState" where
  "trigger_restart st = (newTriggerState (disk_runtime st) (scenario_ids st))\<lparr>saves := saves st\<rparr>"

section \<open>Cursors move past the present\<close>

lemma advance_past_bounds:
  assumes "0 < every"
  shows "now < advance_past every now next \<and> next \<le> advance_past every now next \<and>
    (next \<le> now \<longrightarrow> advance_past every now next \<le> now + every) \<and>
    (\<exists>k. advance_past every now next = next + int k * every)"
  using assms
proof (induction every now "next" rule: advance_past.induct)
  case (1 every now "next")
  show ?case
  proof (cases "now < next")
    case True
    then show ?thesis by (auto simp: advance_past.simps [of every now "next"] intro: exI [of _ 0])
  next
    case False
    have step: "advance_past every now next = advance_past every now (next + every)"
      using False "1.prems" by (subst advance_past.simps) simp
    from "1.IH" False "1.prems" obtain k where k: "advance_past every now (next + every) = next + every + int k * every"
      and "now < advance_past every now (next + every)"
      "next + every \<le> now \<longrightarrow> advance_past every now (next + every) \<le> now + every" by auto
    moreover have "next + every > now \<Longrightarrow> advance_past every now (next + every) = next + every"
      by (subst advance_past.simps) simp
    moreover have "next + every + int k * every = next + int (Suc k) * every" by (simp add: algebra_simps)
    moreover have "0 \<le> int k * every" using "1.prems" by simp
    ultimately show ?thesis unfolding step using False "1.prems" by (auto intro: exI [of _ "Suc k"])
  qed
qed

section \<open>The rate limit\<close>

text \<open>The nows at which calls of \<^verbatim>\<open>rateLimited\<close> for one key let a fire pass.\<close>

fun rate_calls :: "string \<Rightarrow> int \<Rightarrow> int \<Rightarrow> int list \<Rightarrow> triggerState \<Rightarrow> triggerState \<times> int list" where
  "rate_calls key n window [] st = (st, [])"
| "rate_calls key n window (now # nows) st =
    (case rateLimited key n window now st of (st1, limited) \<Rightarrow>
     case rate_calls key n window nows st1 of (st2, passed) \<Rightarrow> (st2, (if limited then passed else now # passed)))"

definition in_window :: "int \<Rightarrow> int \<Rightarrow> int list \<Rightarrow> nat" where
  "in_window window t gs = length (filter (\<lambda>g. t - window < g \<and> g \<le> t) gs)"

lemma rateLimited_log:
  "rateLimited key n window now st = (st', limited) \<Longrightarrow>
    get [] (rateLog st') key = filter (\<lambda>ts. now - window < ts) (get [] (rateLog st) key) @ (if limited then [] else [now]) \<and>
    (\<not> limited \<longrightarrow> int (length (filter (\<lambda>ts. now - window < ts) (get [] (rateLog st) key))) < n)"
  by (auto simp: rateLimited_def reserveRateSlots_def Let_def get_def split: if_splits)

lemma filter_cutoff: "c \<le> c' \<Longrightarrow> filter (\<lambda>ts. c' < ts) (filter (\<lambda>ts. c < ts) gs) = filter (\<lambda>ts. c' < (ts::int)) gs"
  by (induction gs) auto

lemma in_window_step:
  assumes g: "\<forall>g \<in> set gs. g \<le> now" and w: "\<And>t. int (in_window window t gs) \<le> n"
    and "int (length (filter (\<lambda>g. now - window < g) gs)) < n"
  shows "int (in_window window t (gs @ [now])) \<le> n"
proof (cases "t < now")
  case True
  then show ?thesis using w [of t] by (simp add: in_window_def)
next
  case False
  have "filter (\<lambda>g. t - window < g \<and> g \<le> t) gs = filter (\<lambda>g. t - window < g) gs"
    by (rule filter_cong) (use g False in auto)
  moreover have "length (filter (\<lambda>g. t - window < g) gs) \<le> length (filter (\<lambda>g. now - window < g) gs)"
    using False by (metis filter_cutoff diff_right_mono length_filter_le linorder_not_less)
  ultimately show ?thesis using assms(3) by (simp add: in_window_def)
qed

lemma rate_calls_window:
  assumes "sorted nows" "\<forall>x \<in> set nows. prev \<le> x" "\<forall>g \<in> set gs. g \<le> prev"
    and "get [] (rateLog st) key = filter (\<lambda>ts. prev - window < ts) gs" "\<And>t. int (in_window window t gs) \<le> n" "0 < window"
  shows "int (in_window window t (gs @ snd (rate_calls key n window nows st))) \<le> n"
  using assms
proof (induction nows arbitrary: st prev gs)
  case (Cons now nows)
  obtain st1 limited where r: "rateLimited key n window now st = (st1, limited)" by fastforce
  have le: "prev \<le> now" using Cons.prems(2) by simp
  have recent: "filter (\<lambda>ts. now - window < ts) (get [] (rateLog st) key) = filter (\<lambda>ts. now - window < ts) gs"
    unfolding Cons.prems(4) using le by (intro filter_cutoff) simp
  note log = rateLimited_log [OF r, unfolded recent]
  define gs' where "gs' = (if limited then gs else gs @ [now])"
  have out: "gs @ snd (rate_calls key n window (now # nows) st) = gs' @ snd (rate_calls key n window nows st1)"
    using r by (simp add: gs'_def split: prod.split)
  show ?case unfolding out
  proof (rule Cons.IH)
    show "sorted nows" "\<forall>x \<in> set nows. now \<le> x" using Cons.prems(1) by simp_all
    show "\<forall>g \<in> set gs'. g \<le> now" using Cons.prems(3) le by (auto simp: gs'_def)
    show "get [] (rateLog st1) key = filter (\<lambda>ts. now - window < ts) gs'"
      using log Cons.prems(6) by (simp add: gs'_def)
    show "0 < window" by (rule Cons.prems(6))
    show "int (in_window window t gs') \<le> n" for t
      using log Cons.prems(3,5) le in_window_step [of gs now window n t] by (force simp: gs'_def)
  qed
qed simp

text \<open>The rate limit holds for every rolling window. However often one key asks for permission to fire, at times
  that do not go back, no interval of the window's length contains more than \<open>n\<close> fires that were let through.\<close>

theorem rate_limit_window:
  assumes "sorted nows" "0 < window" "0 \<le> n" "get [] (rateLog st) key = []"
  shows "int (in_window window t (snd (rate_calls key n window nows st))) \<le> n"
proof (cases nows)
  case Nil
  then show ?thesis using assms(3) by (simp add: in_window_def)
next
  case (Cons x xs)
  have "int (in_window window t ([] @ snd (rate_calls key n window nows st))) \<le> n"
    using assms Cons by (intro rate_calls_window [where prev = x]) (auto simp: in_window_def)
  then show ?thesis by simp
qed

theorem rate_limit_window_witness:
  "int (in_window 60 100 (snd (rate_calls ''t'' 2 60 [10, 50, 70, 90, 100, 120] (newTriggerState [] [])))) \<le> 2 \<and>
   snd (rate_calls ''t'' 2 60 [10, 50, 70, 90, 100, 120] (newTriggerState [] [])) = [10, 50, 70, 120]"
proof
  show "int (in_window 60 100 (snd (rate_calls ''t'' 2 60 [10, 50, 70, 90, 100, 120] (newTriggerState [] [])))) \<le> 2"
    by (rule rate_limit_window) (simp_all add: newTriggerState_def get_def)
  show "snd (rate_calls ''t'' 2 60 [10, 50, 70, 90, 100, 120] (newTriggerState [] [])) = [10, 50, 70, 120]"
    by code_simp
qed

section \<open>Runs of the trigger loop\<close>

text \<open>The loop, the background tasks it starts, manual runs, pauses and restarts. \<open>waiting\<close> are the tasks whose fire is
  reserved, \<open>active\<close> those whose action runs; \<open>fires\<close> records for each dispatched fire the tick and the next
  scheduled instant announced with it.\<close>

record trigger_system =
  ts :: triggerState
  clock :: int
  waiting :: "string list"
  active :: "string list"
  fires :: "(string \<times> int \<times> int option) list"

inductive trig_step :: "trigger_env \<Rightarrow> TriggerConfig list \<Rightarrow> int \<Rightarrow> trigger_system \<Rightarrow> trigger_system \<Rightarrow> bool"
  for env :: trigger_env and defs :: "TriggerConfig list" and configured :: int where
  tick: "clock s \<le> now \<Longrightarrow> dueSchedules env defs now (reconcileSchedules env defs now (ts s)) = (st, due) \<Longrightarrow>
    trig_step env defs configured s
      (s\<lparr>ts := st, clock := now, waiting := waiting s @ map fst due,
         fires := fires s @ map (\<lambda>d. (fst d, now, snd (snd d))) due\<rparr>)"
| begin_run: "name \<in> set (waiting s) \<Longrightarrow> fire_begin env defs configured name now (ts s) = (st, True) \<Longrightarrow>
    trig_step env defs configured s (s\<lparr>ts := st, waiting := remove1 name (waiting s), active := name # active s\<rparr>)"
| begin_skip: "name \<in> set (waiting s) \<Longrightarrow> fire_begin env defs configured name now (ts s) = (st, False) \<Longrightarrow>
    trig_step env defs configured s (s\<lparr>ts := st, waiting := remove1 name (waiting s)\<rparr>)"
| task_refused: "name \<in> set (waiting s) \<Longrightarrow>
    trig_step env defs configured s (s\<lparr>ts := releaseFire name (ts s), waiting := remove1 name (waiting s)\<rparr>)"
| end_run: "name \<in> set (active s) \<Longrightarrow>
    trig_step env defs configured s (s\<lparr>ts := fire_end maxHistory name run err (ts s), active := remove1 name (active s)\<rparr>)"
| run_now: "TriggerRunNow defs name (ts s) = (st, None) \<Longrightarrow>
    trig_step env defs configured s (s\<lparr>ts := st, waiting := waiting s @ [name]\<rparr>)"
| pause: "TriggerPause defs name p (ts s) = (st, e) \<Longrightarrow> trig_step env defs configured s (s\<lparr>ts := st\<rparr>)"
| restart: "trig_step env defs configured s (s\<lparr>ts := trigger_restart (ts s), waiting := [], active := []\<rparr>)"
| disk: "trig_step env defs configured s (s\<lparr>ts := (ts s)\<lparr>saves := results\<rparr>\<rparr>)"

definition trig_init :: "trigger_system \<Rightarrow> bool" where
  "trig_init s \<longleftrightarrow> (\<exists>ids. ts s = newTriggerState [] ids) \<and> waiting s = [] \<and> active s = [] \<and> fires s = []"

section \<open>What the operations leave alone\<close>

text \<open>The reservations and slots change only where the code says so.\<close>

definition guards :: "triggerState \<Rightarrow> (string \<times> int) list \<times> int" where
  "guards st = (inFlight st, running st)"

lemma guards_update [simp]: "guards (fst (updateTriggerRuntime n f st)) = guards st"
  "nextFire (fst (updateTriggerRuntime n f st)) = nextFire st" "cron (fst (updateTriggerRuntime n f st)) = cron st"
  "scenario_ids (fst (updateTriggerRuntime n f st)) = scenario_ids st"
  by (auto simp: guards_def updateTriggerRuntime_def saveTriggers_def split: list.split)

lemma guards_put [simp]: "guards (putTriggerRuntime n rt st) = guards st" "nextFire (putTriggerRuntime n rt st) = nextFire st"
  "cron (putTriggerRuntime n rt st) = cron st" "scenario_ids (putTriggerRuntime n rt st) = scenario_ids st"
  by (auto simp: guards_def putTriggerRuntime_def saveTriggers_def split: list.split)

lemma guards_error [simp]: "guards (recordTriggerError n e st) = guards st" "nextFire (recordTriggerError n e st) = nextFire st"
  "cron (recordTriggerError n e st) = cron st" "scenario_ids (recordTriggerError n e st) = scenario_ids st"
  by (simp_all add: recordTriggerError_def)

lemma guards_run [simp]: "guards (recordTriggerRun m n run st) = guards st" "nextFire (recordTriggerRun m n run st) = nextFire st"
  "cron (recordTriggerRun m n run st) = cron st" "scenario_ids (recordTriggerRun m n run st) = scenario_ids st"
  by (simp_all add: recordTriggerRun_def)

lemma guards_cursor: "guards (st\<lparr>nextFire := x\<rparr>) = guards st" "guards (st\<lparr>cron := y\<rparr>) = guards st"
  by (simp_all add: guards_def)

lemma set_cursor_frame [simp]:
  "guards (set_cursor t rt now next st) = guards st" "cron (set_cursor t rt now next st) = cron st"
  "scenario_ids (set_cursor t rt now next st) = scenario_ids st"
  "fst ` set (nextFire (set_cursor t rt now next st)) \<subseteq> insert (tg_Name t) (fst ` set (nextFire st))"
  by (auto simp: set_cursor_def Let_def guards_cursor map_put_def map_delete_def)

lemma arm_frame:
  "guards (armSchedule env t sched rt now st) = guards st \<and> scenario_ids (armSchedule env t sched rt now st) = scenario_ids st \<and>
    fst ` set (nextFire (armSchedule env t sched rt now st)) \<subseteq> insert (tg_Name t) (fst ` set (nextFire st))"
  using set_cursor_frame(4)
  by (auto simp: armSchedule_def Let_def guards_cursor split: option.split dest!: set_cursor_frame(4) [THEN subsetD, OF imageI])

lemma reconcile_one_frame:
  "guards (reconcile_one env now t st) = guards st \<and> scenario_ids (reconcile_one env now t st) = scenario_ids st \<and>
    fst ` set (nextFire (reconcile_one env now t st)) \<subseteq>
      (if live_schedule t then insert (tg_Name t) (fst ` set (nextFire st)) else fst ` set (nextFire st))"
proof (cases "tg_Schedule t")
  case None
  then show ?thesis by (simp add: reconcile_one_def live_schedule_def IsSchedule_def)
next
  case (Some sched)
  show ?thesis
  proof (cases "TriggerEnabled t")
    case True
    have put: "guards (putTriggerRuntime n rt st) = guards st \<and> scenario_ids (putTriggerRuntime n rt st) = scenario_ids st \<and>
        nextFire (putTriggerRuntime n rt st) = nextFire st" for n rt by simp
    show ?thesis using Some True put
        arm_frame [of env t sched "fresh_runtime env now t" now "putTriggerRuntime (tg_Name t) (fresh_runtime env now t) st"]
        arm_frame [of env t sched "the (getTriggerRuntime (tg_Name t) st)" now st]
      by (auto simp: reconcile_one_def live_schedule_def IsSchedule_def)
  next
    case False
    then show ?thesis using Some by (simp add: reconcile_one_def live_schedule_def IsSchedule_def)
  qed
qed

section \<open>Overlap and concurrency\<close>

definition in_flight :: "triggerState \<Rightarrow> string \<Rightarrow> int" where
  "in_flight st n = get 0 (inFlight st) n"

lemma in_flight_guards: "guards st = guards st' \<Longrightarrow> in_flight st n = in_flight st' n \<and> running st = running st'"
  by (simp add: guards_def in_flight_def)

lemma get_put [simp]: "get z (map_put k v m) n = (if n = k then v else get z m n)"
  by (simp add: get_def)

lemma get_delete [simp]: "get z (map_delete k m) n = (if n = k then z else get z m n)"
  by (simp add: get_def)

lemma releaseFire_frame [simp]:
  "running (releaseFire n st) = running st" "nextFire (releaseFire n st) = nextFire st" "cron (releaseFire n st) = cron st"
  "TriggerRuntime (releaseFire n st) = TriggerRuntime st" "disk_runtime (releaseFire n st) = disk_runtime st"
  "scenario_ids (releaseFire n st) = scenario_ids st"
  by (simp_all add: releaseFire_def Let_def)

lemma in_flight_release: "0 \<le> in_flight st n \<Longrightarrow> in_flight (releaseFire n st) m = (if m = n then max 0 (in_flight st n - 1) else in_flight st m)"
  by (auto simp: in_flight_def releaseFire_def Let_def max_def)

lemma reserve_shape:
  assumes "reserveFireLocked name overlap st = (st', ok)"
  shows "running st' = running st" "nextFire st' = nextFire st" "cron st' = cron st" "TriggerRuntime st' = TriggerRuntime st"
    "disk_runtime st' = disk_runtime st" "scenario_ids st' = scenario_ids st" "saves st' = saves st"
    "in_flight st' n = (if ok \<and> n = name then in_flight st n + 1 else in_flight st n)"
    "ok \<Longrightarrow> overlap = OverlapSkip \<Longrightarrow> in_flight st name \<le> 0"
  using assms by (auto simp: reserveFireLocked_def in_flight_def split: if_splits)

lemma advance_frame [simp]:
  "guards (fst (advanceSchedule env t now st)) = guards st" "cron (fst (advanceSchedule env t now st)) = cron st"
  "TriggerRuntime (fst (advanceSchedule env t now st)) = TriggerRuntime st"
  "disk_runtime (fst (advanceSchedule env t now st)) = disk_runtime st"
  "scenario_ids (fst (advanceSchedule env t now st)) = scenario_ids st" "saves (fst (advanceSchedule env t now st)) = saves st"
  "nextFire (fst (advanceSchedule env t now st)) = map_put (tg_Name t) (snd (advanceSchedule env t now st)) (nextFire st)"
  by (simp_all add: advanceSchedule_def Let_def guards_def)

lemma byName_Some:
  "map_of (rev (map (\<lambda>t. (tg_Name t, t)) defs)) name = Some t \<Longrightarrow> t \<in> set defs \<and> tg_Name t = name"
  by (auto dest: map_of_SomeD)

lemma put_names: "k \<in> fst ` set m \<Longrightarrow> fst ` set (map_put k v m) = fst ` set m"
  by (auto simp: map_put_def map_delete_def)

text \<open>The outcomes for one name: nothing is due; the fire is skipped because of an overlap; it is reserved and then
  committed, or given up because the commit was not durable.\<close>

lemma due_one_cases [consumes 1, case_names idle overlap committed failed]:
  assumes d: "due_one env defs now name st = (st', r)"
  obtains "st' = st" "r = None"
  | t fireAt st1 where "t \<in> set defs" "tg_Name t = name" "get None (nextFire st) name = Some fireAt" "fireAt \<le> now"
      "reserveFireLocked name (OverlapMode (tg_Policy t)) st = (st1, False)" "r = None"
      "st' = fst (updateTriggerRuntime name (\<lambda>r. r\<lparr>NextScheduledFireAt := Some (snd (advanceSchedule env t now st1))\<rparr>)
          (fst (advanceSchedule env t now st1)))"
  | t fireAt st1 where "t \<in> set defs" "tg_Name t = name" "get None (nextFire st) name = Some fireAt" "fireAt \<le> now"
      "reserveFireLocked name (OverlapMode (tg_Policy t)) st = (st1, True)" "r = Some (fireAt, snd (advanceSchedule env t now st1))"
      "updateTriggerRuntime name (\<lambda>r. r\<lparr>LastScheduledFireAt := Some fireAt, NextScheduledFireAt := Some (snd (advanceSchedule env t now st1))\<rparr>)
          (fst (advanceSchedule env t now st1)) = (st', True)"
  | t fireAt st1 st2 where "t \<in> set defs" "tg_Name t = name" "get None (nextFire st) name = Some fireAt" "fireAt \<le> now"
      "reserveFireLocked name (OverlapMode (tg_Policy t)) st = (st1, True)" "r = None" "st' = releaseFire name st2"
      "updateTriggerRuntime name (\<lambda>r. r\<lparr>LastScheduledFireAt := Some fireAt, NextScheduledFireAt := Some (snd (advanceSchedule env t now st1))\<rparr>)
          (fst (advanceSchedule env t now st1)) = (st2, False)"
proof (cases "map_of (rev (map (\<lambda>t. (tg_Name t, t)) defs)) name")
  case None
  then show ?thesis using d that(1) by (simp add: due_one_def)
next
  case (Some t)
  note t = byName_Some [OF Some]
  show ?thesis
  proof (cases "\<not> TriggerEnabled t \<or> (case getTriggerRuntime name st of None \<Rightarrow> False | Some rt \<Rightarrow> Paused rt) \<or>
      get None (nextFire st) name = None \<or> (\<exists>f. get None (nextFire st) name = Some f \<and> now < f)")
    case True
    then show ?thesis using d that(1) Some by (auto simp: due_one_def split: option.splits if_splits)
  next
    case False
    then obtain f where f: "get None (nextFire st) name = Some f" "f \<le> now" "TriggerEnabled t"
      "\<not> (case getTriggerRuntime name st of None \<Rightarrow> False | Some rt \<Rightarrow> Paused rt)" by auto
    obtain st1 ok where r: "reserveFireLocked name (OverlapMode (tg_Policy t)) st = (st1, ok)" by fastforce
    obtain st2 nn where a: "advanceSchedule env t now st1 = (st2, nn)" by fastforce
    obtain st3 durable where u: "updateTriggerRuntime name
        (\<lambda>r. r\<lparr>LastScheduledFireAt := Some f, NextScheduledFireAt := Some nn\<rparr>) st2 = (st3, durable)" by fastforce
    show ?thesis
    proof (cases ok)
      case no: False
      then show ?thesis using d Some f r a t by (intro that(2) [of t f st1]) (simp_all add: due_one_def)
    next
      case yes: True
      show ?thesis
      proof (cases durable)
        case True
        then show ?thesis using d Some f r a u t yes by (intro that(3) [of t f st1]) (simp_all add: due_one_def)
      next
        case False
        then show ?thesis using d Some f r a u t yes by (intro that(4) [of t f st1 st3]) (simp_all add: due_one_def)
      qed
    qed
  qed
qed

lemma in_names: "get None m name = Some f \<Longrightarrow> name \<in> fst ` set m"
  by (auto simp: get_def dest: map_of_SomeD split: option.splits intro: rev_image_eqI)

lemma update_guards:
  "updateTriggerRuntime name f st = (st', ok) \<Longrightarrow> guards st' = guards st \<and> nextFire st' = nextFire st"
  using guards_update [of name f st] by simp

lemma due_one_guards:
  assumes "due_one env defs now name st = (st', r)" "\<forall>n. 0 \<le> in_flight st n"
  shows "in_flight st' n = (if r \<noteq> None \<and> n = name then in_flight st n + 1 else in_flight st n)" "running st' = running st"
    "fst ` set (nextFire st') = fst ` set (nextFire st)"
    "r \<noteq> None \<Longrightarrow> \<exists>t \<in> set defs. tg_Name t = name \<and> (OverlapMode (tg_Policy t) = OverlapSkip \<longrightarrow> in_flight st name = 0)"
proof -
  have "in_flight st' n = (if r \<noteq> None \<and> n = name then in_flight st n + 1 else in_flight st n) \<and> running st' = running st \<and>
    fst ` set (nextFire st') = fst ` set (nextFire st) \<and>
    (r \<noteq> None \<longrightarrow> (\<exists>t \<in> set defs. tg_Name t = name \<and> (OverlapMode (tg_Policy t) = OverlapSkip \<longrightarrow> in_flight st name = 0)))"
    using assms(1)
  proof (cases rule: due_one_cases)
    case (overlap t fireAt st1)
    note r = reserve_shape [OF overlap(5)]
    let ?st2 = "fst (advanceSchedule env t now st1)"
    have "guards st' = guards st1" unfolding overlap(7) by simp
    moreover have "nextFire st' = map_put name (snd (advanceSchedule env t now st1)) (nextFire st)"
      unfolding overlap(7) using overlap(2) r(2) by simp
    ultimately show ?thesis using overlap(6) r(1) r(8) [of n] in_flight_guards [of st' st1 n] put_names [OF in_names [OF overlap(3)]]
      by simp
  next
    case (committed t fireAt st1)
    note r = reserve_shape [OF committed(5)]
    have "guards st' = guards st1" "nextFire st' = map_put name (snd (advanceSchedule env t now st1)) (nextFire st)"
      using update_guards [OF committed(7)] committed(2) r(2) by simp_all
    then have "in_flight st' n = in_flight st1 n" "running st' = running st" "fst ` set (nextFire st') = fst ` set (nextFire st)"
      using r(1) in_flight_guards [of st' st1 n] put_names [OF in_names [OF committed(3)]] by simp_all
    moreover have "OverlapMode (tg_Policy t) = OverlapSkip \<longrightarrow> in_flight st name = 0"
      using r(9) assms(2) by (meson order_antisym)
    ultimately show ?thesis using committed(1,2,6) r(8) [of n] by auto
  next
    case (failed t fireAt st1 st2)
    note r = reserve_shape [OF failed(5)]
    have g: "guards st2 = guards st1" "nextFire st2 = map_put name (snd (advanceSchedule env t now st1)) (nextFire st)"
      using update_guards [OF failed(8)] failed(2) r(2) by simp_all
    have "in_flight st2 m = (if m = name then in_flight st m + 1 else in_flight st m)" for m
      using in_flight_guards [OF g(1)] r(8) by simp
    moreover have "0 \<le> in_flight st2 name" using calculation assms(2) by simp
    ultimately have "in_flight (releaseFire name st2) n = in_flight st n" using assms(2) by (simp add: in_flight_release)
    moreover have "running st2 = running st" using r(1) in_flight_guards [OF g(1), of n] by simp
    ultimately show ?thesis using failed(6) g(2) put_names [OF in_names [OF failed(3)]] unfolding failed(7) by simp
  qed auto
  then show "in_flight st' n = (if r \<noteq> None \<and> n = name then in_flight st n + 1 else in_flight st n)" "running st' = running st"
    "fst ` set (nextFire st') = fst ` set (nextFire st)"
    "r \<noteq> None \<Longrightarrow> \<exists>t \<in> set defs. tg_Name t = name \<and> (OverlapMode (tg_Policy t) = OverlapSkip \<longrightarrow> in_flight st name = 0)"
    by blast+
qed

text \<open>The reservations agree with the tasks, and a trigger that may not overlap has at most one.\<close>

definition tasks_ok :: "TriggerConfig list \<Rightarrow> triggerState \<Rightarrow> string multiset \<Rightarrow> bool" where
  "tasks_ok defs st T \<longleftrightarrow> (\<forall>n. in_flight st n = int (count T n)) \<and>
    (\<forall>t \<in> set defs. OverlapMode (tg_Policy t) = OverlapSkip \<longrightarrow> count T (tg_Name t) \<le> 1)"

lemma tasks_ok_guards: "guards st = guards st' \<Longrightarrow> tasks_ok defs st T = tasks_ok defs st' T"
  by (simp add: tasks_ok_def guards_def in_flight_def)

lemma distinct_def: "distinct (map tg_Name defs) \<Longrightarrow> t \<in> set defs \<Longrightarrow> t' \<in> set defs \<Longrightarrow> tg_Name t = tg_Name t' \<Longrightarrow> t = t'"
  by (meson distinct_map inj_on_def)

lemma tasks_ok_add:
  assumes "tasks_ok defs st T" "distinct (map tg_Name defs)" "t \<in> set defs" "tg_Name t = name"
    and "OverlapMode (tg_Policy t) = OverlapSkip \<longrightarrow> in_flight st name = 0"
    and "\<And>n. in_flight st' n = (if n = name then in_flight st n + 1 else in_flight st n)"
  shows "tasks_ok defs st' (add_mset name T)"
  unfolding tasks_ok_def
proof (intro conjI ballI impI allI)
  show "in_flight st' n = int (count (add_mset name T) n)" for n using assms(1,6) by (simp add: tasks_ok_def)
  fix t' assume t': "t' \<in> set defs" "OverlapMode (tg_Policy t') = OverlapSkip"
  show "count (add_mset name T) (tg_Name t') \<le> 1"
  proof (cases "tg_Name t' = name")
    case True
    then have "t' = t" using distinct_def [OF assms(2) t'(1) assms(3)] assms(4) by simp
    then have "in_flight st name = 0" using assms(5) t'(2) by simp
    then show ?thesis using True assms(1) by (simp add: tasks_ok_def)
  next
    case False
    then show ?thesis using assms(1) t' by (auto simp: tasks_ok_def)
  qed
qed

lemma tasks_ok_remove:
  assumes "tasks_ok defs st T" "name \<in># T"
  shows "tasks_ok defs (releaseFire name st) (T - {#name#})"
proof -
  have p: "0 < count T name" using assms(2) by simp
  have "in_flight (releaseFire name st) n = int (count (T - {#name#}) n)" for n
    using assms(1) p in_flight_release [of st name n] by (auto simp: tasks_ok_def)
  moreover have "count (T - {#name#}) n \<le> count T n" for n by simp
  ultimately show ?thesis using assms(1) unfolding tasks_ok_def by (meson order_trans)
qed

lemma due_names_tasks:
  assumes "due_names env defs now names st = (st', due)" "tasks_ok defs st T" "distinct (map tg_Name defs)"
  shows "tasks_ok defs st' (T + mset (map fst due)) \<and> running st' = running st \<and> fst ` set (nextFire st') = fst ` set (nextFire st)"
  using assms(1,2)
proof (induction names arbitrary: st T due)
  case (Cons name names)
  obtain st1 r where d: "due_one env defs now name st = (st1, r)" by fastforce
  obtain due' where rest: "due_names env defs now names st1 = (st', due')" and due: "due = (case r of None \<Rightarrow> due' | Some f \<Rightarrow> (name, f) # due')"
    using Cons.prems(1) d by (auto split: prod.splits)
  have nn: "\<forall>n. 0 \<le> in_flight st n" using Cons.prems(2) by (simp add: tasks_ok_def)
  note g = due_one_guards [OF d nn]
  define T1 where "T1 = (if r = None then T else add_mset name T)"
  have "tasks_ok defs st1 T1"
  proof (cases "r = None")
    case True
    then show ?thesis using Cons.prems(2) g(1) by (simp add: T1_def tasks_ok_def)
  next
    case False
    then obtain t where "t \<in> set defs" "tg_Name t = name" "OverlapMode (tg_Policy t) = OverlapSkip \<longrightarrow> in_flight st name = 0"
      using g(4) by blast
    then have "tasks_ok defs st1 (add_mset name T)" using False g(1) by (intro tasks_ok_add [OF Cons.prems(2) assms(3)]) auto
    then show ?thesis using False by (auto simp: T1_def)
  qed
  from Cons.IH [OF rest this] have "tasks_ok defs st' (T1 + mset (map fst due'))" "running st' = running st1"
    "fst ` set (nextFire st') = fst ` set (nextFire st1)" by auto
  then show ?case using g(2,3) due by (cases r) (simp_all add: T1_def)
qed simp

lemma fold_reconcile_frame:
  "guards (fold (reconcile_one env now) triggers st) = guards st \<and>
   scenario_ids (fold (reconcile_one env now) triggers st) = scenario_ids st \<and>
   fst ` set (nextFire (fold (reconcile_one env now) triggers st)) \<subseteq>
     tg_Name ` set (filter live_schedule triggers) \<union> fst ` set (nextFire st)"
proof (induction triggers arbitrary: st)
  case (Cons t triggers)
  note ih = Cons [of "reconcile_one env now t st"] and one = reconcile_one_frame [of env now t st]
  have "fst ` set (nextFire (fold (reconcile_one env now) triggers (reconcile_one env now t st))) \<subseteq>
      tg_Name ` set (filter live_schedule triggers) \<union> (if live_schedule t then insert (tg_Name t) (fst ` set (nextFire st)) else fst ` set (nextFire st))"
    using ih one by blast
  then show ?case using ih one by (cases "live_schedule t") auto
qed simp

lemma prune_live:
  assumes "fst ` set (nextFire st) \<subseteq> set live"
  shows "guards (prune_schedules live st) = guards st" "nextFire (prune_schedules live st) = nextFire st"
    "rateLog (prune_schedules live st) = rateLog st" "TriggerRuntime (prune_schedules live st) = TriggerRuntime st"
    "disk_runtime (prune_schedules live st) = disk_runtime st" "scenario_ids (prune_schedules live st) = scenario_ids st"
proof -
  have "filter (\<lambda>n. n \<notin> set live) (map fst (nextFire st)) = []" using assms by (auto simp: filter_empty_conv)
  moreover have "filter (\<lambda>e. fst e \<in> set live) (nextFire st) = nextFire st" using assms by (auto simp: filter_id_conv)
  ultimately show "guards (prune_schedules live st) = guards st" "nextFire (prune_schedules live st) = nextFire st"
    "rateLog (prune_schedules live st) = rateLog st" "TriggerRuntime (prune_schedules live st) = TriggerRuntime st"
    "disk_runtime (prune_schedules live st) = disk_runtime st" "scenario_ids (prune_schedules live st) = scenario_ids st"
    by (simp_all add: prune_schedules_def guards_def)
qed

definition live_names :: "TriggerConfig list \<Rightarrow> string set" where
  "live_names defs = tg_Name ` set (filter live_schedule defs)"

lemma reconcile_frame:
  assumes "fst ` set (nextFire st) \<subseteq> live_names defs"
  shows "guards (reconcileSchedules env defs now st) = guards st"
    "fst ` set (nextFire (reconcileSchedules env defs now st)) \<subseteq> live_names defs"
proof -
  let ?st = "fold (reconcile_one env now) defs st"
  have n: "fst ` set (nextFire ?st) \<subseteq> set (map tg_Name (filter live_schedule defs))"
    using fold_reconcile_frame [of env now defs st] assms unfolding live_names_def set_map by blast
  show "guards (reconcileSchedules env defs now st) = guards st"
    unfolding reconcileSchedules_def prune_live(1) [OF n] using fold_reconcile_frame by blast
  show "fst ` set (nextFire (reconcileSchedules env defs now st)) \<subseteq> live_names defs"
    unfolding reconcileSchedules_def prune_live(2) [OF n] using n by (simp add: live_names_def)
qed

definition overlap_inv :: "TriggerConfig list \<Rightarrow> int \<Rightarrow> trigger_system \<Rightarrow> bool" where
  "overlap_inv defs configured s \<longleftrightarrow> distinct (map tg_Name defs) \<and> tasks_ok defs (ts s) (mset (waiting s @ active s)) \<and>
    running (ts s) = int (length (active s)) \<and> running (ts s) \<le> MaxConcurrentOr configured \<and>
    fst ` set (nextFire (ts s)) \<subseteq> live_names defs"

lemma rateLimited_guards: "rateLimited key n w now st = (st', l) \<Longrightarrow> guards st' = guards st \<and> nextFire st' = nextFire st"
  by (auto simp: rateLimited_def reserveRateSlots_def Let_def guards_def split: if_splits)

lemma fire_begin_cases:
  assumes "fire_begin env defs configured name now st = (st', ok)"
  obtains st1 where "ok = False" "st' = releaseFire name st1" "guards st1 = guards st" "nextFire st1 = nextFire st"
  | st1 where "ok = True" "st' = st1\<lparr>running := running st + 1\<rparr>" "guards st1 = guards st" "nextFire st1 = nextFire st"
      "running st < MaxConcurrentOr configured"
proof (cases "triggerByName defs name")
  case None
  then show ?thesis using assms that(1) [of st] by (simp add: fire_begin_def)
next
  case (Some t)
  obtain n win where r: "RateLimitParsed env (tg_Policy t) = (n, win)" by fastforce
  obtain st1 l where l: "rateLimited name n win now st = (st1, l)" by fastforce
  note g = rateLimited_guards [OF l]
  show ?thesis
  proof (cases "l \<or> MaxConcurrentOr configured \<le> running st1")
    case True
    then show ?thesis using assms Some r l g that(1) [of st1] by (cases l) (auto simp: fire_begin_def acquireSlot_def)
  next
    case False
    have "running st1 = running st" using g by (simp add: guards_def)
    then show ?thesis using False assms Some r l g that(2) [of st1] by (auto simp: fire_begin_def acquireSlot_def)
  qed
qed

lemma fire_end_guards:
  "in_flight (fire_end m name run err st) = in_flight (releaseFire name (releaseSlot st))"
  "running (fire_end m name run err st) = running (releaseSlot st)" "nextFire (fire_end m name run err st) = nextFire st"
proof -
  define st2 where "st2 = (case err of None \<Rightarrow> recordTriggerRun m name run st
     | Some e \<Rightarrow> recordTriggerError name e (recordTriggerRun m name run st))"
  have g: "guards st2 = guards st" "nextFire st2 = nextFire st" by (auto simp: st2_def split: option.split)
  have e: "fire_end m name run err st = releaseFire name (releaseSlot st2)" by (simp add: fire_end_def st2_def Let_def)
  show "in_flight (fire_end m name run err st) = in_flight (releaseFire name (releaseSlot st))"
    "running (fire_end m name run err st) = running (releaseSlot st)" "nextFire (fire_end m name run err st) = nextFire st"
    unfolding e using g by (auto simp: fun_eq_iff guards_def in_flight_def releaseFire_def releaseSlot_def Let_def)
qed

lemma tasks_move: "name \<in> set w \<Longrightarrow> mset (remove1 name w @ name # a) = mset (w @ a)"
  using insert_DiffM [of name "mset w"] by simp

lemma diff_one_add: "x \<in># W \<Longrightarrow> W - {#x#} + A = W + A - {#x#}" "x \<in># W \<Longrightarrow> A + (W - {#x#}) = A + W - {#x#}"
  by (auto dest: multi_member_split)

lemma tasks_drop: "name \<in> set w \<Longrightarrow> mset (remove1 name w @ a) = mset (w @ a) - {#name#}"
  "name \<in> set a \<Longrightarrow> mset (w @ remove1 name a) = mset (w @ a) - {#name#}"
  unfolding mset_append mset_remove1 by (rule diff_one_add, simp)+

lemma run_now_cases:
  assumes "TriggerRunNow defs name st = (st', None)"
  obtains t where "t \<in> set defs" "tg_Name t = name" "reserveFireLocked name (OverlapMode (tg_Policy t)) st = (st', True)"
proof -
  obtain t where t: "triggerByName defs name = Some t" using assms by (cases "triggerByName defs name") (auto simp: TriggerRunNow_def)
  then have "t \<in> set defs" "tg_Name t = name" by (auto simp: triggerByName_def find_Some_iff)
  moreover obtain st1 ok where r: "reserveFireLocked name (OverlapMode (tg_Policy t)) st = (st1, ok)" by fastforce
  ultimately show ?thesis using assms t r that [of t] by (cases ok) (auto simp: TriggerRunNow_def split: if_splits)
qed

lemma pause_frame:
  assumes "TriggerPause defs name p st = (st', e)"
  shows "st' = st \<or> (\<exists>f. st' = fst (updateTriggerRuntime name f st) \<and> (\<forall>r. Fingerprint (f r) = Fingerprint r \<and>
    LastScheduledFireAt (f r) = LastScheduledFireAt r \<and> NextScheduledFireAt (f r) = NextScheduledFireAt r))"
proof (cases "triggerByName defs name")
  case None
  then show ?thesis using assms by (simp add: TriggerPause_def)
next
  case (Some t)
  then show ?thesis using assms
    by (cases "\<not> p \<and> \<not> TriggerEnabled t") (auto simp: TriggerPause_def intro!: exI [of _ "\<lambda>r. r\<lparr>Paused := p\<rparr>"])
qed

lemma overlap_step:
  assumes inv: "overlap_inv defs configured s" and step: "trig_step env defs configured s s'"
  shows "overlap_inv defs configured s'"
proof -
  have i: "distinct (map tg_Name defs)" "tasks_ok defs (ts s) (mset (waiting s @ active s))" "running (ts s) = int (length (active s))"
    "running (ts s) \<le> MaxConcurrentOr configured" "fst ` set (nextFire (ts s)) \<subseteq> live_names defs"
    using inv by (simp_all add: overlap_inv_def)
  have max: "0 \<le> MaxConcurrentOr configured" by (simp add: MaxConcurrentOr_def defaultMaxConcurrent_def)
  show ?thesis using step
  proof (cases rule: trig_step.cases)
    case (tick now st due)
    let ?r = "reconcileSchedules env defs now (ts s)"
    note r = reconcile_frame [OF i(5)]
    have "tasks_ok defs ?r (mset (waiting s @ active s))" using i(2) tasks_ok_guards [OF r(1) [of env now]] by simp
    from due_names_tasks [OF _ this i(1)] tick(3) have
      "tasks_ok defs st (mset (waiting s @ active s) + mset (map fst due))" "running st = running ?r"
      "fst ` set (nextFire st) = fst ` set (nextFire ?r)" by (auto simp: dueSchedules_def)
    moreover have "running ?r = running (ts s)" using r(1) by (simp add: guards_def)
    moreover have "mset (waiting s @ active s) + mset (map fst due) = mset ((waiting s @ map fst due) @ active s)" by simp
    ultimately show ?thesis using tick(1) i r(2) by (simp add: overlap_inv_def del: mset_append)
  next
    case (begin_run name now st)
    from begin_run(3) obtain st1 where b: "st = st1\<lparr>running := running (ts s) + 1\<rparr>" "guards st1 = guards (ts s)"
      "nextFire st1 = nextFire (ts s)" "running (ts s) < MaxConcurrentOr configured" by (auto elim: fire_begin_cases)
    have "tasks_ok defs st (mset (remove1 name (waiting s) @ name # active s))"
      unfolding tasks_move [OF begin_run(2)] using i(2) b(1,2) by (simp add: tasks_ok_def guards_def in_flight_def)
    then show ?thesis using begin_run(1) i b by (simp add: overlap_inv_def del: mset_append)
  next
    case (begin_skip name now st)
    from begin_skip(3) obtain st1 where b: "st = releaseFire name st1" "guards st1 = guards (ts s)" "nextFire st1 = nextFire (ts s)"
      by (auto elim: fire_begin_cases)
    have "tasks_ok defs st (mset (remove1 name (waiting s) @ active s))"
      unfolding tasks_drop(1) [OF begin_skip(2)] b(1) using i(2) tasks_ok_guards [OF b(2)] begin_skip(2) by (intro tasks_ok_remove) auto
    then show ?thesis using begin_skip(1) i b by (simp add: overlap_inv_def guards_def del: mset_append)
  next
    case (task_refused name)
    have "tasks_ok defs (releaseFire name (ts s)) (mset (remove1 name (waiting s) @ active s))"
      unfolding tasks_drop(1) [OF task_refused(2)] using i(2) task_refused(2) by (intro tasks_ok_remove) auto
    then show ?thesis using task_refused(1) i by (simp add: overlap_inv_def del: mset_append)
  next
    case (end_run name maxHistory run err)
    have "guards (releaseSlot (ts s)) = (inFlight (ts s), running (releaseSlot (ts s)))" by (simp add: guards_def releaseSlot_def)
    then have "tasks_ok defs (releaseSlot (ts s)) (mset (waiting s @ active s))" using i(2)
      by (simp add: tasks_ok_def in_flight_def guards_def)
    then have "tasks_ok defs (releaseFire name (releaseSlot (ts s))) (mset (waiting s @ remove1 name (active s)))"
      unfolding tasks_drop(2) [OF end_run(2)] using end_run(2) by (intro tasks_ok_remove) auto
    then have "tasks_ok defs (fire_end maxHistory name run err (ts s)) (mset (waiting s @ remove1 name (active s)))"
      by (simp add: tasks_ok_def fire_end_guards)
    moreover have "0 < length (active s)" using end_run(2) by (cases "active s") auto
    moreover have "int (length (remove1 name (active s))) = int (length (active s)) - 1"
      using end_run(2) calculation(2) by (metis One_nat_def Suc_pred length_remove1 of_nat_Suc diff_add_cancel add.commute diff_Suc_1 eq_diff_eq)
    ultimately show ?thesis using end_run(1) i
      by (simp add: overlap_inv_def fire_end_guards releaseSlot_def del: mset_append)
  next
    case (run_now name st)
    from run_now(2) obtain t where t: "t \<in> set defs" "tg_Name t = name"
      "reserveFireLocked name (OverlapMode (tg_Policy t)) (ts s) = (st, True)" by (rule run_now_cases)
    note r = reserve_shape [OF t(3)]
    have "0 \<le> in_flight (ts s) name" using i(2) by (simp add: tasks_ok_def)
    then have "OverlapMode (tg_Policy t) = OverlapSkip \<longrightarrow> in_flight (ts s) name = 0" using r(9) by auto
    then have "tasks_ok defs st (add_mset name (mset (waiting s @ active s)))"
      using r(8) by (intro tasks_ok_add [OF i(2,1) t(1,2)]) auto
    moreover have "add_mset name (mset (waiting s @ active s)) = mset ((waiting s @ [name]) @ active s)" by simp
    ultimately show ?thesis using run_now(1) i r(1,2) by (simp add: overlap_inv_def del: mset_append)
  next
    case (pause name p st e)
    have "guards st = guards (ts s)" "nextFire st = nextFire (ts s)" using pause_frame [OF pause(2)] by auto
    then show ?thesis using pause(1) i tasks_ok_guards [of st "ts s"] by (simp add: overlap_inv_def guards_def)
  next
    case restart
    then show ?thesis using i(1) max
      by (simp add: overlap_inv_def trigger_restart_def newTriggerState_def tasks_ok_def in_flight_def get_def)
  next
    case (disk results)
    then show ?thesis using i tasks_ok_guards [of "(ts s)\<lparr>saves := results\<rparr>" "ts s"] by (simp add: overlap_inv_def guards_def)
  qed
qed

definition overlap_init :: "TriggerConfig list \<Rightarrow> trigger_system \<Rightarrow> bool" where
  "overlap_init defs s \<longleftrightarrow> trig_init s \<and> distinct (map tg_Name defs)"

lemma overlap_init_inv: "overlap_init defs s \<Longrightarrow> overlap_inv defs configured s"
  by (auto simp: overlap_init_def trig_init_def overlap_inv_def newTriggerState_def tasks_ok_def in_flight_def get_def
      MaxConcurrentOr_def defaultMaxConcurrent_def)

interpretation overlap: invariant_system "overlap_init defs" "trig_step env defs configured" "overlap_inv defs configured"
  for env defs configured
  by unfold_locales (auto intro: overlap_init_inv overlap_step)

end
