(* ===== verification/Trigger_Once.thy ===== *)
theory Trigger_Once
  imports Triggers
begin

text \<open>
  A scheduled fire is committed to disk before it is dispatched. This theory shows what the commit is for: a
  scheduled instant is used at most once, across overlaps, failed saves, crashes and restarts.
\<close>

section \<open>Schedules\<close>

text \<open>What the code relies on of the cron library: the next activation lies after the given time and never moves
  back when the time moves on. An interval is a positive duration.\<close>

definition valid_schedule :: "trigger_env \<Rightarrow> ScheduleConfig \<Rightarrow> bool" where
  "valid_schedule env sched \<longleftrightarrow>
    (if Cron sched \<noteq> [] then
       parseCron env (Cron sched) \<and>
       (\<forall>now. \<exists>x. cronNext env (Cron sched) (Timezone sched) now = Some x \<and> now < x \<and>
          (\<forall>now' \<ge> now. \<exists>x'. cronNext env (Cron sched) (Timezone sched) now' = Some x' \<and> x \<le> x'))
     else Every sched \<noteq> [] \<and> (\<exists>e. parseDuration env (Every sched) = Some e \<and> 0 < e))"

text \<open>The instant that follows \<open>now\<close> when the last one was \<open>f\<close>.\<close>

definition next_after :: "trigger_env \<Rightarrow> ScheduleConfig \<Rightarrow> int \<Rightarrow> int \<Rightarrow> int" where
  "next_after env sched f now =
    (if Cron sched \<noteq> [] then the (cronNext env (Cron sched) (Timezone sched) now)
     else advance_past (the (parseDuration env (Every sched))) now (f + the (parseDuration env (Every sched))))"

lemma advance_past_mono:
  assumes "0 < every" "now \<le> now'"
  shows "advance_past every now next \<le> advance_past every now' next"
  using assms
proof (induction every now "next" rule: advance_past.induct)
  case (1 every now "next")
  show ?case
  proof (cases "now < next")
    case True
    then show ?thesis using advance_past_bounds [OF "1.prems"(1), of now' "next"] by (subst advance_past.simps) simp
  next
    case False
    then have "advance_past every now next = advance_past every now (next + every)"
      "advance_past every now' next = advance_past every now' (next + every)"
      using "1.prems" by (subst advance_past.simps, simp)+
    then show ?thesis using "1.IH" False "1.prems" by simp
  qed
qed

lemma next_after_props:
  assumes "valid_schedule env sched"
  shows "now < next_after env sched f now" "now \<le> now' \<Longrightarrow> next_after env sched f now \<le> next_after env sched f now'"
    "Cron sched = [] \<Longrightarrow> f \<le> next_after env sched f now"
    "Cron sched \<noteq> [] \<Longrightarrow> next_after env sched f now = next_after env sched f' now"
proof -
  show "now < next_after env sched f now"
  proof (cases "Cron sched = []")
    case True
    then obtain e where "parseDuration env (Every sched) = Some e" "0 < e" using assms by (auto simp: valid_schedule_def)
    then show ?thesis using True advance_past_bounds [of e now "f + e"] by (simp add: next_after_def)
  next
    case False
    then obtain x where "cronNext env (Cron sched) (Timezone sched) now = Some x" "now < x"
      using assms unfolding valid_schedule_def by meson
    then show ?thesis using False by (simp add: next_after_def)
  qed
  show "next_after env sched f now \<le> next_after env sched f now'" if le: "now \<le> now'"
  proof (cases "Cron sched = []")
    case True
    then obtain e where "parseDuration env (Every sched) = Some e" "0 < e" using assms by (auto simp: valid_schedule_def)
    then show ?thesis using True advance_past_mono [OF _ le] by (simp add: next_after_def)
  next
    case False
    then have "\<exists>x. cronNext env (Cron sched) (Timezone sched) now = Some x \<and>
        (\<forall>now' \<ge> now. \<exists>x'. cronNext env (Cron sched) (Timezone sched) now' = Some x' \<and> x \<le> x')"
      using assms unfolding valid_schedule_def by meson
    then obtain x x' where "cronNext env (Cron sched) (Timezone sched) now = Some x"
      "cronNext env (Cron sched) (Timezone sched) now' = Some x'" "x \<le> x'" using le by blast
    then show ?thesis using False by (simp add: next_after_def)
  qed
  show "f \<le> next_after env sched f now" if c: "Cron sched = []"
  proof -
    obtain e where "parseDuration env (Every sched) = Some e" "0 < e" using assms c by (auto simp: valid_schedule_def)
    then show ?thesis using c advance_past_bounds [of e now "f + e"] by (simp add: next_after_def)
  qed
  show "next_after env sched f now = next_after env sched f' now" if "Cron sched \<noteq> []" using that by (simp add: next_after_def)
qed

section \<open>The invariant of one trigger\<close>

text \<open>\<open>P\<close> are the instants announced by the fires dispatched so far, \<open>c\<close> the time of the last tick. A row, in memory or
  on disk, points at none of the instants before them; re-arming from it at a later time does not either.\<close>

definition trow_ok :: "trigger_env \<Rightarrow> TriggerConfig \<Rightarrow> ScheduleConfig \<Rightarrow> int \<Rightarrow> int set \<Rightarrow> TriggerRuntimeState option \<Rightarrow> bool" where
  "trow_ok env t sched c P row \<longleftrightarrow> (P \<noteq> {} \<longrightarrow>
    (case row of
       None \<Rightarrow> False
     | Some rt \<Rightarrow> Fingerprint rt = triggerFingerprint env t \<and>
         (case NextScheduledFireAt rt of Some (Some y) \<Rightarrow> \<forall>x \<in> P. x \<le> y | _ \<Rightarrow> False) \<and>
         (Cron sched = [] \<longrightarrow> (case LastScheduledFireAt rt of
            None \<Rightarrow> False | Some f \<Rightarrow> \<forall>x \<in> P. \<forall>now \<ge> c. x \<le> next_after env sched f now))))"

text \<open>The entries of one trigger: its cursor, its cron schedule, its row in memory and on disk.\<close>

definition entries_ok :: "trigger_env \<Rightarrow> TriggerConfig \<Rightarrow> ScheduleConfig \<Rightarrow> int \<Rightarrow> int set \<Rightarrow>
    int option option \<Rightarrow> string option \<Rightarrow> TriggerRuntimeState option \<Rightarrow> TriggerRuntimeState option \<Rightarrow> bool" where
  "entries_ok env t sched c P cur cr row disk_row \<longleftrightarrow>
    (case cur of
       None \<Rightarrow> True
     | Some None \<Rightarrow> False
     | Some (Some y) \<Rightarrow> (\<forall>x \<in> P. x \<le> y) \<and> (Cron sched \<noteq> [] \<longrightarrow> cr = Some (Cron sched)) \<and>
         (case row of None \<Rightarrow> False | Some rt \<Rightarrow> Fingerprint rt = triggerFingerprint env t)) \<and>
    (case cr of None \<Rightarrow> True | Some k \<Rightarrow> k = Cron sched \<and> Cron sched \<noteq> []) \<and>
    trow_ok env t sched c P row \<and> trow_ok env t sched c P disk_row \<and>
    (Cron sched \<noteq> [] \<longrightarrow> (\<forall>x \<in> P. \<forall>now \<ge> c. x \<le> next_after env sched 0 now))"

definition once_ok :: "trigger_env \<Rightarrow> TriggerConfig \<Rightarrow> ScheduleConfig \<Rightarrow> int \<Rightarrow> int set \<Rightarrow> triggerState \<Rightarrow> bool" where
  "once_ok env t sched c P st \<longleftrightarrow> \<not> scenarioTriggerOrphanedLocked (tg_Name t) st \<and>
    entries_ok env t sched c P (map_of (nextFire st) (tg_Name t)) (map_of (cron st) (tg_Name t))
      (map_of (TriggerRuntime st) (tg_Name t)) (map_of (disk_runtime st) (tg_Name t))"

lemma trow_ok_later: "trow_ok env t sched c P row \<Longrightarrow> c \<le> c' \<Longrightarrow> trow_ok env t sched c' P row"
  by (auto simp: trow_ok_def split: option.splits)

lemma once_ok_later: "once_ok env t sched c P st \<Longrightarrow> c \<le> c' \<Longrightarrow> once_ok env t sched c' P st"
  by (auto simp: once_ok_def entries_ok_def intro: trow_ok_later)

text \<open>Only the trigger's own entries count, and a save can only copy the row to disk.\<close>

lemma entries_ok_saved: "entries_ok env t sched c P cur cr row d \<Longrightarrow> entries_ok env t sched c P cur cr row row"
  by (simp add: entries_ok_def)

lemma once_ok_cong:
  assumes "map_of (nextFire st') (tg_Name t) = map_of (nextFire st) (tg_Name t)" "map_of (cron st') (tg_Name t) = map_of (cron st) (tg_Name t)"
    and "map_of (TriggerRuntime st') (tg_Name t) = map_of (TriggerRuntime st) (tg_Name t)"
    and "map_of (disk_runtime st') (tg_Name t) = map_of (disk_runtime st) (tg_Name t) \<or>
      map_of (disk_runtime st') (tg_Name t) = map_of (TriggerRuntime st) (tg_Name t)"
    and "scenario_ids st' = scenario_ids st" "once_ok env t sched c P st"
  shows "once_ok env t sched c P st'"
  using assms(4,6) entries_ok_saved unfolding once_ok_def assms(1-3) scenarioTriggerOrphanedLocked_def assms(5) by metis

lemma save_rows:
  "TriggerRuntime (fst (saveTriggers st)) = TriggerRuntime st" "disk_runtime (fst (saveTriggers st)) \<in> {disk_runtime st, TriggerRuntime st}"
  "snd (saveTriggers st) \<Longrightarrow> disk_runtime (fst (saveTriggers st)) = TriggerRuntime st"
  "nextFire (fst (saveTriggers st)) = nextFire st" "cron (fst (saveTriggers st)) = cron st"
  "scenario_ids (fst (saveTriggers st)) = scenario_ids st"
  by (auto simp: saveTriggers_def split: list.splits)

lemma update_rows:
  assumes "updateTriggerRuntime n f st = (st', ok)"
  shows "nextFire st' = nextFire st" "cron st' = cron st" "scenario_ids st' = scenario_ids st"
    "m \<noteq> n \<Longrightarrow> map_of (TriggerRuntime st') m = map_of (TriggerRuntime st) m"
    "disk_runtime st' = disk_runtime st \<or> disk_runtime st' = TriggerRuntime st'"
    "\<not> scenarioTriggerOrphanedLocked n st \<Longrightarrow> map_of (TriggerRuntime st') n = Some (f (get zero_runtime (TriggerRuntime st) n))"
    "\<not> scenarioTriggerOrphanedLocked n st \<Longrightarrow> ok \<Longrightarrow> disk_runtime st' = TriggerRuntime st'"
  using assms save_rows [of "st\<lparr>TriggerRuntime := map_put n (f (get zero_runtime (TriggerRuntime st) n)) (TriggerRuntime st)\<rparr>"]
  by (auto simp: updateTriggerRuntime_def split: if_splits)

lemma entries_ok_row:
  assumes "entries_ok env t sched c P cur cr row d" "trow_ok env t sched c P (Some rt)" "d' = d \<or> d' = Some rt"
    and "cur \<noteq> None \<Longrightarrow> Fingerprint rt = triggerFingerprint env t"
  shows "entries_ok env t sched c P cur cr (Some rt) d'"
  using assms by (auto simp: entries_ok_def split: option.splits)

lemma update_once_ok:
  assumes u: "updateTriggerRuntime n f st = (st', ok)" and o: "once_ok env t sched c P st"
    and f: "n = tg_Name t \<Longrightarrow> trow_ok env t sched c P (Some (f (get zero_runtime (TriggerRuntime st) n)))"
    and fp: "\<And>r. Fingerprint (f r) = Fingerprint r"
  shows "once_ok env t sched c P st'"
proof (cases "n = tg_Name t")
  case False
  then show ?thesis using update_rows [OF u] by (intro once_ok_cong [OF _ _ _ _ _ o]) auto
next
  case True
  have orph: "\<not> scenarioTriggerOrphanedLocked (tg_Name t) st" using o by (simp add: once_ok_def)
  have e: "entries_ok env t sched c P (map_of (nextFire st) (tg_Name t)) (map_of (cron st) (tg_Name t))
      (map_of (TriggerRuntime st) (tg_Name t)) (map_of (disk_runtime st) (tg_Name t))" using o by (simp add: once_ok_def)
  note row = update_rows(6) [OF u, unfolded True, OF orph]
  have "Fingerprint (f (get zero_runtime (TriggerRuntime st) (tg_Name t))) = triggerFingerprint env t"
    if "map_of (nextFire st) (tg_Name t) \<noteq> None"
    using e that fp by (auto simp: entries_ok_def get_def split: option.splits)
  moreover have "map_of (disk_runtime st') (tg_Name t) = map_of (disk_runtime st) (tg_Name t) \<or>
      map_of (disk_runtime st') (tg_Name t) = Some (f (get zero_runtime (TriggerRuntime st) (tg_Name t)))"
    using update_rows(5) [OF u] row by auto
  ultimately have "entries_ok env t sched c P (map_of (nextFire st') (tg_Name t)) (map_of (cron st') (tg_Name t))
      (map_of (TriggerRuntime st') (tg_Name t)) (map_of (disk_runtime st') (tg_Name t))"
    unfolding row update_rows(1,2) [OF u] using f True by (intro entries_ok_row [OF e]) auto
  then show ?thesis using orph unfolding once_ok_def scenarioTriggerOrphanedLocked_def update_rows(3) [OF u] by simp
qed

text \<open>Changes that keep what the invariant reads of a row.\<close>

lemma trow_ok_keep:
  assumes "trow_ok env t sched c P (map_of m n)" "\<And>r. Fingerprint (f r) = Fingerprint r"
    "\<And>r. LastScheduledFireAt (f r) = LastScheduledFireAt r" "\<And>r. NextScheduledFireAt (f r) = NextScheduledFireAt r"
  shows "trow_ok env t sched c P (Some (f (get zero_runtime m n)))"
  using assms by (cases "map_of m n") (auto simp: trow_ok_def get_def)

lemma update_keep_once_ok:
  assumes "updateTriggerRuntime n f st = (st', ok)" "once_ok env t sched c P st" "\<And>r. Fingerprint (f r) = Fingerprint r"
    "\<And>r. LastScheduledFireAt (f r) = LastScheduledFireAt r" "\<And>r. NextScheduledFireAt (f r) = NextScheduledFireAt r"
  shows "once_ok env t sched c P st'"
proof (rule update_once_ok [OF assms(1,2) _ assms(3)])
  have "trow_ok env t sched c P (map_of (TriggerRuntime st) (tg_Name t))" using assms(2) by (simp add: once_ok_def entries_ok_def)
  then show "trow_ok env t sched c P (Some (f (get zero_runtime (TriggerRuntime st) n)))" if "n = tg_Name t"
    using that assms(3-5) by (intro trow_ok_keep) simp_all
qed

lemma error_once_ok: "once_ok env t sched c P st \<Longrightarrow> once_ok env t sched c P (recordTriggerError n e st)"
  unfolding recordTriggerError_def by (rule update_keep_once_ok [OF prod.collapse [symmetric]]) simp_all

lemma run_once_ok: "once_ok env t sched c P st \<Longrightarrow> once_ok env t sched c P (recordTriggerRun m n run st)"
  unfolding recordTriggerRun_def by (rule update_keep_once_ok [OF prod.collapse [symmetric]]) simp_all

section \<open>Arming\<close>

lemma put_rows:
  assumes "st' = putTriggerRuntime n rt st"
  shows "m \<noteq> n \<Longrightarrow> map_of (TriggerRuntime st') m = map_of (TriggerRuntime st) m"
    "disk_runtime st' = disk_runtime st \<or> disk_runtime st' = TriggerRuntime st'"
    "\<not> scenarioTriggerOrphanedLocked n st \<Longrightarrow> map_of (TriggerRuntime st') n = Some rt"
  using save_rows [of "st\<lparr>TriggerRuntime := map_put n rt (TriggerRuntime st)\<rparr>"] unfolding assms
  by (auto simp: putTriggerRuntime_def)

lemma orphaned_ids: "scenario_ids st' = scenario_ids st \<Longrightarrow> scenarioTriggerOrphanedLocked n st' = scenarioTriggerOrphanedLocked n st"
  by (auto simp: scenarioTriggerOrphanedLocked_def split: option.split)

lemma orphaned_simps [simp]:
  "scenarioTriggerOrphanedLocked n (st\<lparr>nextFire := x\<rparr>) = scenarioTriggerOrphanedLocked n st"
  "scenarioTriggerOrphanedLocked n (st\<lparr>cron := y\<rparr>) = scenarioTriggerOrphanedLocked n st"
  "scenarioTriggerOrphanedLocked n (putTriggerRuntime m rt st) = scenarioTriggerOrphanedLocked n st"
  by (rule orphaned_ids, simp)+

text \<open>Arming another trigger leaves this one alone.\<close>

lemma set_cursor_other:
  assumes "tg_Name t' \<noteq> tg_Name t" "once_ok env t sched c P st"
  shows "once_ok env t sched c P (set_cursor t' rt now next st)"
proof -
  have "once_ok env t sched c P (st\<lparr>nextFire := map_put (tg_Name t') x (nextFire st)\<rparr>)" for x
    using assms(1) by (intro once_ok_cong [OF _ _ _ _ _ assms(2)]) auto
  then show ?thesis unfolding set_cursor_def Let_def using assms(1)
    by (intro update_once_ok [OF prod.collapse [symmetric]]) auto
qed

lemma arm_other:
  assumes "tg_Name t' \<noteq> tg_Name t" "once_ok env t sched c P st"
  shows "once_ok env t sched c P (armSchedule env' t' sched' rt now st)"
proof -
  have "once_ok env t sched c P (st\<lparr>cron := map_put (tg_Name t') x (cron st)\<rparr>)" for x
    using assms(1) by (intro once_ok_cong [OF _ _ _ _ _ assms(2)]) auto
  then show ?thesis using assms unfolding armSchedule_def Let_def
    by (auto intro!: set_cursor_other error_once_ok split: option.split)
qed

lemma reconcile_other:
  assumes "tg_Name t' \<noteq> tg_Name t" "once_ok env t sched c P st"
  shows "once_ok env t sched c P (reconcile_one env' now t' st)"
proof -
  have "once_ok env t sched c P (putTriggerRuntime (tg_Name t') rt st)" for rt
    using assms(1) put_rows [OF refl [of "putTriggerRuntime (tg_Name t') rt st"]] by (intro once_ok_cong [OF _ _ _ _ _ assms(2)]) auto
  then show ?thesis using assms unfolding reconcile_one_def by (auto intro!: arm_other split: option.split)
qed

text \<open>Setting the cursor of this trigger to an instant that respects \<open>P\<close>.\<close>

lemma set_cursor_same:
  assumes o: "once_ok env t sched c P (st\<lparr>nextFire := map_delete (tg_Name t) (nextFire st)\<rparr>)"
    and row: "map_of (TriggerRuntime st) (tg_Name t) = Some r" "Fingerprint r = triggerFingerprint env t"
    and cr: "Cron sched \<noteq> [] \<Longrightarrow> map_of (cron st) (tg_Name t) = Some (Cron sched)"
    and p: "\<forall>x \<in> P. x \<le> y" "P \<noteq> {} \<Longrightarrow> rt = r"
  shows "once_ok env t sched c P (set_cursor t rt now (Some y) st)"
proof -
  have e: "trow_ok env t sched c P (Some r)" using o row(1) by (simp add: once_ok_def entries_ok_def)
  define nx where "nx = (if CatchUp (tg_Policy t) \<and> (case NextScheduledFireAt rt of
             None \<Rightarrow> False | Some None \<Rightarrow> True | Some (Some x) \<Rightarrow> x < now) then now else y)"
  have n: "\<forall>x \<in> P. x \<le> nx"
  proof (cases "P = {}")
    case False
    then obtain z where z: "NextScheduledFireAt r = Some (Some z)" "\<forall>x \<in> P. x \<le> z"
      using e by (auto simp: trow_ok_def split: option.splits)
    then show ?thesis using p False by (auto simp: nx_def)
  qed simp
  define st1 where "st1 = st\<lparr>nextFire := map_put (tg_Name t) (Some nx) (nextFire st)\<rparr>"
  have eq: "set_cursor t rt now (Some y) st = fst (updateTriggerRuntime (tg_Name t) (\<lambda>r. r\<lparr>NextScheduledFireAt := Some (Some nx)\<rparr>) st1)"
    unfolding set_cursor_def Let_def st1_def nx_def by (auto split: option.splits)
  have "once_ok env t sched c P st1" using o n row cr
    unfolding once_ok_def st1_def by (auto simp: entries_ok_def split: option.splits)
  moreover have "trow_ok env t sched c P (Some (r\<lparr>NextScheduledFireAt := Some (Some nx)\<rparr>))"
    using e n by (auto simp: trow_ok_def split: option.splits)
  ultimately show ?thesis unfolding eq
    by (intro update_once_ok [OF prod.collapse [symmetric]]) (simp_all add: st1_def get_def row)
qed

lemma reconcile_same:
  assumes o: "once_ok env t sched c P st" and v: "valid_schedule env sched" "tg_Schedule t = Some sched" "TriggerEnabled t" and now: "c \<le> now"
  shows "once_ok env t sched c P (reconcile_one env now t st)"
proof -
  let ?n = "tg_Name t"
  text \<open>Arming from a row that respects \<open>P\<close>.\<close>
  have arm: "once_ok env t sched c P (armSchedule env t sched rt now s)"
    if s: "once_ok env t sched c P (s\<lparr>nextFire := map_delete ?n (nextFire s)\<rparr>)"
      and r: "map_of (TriggerRuntime s) ?n = Some rt" "Fingerprint rt = triggerFingerprint env t" for s rt
  proof -
    have row: "trow_ok env t sched c P (Some rt)" using s r(1) by (simp add: once_ok_def entries_ok_def)
    show ?thesis
    proof (cases "Cron sched = []")
      case True
      then obtain e where e: "parseDuration env (Every sched) = Some e" "0 < e" "Every sched \<noteq> []"
        using v(1) by (auto simp: valid_schedule_def)
      define anchor where "anchor = (case LastScheduledFireAt rt of
          Some f \<Rightarrow> f | None \<Rightarrow> case ActivatedAt rt of Some a \<Rightarrow> a | None \<Rightarrow> now)"
      have a: "armSchedule env t sched rt now s = set_cursor t rt now (Some (next_after env sched anchor now)) s"
        using True e by (simp add: armSchedule_def anchor_def next_after_def)
      have "\<forall>x \<in> P. x \<le> next_after env sched anchor now"
        using row True now by (cases "P = {}") (auto simp: trow_ok_def anchor_def split: option.splits)
      then show ?thesis unfolding a using r True by (intro set_cursor_same [OF s r]) auto
    next
      case False
      define s1 where "s1 = s\<lparr>cron := map_put ?n (Cron sched) (cron s)\<rparr>"
      obtain x where x: "cronNext env (Cron sched) (Timezone sched) now = Some x" using v(1) False unfolding valid_schedule_def by meson
      have a: "armSchedule env t sched rt now s = set_cursor t rt now (Some x) s1"
        using False v(1) x by (simp add: armSchedule_def valid_schedule_def s1_def)
      have "next_after env sched 0 now = x" using False x by (simp add: next_after_def)
      then have "\<forall>y \<in> P. y \<le> x" using s False now by (auto simp: once_ok_def entries_ok_def)
      moreover have "once_ok env t sched c P (s1\<lparr>nextFire := map_delete ?n (nextFire s1)\<rparr>)"
        using s False by (simp add: s1_def once_ok_def entries_ok_def)
      ultimately show ?thesis unfolding a using r by (intro set_cursor_same) (simp_all add: s1_def)
    qed
  qed
  have del: "once_ok env t sched c P (s\<lparr>nextFire := map_delete ?n (nextFire s)\<rparr>)" if "once_ok env t sched c P s" for s
    using that by (simp add: once_ok_def entries_ok_def)
  show ?thesis
  proof (cases "redefined env t st")
    case True
    have none: "P = {}"
      using o True by (auto simp: once_ok_def entries_ok_def trow_ok_def redefined_def getTriggerRuntime_def split: option.splits)
    let ?s = "putTriggerRuntime ?n (fresh_runtime env now t) st"
    have orph: "\<not> scenarioTriggerOrphanedLocked ?n st" using o by (simp add: once_ok_def)
    have "once_ok env t sched c P (?s\<lparr>nextFire := map_delete ?n (nextFire ?s)\<rparr>)"
      using o none orph
      by (simp add: once_ok_def entries_ok_def trow_ok_def)
    then show ?thesis using True v arm [OF _ put_rows(3) [OF refl orph]] by (simp add: reconcile_one_def fresh_runtime_def)
  next
    case False
    then obtain rt where "map_of (TriggerRuntime st) ?n = Some rt" "Fingerprint rt = triggerFingerprint env t"
      by (auto simp: redefined_def getTriggerRuntime_def split: option.splits)
    then show ?thesis using False v o arm [OF del [OF o]] by (simp add: reconcile_one_def getTriggerRuntime_def)
  qed
qed

lemma fold_reconcile_once:
  assumes "once_ok env t sched c P st" "valid_schedule env sched" "tg_Schedule t = Some sched" "TriggerEnabled t" "c \<le> now"
    and "\<forall>t' \<in> set triggers. tg_Name t' = tg_Name t \<longrightarrow> t' = t"
  shows "once_ok env t sched c P (fold (reconcile_one env now) triggers st)"
  using assms(1,6)
proof (induction triggers arbitrary: st)
  case (Cons t' triggers)
  have "once_ok env t sched c P (reconcile_one env now t' st)"
  proof (cases "tg_Name t' = tg_Name t")
    case True
    then have "t' = t" using Cons.prems(2) by simp
    then show ?thesis using reconcile_same [OF Cons.prems(1) assms(2-5)] by simp
  next
    case False
    then show ?thesis using reconcile_other Cons.prems(1) by blast
  qed
  then show ?case using Cons by simp
qed simp

lemma map_of_filter_key: "P k \<Longrightarrow> map_of (filter (\<lambda>e. P (fst e)) m) k = map_of m k"
  by (induction m) auto

lemma prune_once:
  assumes "once_ok env t sched c P st" "tg_Name t \<in> set live"
  shows "once_ok env t sched c P (prune_schedules live st)"
  using assms(2) by (intro once_ok_cong [OF _ _ _ _ _ assms(1)])
    (simp_all add: prune_schedules_def Let_def map_of_filter_key [of "\<lambda>n. n \<in> set live"])

lemma reconcile_once:
  assumes "once_ok env t sched c P st" "valid_schedule env sched" "tg_Schedule t = Some sched" "TriggerEnabled t" "c \<le> now"
    and "t \<in> set defs" "distinct (map tg_Name defs)"
  shows "once_ok env t sched c P (reconcileSchedules env defs now st)"
  unfolding reconcileSchedules_def
proof (rule prune_once)
  show "once_ok env t sched c P (fold (reconcile_one env now) defs st)"
    using assms distinct_def [OF assms(7) _ assms(6)] by (intro fold_reconcile_once) blast+
  show "tg_Name t \<in> set (map tg_Name (filter live_schedule defs))"
    using assms(3,4,6) by (simp add: live_schedule_def IsSchedule_def)
qed

section \<open>Firing\<close>

lemma once_ok_fields:
  assumes "nextFire st' = nextFire st" "cron st' = cron st" "TriggerRuntime st' = TriggerRuntime st" "disk_runtime st' = disk_runtime st"
    "scenario_ids st' = scenario_ids st"
  shows "once_ok env t sched c P st' = once_ok env t sched c P st"
  unfolding once_ok_def orphaned_ids [OF assms(5)] assms(1-4) ..

lemma reserve_once: "reserveFireLocked n ov st = (st', ok) \<Longrightarrow> once_ok env t sched c P st' = once_ok env t sched c P st"
  using reserve_shape(2-6) by (intro once_ok_fields) blast+

lemma release_once: "once_ok env t sched c P (releaseFire n st) = once_ok env t sched c P st"
  by (rule once_ok_fields) simp_all

lemma advance_other:
  assumes "tg_Name t' \<noteq> tg_Name t" "once_ok env t sched c P st"
  shows "once_ok env t sched c P (fst (advanceSchedule env' t' now st))"
  using assms(1) by (intro once_ok_cong [OF _ _ _ _ _ assms(2)]) simp_all

lemma due_other:
  assumes d: "due_one env' defs now m st = (st', r)" and m: "m \<noteq> tg_Name t" and o: "once_ok env t sched c P st"
  shows "once_ok env t sched c P st'"
  using d
proof (cases rule: due_one_cases)
  case (overlap t' fireAt st1)
  have "once_ok env t sched c P (fst (advanceSchedule env' t' now st1))"
    using overlap(2) m o reserve_once [OF overlap(5)] by (intro advance_other) auto
  then show ?thesis unfolding overlap(7) using m by (intro update_once_ok [OF prod.collapse [symmetric]]) auto
next
  case (committed t' fireAt st1)
  have "once_ok env t sched c P (fst (advanceSchedule env' t' now st1))"
    using committed(2) m o reserve_once [OF committed(5)] by (intro advance_other) auto
  then show ?thesis using m by (intro update_once_ok [OF committed(7)]) auto
next
  case (failed t' fireAt st1 st2)
  have "once_ok env t sched c P (fst (advanceSchedule env' t' now st1))"
    using failed(2) m o reserve_once [OF failed(5)] by (intro advance_other) auto
  then have "once_ok env t sched c P st2" using m by (intro update_once_ok [OF failed(8)]) auto
  then show ?thesis by (simp add: failed(7) release_once)
qed (use o in simp)

lemma advance_value:
  assumes "once_ok env t sched c P st" "valid_schedule env sched" "tg_Schedule t = Some sched"
    and "map_of (nextFire st) (tg_Name t) = Some (Some y)"
  shows "snd (advanceSchedule env t now st) = Some (next_after env sched y now)"
proof (cases "Cron sched = []")
  case True
  then obtain e where "parseDuration env (Every sched) = Some e" "0 < e" using assms(2) by (auto simp: valid_schedule_def)
  moreover have "map_of (cron st) (tg_Name t) = None" using assms(1) True by (auto simp: once_ok_def entries_ok_def split: option.splits)
  ultimately show ?thesis using assms(3,4) True by (simp add: advanceSchedule_def Let_def next_after_def get_def)
next
  case False
  obtain x where "cronNext env (Cron sched) (Timezone sched) now = Some x" using assms(2) False unfolding valid_schedule_def by meson
  moreover have "map_of (cron st) (tg_Name t) = Some (Cron sched)" using assms(1,4) False by (simp add: once_ok_def entries_ok_def)
  ultimately show ?thesis using assms(3) False by (simp add: advanceSchedule_def Let_def next_after_def)
qed

text \<open>The state of the trigger just before the table is updated: the cursor has moved to \<open>X\<close>.\<close>

lemma advanced:
  assumes o: "once_ok env t sched c P st" and v: "valid_schedule env sched" "tg_Schedule t = Some sched" and now: "c \<le> now"
    and y: "map_of (nextFire st) (tg_Name t) = Some (Some y)" "y \<le> now"
    and X: "X = next_after env sched y now"
  shows "now < X" "\<forall>x \<in> P. x \<le> y" "\<forall>x \<in> insert X P. \<forall>now' \<ge> now. x \<le> next_after env sched y now'"
    "once_ok env t sched now P (fst (advanceSchedule env t now st))" "nextFire (fst (advanceSchedule env t now st)) = map_put (tg_Name t) (Some X) (nextFire st)"
proof -
  show le: "\<forall>x \<in> P. x \<le> y" using o y(1) by (simp add: once_ok_def entries_ok_def)
  show "now < X" unfolding X by (rule next_after_props(1) [OF v(1)])
  have "X \<le> next_after env sched y now'" if "now \<le> now'" for now' unfolding X by (rule next_after_props(2) [OF v(1) that])
  moreover have "x \<le> next_after env sched y now'" if "x \<in> P" "now \<le> now'" for x now'
    using le that y(2) next_after_props(1) [OF v(1), of now' y] by fastforce
  ultimately show "\<forall>x \<in> insert X P. \<forall>now' \<ge> now. x \<le> next_after env sched y now'" by blast
  show nf: "nextFire (fst (advanceSchedule env t now st)) = map_put (tg_Name t) (Some X) (nextFire st)"
    using advance_value [OF o v y(1)] by (simp add: X)
  have "\<forall>x \<in> P. x \<le> X" using le y(2) \<open>now < X\<close> by fastforce
  then have "entries_ok env t sched c P (Some (Some X)) (map_of (cron st) (tg_Name t))
      (map_of (TriggerRuntime st) (tg_Name t)) (map_of (disk_runtime st) (tg_Name t))"
    using o y(1) by (simp add: once_ok_def entries_ok_def)
  moreover have "scenarioTriggerOrphanedLocked (tg_Name t) (fst (advanceSchedule env t now st)) = scenarioTriggerOrphanedLocked (tg_Name t) st"
    by (rule orphaned_ids) simp
  ultimately have "once_ok env t sched c P (fst (advanceSchedule env t now st))" using o nf by (simp add: once_ok_def)
  then show "once_ok env t sched now P (fst (advanceSchedule env t now st))" using now by (rule once_ok_later)
qed

lemma due_same:
  assumes o: "once_ok env t sched c P st" and v: "valid_schedule env sched" "tg_Schedule t = Some sched" and now: "c \<le> now"
    and t: "t \<in> set defs" "distinct (map tg_Name defs)" and d: "due_one env defs now (tg_Name t) st = (st', r)"
  shows "case r of None \<Rightarrow> once_ok env t sched now P st'
    | Some (fireAt, nn) \<Rightarrow> (\<exists>X. nn = Some X \<and> now < X \<and> (\<forall>x \<in> P. x \<le> now) \<and> once_ok env t sched now (insert X P) st')"
proof -
  have orph: "\<not> scenarioTriggerOrphanedLocked (tg_Name t) st" using o by (simp add: once_ok_def)
  have cur: "map_of (nextFire st) (tg_Name t) = Some (Some y)" if "get None (nextFire st) (tg_Name t) = Some y" for y
    using that by (auto simp: get_def split: option.splits)
  have same: "t' = t" if "t' \<in> set defs" "tg_Name t' = tg_Name t" for t' using distinct_def [OF t(2) that(1) t(1) that(2)] .
  show ?thesis using d
  proof (cases rule: due_one_cases)
    case idle
    then show ?thesis using once_ok_later [OF o now] by simp
  next
    case (overlap t' y st1)
    have t': "t' = t" by (rule same [OF overlap(1,2)])
    have o1: "once_ok env t sched c P st1" "map_of (nextFire st1) (tg_Name t) = Some (Some y)"
      using o reserve_once [OF overlap(5)] reserve_shape(2) [OF overlap(5)] cur [OF overlap(3)] by auto
    note a = advanced [OF o1(1) v now o1(2) overlap(4) refl]
    note val = advance_value [OF o1(1) v o1(2), of now]
    let ?X = "next_after env sched y now"
    have row: "trow_ok env t sched now P (map_of (TriggerRuntime st1) (tg_Name t))" using a(4) by (simp add: once_ok_def entries_ok_def)
    have le: "\<forall>x \<in> P. x \<le> ?X" using a(1,2) overlap(4) by fastforce
    have "trow_ok env t sched now P (Some ((get zero_runtime (TriggerRuntime st1) (tg_Name t))\<lparr>NextScheduledFireAt := Some (Some ?X)\<rparr>))"
      using row le by (cases "map_of (TriggerRuntime st1) (tg_Name t)") (auto simp: trow_ok_def get_def split: option.splits)
    then have "once_ok env t sched now P st'" unfolding overlap(7) t' val
      by (intro update_once_ok [OF prod.collapse [symmetric] a(4)]) simp_all
    then show ?thesis by (simp add: overlap(6))
  next
    case (committed t' y st1)
    have t': "t' = t" by (rule same [OF committed(1,2)])
    have o1: "once_ok env t sched c P st1" "map_of (nextFire st1) (tg_Name t) = Some (Some y)"
      using o reserve_once [OF committed(5)] reserve_shape(2) [OF committed(5)] cur [OF committed(3)] by auto
    note a = advanced [OF o1(1) v now o1(2) committed(4) refl]
    note val = advance_value [OF o1(1) v o1(2), of now]
    let ?X = "next_after env sched y now"
    let ?f = "\<lambda>r. r\<lparr>LastScheduledFireAt := Some y, NextScheduledFireAt := Some (Some ?X)\<rparr>"
    have u: "updateTriggerRuntime (tg_Name t) ?f (fst (advanceSchedule env t now st1)) = (st', True)"
      using committed(7) unfolding t' val by simp
    have orph1: "\<not> scenarioTriggerOrphanedLocked (tg_Name t) (fst (advanceSchedule env t now st1))" using a(4) by (simp add: once_ok_def)
    note rows = update_rows [OF u]
    have le: "\<forall>x \<in> P. x \<le> ?X" using a(1,2) committed(4) by fastforce
    obtain rt where rt: "map_of (TriggerRuntime st1) (tg_Name t) = Some rt" "Fingerprint rt = triggerFingerprint env t"
      using o1 by (auto simp: once_ok_def entries_ok_def split: option.splits)
    have row: "map_of (TriggerRuntime st') (tg_Name t) = Some (?f rt)" "map_of (disk_runtime st') (tg_Name t) = Some (?f rt)"
      using rows(6) [OF orph1] rows(7) [OF orph1] rt(1) by (simp_all add: get_def)
    have "trow_ok env t sched now (insert ?X P) (Some (?f rt))" using rt(2) le a(3) by (auto simp: trow_ok_def)
    moreover have "\<forall>x \<in> insert ?X P. \<forall>now' \<ge> now. x \<le> next_after env sched 0 now'" if "Cron sched \<noteq> []"
      using a(3) next_after_props(4) [OF v(1) that, of y _ 0] by simp
    ultimately have "once_ok env t sched now (insert ?X P) st'"
      using a(4) rows(1-3) a(5) row rt(2) le orphaned_ids [OF rows(3), of "tg_Name t"]
      by (simp add: once_ok_def entries_ok_def val)
    moreover have "\<forall>x \<in> P. x \<le> now" using a(2) committed(4) by fastforce
    ultimately show ?thesis using a(1) val by (simp add: committed(6) t')
  next
    case (failed t' y st1 st2)
    have t': "t' = t" by (rule same [OF failed(1,2)])
    have o1: "once_ok env t sched c P st1" "map_of (nextFire st1) (tg_Name t) = Some (Some y)"
      using o reserve_once [OF failed(5)] reserve_shape(2) [OF failed(5)] cur [OF failed(3)] by auto
    note a = advanced [OF o1(1) v now o1(2) failed(4) refl]
    note val = advance_value [OF o1(1) v o1(2), of now]
    let ?X = "next_after env sched y now"
    have row: "trow_ok env t sched now P (map_of (TriggerRuntime st1) (tg_Name t))" using a(4) by (simp add: once_ok_def entries_ok_def)
    have le: "\<forall>x \<in> P. x \<le> ?X" using a(1,2) failed(4) by fastforce
    have "trow_ok env t sched now P (Some ((get zero_runtime (TriggerRuntime st1) (tg_Name t))
        \<lparr>LastScheduledFireAt := Some y, NextScheduledFireAt := Some (Some ?X)\<rparr>))"
      using row le a(3) by (cases "map_of (TriggerRuntime st1) (tg_Name t)") (auto simp: trow_ok_def get_def split: option.splits)
    then have "once_ok env t sched now P st2" by (intro update_once_ok [OF failed(8) [unfolded t' val] a(4)]) simp_all
    then show ?thesis by (simp add: failed(6,7) release_once)
  qed
qed

section \<open>Runs\<close>

text \<open>The dispatched fires of one trigger, each with its tick and the instant announced next, and the instants
  announced so far.\<close>

definition fires_of :: "string \<Rightarrow> (string \<times> int \<times> int option) list \<Rightarrow> (int \<times> int option) list" where
  "fires_of name fs = map snd (filter (\<lambda>f. fst f = name) fs)"

definition announced :: "(int \<times> int option) list \<Rightarrow> int set" where
  "announced F = {x. \<exists>tick. (tick, Some x) \<in> set F}"

definition spaced :: "(int \<times> int option) list \<Rightarrow> bool" where
  "spaced F \<longleftrightarrow> (\<forall>f \<in> set F. \<exists>x. snd f = Some x \<and> fst f < x) \<and> sorted_wrt (\<lambda>f g. \<forall>x. snd f = Some x \<longrightarrow> x \<le> fst g) F"

lemma spaced_snoc:
  "spaced F \<Longrightarrow> now < X \<Longrightarrow> \<forall>x \<in> announced F. x \<le> now \<Longrightarrow> spaced (F @ [(now, Some X)]) \<and> announced (F @ [(now, Some X)]) = insert X (announced F)"
  by (auto simp: spaced_def announced_def sorted_wrt_append) (metis surjective_pairing)

lemma fires_of_append [simp]: "fires_of n (fs @ gs) = fires_of n fs @ fires_of n gs"
  by (simp add: fires_of_def)

lemma due_names_once:
  assumes v: "valid_schedule env sched" "tg_Schedule t = Some sched" and now: "c \<le> now"
    and t: "t \<in> set defs" "distinct (map tg_Name defs)"
  shows "due_names env defs now names st = (st', due) \<Longrightarrow> once_ok env t sched c (announced F) st \<Longrightarrow> spaced F \<Longrightarrow>
    once_ok env t sched now (announced (F @ fires_of (tg_Name t) (map (\<lambda>d. (fst d, now, snd (snd d))) due))) st' \<and>
    spaced (F @ fires_of (tg_Name t) (map (\<lambda>d. (fst d, now, snd (snd d))) due))"
  using now
proof (induction names arbitrary: st due F c)
  case Nil
  then show ?case using once_ok_later by (simp add: fires_of_def)
next
  case (Cons m names)
  obtain st1 r where d: "due_one env defs now m st = (st1, r)" by fastforce
  obtain due' where rest: "due_names env defs now names st1 = (st', due')" and due: "due = (case r of None \<Rightarrow> due' | Some f \<Rightarrow> (m, f) # due')"
    using Cons.prems(1) d by (auto split: prod.splits)
  define F1 where "F1 = F @ (case r of None \<Rightarrow> [] | Some f \<Rightarrow> if m = tg_Name t then [(now, snd f)] else [])"
  have "once_ok env t sched now (announced F1) st1 \<and> spaced F1"
  proof (cases "m = tg_Name t")
    case False
    then have "once_ok env t sched c (announced F) st1" using due_other [OF d] Cons.prems(2) by blast
    then show ?thesis using False Cons.prems(3,4) once_ok_later by (auto simp: F1_def split: option.split)
  next
    case True
    note one = due_same [OF Cons.prems(2) v Cons.prems(4) t d [unfolded True]]
    show ?thesis
    proof (cases r)
      case None
      then show ?thesis using one Cons.prems(3) by (simp add: F1_def)
    next
      case (Some f)
      then obtain X where X: "snd f = Some X" "now < X" "\<forall>x \<in> announced F. x \<le> now" "once_ok env t sched now (insert X (announced F)) st1"
        using one by (auto split: prod.splits)
      then show ?thesis using spaced_snoc [OF Cons.prems(3) X(2,3)] Some True by (simp add: F1_def)
    qed
  qed
  from Cons.IH [OF rest this [THEN conjunct1] this [THEN conjunct2]] have
    "once_ok env t sched now (announced (F1 @ fires_of (tg_Name t) (map (\<lambda>d. (fst d, now, snd (snd d))) due'))) st' \<and>
     spaced (F1 @ fires_of (tg_Name t) (map (\<lambda>d. (fst d, now, snd (snd d))) due'))" by simp
  moreover have "F1 @ fires_of (tg_Name t) (map (\<lambda>d. (fst d, now, snd (snd d))) due') =
      F @ fires_of (tg_Name t) (map (\<lambda>d. (fst d, now, snd (snd d))) due)"
    by (cases r) (auto simp: F1_def due fires_of_def)
  ultimately show ?case by simp
qed

definition once_inv :: "trigger_env \<Rightarrow> TriggerConfig list \<Rightarrow> TriggerConfig \<Rightarrow> trigger_system \<Rightarrow> bool" where
  "once_inv env defs t s \<longleftrightarrow> t \<in> set defs \<and> distinct (map tg_Name defs) \<and> TriggerEnabled t \<and>
    (\<exists>sched. tg_Schedule t = Some sched \<and> valid_schedule env sched \<and>
      once_ok env t sched (clock s) (announced (fires_of (tg_Name t) (fires s))) (ts s)) \<and>
    spaced (fires_of (tg_Name t) (fires s))"

definition once_init :: "trigger_env \<Rightarrow> TriggerConfig list \<Rightarrow> TriggerConfig \<Rightarrow> trigger_system \<Rightarrow> bool" where
  "once_init env defs t s \<longleftrightarrow> trig_init s \<and> t \<in> set defs \<and> distinct (map tg_Name defs) \<and> TriggerEnabled t \<and>
    (\<exists>sched. tg_Schedule t = Some sched \<and> valid_schedule env sched) \<and> \<not> scenarioTriggerOrphanedLocked (tg_Name t) (ts s)"

lemma once_init_inv: "once_init env defs t s \<Longrightarrow> once_inv env defs t s"
  by (auto simp: once_init_def once_inv_def trig_init_def newTriggerState_def fires_of_def announced_def spaced_def once_ok_def
      entries_ok_def trow_ok_def)

text \<open>Everything but a tick leaves the fires alone; what it changes of the trigger's entries keeps the invariant.\<close>

lemma once_frame:
  assumes "once_inv env defs t s" "fires s' = fires s" "clock s' = clock s"
    and "\<And>sched P. once_ok env t sched (clock s) P (ts s) \<Longrightarrow> once_ok env t sched (clock s) P (ts s')"
  shows "once_inv env defs t s'"
  using assms by (auto simp: once_inv_def)

lemma begin_fields:
  assumes "fire_begin env defs configured name now st = (st', ok)"
  shows "once_ok env' t sched c P st' = once_ok env' t sched c P st"
proof -
  have r: "once_ok env' t sched c P st1 = once_ok env' t sched c P st" if "rateLimited k n w now st = (st1, l)" for k n w st1 l
    using that by (intro once_ok_fields) (auto simp: rateLimited_def reserveRateSlots_def Let_def split: if_splits)
  have run: "once_ok env' t sched c P (st1\<lparr>running := x\<rparr>) = once_ok env' t sched c P st1" for st1 x by (rule once_ok_fields) simp_all
  show ?thesis
  proof (cases "triggerByName defs name")
    case None
    then show ?thesis using assms by (auto simp: fire_begin_def release_once)
  next
    case (Some t')
    obtain n win where p: "RateLimitParsed env (tg_Policy t') = (n, win)" by fastforce
    obtain st1 l where l: "rateLimited name n win now st = (st1, l)" by fastforce
    show ?thesis using assms Some p l r [OF l]
      by (cases l; cases "MaxConcurrentOr configured \<le> running st1") (auto simp: fire_begin_def acquireSlot_def release_once run)
  qed
qed

lemma end_once: "once_ok env t sched c P st \<Longrightarrow> once_ok env t sched c P (fire_end m n run err st)"
proof -
  have slot: "once_ok env t sched c P (releaseSlot s) = once_ok env t sched c P s" for s
    by (rule once_ok_fields) (simp_all add: releaseSlot_def)
  assume "once_ok env t sched c P st"
  then show ?thesis by (auto simp: fire_end_def Let_def release_once slot intro: run_once_ok error_once_ok split: option.split)
qed

lemma restart_once: "once_ok env t sched c P st \<Longrightarrow> once_ok env t sched c P (trigger_restart st)"
proof -
  assume "once_ok env t sched c P st"
  moreover have "scenarioTriggerOrphanedLocked (tg_Name t) (trigger_restart st) = scenarioTriggerOrphanedLocked (tg_Name t) st"
    by (rule orphaned_ids) (simp add: trigger_restart_def newTriggerState_def)
  ultimately show ?thesis by (simp add: once_ok_def entries_ok_def trigger_restart_def newTriggerState_def)
qed

lemma pause_once:
  assumes "TriggerPause defs n p st = (st', e)" "once_ok env t sched c P st"
  shows "once_ok env t sched c P st'"
  using pause_frame [OF assms(1)]
proof
  assume "\<exists>f. st' = fst (updateTriggerRuntime n f st) \<and> (\<forall>r. Fingerprint (f r) = Fingerprint r \<and>
    LastScheduledFireAt (f r) = LastScheduledFireAt r \<and> NextScheduledFireAt (f r) = NextScheduledFireAt r)"
  then show ?thesis using update_keep_once_ok [OF prod.collapse [symmetric] assms(2)] by blast
qed (simp add: assms(2))

lemma once_step:
  assumes inv: "once_inv env defs t s" and step: "trig_step env defs configured s s'"
  shows "once_inv env defs t s'"
  using step
proof (cases rule: trig_step.cases)
  case (tick now st due)
  obtain sched where i: "t \<in> set defs" "distinct (map tg_Name defs)" "TriggerEnabled t" "tg_Schedule t = Some sched" "valid_schedule env sched"
    "once_ok env t sched (clock s) (announced (fires_of (tg_Name t) (fires s))) (ts s)" "spaced (fires_of (tg_Name t) (fires s))"
    using inv by (auto simp: once_inv_def)
  have "once_ok env t sched (clock s) (announced (fires_of (tg_Name t) (fires s))) (reconcileSchedules env defs now (ts s))"
    by (rule reconcile_once [OF i(6,5,4,3) tick(2) i(1,2)])
  from due_names_once [OF i(5,4) tick(2) i(1,2) tick(3) [unfolded dueSchedules_def] this i(7)]
  show ?thesis using i tick(1) by (auto simp: once_inv_def)
next
  case (begin_run name now st)
  then show ?thesis using begin_fields by (intro once_frame [OF inv]) auto
next
  case (begin_skip name now st)
  then show ?thesis using begin_fields by (intro once_frame [OF inv]) auto
next
  case (task_refused name)
  then show ?thesis by (intro once_frame [OF inv]) (simp_all add: release_once)
next
  case (end_run name maxHistory run err)
  then show ?thesis by (intro once_frame [OF inv]) (simp_all add: end_once)
next
  case (run_now name st)
  from run_now(2) obtain t' where "t' \<in> set defs" "tg_Name t' = name"
    "reserveFireLocked name (OverlapMode (tg_Policy t')) (ts s) = (st, True)" by (rule run_now_cases)
  then show ?thesis using run_now(1) reserve_once by (intro once_frame [OF inv]) auto
next
  case (pause name p st e)
  then show ?thesis using pause_once by (intro once_frame [OF inv]) auto
next
  case restart
  then show ?thesis by (intro once_frame [OF inv]) (simp_all add: restart_once)
next
  case (disk results)
  have "once_ok env t sched c P ((ts s)\<lparr>saves := results\<rparr>) = once_ok env t sched c P (ts s)" for sched c P
    by (rule once_ok_fields) simp_all
  then show ?thesis using disk by (intro once_frame [OF inv]) simp_all
qed

interpretation once: invariant_system "once_init env defs t" "trig_step env defs configured" "once_inv env defs t"
  for env defs t configured
  by unfold_locales (auto intro: once_init_inv once_step)


section \<open>An example, and where the code falls short\<close>

definition demo_trig_env :: trigger_env where
  "demo_trig_env = \<lparr>parseCron = (\<lambda>c. True), cronNext = (\<lambda>c tz now. if c = ''never'' then None else Some (now - now mod 1000 + 1000)),
     parseDuration = (\<lambda>d. if d = ''10s'' then Some 10 else None), scanInt = (\<lambda>s. None),
     triggerFingerprint = (\<lambda>t. case tg_Schedule t of None \<Rightarrow> [] | Some s \<Rightarrow> Cron s @ Every s)\<rparr>"

definition demo_trigger :: "string \<Rightarrow> string \<Rightarrow> bool \<Rightarrow> TriggerConfig" where
  "demo_trigger c e catchUp = \<lparr>tg_Name = ''daily'', tg_Enabled = None,
     tg_Schedule = Some \<lparr>Cron = c, Every = e, Timezone = []\<rparr>, tg_Watch = False, tg_GCX = False, tg_Completion = False,
     tg_Policy = \<lparr>Overlap = [], RateLimit = [], CatchUp = catchUp\<rparr>\<rparr>"

text \<open>One tick of the loop on a state.\<close>

definition tick_at :: "TriggerConfig list \<Rightarrow> int \<Rightarrow> triggerState \<Rightarrow> triggerState \<times> (string \<times> int \<times> int option) list" where
  "tick_at defs now st = dueSchedules demo_trig_env defs now (reconcileSchedules demo_trig_env defs now st)"

definition tick_system :: "TriggerConfig list \<Rightarrow> int \<Rightarrow> trigger_system \<Rightarrow> trigger_system" where
  "tick_system defs now s = (case tick_at defs now (ts s) of (st, due) \<Rightarrow>
     s\<lparr>ts := st, clock := now, waiting := waiting s @ map fst due, fires := fires s @ map (\<lambda>d. (fst d, now, snd (snd d))) due\<rparr>)"

lemma tick_system_step: "clock s \<le> now \<Longrightarrow> trig_step demo_trig_env defs configured s (tick_system defs now s)"
  unfolding tick_system_def tick_at_def by (auto intro: trig_step.tick split: prod.split)

definition demo_begin :: trigger_system where
  "demo_begin = \<lparr>ts = newTriggerState [] [], clock = 0, waiting = [], active = [], fires = []\<rparr>"

definition demo_fired :: trigger_system where
  "demo_fired = tick_system [demo_trigger [] ''10s'' False] 10 (tick_system [demo_trigger [] ''10s'' False] 0 demo_begin)"

definition demo_twice :: trigger_system where
  "demo_twice = tick_system [demo_trigger [] ''10s'' False] 30 (tick_system [demo_trigger [] ''10s'' False] 25
     (demo_fired\<lparr>ts := trigger_restart (ts demo_fired), waiting := [], active := []\<rparr>))"

lemma demo_times:
  "clock (tick_system defs now s) = now" "waiting demo_fired = [''daily'']" "active demo_fired = []"
  "fires_of ''daily'' (fires demo_twice) = [(10, Some 20), (30, Some 40)]"
proof -
  show "clock (tick_system defs now s) = now" by (simp add: tick_system_def split: prod.split)
  show "waiting demo_fired = [''daily'']" "active demo_fired = []"
    "fires_of ''daily'' (fires demo_twice) = [(10, Some 20), (30, Some 40)]" by code_simp+
qed

lemma demo_fired_steps:
  "(trig_step demo_trig_env [demo_trigger [] ''10s'' False] configured)\<^sup>*\<^sup>* demo_begin demo_fired"
proof -
  let ?d = "[demo_trigger [] ''10s'' False]"
  have "trig_step demo_trig_env ?d configured demo_begin (tick_system ?d 0 demo_begin)"
    by (rule tick_system_step) (simp add: demo_begin_def)
  moreover have "trig_step demo_trig_env ?d configured (tick_system ?d 0 demo_begin) demo_fired"
    unfolding demo_fired_def by (rule tick_system_step) (simp add: demo_times)
  ultimately show ?thesis by (meson r_into_rtranclp rtranclp_trans)
qed




text \<open>A trigger that is changed from a cron schedule to an interval keeps the parsed cron schedule: its first fire
  follows the new interval, every later one the old schedule.\<close>

theorem changed_schedule_keeps_cron:
  "let st0 = newTriggerState [] [];
       (st1, f1) = tick_at [demo_trigger ''c'' [] False] 0 st0;
       (st2, f2) = tick_at [demo_trigger [] ''10s'' False] 5 st1;
       (st3, f3) = tick_at [demo_trigger [] ''10s'' False] 15 st2
   in f1 = [] \<and> f2 = [] \<and> f3 = [(''daily'', 15, Some 1000)]"
  by code_simp

text \<open>A cron schedule without a reachable date is meant never to fire. With \<^verbatim>\<open>catch_up\<close> the zero time that marks it as
  dormant is taken for a missed run, and it fires after every restart.\<close>

theorem dormant_trigger_fires_after_restart:
  "let (st1, f1) = tick_at [demo_trigger ''never'' [] True] 0 (newTriggerState [] []);
       (st2, f2) = tick_at [demo_trigger ''never'' [] True] 100 (trigger_restart st1);
       (st3, f3) = tick_at [demo_trigger ''never'' [] True] 200 (trigger_restart st2)
   in f1 = [] \<and> map fst f2 = [''daily''] \<and> map fst f3 = [''daily'']"
  by code_simp

text \<open>Removing a trigger while it runs forgets its reservation. When it comes back, a second run starts beside the
  first although the policy is \<^verbatim>\<open>skip\<close>.\<close>

theorem readded_trigger_overlaps:
  "let d = demo_trigger [] ''10s'' False;
       (st1, f1) = tick_at [d] 0 (newTriggerState [] []);
       (st2, f2) = tick_at [d] 10 st1;
       (st3, f3) = tick_at [] 11 st2;
       (st4, f4) = tick_at [d] 12 st3;
       (st5, f5) = tick_at [d] 20 st4
   in map fst f2 = [''daily''] \<and> f3 = [] \<and> f4 = [] \<and> map fst f5 = [''daily''] \<and> OverlapMode (tg_Policy d) = OverlapSkip"
  by code_simp

text \<open>The cursor stands still while a trigger is paused, so resuming it fires the overdue run at once, without
  \<^verbatim>\<open>catch_up\<close>.\<close>

theorem resume_fires_overdue_run:
  "let d = demo_trigger [] ''10s'' False;
       (st1, f1) = tick_at [d] 0 (newTriggerState [] []);
       (st2, e2) = TriggerPause [d] ''daily'' True st1;
       (st3, f3) = tick_at [d] 500 st2;
       (st4, e4) = TriggerPause [d] ''daily'' False st3;
       (st5, f5) = tick_at [d] 501 st4
   in f3 = [] \<and> f5 = [(''daily'', 10, Some 510)]"
  by code_simp

end
