(* ===== verification/Auth.thy ===== *)
theory Auth
  imports Sessions
begin

text \<open>
  Authorization: the connection roles and the role resolution of \<^verbatim>\<open>internal/daemon/auth.go\<close>, the
  remote message policy (Gate A) of \<^verbatim>\<open>authmatrix.go\<close>, the live origin policy (Gate 1) of
  \<^verbatim>\<open>remote.go\<close>, the device lookup of \<^verbatim>\<open>pairing.go\<close>, the connection origin of \<^verbatim>\<open>origin.go\<close> and
  the admission of a control frame in \<^verbatim>\<open>handler.go\<close>.
  The keyed hash \<^verbatim>\<open>hmacToken\<close> (HMAC-SHA256, a cryptographic primitive) is the parameter \<open>hmac\<close> of the
  definitions that use it. An error return is \<open>Some e\<close>, a nil error \<open>None\<close>.
\<close>

datatype authRole = roleNone | roleLocalHuman | roleRemoteHuman | roleRemoteGuest
  | roleSession | roleOrchestrator

datatype auth_error =
    InvalidToken
  | NotPermittedForAgents
  | OnlyOwnSession
  | NotSelfOrDescendant
  | NotAuthorizedScenarios
  | NotScenarioMember string
  | ScenarioNotFound string
  | NotAuthorizedTriggers
  | NoOrchestrator
  | OnlyOrchestratorTriggers
  | NotAuthorizedNotify
  | OnlyClearAttention
  | OnlyRequestAttention
  | NotAuthorizedJailRelease

record TailnetIdentity =
  User :: string
  Node :: string
  Tags :: "string list"

record ConnOrigin =
  Remote :: bool
  Identity :: "TailnetIdentity option"
  RemoteGeneration :: nat
  RemoteTLSPin :: string

record PairedDevice =
  DeviceID :: string
  DeviceLabel :: string
  PubKey :: string
  TailnetUser :: string
  TailnetNode :: string
  TokenHash :: string
  ReadOnly :: bool
  CreatedAt :: int

record RemoteConfig =
  Enabled :: bool
  AllowTailnetUsers :: "string list"
  RequirePairing :: bool

record SessionManager =
  Sessions :: sessions
  Scenarios :: "(string \<times> scenario) list"
  tokenIndex :: "(string \<times> string) list"
  humanToken :: string
  remoteCfg :: "RemoteConfig option"
  remoteGeneration :: nat
  PairedDevices :: "(string \<times> PairedDevice) list"
  deviceTokenIndex :: "(string \<times> string) list"
  PairingHMACKey :: string

record authContext =
  role :: authRole
  sessionID :: string
  sessionToken :: string
  deviceID :: string
  authenticated :: bool
  origin :: ConnOrigin

section \<open>Identity\<close>

definition isHuman :: "authContext \<Rightarrow> bool" where
  "isHuman ac \<longleftrightarrow> role ac = roleLocalHuman \<or> role ac = roleRemoteHuman"

definition isLocalHuman :: "authContext \<Rightarrow> bool" where
  "isLocalHuman ac \<longleftrightarrow> role ac = roleLocalHuman"

definition describe :: "authContext \<Rightarrow> string" where
  "describe ac =
    (case role ac of
       roleLocalHuman \<Rightarrow> ''local-human''
     | roleRemoteHuman \<Rightarrow> ''remote-human('' @ deviceID ac @ '')''
     | roleRemoteGuest \<Rightarrow> ''remote-guest('' @ deviceID ac @ '')''
     | roleOrchestrator \<Rightarrow> ''orchestrator('' @ sessionID ac @ '')''
     | roleSession \<Rightarrow> ''session('' @ sessionID ac @ '')''
     | roleNone \<Rightarrow> ''unauthenticated'')"

definition safe_identity_char :: "char \<Rightarrow> bool" where
  "safe_identity_char c \<longleftrightarrow>
     in_bytes 97 122 c \<or> in_bytes 65 90 c \<or> in_bytes 48 57 c \<or> c \<in> set ''._-''"

fun boundedMutationIdentity_loop :: "string \<Rightarrow> string \<Rightarrow> string" where
  "boundedMutationIdentity_loop safe [] = safe"
| "boundedMutationIdentity_loop safe (r # rs) =
    (let safe' = (if safe_identity_char r then safe @ [r] else safe)
     in if 96 \<le> length safe' then safe' else boundedMutationIdentity_loop safe' rs)"

definition boundedMutationIdentity :: "string \<Rightarrow> string" where
  "boundedMutationIdentity identity = boundedMutationIdentity_loop [] identity"

definition mutationCaller :: "authContext \<Rightarrow> string" where
  "mutationCaller ac =
    (case role ac of
       roleLocalHuman \<Rightarrow> ''local-human''
     | roleRemoteHuman \<Rightarrow> ''remote-human''
     | roleRemoteGuest \<Rightarrow> ''remote-guest''
     | roleOrchestrator \<Rightarrow> ''orchestrator('' @ boundedMutationIdentity (sessionID ac) @ '')''
     | roleSession \<Rightarrow> ''session('' @ boundedMutationIdentity (sessionID ac) @ '')''
     | roleNone \<Rightarrow> ''unauthenticated'')"

definition isOrchestrator :: "SessionManager \<Rightarrow> authContext \<Rightarrow> bool" where
  "isOrchestrator sm ac \<longleftrightarrow>
     authenticated ac \<and>
     (case map_of (Sessions sm) (sessionID ac) of
        None \<Rightarrow> False
      | Some sess \<Rightarrow> SystemKind sess = SystemKindOrchestrator)"

section \<open>Resolving a connection\<close>

definition SessionForToken :: "SessionManager \<Rightarrow> string \<Rightarrow> string" where
  "SessionForToken sm token = (case map_of (tokenIndex sm) token of None \<Rightarrow> [] | Some sid \<Rightarrow> sid)"

definition DeviceForToken ::
  "(string \<Rightarrow> string \<Rightarrow> string) \<Rightarrow> SessionManager \<Rightarrow> string \<Rightarrow> PairedDevice option" where
  "DeviceForToken hmac sm token =
    (if token = [] \<or> PairingHMACKey sm = [] then None
     else case map_of (deviceTokenIndex sm) (hmac (PairingHMACKey sm) token) of
         None \<Rightarrow> None
       | Some i \<Rightarrow> map_of (PairedDevices sm) i)"

fun identityAllowed_loop :: "string list \<Rightarrow> TailnetIdentity \<Rightarrow> bool" where
  "identityAllowed_loop [] i = False"
| "identityAllowed_loop (allow # as) i =
    (if prefix ''tag:'' allow
     then if allow \<in> set (Tags i) then True else identityAllowed_loop as i
     else if User i \<noteq> [] \<and> User i = allow then True
     else identityAllowed_loop as i)"

definition identityAllowed :: "RemoteConfig \<Rightarrow> TailnetIdentity option \<Rightarrow> bool" where
  "identityAllowed cfg ident =
    (case ident of
       None \<Rightarrow> False
     | Some i \<Rightarrow> if AllowTailnetUsers cfg = [] then False
                else identityAllowed_loop (AllowTailnetUsers cfg) i)"

definition remoteOriginAllowedLocked :: "SessionManager \<Rightarrow> ConnOrigin \<Rightarrow> bool" where
  "remoteOriginAllowedLocked sm org =
    (case remoteCfg sm of
       None \<Rightarrow> False
     | Some cfg \<Rightarrow>
         if \<not> Enabled cfg \<or> \<not> identityAllowed cfg (Identity org) then False
         else RemoteGeneration org = 0 \<or> RemoteGeneration org = remoteGeneration sm)"

definition remoteOriginAllowed :: "SessionManager \<Rightarrow> ConnOrigin \<Rightarrow> bool" where
  "remoteOriginAllowed sm org = (if \<not> Remote org then True else remoteOriginAllowedLocked sm org)"

definition identityMatchesDevice :: "TailnetIdentity option \<Rightarrow> PairedDevice \<Rightarrow> bool" where
  "identityMatchesDevice ident d =
    (case ident of
       None \<Rightarrow> False
     | Some i \<Rightarrow>
         if Node i = [] \<or> TailnetNode d = [] then False
         else User i = TailnetUser d \<and> Node i = TailnetNode d)"

definition remoteDeviceRole :: "RemoteConfig \<Rightarrow> PairedDevice \<Rightarrow> authRole" where
  "remoteDeviceRole cfg d =
    (if ReadOnly d \<or> \<not> RequirePairing cfg then roleRemoteGuest else roleRemoteHuman)"

definition remoteDataAllowed :: "SessionManager \<Rightarrow> ConnOrigin \<Rightarrow> string \<Rightarrow> bool" where
  "remoteDataAllowed sm org dev =
    (if \<not> Remote org then True
     else if \<not> remoteOriginAllowedLocked sm org \<or> dev = [] then False
     else case map_of (PairedDevices sm) dev of
         None \<Rightarrow> False
       | Some d \<Rightarrow>
           if \<not> identityMatchesDevice (Identity org) d then False
           else case remoteCfg sm of
               None \<Rightarrow> False
             | Some cfg \<Rightarrow> remoteDeviceRole cfg d = roleRemoteHuman)"

definition none_context :: "ConnOrigin \<Rightarrow> authContext" where
  "none_context org =
    \<lparr>role = roleNone, sessionID = [], sessionToken = [], deviceID = [], authenticated = False,
     origin = org\<rparr>"

definition session_context :: "SessionManager \<Rightarrow> string \<Rightarrow> string \<Rightarrow> ConnOrigin \<Rightarrow> authContext" where
  "session_context sm sid token org =
    (let ac = \<lparr>role = roleSession, sessionID = sid, sessionToken = token, deviceID = [],
               authenticated = True, origin = org\<rparr>
     in if isOrchestrator sm ac then ac\<lparr>role := roleOrchestrator\<rparr> else ac)"

definition resolveAuth :: "(string \<Rightarrow> string \<Rightarrow> string) \<Rightarrow> SessionManager \<Rightarrow> string \<Rightarrow> ConnOrigin
    \<Rightarrow> string \<Rightarrow> authContext \<times> auth_error option" where
  "resolveAuth hmac sm token org poppedDeviceID =
    (if Remote org \<and> \<not> remoteOriginAllowedLocked sm org then (none_context org, None)
     else if token \<noteq> [] \<and> SessionForToken sm token \<noteq> []
     then (session_context sm (SessionForToken sm token) token org, None)
     else if \<not> Remote org then
       (if humanToken sm \<noteq> [] then
          (if token \<noteq> [] \<and> token = humanToken sm
           then ((none_context org)\<lparr>role := roleLocalHuman\<rparr>, None)
           else (none_context org, Some InvalidToken))
        else if token = [] then ((none_context org)\<lparr>role := roleLocalHuman\<rparr>, None)
        else (none_context org, Some InvalidToken))
     else if poppedDeviceID = [] then (none_context org, None)
     else case DeviceForToken hmac sm token of
         None \<Rightarrow> (none_context org, None)
       | Some d \<Rightarrow>
           if DeviceID d \<noteq> poppedDeviceID \<or> \<not> identityMatchesDevice (Identity org) d
           then (none_context org, None)
           else case remoteCfg sm of
               None \<Rightarrow> (none_context org, None)
             | Some cfg \<Rightarrow>
                 ((none_context org)\<lparr>role := remoteDeviceRole cfg d, deviceID := DeviceID d\<rparr>, None))"

section \<open>Targets and operations\<close>

datatype authRule = authAlwaysAllowed | authSelfOnly | authSelfOrDescendant | authHumanOnly

definition checkTarget ::
  "SessionManager \<Rightarrow> authContext \<Rightarrow> string \<Rightarrow> authRule \<Rightarrow> auth_error option" where
  "checkTarget sm ac targetID rule =
    (case rule of
       authAlwaysAllowed \<Rightarrow> None
     | authHumanOnly \<Rightarrow> if authenticated ac then Some NotPermittedForAgents else None
     | authSelfOnly \<Rightarrow>
         if \<not> authenticated ac then None
         else if isOrchestrator sm ac then None
         else if targetID \<noteq> sessionID ac then Some OnlyOwnSession
         else None
     | authSelfOrDescendant \<Rightarrow>
         if \<not> authenticated ac then None
         else if isOrchestrator sm ac then None
         else if targetID = sessionID ac then None
         else if isDescendantOf (Sessions sm) targetID (sessionID ac) then None
         else Some NotSelfOrDescendant)"

definition parseInboxStream :: "string \<Rightarrow> string \<times> bool" where
  "parseInboxStream stream =
    (if \<not> prefix ''inbox:'' stream then ([], False) else (trim_prefix stream ''inbox:'', True))"

definition checkScenarioOp :: "SessionManager \<Rightarrow> authContext \<Rightarrow> string \<Rightarrow> auth_error option" where
  "checkScenarioOp sm ac name =
    (if isHuman ac then None
     else if role ac \<noteq> roleSession \<and> role ac \<noteq> roleOrchestrator then Some NotAuthorizedScenarios
     else case find (\<lambda>(k, sc). ScenarioName sc = name) (Scenarios sm) of
         None \<Rightarrow> Some (ScenarioNotFound name)
       | Some (k, sc) \<Rightarrow>
           if sessionID ac = OrchestratorID sc then None
           else if isDescendantOf (Sessions sm) (sessionID ac) (OrchestratorID sc) then None
           else Some (NotScenarioMember name))"

definition findOrchestratorID :: "SessionManager \<Rightarrow> string" where
  "findOrchestratorID sm =
    (case find (\<lambda>(i, s). SystemKind s = SystemKindOrchestrator) (Sessions sm) of
       None \<Rightarrow> []
     | Some (i, s) \<Rightarrow> i)"

definition checkTriggerOp :: "SessionManager \<Rightarrow> authContext \<Rightarrow> auth_error option" where
  "checkTriggerOp sm ac =
    (if isHuman ac then None
     else if role ac \<noteq> roleSession \<and> role ac \<noteq> roleOrchestrator then Some NotAuthorizedTriggers
     else let orchID = findOrchestratorID sm in
       if orchID = [] then Some NoOrchestrator
       else if sessionID ac = orchID \<or> isDescendantOf (Sessions sm) (sessionID ac) orchID then None
       else Some OnlyOrchestratorTriggers)"

definition checkNotifyOp :: "SessionManager \<Rightarrow> authContext \<Rightarrow> auth_error option" where
  "checkNotifyOp sm ac =
    (if isHuman ac then None else if isOrchestrator sm ac then None else Some NotAuthorizedNotify)"

definition checkOrchestratorAttentionOp ::
  "SessionManager \<Rightarrow> authContext \<Rightarrow> bool \<Rightarrow> auth_error option" where
  "checkOrchestratorAttentionOp sm ac clearRequest =
    (if clearRequest \<and> isHuman ac then None
     else if isOrchestrator sm ac then None
     else if clearRequest then Some OnlyClearAttention
     else Some OnlyRequestAttention)"

definition checkJailRelease :: "SessionManager \<Rightarrow> authContext \<Rightarrow> auth_error option" where
  "checkJailRelease sm ac =
    (if isHuman ac then None else if isOrchestrator sm ac then None
     else Some NotAuthorizedJailRelease)"

section \<open>Gate A: the remote message policy\<close>

datatype remotePolicy = remoteDenied | remotePreAuth | remoteReadOnly | remoteHumanRW | remoteSessionOnly

definition remoteMessagePolicy :: "(string \<times> remotePolicy) list" where
  "remoteMessagePolicy =
    [(''handshake'', remotePreAuth),
     (''pair_request'', remotePreAuth),
     (''auth_proof'', remotePreAuth),
     (''list'', remoteReadOnly),
     (''status'', remoteReadOnly),
     (''logs'', remoteReadOnly),
     (''screen_preview'', remoteReadOnly),
     (''screen_snapshot'', remoteReadOnly),
     (''dependency_status'', remoteReadOnly),
     (''status_report'', remoteSessionOnly),
     (''scenario_result_publish'', remoteSessionOnly),
     (''msg_conversation'', remoteHumanRW),
     (''msg_jail_list'', remoteReadOnly),
     (''msg_jail_show'', remoteReadOnly),
     (''msg_jail_release'', remoteHumanRW),
     (''scenario_status'', remoteHumanRW),
     (''scenario_list'', remoteHumanRW),
     (''trigger_list'', remoteHumanRW),
     (''trigger_status'', remoteHumanRW),
     (''trigger_run'', remoteHumanRW),
     (''trigger_pause'', remoteHumanRW),
     (''notify'', remoteHumanRW),
     (''orchestrator_attention'', remoteHumanRW),
     (''config'', remoteHumanRW),
     (''agent_catalog'', remoteHumanRW),
     (''agent_info'', remoteHumanRW),
     (''search'', remoteHumanRW),
     (''diagnostics'', remoteHumanRW),
     (''wait'', remoteHumanRW),
     (''events_sub'', remoteHumanRW),
     (''repo_list'', remoteHumanRW),
     (''store_list'', remoteHumanRW),
     (''store_get'', remoteHumanRW),
     (''attach'', remoteHumanRW),
     (''attach_convert'', remoteHumanRW),
     (''detach'', remoteHumanRW),
     (''resize'', remoteHumanRW),
     (''type'', remoteHumanRW),
     (''create'', remoteHumanRW),
     (''delete'', remoteHumanRW),
     (''restore'', remoteHumanRW),
     (''stop'', remoteHumanRW),
     (''resume'', remoteHumanRW),
     (''restart'', remoteHumanRW),
     (''update'', remoteHumanRW),
     (''fork'', remoteHumanRW),
     (''migrate'', remoteHumanRW),
     (''set_status'', remoteHumanRW),
     (''interrupt'', remoteHumanRW),
     (''msg_pub'', remoteHumanRW),
     (''msg_inbox'', remoteHumanRW),
     (''msg_sub'', remoteHumanRW),
     (''msg_ack'', remoteHumanRW),
     (''msg_topics'', remoteHumanRW),
     (''scenario_start'', remoteHumanRW),
     (''scenario_stop'', remoteHumanRW),
     (''scenario_delete'', remoteHumanRW),
     (''scenario_resume'', remoteHumanRW),
     (''scenario_add'', remoteHumanRW),
     (''todo_add'', remoteHumanRW),
     (''todo_list'', remoteHumanRW),
     (''todo_claim'', remoteSessionOnly),
     (''todo_transition'', remoteHumanRW),
     (''todo_update'', remoteHumanRW),
     (''todo_assign'', remoteHumanRW),
     (''todo_remove'', remoteHumanRW),
     (''todo_export'', remoteHumanRW),
     (''upgrade'', remoteDenied),
     (''upgrade_preflight'', remoteDenied),
     (''reload'', remoteDenied),
     (''gc'', remoteDenied),
     (''event_follow'', remoteDenied),
     (''event_unfollow'', remoteDenied),
     (''event_following'', remoteDenied),
     (''pair_approve'', remoteDenied),
     (''pair_list'', remoteDenied),
     (''pair_revoke'', remoteDenied)]"

definition message_policy :: "string \<Rightarrow> remotePolicy" where
  "message_policy msgType =
    (case map_of remoteMessagePolicy msgType of None \<Rightarrow> remoteDenied | Some pol \<Rightarrow> pol)"

definition remoteAllowed :: "authRole \<Rightarrow> string \<Rightarrow> bool" where
  "remoteAllowed r msgType =
    (let pol = message_policy msgType in
     case r of
       roleNone \<Rightarrow> pol = remotePreAuth
     | roleRemoteGuest \<Rightarrow> pol = remotePreAuth \<or> pol = remoteReadOnly
     | roleRemoteHuman \<Rightarrow> pol = remotePreAuth \<or> pol = remoteReadOnly \<or> pol = remoteHumanRW
     | roleSession \<Rightarrow> pol \<noteq> remoteDenied
     | roleOrchestrator \<Rightarrow> pol \<noteq> remoteDenied
     | roleLocalHuman \<Rightarrow> False)"

text \<open>The admission of a decoded control frame by the connection loop: the live origin check, the
  role resolution (whose error is not reported to a handshake) and Gate A.\<close>

datatype admission = Revoked | AuthFailed auth_error | RemoteRefused | Admitted authContext

definition admit_control :: "(string \<Rightarrow> string \<Rightarrow> string) \<Rightarrow> SessionManager \<Rightarrow> ConnOrigin \<Rightarrow> string
    \<Rightarrow> string \<Rightarrow> string \<Rightarrow> admission" where
  "admit_control hmac sm org poppedDeviceID msgType token =
    (if Remote org \<and> \<not> remoteOriginAllowed sm org then Revoked
     else case resolveAuth hmac sm token org poppedDeviceID of
       (auth, err) \<Rightarrow>
         (case err of
            Some e \<Rightarrow> if msgType \<noteq> ''handshake'' then AuthFailed e
                      else if Remote org \<and> \<not> remoteAllowed (role auth) msgType then RemoteRefused
                      else Admitted auth
          | None \<Rightarrow> if Remote org \<and> \<not> remoteAllowed (role auth) msgType then RemoteRefused
                    else Admitted auth))"

section \<open>Lemmas\<close>

lemma boundedMutationIdentity_loop_bound:
  "length safe < 96 \<Longrightarrow> length (boundedMutationIdentity_loop safe rs) \<le> 96"
  by (induction safe rs rule: boundedMutationIdentity_loop.induct) (auto simp: Let_def)

lemma boundedMutationIdentity_loop_safe:
  "list_all safe_identity_char safe \<Longrightarrow> list_all safe_identity_char (boundedMutationIdentity_loop safe rs)"
  by (induction safe rs rule: boundedMutationIdentity_loop.induct) (auto simp: Let_def)

lemma role_session_context [simp]:
  "role (session_context sm sid token org) \<in> {roleSession, roleOrchestrator}"
  "authenticated (session_context sm sid token org)"
  "sessionID (session_context sm sid token org) = sid"
  "origin (session_context sm sid token org) = org"
  by (auto simp: session_context_def Let_def)

lemma none_context_simps [simp]:
  "role (none_context org) = roleNone" "sessionID (none_context org) = []"
  "authenticated (none_context org) = False" "origin (none_context org) = org"
  "deviceID (none_context org) = []" "sessionToken (none_context org) = []"
  by (simp_all add: none_context_def)

lemma isOrchestrator_update_role [simp]: "isOrchestrator sm (ac\<lparr>role := r\<rparr>) = isOrchestrator sm ac"
  by (simp add: isOrchestrator_def)

lemma remoteDeviceRole_cases: "remoteDeviceRole cfg d \<in> {roleRemoteGuest, roleRemoteHuman}"
  by (simp add: remoteDeviceRole_def)

lemmas resolve_cases = resolveAuth_def remoteDeviceRole_def

lemma session_context_plain:
  "role (session_context sm sid token org) = roleSession \<Longrightarrow>
    \<not> isOrchestrator sm (session_context sm sid token org)"
  by (auto simp: session_context_def Let_def split: if_splits)

lemma not_human_session: "\<not> isHuman (session_context sm sid token org)"
  by (simp add: isHuman_def session_context_def Let_def)

lemma resolveAuth_session:
  assumes "role (fst (resolveAuth hmac sm token org dev)) \<in> {roleSession, roleOrchestrator}"
  shows "fst (resolveAuth hmac sm token org dev) =
    session_context sm (SessionForToken sm token) token org"
proof -
  let ?sess = "token \<noteq> [] \<and> SessionForToken sm token \<noteq> []"
  let ?bad = "Remote org \<and> \<not> remoteOriginAllowedLocked sm org"
  have "?sess \<and> \<not> ?bad"
  proof (rule ccontr)
    assume "\<not> (?sess \<and> \<not> ?bad)"
    then consider "?bad" | "\<not> ?bad" "\<not> ?sess" by blast
    then have "role (fst (resolveAuth hmac sm token org dev)) \<in>
        {roleNone, roleLocalHuman, roleRemoteGuest, roleRemoteHuman}"
    proof cases
      case 1
      then show ?thesis by (simp only: resolveAuth_def if_True fst_conv none_context_simps) simp
    next
      case 2
      show ?thesis
        unfolding resolveAuth_def if_not_P [OF 2(1)] if_not_P [OF 2(2)]
        by (simp add: remoteDeviceRole_def split: option.split)
    qed
    with assms show False by auto
  qed
  then have s: "?sess" and b: "\<not> ?bad" by simp_all
  show ?thesis unfolding resolveAuth_def if_not_P [OF b] if_P [OF s] by simp
qed

section \<open>Properties\<close>

text \<open>C3: User authority is granted exactly as designed. A local connection is the user when its
  token is the provisioned user credential (or, without one, when it is empty) and is no session
  token. A remote connection is the user exactly when its origin passes the live policy, it
  presents no session token, it has proven possession for the device its client token resolves to,
  that device's recorded identity matches the connection's, the device was not paired read-only and
  pairing is required.\<close>

theorem resolveAuth_human:
  "isHuman (fst (resolveAuth hmac sm token org dev)) \<longleftrightarrow>
    (token = [] \<or> SessionForToken sm token = []) \<and>
    (if Remote org
     then remoteOriginAllowedLocked sm org \<and> dev \<noteq> [] \<and>
       (\<exists>d cfg. DeviceForToken hmac sm token = Some d \<and> DeviceID d = dev \<and>
          identityMatchesDevice (Identity org) d \<and> remoteCfg sm = Some cfg \<and>
          \<not> ReadOnly d \<and> RequirePairing cfg)
     else token = humanToken sm)"
proof -
  let ?sess = "token \<noteq> [] \<and> SessionForToken sm token \<noteq> []"
  let ?bad = "Remote org \<and> \<not> remoteOriginAllowedLocked sm org"
  consider "?bad" | "\<not> ?bad" "?sess" | "\<not> ?bad" "\<not> ?sess" "\<not> Remote org"
    | "\<not> ?bad" "\<not> ?sess" "Remote org" by blast
  then show ?thesis
  proof cases
    case 1
    then show ?thesis unfolding resolveAuth_def if_P [OF 1] by (simp add: isHuman_def)
  next
    case 2
    show ?thesis
      unfolding resolveAuth_def if_not_P [OF 2(1)] if_P [OF 2(2)]
      using 2(2) not_human_session by simp
  next
    case 3
    show ?thesis
      unfolding resolveAuth_def if_not_P [OF 3(1)] if_not_P [OF 3(2)] if_P [OF 3(3)]
      using 3(2,3) by (auto simp: isHuman_def)
  next
    case 4
    have nr: "\<not> \<not> Remote org" using 4(3) by simp
    show ?thesis
      unfolding resolveAuth_def if_not_P [OF 4(1)] if_not_P [OF 4(2)] if_not_P [OF nr]
      using 4 by (auto simp: isHuman_def remoteDeviceRole_def split: option.split)
  qed
qed

text \<open>C4: Every control frame a remote connection gets admitted came through an origin the live
  configuration allows and is permitted by the message's policy for the caller's role: never a
  local-only message, before pairing only the pairing lane, for a read-only guest only
  observation, for a paired user no session-only message.\<close>

theorem admit_control_remote:
  assumes "admit_control hmac sm org dev msgType token = Admitted ac" and "Remote org"
  shows "remoteOriginAllowedLocked sm org \<and>
    message_policy msgType \<noteq> remoteDenied \<and> role ac \<noteq> roleLocalHuman \<and>
    (role ac = roleNone \<longrightarrow> message_policy msgType = remotePreAuth) \<and>
    (role ac = roleRemoteGuest \<longrightarrow> message_policy msgType \<in> {remotePreAuth, remoteReadOnly}) \<and>
    (role ac = roleRemoteHuman \<longrightarrow> message_policy msgType \<noteq> remoteSessionOnly)"
proof -
  have allowed: "remoteOriginAllowedLocked sm org" and gate: "remoteAllowed (role ac) msgType"
    using assms by (auto simp: admit_control_def remoteOriginAllowed_def
        split: if_splits option.splits prod.splits)
  from gate have "message_policy msgType \<noteq> remoteDenied" and "role ac \<noteq> roleLocalHuman"
    and "role ac = roleNone \<Longrightarrow> message_policy msgType = remotePreAuth"
    and "role ac = roleRemoteGuest \<Longrightarrow> message_policy msgType \<in> {remotePreAuth, remoteReadOnly}"
    and "role ac = roleRemoteHuman \<Longrightarrow> message_policy msgType \<noteq> remoteSessionOnly"
    by (auto simp: remoteAllowed_def Let_def split: authRole.splits)
  with allowed show ?thesis by blast
qed

definition example_origin :: ConnOrigin where
  "example_origin =
    \<lparr>Remote = True, Identity = Some \<lparr>User = ''ann'', Node = ''n1'', Tags = []\<rparr>, RemoteGeneration = 0,
     RemoteTLSPin = ''pin''\<rparr>"

definition example_manager :: SessionManager where
  "example_manager =
    \<lparr>Sessions =
       [(''orch'', \<lparr>Name = ''orchestrator'', ParentID = [], SystemKind = SystemKindOrchestrator,
           Status = StatusRunning, Token = ''to'', DeletedAt = None, Starred = False, Labels = []\<rparr>),
        (''a'', \<lparr>Name = ''a'', ParentID = ''orch'', SystemKind = [], Status = StatusRunning,
           Token = ''ta'', DeletedAt = None, Starred = False, Labels = []\<rparr>),
        (''b'', \<lparr>Name = ''b'', ParentID = ''a'', SystemKind = [], Status = StatusRunning,
           Token = ''tb'', DeletedAt = None, Starred = False, Labels = []\<rparr>)],
     Scenarios = [], tokenIndex = [(''to'', ''orch''), (''ta'', ''a''), (''tb'', ''b'')],
     humanToken = ''human'',
     remoteCfg = Some \<lparr>Enabled = True, AllowTailnetUsers = [''ann''], RequirePairing = True\<rparr>,
     remoteGeneration = 1, PairedDevices = [], deviceTokenIndex = [], PairingHMACKey = []\<rparr>"

definition example_session_context :: authContext where
  "example_session_context =
    \<lparr>role = roleSession, sessionID = ''a'', sessionToken = ''k'', deviceID = [], authenticated = True,
     origin = example_origin\<rparr>"

lemma example_manager_forest: "session_forest (Sessions example_manager)"
proof -
  have "parent_rel (Sessions example_manager) \<subseteq> measure (\<lambda>i. if i = ''orch'' then 2 else if i = ''a'' then 1 else 0)"
    by (auto simp: parent_rel_def example_manager_def split: if_splits)
  then show ?thesis
    unfolding session_forest_def by (meson acyclic_subset wf_acyclic wf_measure)
qed

theorem admit_control_remote_witness:
  "message_policy ''list'' \<noteq> remoteDenied \<and> remoteOriginAllowedLocked example_manager example_origin"
proof -
  have "admit_control (\<lambda>k t. t) example_manager example_origin [] ''list'' ''ta''
      = Admitted (session_context example_manager ''a'' ''ta'' example_origin)"
    by code_simp
  moreover have "Remote example_origin" by (simp add: example_origin_def)
  ultimately show ?thesis
    using admit_control_remote [of "\<lambda>k t. t" example_manager example_origin "[]" "''list''" "''ta''"]
    by blast
qed

text \<open>C21: An agent session that is not the orchestrator may target a session under the
  self-or-descendant rule exactly when the target is itself or one of its transitive children.\<close>

theorem checkTarget_self_or_descendant:
  assumes "authenticated ac" and "\<not> isOrchestrator sm ac"
  shows "checkTarget sm ac t authSelfOrDescendant = None
    \<longleftrightarrow> (t, sessionID ac) \<in> (parent_rel (Sessions sm))\<^sup>*"
  using assms by (auto simp: checkTarget_def isDescendantOf_iff)

theorem checkTarget_self_or_descendant_witness:
  "(''b'', ''a'') \<in> (parent_rel (Sessions example_manager))\<^sup>*"
proof -
  let ?ac = "session_context example_manager ''a'' ''ta'' example_origin"
  have "checkTarget example_manager ?ac ''b'' authSelfOrDescendant = None" by code_simp
  moreover have "\<not> isOrchestrator example_manager ?ac" by code_simp
  moreover have "authenticated ?ac" by simp
  ultimately show ?thesis
    using checkTarget_self_or_descendant [of ?ac example_manager "''b''"] by simp
qed

text \<open>A request that resolves to a plain agent session is refused the user-facing and
  quarantine-releasing operations: notifications, jail release and orchestrator attention, whether
  it requests or clears it.\<close>

theorem plain_session_not_privileged:
  assumes "role (fst (resolveAuth hmac sm token org dev)) = roleSession"
  shows "checkNotifyOp sm (fst (resolveAuth hmac sm token org dev)) = Some NotAuthorizedNotify \<and>
    checkJailRelease sm (fst (resolveAuth hmac sm token org dev)) = Some NotAuthorizedJailRelease \<and>
    checkOrchestratorAttentionOp sm (fst (resolveAuth hmac sm token org dev)) clear \<noteq> None"
proof -
  let ?ac = "fst (resolveAuth hmac sm token org dev)"
  have "\<not> isOrchestrator sm ?ac"
    using assms resolveAuth_session [of hmac sm token org dev] session_context_plain by auto
  moreover have "\<not> isHuman ?ac" using assms by (simp add: isHuman_def)
  ultimately show ?thesis
    by (simp add: checkNotifyOp_def checkJailRelease_def checkOrchestratorAttentionOp_def)
qed

theorem plain_session_not_privileged_witness:
  "checkJailRelease example_manager (fst (resolveAuth (\<lambda>k t. t) example_manager ''ta'' example_origin []))
    = Some NotAuthorizedJailRelease"
proof -
  have "role (fst (resolveAuth (\<lambda>k t. t) example_manager ''ta'' example_origin [])) = roleSession"
    by code_simp
  then show ?thesis using plain_session_not_privileged by blast
qed

end
