(* ===== verification/Session_Labels.thy ===== *)
theory Session_Labels
  imports Go_Strings
begin

text \<open>
  The labels of a session (\<^verbatim>\<open>internal/sessionlabel/label.go\<close>): bounded sets of short texts under
  case-insensitive identity that keep the spelling first given. \<open>cf\<close> is the simple Unicode case folding
  of a text; \<^verbatim>\<open>strings.EqualFold\<close> compares two texts by it.
\<close>

definition MaxBytes :: nat where "MaxBytes = 64"
definition MaxPerSession :: nat where "MaxPerSession = 32"

datatype label_error =
    LabelEmpty
  | LabelTooLong string
  | LabelComma string
  | LabelControl string
  | TooManyLabels
  | LabelBoth string
  | InvalidExisting label_error

definition Equal :: "(string \<Rightarrow> string) \<Rightarrow> string \<Rightarrow> string \<Rightarrow> bool" where
  "Equal cf a b \<longleftrightarrow> cf a = cf b"

definition Contains :: "(string \<Rightarrow> string) \<Rightarrow> string list \<Rightarrow> string \<Rightarrow> bool" where
  "Contains cf labels candidate \<longleftrightarrow> list_ex (\<lambda>label. Equal cf label candidate) labels"

definition ContainsAll :: "(string \<Rightarrow> string) \<Rightarrow> string list \<Rightarrow> string list \<Rightarrow> bool" where
  "ContainsAll cf labels requested \<longleftrightarrow> list_all (Contains cf labels) requested"

text \<open>\<^verbatim>\<open>unicode.IsControl\<close> of one encoded rune (U+0000 to U+001F and U+007F to U+009F), and the loop over
  the runes of a text; a byte that starts no rune decodes to U+FFFD, which is no control character.\<close>

definition is_control :: "string \<Rightarrow> bool" where
  "is_control r \<longleftrightarrow>
    (case r of
       [b] \<Rightarrow> byte_val b < 32 \<or> byte_val b = 127
     | [a, b] \<Rightarrow> byte_val a = 194 \<and> byte_val b < 160
     | _ \<Rightarrow> False)"

function any_control :: "string \<Rightarrow> bool" where
  "any_control s =
    (if s = [] then False
     else is_control (take (rune_size s) s) \<or> any_control (drop (rune_size s) s))"
  by pat_completeness auto
termination
  by (relation "measure length") (simp_all add: rune_size_pos diff_less)

declare any_control.simps [simp del]

definition normalizeOne :: "string \<Rightarrow> (label_error, string) result" where
  "normalizeOne raw =
    (let label = trim_space raw
     in fail_when (label = []) LabelEmpty
          (fail_when (MaxBytes < length label) (LabelTooLong label)
            (fail_when (CHR '','' \<in> set label) (LabelComma label)
              (fail_when (any_control label) (LabelControl label) (Inr label)))))"

definition add_label :: "(string \<Rightarrow> string) \<Rightarrow> string \<Rightarrow> string list \<Rightarrow> (label_error, string list) result" where
  "add_label cf label res =
    (if Contains cf res label then Inr res
     else if length res = MaxPerSession then Inl TooManyLabels
     else Inr (res @ [label]))"

definition Normalize :: "(string \<Rightarrow> string) \<Rightarrow> string list \<Rightarrow> (label_error, string list) result" where
  "Normalize cf labels =
    rfold (\<lambda>raw res. rbind (normalizeOne raw) (\<lambda>label. add_label cf label res)) labels []"

definition Apply ::
  "(string \<Rightarrow> string) \<Rightarrow> string list \<Rightarrow> string list \<Rightarrow> string list \<Rightarrow> (label_error, string list) result" where
  "Apply cf existing add remove =
    (case Normalize cf existing of
       Inl e \<Rightarrow> Inl (InvalidExisting e)
     | Inr current \<Rightarrow>
         rbind (Normalize cf add) (\<lambda>adds.
         rbind (Normalize cf remove) (\<lambda>removes.
           case find (Contains cf removes) adds of
             Some label \<Rightarrow> Inl (LabelBoth label)
           | None \<Rightarrow>
               rfold (add_label cf) adds (filter (\<lambda>label. \<not> Contains cf removes label) current))))"

section \<open>Label sets\<close>

definition labels_ok :: "(string \<Rightarrow> string) \<Rightarrow> string list \<Rightarrow> bool" where
  "labels_ok cf ls \<longleftrightarrow>
    length ls \<le> MaxPerSession \<and> distinct (map cf ls) \<and> list_all (\<lambda>l. normalizeOne l = Inr l) ls"

definition identities :: "(string \<Rightarrow> string) \<Rightarrow> string list \<Rightarrow> string set" where
  "identities cf raws = cf ` trim_space ` set raws"

lemma Contains_iff: "Contains cf ls l \<longleftrightarrow> cf l \<in> cf ` set ls"
  by (auto simp: Contains_def Equal_def list_ex_iff image_iff eq_commute)

lemma add_label_eqs:
  "Contains cf res l \<Longrightarrow> add_label cf l res = Inr res"
  "\<not> Contains cf res l \<Longrightarrow> length res = MaxPerSession \<Longrightarrow> add_label cf l res = Inl TooManyLabels"
  "\<not> Contains cf res l \<Longrightarrow> length res \<noteq> MaxPerSession \<Longrightarrow> add_label cf l res = Inr (res @ [l])"
  by (simp_all add: add_label_def)

lemma normalizeOne_trims: "normalizeOne raw = Inr l \<Longrightarrow> l = trim_space raw \<and> normalizeOne l = Inr l"
  by (auto simp: normalizeOne_def Let_def fail_when_Inr trim_space_idem)

lemma normalized_trim: "normalizeOne l = Inr l \<Longrightarrow> trim_space l = l"
  using normalizeOne_trims by fastforce

lemma identities_ok: "labels_ok cf ls \<Longrightarrow> identities cf ls = cf ` set ls"
  by (force simp: labels_ok_def identities_def list_all_iff image_iff normalized_trim)

text \<open>Adding labels one by one to a well-formed set succeeds exactly when the identities fit.\<close>

definition fits :: "(string \<Rightarrow> string) \<Rightarrow> string list \<Rightarrow> bool" where
  "fits cf res \<longleftrightarrow> length res \<le> MaxPerSession \<and> distinct (map cf res)"

lemma card_fits: "fits cf res \<Longrightarrow> card (cf ` set res) = length res"
  using distinct_card [of "map cf res"] by (simp add: fits_def)

lemma add_labels_Inr:
  "fits cf res \<Longrightarrow> rfold (add_label cf) ls res = Inr r \<Longrightarrow>
    fits cf r \<and> cf ` set r = cf ` set res \<union> cf ` set ls \<and> prefix res r \<and> set r \<subseteq> set res \<union> set ls"
proof (induction ls arbitrary: res)
  case (Cons l ls)
  show ?case
  proof (cases "Contains cf res l")
    case True
    then have "rfold (add_label cf) ls res = Inr r" using Cons.prems by (simp add: add_label_eqs)
    from Cons.IH [OF Cons.prems(1) this] True show ?thesis by (auto simp: Contains_iff)
  next
    case False
    then have "length res \<noteq> MaxPerSession" using Cons.prems by (auto simp: add_label_eqs)
    moreover from this have "rfold (add_label cf) ls (res @ [l]) = Inr r"
      using Cons.prems False by (simp add: add_label_eqs)
    moreover have "fits cf (res @ [l])"
      using Cons.prems(1) False calculation(1) by (simp add: fits_def Contains_iff)
    ultimately show ?thesis using Cons.IH [of "res @ [l]"] by (auto dest: append_prefixD)
  qed
qed simp

lemma add_labels_iff:
  "fits cf res \<Longrightarrow> (\<exists>r. rfold (add_label cf) ls res = Inr r) \<longleftrightarrow>
    card (cf ` set res \<union> cf ` set ls) \<le> MaxPerSession"
proof (induction ls arbitrary: res)
  case Nil
  then show ?case by (simp add: card_fits) (simp add: fits_def)
next
  case (Cons l ls)
  consider (old) "Contains cf res l" | (full) "\<not> Contains cf res l" "length res = MaxPerSession"
    | (new) "\<not> Contains cf res l" "length res \<noteq> MaxPerSession" by blast
  then show ?case
  proof cases
    case old
    then have "cf ` set res \<union> cf ` set (l # ls) = cf ` set res \<union> cf ` set ls"
      by (auto simp: Contains_iff)
    with old Cons show ?thesis by (simp add: add_label_eqs)
  next
    case full
    have "card (insert (cf l) (cf ` set res)) \<le> card (cf ` set res \<union> cf ` set (l # ls))"
      by (rule card_mono) auto
    then have "MaxPerSession < card (cf ` set res \<union> cf ` set (l # ls))"
      using full card_fits [OF Cons.prems] by (simp add: Contains_iff)
    with full show ?thesis by (simp add: add_label_eqs)
  next
    case new
    then have "fits cf (res @ [l])" using Cons.prems by (simp add: fits_def Contains_iff)
    moreover have "cf ` set (res @ [l]) \<union> cf ` set ls = cf ` set res \<union> cf ` set (l # ls)" by auto
    ultimately show ?thesis using Cons.IH [of "res @ [l]"] new by (simp add: add_label_eqs)
  qed
qed

definition valid_label :: "string \<Rightarrow> bool" where
  "valid_label raw \<longleftrightarrow> normalizeOne raw = Inr (trim_space raw)"

lemma valid_label_iff: "valid_label raw \<longleftrightarrow> (\<exists>l. normalizeOne raw = Inr l)"
  by (auto simp: valid_label_def dest: normalizeOne_trims)

lemma valid_label_trim: "valid_label raw \<Longrightarrow> normalizeOne (trim_space raw) = Inr (trim_space raw)"
  by (auto simp: valid_label_def dest: normalizeOne_trims)

lemma Normalize_loop_iff:
  "rfold (\<lambda>raw res. rbind (normalizeOne raw) (\<lambda>label. add_label cf label res)) raws res = Inr r \<longleftrightarrow>
    list_all valid_label raws \<and> rfold (add_label cf) (map trim_space raws) res = Inr r"
proof (induction raws arbitrary: res)
  case (Cons raw raws)
  show ?case
  proof (cases "valid_label raw")
    case True
    then show ?thesis using Cons.IH by (auto simp: valid_label_def rbind_Inr)
  next
    case False
    then show ?thesis by (auto simp: valid_label_iff rbind_Inr)
  qed
qed simp

lemma Normalize_iff:
  "Normalize cf raws = Inr r \<longleftrightarrow>
    list_all valid_label raws \<and> rfold (add_label cf) (map trim_space raws) [] = Inr r"
  by (simp add: Normalize_def Normalize_loop_iff)

lemma fits_Nil [simp]: "fits cf []"
  by (simp add: fits_def)

lemma Normalize_Inr:
  assumes "Normalize cf raws = Inr r"
  shows "labels_ok cf r \<and> cf ` set r = identities cf raws"
proof -
  from assms have v: "list_all valid_label raws" and "rfold (add_label cf) (map trim_space raws) [] = Inr r"
    by (simp_all add: Normalize_iff)
  from add_labels_Inr [OF fits_Nil this(2)] have r: "fits cf r" "cf ` set r = identities cf raws" "set r \<subseteq> trim_space ` set raws"
    by (simp_all add: identities_def)
  moreover have "list_all (\<lambda>l. normalizeOne l = Inr l) r"
    using v r(3) by (auto simp: list_all_iff valid_label_trim)
  ultimately show ?thesis by (simp add: labels_ok_def fits_def)
qed

lemma Normalize_succeeds:
  "(\<exists>r. Normalize cf raws = Inr r) \<longleftrightarrow> list_all valid_label raws \<and> card (identities cf raws) \<le> MaxPerSession"
  using add_labels_iff [of cf "[]" "map trim_space raws"]
  by (auto simp: Normalize_iff identities_def)

lemma add_distinct: "fits cf (res @ ls) \<Longrightarrow> rfold (add_label cf) ls res = Inr (res @ ls)"
proof (induction ls arbitrary: res)
  case (Cons l ls)
  then have "\<not> Contains cf res l" "length res \<noteq> MaxPerSession" by (auto simp: fits_def Contains_iff)
  then show ?case using Cons.IH [of "res @ [l]"] Cons.prems by (simp add: add_label_eqs)
qed simp

lemma Normalize_id: "labels_ok cf ls \<Longrightarrow> Normalize cf ls = Inr ls"
proof -
  assume ok: "labels_ok cf ls"
  then have "map trim_space ls = ls" "list_all valid_label ls"
    by (auto simp: labels_ok_def list_all_iff normalized_trim valid_label_def intro!: map_idI)
  moreover have "fits cf ([] @ ls)" using ok by (simp add: labels_ok_def fits_def)
  ultimately show ?thesis using add_distinct [of cf "[]" ls] by (simp add: Normalize_iff)
qed



lemma filter_labels:
  assumes "labels_ok cf ls"
  shows "fits cf (filter P ls) \<and> list_all (\<lambda>l. normalizeOne l = Inr l) (filter P ls)"
  using assms by (auto simp: labels_ok_def fits_def list_all_iff distinct_map_filter
      intro: order.trans [OF length_filter_le])

lemma kept_identities:
  "cf ` set (filter (\<lambda>l. \<not> Contains cf removes l) ls) = cf ` set ls - cf ` set removes"
  by (auto simp: Contains_iff)

lemma Apply_labels_ok:
  assumes "Apply cf existing add remove = Inr r" "labels_ok cf existing"
  shows "labels_ok cf r"
proof -
  from assms(1) obtain as rs where n: "Normalize cf add = Inr as" "Normalize cf remove = Inr rs"
    and r: "rfold (add_label cf) as (filter (\<lambda>l. \<not> Contains cf rs l) existing) = Inr r"
    by (auto simp: Apply_def Normalize_id [OF assms(2)] rbind_Inr split: option.splits)
  note kept = filter_labels [OF assms(2), of "\<lambda>l. \<not> Contains cf rs l"]
  from add_labels_Inr [OF conjunct1 [OF kept] r] kept Normalize_Inr [OF n(1)] show ?thesis
    by (auto simp: labels_ok_def fits_def list_all_iff)
qed

text \<open>C33: a label update is exact. On a well-formed set it succeeds precisely when every label named is valid,
  none is both added and removed, and neither the lists nor the outcome exceed 32 identities; the
  outcome is then a well-formed set whose identities are the old ones without the removed ones and
  with the added ones, in which the labels that stay keep their spelling and come first.\<close>

theorem Apply_exact:
  assumes "labels_ok cf existing"
  shows "((\<exists>r. Apply cf existing add remove = Inr r) \<longleftrightarrow>
      list_all valid_label add \<and> list_all valid_label remove \<and>
      card (identities cf add) \<le> MaxPerSession \<and> card (identities cf remove) \<le> MaxPerSession \<and>
      identities cf add \<inter> identities cf remove = {} \<and>
      card (cf ` set existing - identities cf remove \<union> identities cf add) \<le> MaxPerSession) \<and>
    (\<forall>r. Apply cf existing add remove = Inr r \<longrightarrow>
      labels_ok cf r \<and> cf ` set r = cf ` set existing - identities cf remove \<union> identities cf add \<and>
      prefix (filter (\<lambda>l. cf l \<notin> identities cf remove) existing) r)"
proof (cases "(\<exists>as. Normalize cf add = Inr as) \<and> (\<exists>rs. Normalize cf remove = Inr rs)")
  case False
  then have "\<not> (\<exists>r. Apply cf existing add remove = Inr r)"
    by (auto simp: Apply_def Normalize_id [OF assms] rbind_Inr)
  with False show ?thesis unfolding Normalize_succeeds by blast
next
  case True
  then obtain as rs where n: "Normalize cf add = Inr as" "Normalize cf remove = Inr rs" by blast
  then have as: "labels_ok cf as" "cf ` set as = identities cf add"
    and rs: "cf ` set rs = identities cf remove" using Normalize_Inr by blast+
  let ?kept = "filter (\<lambda>l. \<not> Contains cf rs l) existing"
  have kept: "fits cf ?kept" "list_all (\<lambda>l. normalizeOne l = Inr l) ?kept"
    using filter_labels [OF assms, of "\<lambda>l. \<not> Contains cf rs l"] by simp_all
  have ids: "cf ` set ?kept \<union> cf ` set as = cf ` set existing - identities cf remove \<union> identities cf add"
    unfolding kept_identities rs as(2) ..
  have disj: "find (Contains cf rs) as = None \<longleftrightarrow> identities cf add \<inter> identities cf remove = {}"
    unfolding as(2) [symmetric] rs [symmetric] by (auto simp: find_None_iff Contains_iff)
  have app: "Apply cf existing add remove = Inr r \<longleftrightarrow>
      find (Contains cf rs) as = None \<and> rfold (add_label cf) as ?kept = Inr r" for r
    by (simp add: Apply_def Normalize_id [OF assms] n split: option.split)
  have "list_all valid_label add \<and> card (identities cf add) \<le> MaxPerSession"
    "list_all valid_label remove \<and> card (identities cf remove) \<le> MaxPerSession"
    using True Normalize_succeeds by blast+
  then have "(\<exists>r. Apply cf existing add remove = Inr r) \<longleftrightarrow>
      list_all valid_label add \<and> list_all valid_label remove \<and>
      card (identities cf add) \<le> MaxPerSession \<and> card (identities cf remove) \<le> MaxPerSession \<and>
      identities cf add \<inter> identities cf remove = {} \<and>
      card (cf ` set existing - identities cf remove \<union> identities cf add) \<le> MaxPerSession"
    using add_labels_iff [OF kept(1), of as] unfolding app disj ids by blast
  moreover have "labels_ok cf r \<and> cf ` set r = cf ` set existing - identities cf remove \<union> identities cf add \<and>
      prefix (filter (\<lambda>l. cf l \<notin> identities cf remove) existing) r" if "Apply cf existing add remove = Inr r" for r
  proof -
    from that add_labels_Inr [OF kept(1), of as r] have r: "fits cf r" "prefix ?kept r" "set r \<subseteq> set ?kept \<union> set as"
      "cf ` set r = cf ` set ?kept \<union> cf ` set as" unfolding app by blast+
    have "list_all (\<lambda>l. normalizeOne l = Inr l) r"
      using r(3) kept(2) as(1) by (auto simp: list_all_iff labels_ok_def)
    then show ?thesis using r ids rs by (simp add: labels_ok_def fits_def Contains_iff)
  qed
  ultimately show ?thesis by blast
qed

theorem Apply_exact_witness:
  "Apply (\<lambda>s. s) [''urgent'', ''release''] ['' qa''] [''urgent''] = Inr [''release'', ''qa''] \<and>
   labels_ok (\<lambda>s. s) [''release'', ''qa'']"
proof -
  have r: "Apply (\<lambda>s. s) [''urgent'', ''release''] ['' qa''] [''urgent''] = Inr [''release'', ''qa'']" by code_simp
  moreover have "labels_ok (\<lambda>s. s) [''urgent'', ''release'']" by code_simp
  ultimately show ?thesis using Apply_exact [of "\<lambda>s. s" "[''urgent'', ''release'']" "['' qa'']" "[''urgent'']"] by blast
qed

end
