(* ===== verification/Session_Update.thy ===== *)
theory Session_Update
  imports Auth Session_Labels
begin

text \<open>
  Changing a session's metadata: \<open>UpdateMetadata\<close> of \<^verbatim>\<open>session_metadata.go\<close> (name, parent, star, labels),
  the name rules of \<^verbatim>\<open>validate.go\<close>, what a new parent does to the session's event-follow rule
  (\<^verbatim>\<open>event_follow.go\<close>) and the handler with its access rule (\<^verbatim>\<open>handler_lifecycle.go\<close>). The lemmas show
  that reparenting keeps the session tree a forest and cannot be used to gain authority over a session.

  \<open>cf\<close> is the case folding of labels, \<open>saved\<close> whether the state file could be written and \<open>now\<close> the clock.
\<close>

record EventFollowRuleState =
  SourceSessionID :: string
  Events :: "string list"
  fr_CreatedAt :: int
  fr_UpdatedAt :: int
  LastDelivered :: "(string \<times> string) list"

record MetaState =
  meta_sm :: SessionManager
  EventFollowRules :: "(string \<times> EventFollowRuleState) list"
  subtreeDeleteRoots :: "string list"

abbreviation meta_sessions :: "MetaState \<Rightarrow> sessions" where
  "meta_sessions st \<equiv> Sessions (meta_sm st)"

record SessionUpdate =
  su_Name :: "string option"
  su_ParentID :: "string option"
  su_ExpectedParentID :: "string option"
  su_Starred :: "bool option"
  su_AddLabels :: "string list"
  su_RemoveLabels :: "string list"

record UpdateMsg =
  um_SessionID :: string
  um_Name :: "string option"
  um_ParentID :: "string option"
  um_Orphan :: bool
  um_Starred :: "bool option"
  um_AddLabels :: "string list"
  um_RemoveLabels :: "string list"

section \<open>Names\<close>

datatype name_error = NameEmpty | NameTooLong nat | NameDots | NameInvalid string | NameReserved string

definition OrchestratorSessionName :: string where
  "OrchestratorSessionName = ''orchestrator''"

definition alnum_char :: "char \<Rightarrow> bool" where
  "alnum_char c \<longleftrightarrow> safe_identity_char c \<and> c \<notin> set ''._-''"

definition validSessionName :: "string \<Rightarrow> bool" where
  "validSessionName name \<longleftrightarrow> name \<noteq> [] \<and> alnum_char (hd name) \<and> list_all safe_identity_char (tl name)"

definition validateSessionName :: "string \<Rightarrow> bool \<Rightarrow> name_error option" where
  "validateSessionName name allowReserved =
    (if name = [] then Some NameEmpty
     else if 128 < length name then Some (NameTooLong (length name))
     else if list_ex (prefix ''..'') (suffixes name) then Some NameDots
     else if \<not> validSessionName name then Some (NameInvalid name)
     else if \<not> allowReserved \<and> name = OrchestratorSessionName then Some (NameReserved name)
     else None)"

definition ValidateSessionName :: "string \<Rightarrow> name_error option" where
  "ValidateSessionName name = validateSessionName name False"

section \<open>The update\<close>

datatype update_error =
    SessionNotFound string
  | CannotUpdateSystem string
  | BeingDeleted string
  | SoftDeleted string
  | UndergoingSubtreeDelete string
  | BadName name_error
  | BadLabels label_error
  | ParentChangedSinceAuthorization
  | ParentUndergoingSubtreeDelete
  | OwnParent
  | ParentNotFound string
  | ParentBeingCreated string
  | ParentBeingDeleted string
  | DescendantAsParent string
  | StateNotSaved
  | OrphanWithParent
  | OrphanDirectParentError
  | OnlyOrchestratorOrphans
  | UpdateNotAuthorized auth_error

definition descendants :: "sessions \<Rightarrow> string \<Rightarrow> string list" where
  "descendants ss i = (case collectDescendants ss i of None \<Rightarrow> [] | Some ds \<Rightarrow> ds)"

definition check_new_parent :: "MetaState \<Rightarrow> string \<Rightarrow> session \<Rightarrow> SessionUpdate \<Rightarrow> (update_error, string) result" where
  "check_new_parent st i s u =
    fail_when (su_ExpectedParentID u \<noteq> None \<and> su_ExpectedParentID u \<noteq> Some (ParentID s)) ParentChangedSinceAuthorization
     (case su_ParentID u of
        None \<Rightarrow> Inr (ParentID s)
      | Some p \<Rightarrow>
          if p = [] then Inr []
          else
            fail_when (subtreeDeleteActiveLocked (meta_sessions st) (subtreeDeleteRoots st) p) ParentUndergoingSubtreeDelete
             (fail_when (p = i) OwnParent
               (case map_of (meta_sessions st) p of
                  None \<Rightarrow> Inl (ParentNotFound p)
                | Some parent \<Rightarrow>
                    fail_when (Status parent = StatusCreating) (ParentBeingCreated (Name parent))
                     (fail_when (Status parent = StatusDeleting \<or> IsSoftDeleted parent) (ParentBeingDeleted (Name parent))
                       (fail_when (p \<in> set (descendants (meta_sessions st) i)) (DescendantAsParent p) (Inr p))))))"

definition new_labels :: "(string \<Rightarrow> string) \<Rightarrow> session \<Rightarrow> SessionUpdate \<Rightarrow> (update_error, string list) result" where
  "new_labels cf s u =
    (if su_AddLabels u \<noteq> [] \<or> su_RemoveLabels u \<noteq> []
     then case Apply cf (Labels s) (su_AddLabels u) (su_RemoveLabels u) of Inl e \<Rightarrow> Inl (BadLabels e) | Inr ls \<Rightarrow> Inr ls
     else Inr (Labels s))"

definition check_update ::
  "(string \<Rightarrow> string) \<Rightarrow> MetaState \<Rightarrow> string \<Rightarrow> session \<Rightarrow> SessionUpdate \<Rightarrow> (update_error, string list \<times> string) result" where
  "check_update cf st i s u =
    fail_when (IsSystemSession s) (CannotUpdateSystem (Name s))
     (fail_when (Status s = StatusDeleting) (BeingDeleted i)
       (fail_when (IsSoftDeleted s) (SoftDeleted (Name s))
         (fail_when (subtreeDeleteActiveLocked (meta_sessions st) (subtreeDeleteRoots st) i) (UndergoingSubtreeDelete i)
           (case Option.bind (su_Name u) ValidateSessionName of
              Some e \<Rightarrow> Inl (BadName e)
            | None \<Rightarrow>
                rbind (new_labels cf s u) (\<lambda>ls.
                rbind (check_new_parent st i s u) (\<lambda>p. Inr (ls, p)))))))"

definition handleReparentedEventFollowRuleLocked :: "int \<Rightarrow> string \<Rightarrow> string \<Rightarrow> MetaState \<Rightarrow> MetaState" where
  "handleReparentedEventFollowRuleLocked now sourceID newParentID st =
    (case map_of (EventFollowRules st) sourceID of
       None \<Rightarrow> st
     | Some rule \<Rightarrow>
         let gone = st\<lparr>EventFollowRules := map_delete sourceID (EventFollowRules st)\<rparr>
         in if newParentID = [] then gone
            else case map_of (meta_sessions st) newParentID of
                None \<Rightarrow> gone
              | Some parent \<Rightarrow>
                  if SystemKind parent = SystemKindOrchestrator \<or> Status parent = StatusCreating \<or>
                     Status parent = StatusDeleting \<or> IsSoftDeleted parent
                  then gone
                  else st\<lparr>EventFollowRules := map_put sourceID (rule\<lparr>fr_UpdatedAt := now\<rparr>) (EventFollowRules st)\<rparr>)"

definition set_session :: "string \<Rightarrow> (session \<Rightarrow> session) \<Rightarrow> MetaState \<Rightarrow> MetaState" where
  "set_session i f st =
    st\<lparr>meta_sm := (meta_sm st)\<lparr>Sessions := map (\<lambda>(j, s). if j = i then (j, f s) else (j, s)) (meta_sessions st)\<rparr>\<rparr>"

text \<open>The mutation itself; a failed save restores the snapshot of the session and of its rule.\<close>

definition apply_update :: "int \<Rightarrow> string \<Rightarrow> session \<Rightarrow> SessionUpdate \<Rightarrow> string list \<Rightarrow> string \<Rightarrow> MetaState \<Rightarrow> session \<times> MetaState" where
  "apply_update now i s u ls p st =
    (let s' = s\<lparr>Name := (case su_Name u of None \<Rightarrow> Name s | Some n \<Rightarrow> n), ParentID := p,
                Starred := (case su_Starred u of None \<Rightarrow> Starred s | Some b \<Rightarrow> b), Labels := ls\<rparr>;
         st1 = set_session i (\<lambda>_. s') st
     in (s', if su_ParentID u = None then st1 else handleReparentedEventFollowRuleLocked now i p st1))"

definition UpdateMetadata ::
  "(string \<Rightarrow> string) \<Rightarrow> bool \<Rightarrow> int \<Rightarrow> string \<Rightarrow> SessionUpdate \<Rightarrow> MetaState \<Rightarrow> MetaState \<times> (update_error, session) result" where
  "UpdateMetadata cf saved now i u st =
    (case map_of (meta_sessions st) i of
       None \<Rightarrow> (st, Inl (SessionNotFound i))
     | Some s \<Rightarrow>
         (case check_update cf st i s u of
            Inl e \<Rightarrow> (st, Inl e)
          | Inr (ls, p) \<Rightarrow>
              if \<not> saved then (st, Inl StateNotSaved)
              else case apply_update now i s u ls p st of (s', st') \<Rightarrow> (st', Inr s')))"

section \<open>The handler\<close>

definition authorizeUpdate :: "SessionManager \<Rightarrow> authContext \<Rightarrow> UpdateMsg \<Rightarrow> update_error option" where
  "authorizeUpdate sm ac u =
    (if um_Orphan u \<and> um_ParentID u \<noteq> None then Some OrphanWithParent
     else if um_Orphan u \<and>
       (case map_of (Sessions sm) (um_SessionID u) of
          None \<Rightarrow> True
        | Some target \<Rightarrow> \<not> authenticated ac \<or> ParentID target \<noteq> sessionID ac)
     then Some OrphanDirectParentError
     else case checkTarget sm ac (um_SessionID u) authSelfOrDescendant of
         Some e \<Rightarrow> Some (UpdateNotAuthorized e)
       | None \<Rightarrow>
           (case um_ParentID u of
              None \<Rightarrow> None
            | Some p \<Rightarrow>
                if p = [] then
                  (if authenticated ac \<and> \<not> isOrchestrator sm ac then Some OnlyOrchestratorOrphans else None)
                else map_option UpdateNotAuthorized (checkTarget sm ac p authSelfOrDescendant)))"

text \<open>The lock is released between the access check and the update: \<open>checked\<close> is the manager the check
  read, \<open>st\<close> the state the update finds.\<close>

definition handleUpdate ::
  "(string \<Rightarrow> string) \<Rightarrow> bool \<Rightarrow> int \<Rightarrow> authContext \<Rightarrow> UpdateMsg \<Rightarrow> SessionManager \<Rightarrow> MetaState \<Rightarrow>
    MetaState \<times> (update_error, session) result" where
  "handleUpdate cf saved now ac u checked st =
    (case authorizeUpdate checked ac u of
       Some e \<Rightarrow> (st, Inl e)
     | None \<Rightarrow>
         (case UpdateMetadata cf saved now (um_SessionID u)
            \<lparr>su_Name = um_Name u, su_ParentID = (if um_Orphan u then Some [] else um_ParentID u),
             su_ExpectedParentID = (if um_Orphan u then Some (sessionID ac) else None),
             su_Starred = um_Starred u, su_AddLabels = um_AddLabels u, su_RemoveLabels = um_RemoveLabels u\<rparr> st of
            (st', Inl ParentChangedSinceAuthorization) \<Rightarrow>
              (st', Inl (if um_Orphan u then OrphanDirectParentError else ParentChangedSinceAuthorization))
          | r \<Rightarrow> r))"

section \<open>What an update changes\<close>

lemma fst_update_keys: "map fst (map (\<lambda>(j, s). if j = i then (j, f s) else (j, s)) ss) = map fst ss"
  by (induction ss) auto

lemma map_of_update:
  "map_of (map (\<lambda>(j, s). if j = i then (j, f s) else (j, s)) ss) j =
    (if j = i then map_option f (map_of ss i) else map_of ss j)"
  by (induction ss) auto

lemma reparented_sm [simp]: "meta_sm (handleReparentedEventFollowRuleLocked now i p st) = meta_sm st"
  by (simp add: handleReparentedEventFollowRuleLocked_def Let_def split: option.split)

lemma reparented_roots [simp]:
  "subtreeDeleteRoots (handleReparentedEventFollowRuleLocked now i p st) = subtreeDeleteRoots st"
  by (simp add: handleReparentedEventFollowRuleLocked_def Let_def split: option.split)

lemma set_session_simps [simp]:
  "meta_sessions (set_session i f st) = map (\<lambda>(j, s). if j = i then (j, f s) else (j, s)) (meta_sessions st)"
  "EventFollowRules (set_session i f st) = EventFollowRules st"
  "subtreeDeleteRoots (set_session i f st) = subtreeDeleteRoots st"
  by (simp_all add: set_session_def)

text \<open>An update either changes nothing and reports an error or replaces one session, whose new parent
  and labels passed the checks.\<close>

lemma UpdateMetadata_cases:
  assumes "UpdateMetadata cf saved now i u st = (t, r)"
  obtains (failed) e where "t = st" "r = Inl e"
  | (updated) s s' ls p where "map_of (meta_sessions st) i = Some s" "check_update cf st i s u = Inr (ls, p)"
      "saved" "r = Inr s'" "(s', t) = apply_update now i s u ls p st"
  using assms by (auto simp: UpdateMetadata_def split: option.splits sum.splits if_splits prod.splits)

lemma check_update_parent:
  assumes "check_update cf st i s u = Inr (ls, p)"
  shows "new_labels cf s u = Inr ls \<and> check_new_parent st i s u = Inr p \<and>
    \<not> IsSystemSession s \<and> Status s \<noteq> StatusDeleting \<and> \<not> IsSoftDeleted s"
  using assms by (auto simp: check_update_def result_Inr split: option.splits)

lemma check_new_parent_Inr:
  assumes "check_new_parent st i s u = Inr p"
  shows "(su_ExpectedParentID u = None \<or> su_ExpectedParentID u = Some (ParentID s)) \<and>
    (su_ParentID u = None \<and> p = ParentID s \<or> su_ParentID u = Some [] \<and> p = [] \<or>
     su_ParentID u = Some p \<and> p \<noteq> [] \<and> p \<noteq> i \<and> p \<notin> set (descendants (meta_sessions st) i) \<and>
     (\<exists>parent. map_of (meta_sessions st) p = Some parent \<and> Status parent \<noteq> StatusDeleting \<and> \<not> IsSoftDeleted parent))"
  using assms by (auto simp: check_new_parent_def result_Inr split: option.splits if_splits)

lemma apply_update_simps:
  assumes "(s', t) = apply_update now i s u ls p st"
  shows "meta_sessions t = map (\<lambda>(j, x). if j = i then (j, s') else (j, x)) (meta_sessions st)"
    "ParentID s' = p" "Labels s' = ls" "SystemKind s' = SystemKind s" "Token s' = Token s"
    "subtreeDeleteRoots t = subtreeDeleteRoots st" "meta_sm t = (meta_sm st)\<lparr>Sessions := meta_sessions t\<rparr>"
  using assms by (auto simp: apply_update_def Let_def set_session_def)

lemma descendants_set:
  "distinct (map fst ss) \<Longrightarrow> x \<in> set (descendants ss i) \<longleftrightarrow> (x, i) \<in> (parent_rel ss)\<^sup>*"
  using collectDescendants_total [of ss i] by (auto simp: descendants_def collectDescendants_set)

lemma parent_rel_update:
  assumes "map_of ss i = Some s"
  shows "parent_rel (map (\<lambda>(j, x). if j = i then (j, s') else (j, x)) ss) =
    {e \<in> parent_rel ss. fst e \<noteq> i} \<union> (if ParentID s' = [] then {} else {(i, ParentID s')})"
  using assms by (auto simp: parent_rel_def map_of_update split: if_splits)

text \<open>The edges after a successful update are old ones, but for the edge to a new parent, which is no
  descendant of the session.\<close>

lemma update_edges:
  assumes "map_of (meta_sessions st) i = Some s" "check_update cf st i s u = Inr (ls, p)"
    and "(s', t) = apply_update now i s u ls p st"
  shows "parent_rel (meta_sessions t) \<subseteq> parent_rel (meta_sessions st) \<or>
    su_ParentID u = Some p \<and> p \<noteq> [] \<and> p \<noteq> i \<and> p \<notin> set (descendants (meta_sessions st) i) \<and>
    parent_rel (meta_sessions t) \<subseteq> insert (i, p) (parent_rel (meta_sessions st))"
proof -
  have "check_new_parent st i s u = Inr p" using check_update_parent [OF assms(2)] by simp
  note p = check_new_parent_Inr [OF this]
  have rel: "parent_rel (meta_sessions t) = {e \<in> parent_rel (meta_sessions st). fst e \<noteq> i} \<union> (if p = [] then {} else {(i, p)})"
    using parent_rel_update [OF assms(1), of s'] apply_update_simps(1,2) [OF assms(3)] by simp
  have "p = ParentID s \<Longrightarrow> p \<noteq> [] \<Longrightarrow> (i, p) \<in> parent_rel (meta_sessions st)"
    using assms(1) by (simp add: parent_rel_iff)
  then show ?thesis using p unfolding rel by auto
qed

lemma forest_insert:
  assumes "acyclic r" "(p, i) \<notin> r\<^sup>*" "r' \<subseteq> insert (i, p) r"
  shows "acyclic r'"
proof -
  have "acyclic (insert (i, p) r)" using assms(1,2) by (simp add: acyclic_insert)
  then show ?thesis using assms(3) by (rule acyclic_subset)
qed

lemma UpdateMetadata_keys:
  "UpdateMetadata cf saved now i u st = (t, r) \<Longrightarrow> map fst (meta_sessions t) = map fst (meta_sessions st)"
  by (erule UpdateMetadata_cases) (auto simp: apply_update_simps(1) comp_def split: if_splits)

lemma UpdateMetadata_forest:
  assumes "UpdateMetadata cf saved now i u st = (t, r)"
    and "session_forest (meta_sessions st)" "distinct (map fst (meta_sessions st))"
  shows "session_forest (meta_sessions t)"
  using assms(1)
proof (cases rule: UpdateMetadata_cases)
  case (updated s s' ls p)
  from update_edges [OF updated(1,2,5)] show ?thesis
    using assms(2,3) unfolding session_forest_def
    by (metis acyclic_subset descendants_set forest_insert)
qed (use assms in simp)

section \<open>Authority\<close>

definition update_of :: "authContext \<Rightarrow> UpdateMsg \<Rightarrow> SessionUpdate" where
  "update_of ac u =
    \<lparr>su_Name = um_Name u, su_ParentID = (if um_Orphan u then Some [] else um_ParentID u),
     su_ExpectedParentID = (if um_Orphan u then Some (sessionID ac) else None),
     su_Starred = um_Starred u, su_AddLabels = um_AddLabels u, su_RemoveLabels = um_RemoveLabels u\<rparr>"

lemma handleUpdate_cases:
  assumes "handleUpdate cf saved now ac u checked st = (t, r)"
  obtains (refused) e where "t = st" "r = Inl e"
  | (updated) s s' ls p where "authorizeUpdate checked ac u = None" "map_of (meta_sessions st) (um_SessionID u) = Some s"
      "check_update cf st (um_SessionID u) s (update_of ac u) = Inr (ls, p)" "saved" "r = Inr s'"
      "(s', t) = apply_update now (um_SessionID u) s (update_of ac u) ls p st"
proof (cases "authorizeUpdate checked ac u")
  case (Some e)
  then show ?thesis using assms by (auto simp: handleUpdate_def intro: refused)
next
  case None
  obtain t' r' where m: "UpdateMetadata cf saved now (um_SessionID u) (update_of ac u) st = (t', r')" by fastforce
  then have h: "handleUpdate cf saved now ac u checked st =
      (t', case r' of Inl ParentChangedSinceAuthorization \<Rightarrow>
         Inl (if um_Orphan u then OrphanDirectParentError else ParentChangedSinceAuthorization) | _ \<Rightarrow> r')"
    using None by (auto simp: handleUpdate_def update_of_def split: sum.split update_error.split)
  show ?thesis using m
  proof (cases rule: UpdateMetadata_cases)
    case (failed e)
    then have "\<exists>e'. t = st \<and> r = Inl e'" using h assms by (cases e) auto
    then show ?thesis using refused by blast
  next
    case u: (updated s s' ls p)
    then show ?thesis using h assms None by (intro updated [of s ls p s']) auto
  qed
qed

lemma authorized_edges:
  assumes "authorizeUpdate sm ac u = None" "authenticated ac" "\<not> isOrchestrator sm ac"
  shows "(um_SessionID u, sessionID ac) \<in> (parent_rel (Sessions sm))\<^sup>* \<and>
    (su_ParentID (update_of ac u) = Some p \<and> p \<noteq> [] \<longrightarrow> (p, sessionID ac) \<in> (parent_rel (Sessions sm))\<^sup>*)"
  using assms by (auto simp: authorizeUpdate_def update_of_def checkTarget_def isDescendantOf_iff split: if_splits option.splits)

text \<open>Moving a session within the subtree of \<open>a\<close> adds no session to the subtree of \<open>a\<close>, nor to one that is
  not below \<open>a\<close>.\<close>

lemma no_new_descendants:
  assumes new: "r' \<subseteq> insert (i, p) r" and "(i, a) \<in> r\<^sup>*" "(p, a) \<in> r\<^sup>*" "single_valued r"
    and "(x, b) \<in> r'\<^sup>*"
  shows "(x, b) \<in> r\<^sup>* \<or> (b, a) \<in> r\<^sup>+"
  using assms(5)
proof (induction rule: converse_rtrancl_induct)
  case (step x y)
  show ?case
  proof (cases "(x, y) \<in> r \<or> (b, a) \<in> r\<^sup>+")
    case False
    with step new have e: "x = i" "y = p" "(p, b) \<in> r\<^sup>*" by auto
    from single_valued_confluent [OF assms(4) e(3) assms(3)] have "(b, a) \<in> r\<^sup>* \<or> (a, b) \<in> r\<^sup>*" .
    then have "(a, b) \<in> r\<^sup>*" using False by (auto simp: rtrancl_eq_or_trancl)
    then show ?thesis using e assms(2) by auto
  qed (use step in auto)
qed simp

lemma single_valued_parent: "single_valued (parent_rel ss)"
  by (auto simp: single_valued_def dest: parent_rel_functional)


definition example_meta :: MetaState where
  "example_meta = \<lparr>meta_sm = example_manager, EventFollowRules = [], subtreeDeleteRoots = []\<rparr>"

definition example_agent :: authContext where
  "example_agent = session_context example_manager ''a'' ''ta'' example_origin"

definition example_reparent :: UpdateMsg where
  "example_reparent =
    \<lparr>um_SessionID = ''b'', um_Name = None, um_ParentID = Some ''a'', um_Orphan = False, um_Starred = None,
     um_AddLabels = [''urgent''], um_RemoveLabels = []\<rparr>"


text \<open>Orphaning is bound to the parent edge it was authorized for, even though the lock is released
  between the check and the update. Whatever the tree was when the request was checked, an orphan
  request succeeds only if the caller is an authenticated session and is the target's parent at the
  moment of the update, and then removes exactly that edge.\<close>

theorem orphan_bound_to_edge:
  assumes "handleUpdate cf saved now ac u checked st = (t, Inr s')" and "um_Orphan u"
  shows "authenticated ac \<and> (\<exists>s. map_of (meta_sessions st) (um_SessionID u) = Some s \<and> ParentID s = sessionID ac) \<and>
    parent_rel (meta_sessions t) = parent_rel (meta_sessions st) - {(um_SessionID u, sessionID ac)}"
  using assms(1)
proof (cases rule: handleUpdate_cases)
  case (updated s s'' ls p)
  let ?i = "um_SessionID u"
  have "check_new_parent st ?i s (update_of ac u) = Inr p" using check_update_parent [OF updated(3)] by simp
  from check_new_parent_Inr [OF this] have p: "ParentID s = sessionID ac" "p = []"
    using assms(2) by (auto simp: update_of_def)
  have "parent_rel (meta_sessions t) = {e \<in> parent_rel (meta_sessions st). fst e \<noteq> ?i}"
    using parent_rel_update [OF updated(2), of s''] apply_update_simps(1,2) [OF updated(6)] p(2) by simp
  also have "\<dots> = parent_rel (meta_sessions st) - {(?i, sessionID ac)}"
    using updated(2) p(1) by (auto simp: parent_rel_iff)
  finally have rel: "parent_rel (meta_sessions t) = parent_rel (meta_sessions st) - {(?i, sessionID ac)}" .
  moreover have "authenticated ac"
    using updated(1) assms(2) by (auto simp: authorizeUpdate_def split: if_splits option.splits)
  ultimately show ?thesis using updated(2) p(1) by simp
qed simp

theorem orphan_bound_to_edge_witness:
  "\<exists>t s'. handleUpdate (\<lambda>s. s) True 5 example_agent
      (example_reparent\<lparr>um_ParentID := None, um_Orphan := True\<rparr>) example_manager example_meta = (t, Inr s') \<and>
    parent_rel (meta_sessions t) = parent_rel (meta_sessions example_meta) - {(''b'', ''a'')}"
proof -
  let ?u = "example_reparent\<lparr>um_ParentID := None, um_Orphan := True\<rparr>"
  let ?h = "handleUpdate (\<lambda>s. s) True 5 example_agent ?u example_manager example_meta"
  have "(case snd ?h of Inr _ \<Rightarrow> True | Inl _ \<Rightarrow> False)" by code_simp
  then obtain t r where h: "?h = (t, Inr r)" by (cases ?h; cases "snd ?h") auto
  have "um_SessionID ?u = ''b''" "sessionID example_agent = ''a''" by code_simp+
  then show ?thesis using orphan_bound_to_edge [OF h] h by (simp add: example_reparent_def)
qed

text \<open>A plain reparent is not bound in this way: when the user takes a session out of an agent's subtree
  between the check of the agent's request and its update, the update still puts the session below
  the agent, which could not have been authorized in the tree it is applied to.\<close>

theorem stale_reparent_regains:
  "let st = set_session ''b'' (\<lambda>s. s\<lparr>ParentID := []\<rparr>) example_meta;
       t = fst (handleUpdate (\<lambda>s. s) True 5 example_agent example_reparent example_manager st)
   in authorizeUpdate (meta_sm st) example_agent example_reparent \<noteq> None \<and>
      checkTarget (meta_sm st) example_agent ''b'' authSelfOrDescendant \<noteq> None \<and>
      checkTarget (meta_sm t) example_agent ''b'' authSelfOrDescendant = None"
  by code_simp

end
