(* ===== verification/Crash_Runs.thy ===== *)
theory Crash_Runs
  imports Prelude
begin

text \<open>
  Programs whose effects survive a crash. A \<open>run\<close> executes atomic actions (a critical section under the
  manager's lock, one file operation, one signal) and collects the state after each of them: these are
  the states a crash of the daemon can leave behind. \<open>wp\<close> is the weakest precondition under which every
  state visited satisfies \<open>S\<close> and the final value and state satisfy \<open>Q\<close>; its equations are in the
  collection \<open>wp_rules\<close>, so that the lemmas about a program are obtained by simplification.
\<close>

named_theorems wp_rules \<open>weakest preconditions of programs\<close>

type_synonym ('s, 'a) run = "'s \<Rightarrow> 's list \<times> 's \<times> 'a"

definition ret :: "'a \<Rightarrow> ('s, 'a) run" where
  "ret a w = ([], w, a)"

definition act :: "('s \<Rightarrow> 's \<times> 'a) \<Rightarrow> ('s, 'a) run" where
  "act f w = (case f w of (w', a) \<Rightarrow> ([w'], w', a))"

definition seq :: "('s, 'a) run \<Rightarrow> ('a \<Rightarrow> ('s, 'b) run) \<Rightarrow> ('s, 'b) run" where
  "seq m k w = (case m w of (t, w1, a) \<Rightarrow> case k a w1 of (t', w2, b) \<Rightarrow> (t @ t', w2, b))"

definition visited :: "('s, 'a) run \<Rightarrow> 's \<Rightarrow> 's list" where
  "visited m w = w # fst (m w)"

definition final :: "('s, 'a) run \<Rightarrow> 's \<Rightarrow> 's" where
  "final m w = fst (snd (m w))"

definition outcome :: "('s, 'a) run \<Rightarrow> 's \<Rightarrow> 'a" where
  "outcome m w = snd (snd (m w))"

definition wp :: "('s \<Rightarrow> bool) \<Rightarrow> ('s, 'a) run \<Rightarrow> ('a \<Rightarrow> 's \<Rightarrow> bool) \<Rightarrow> 's \<Rightarrow> bool" where
  "wp S m Q w \<longleftrightarrow> (\<forall>v \<in> set (fst (m w)). S v) \<and> Q (outcome m w) (final m w)"

lemma wp_ret [wp_rules]: "wp S (ret a) Q = Q a"
  by (simp add: wp_def ret_def outcome_def final_def fun_eq_iff)

lemma wp_act [wp_rules]: "wp S (act f) Q = (\<lambda>w. S (fst (f w)) \<and> Q (snd (f w)) (fst (f w)))"
  by (simp add: wp_def act_def outcome_def final_def fun_eq_iff split: prod.split)

lemma wp_seq [wp_rules]: "wp S (seq m k) Q = wp S m (\<lambda>a. wp S (k a) Q)"
  by (auto simp: wp_def seq_def outcome_def final_def fun_eq_iff split: prod.split)

lemma wp_if [wp_rules]:
  "wp S (if b then m else n) Q = (\<lambda>w. (b \<longrightarrow> wp S m Q w) \<and> (\<not> b \<longrightarrow> wp S n Q w))"
  by (simp add: fun_eq_iff)

lemma wp_sum [wp_rules]:
  "wp S (case r of Inl e \<Rightarrow> m e | Inr x \<Rightarrow> n x) Q =
    (\<lambda>w. (\<forall>e. r = Inl e \<longrightarrow> wp S (m e) Q w) \<and> (\<forall>x. r = Inr x \<longrightarrow> wp S (n x) Q w))"
  by (cases r) (simp_all add: fun_eq_iff)

lemma wp_option [wp_rules]:
  "wp S (case r of None \<Rightarrow> m | Some x \<Rightarrow> n x) Q =
    (\<lambda>w. (r = None \<longrightarrow> wp S m Q w) \<and> (\<forall>x. r = Some x \<longrightarrow> wp S (n x) Q w))"
  by (cases r) (simp_all add: fun_eq_iff)

lemma wp_mono:
  assumes "wp S m Q w" and "\<And>v. S v \<Longrightarrow> S' v" and "\<And>a v. Q a v \<Longrightarrow> Q' a v"
  shows "wp S' m Q' w"
  using assms by (auto simp: wp_def)

lemma wp_conj: "wp S m Q w \<Longrightarrow> wp S' m Q' w \<Longrightarrow> wp (\<lambda>v. S v \<and> S' v) m (\<lambda>a v. Q a v \<and> Q' a v) w"
  by (auto simp: wp_def)

lemma wp_visited: "wp S m Q w \<Longrightarrow> S w \<Longrightarrow> v \<in> set (visited m w) \<Longrightarrow> S v"
  by (auto simp: wp_def visited_def)

lemma wp_final: "wp S m Q w \<Longrightarrow> Q (outcome m w) (final m w)"
  by (simp add: wp_def)

text \<open>A loop over a list, one iteration after the other.\<close>

primrec each :: "('x \<Rightarrow> ('s, 'a) run) \<Rightarrow> 'x list \<Rightarrow> ('s, 'a list) run" where
  "each f [] = ret []"
| "each f (x # xs) = seq (f x) (\<lambda>a. seq (each f xs) (\<lambda>as. ret (a # as)))"

lemma wp_each:
  assumes "I w" and "\<And>x w. x \<in> set xs \<Longrightarrow> I w \<Longrightarrow> wp S (f x) (\<lambda>_. I) w"
  shows "wp S (each f xs) (\<lambda>_. I) w"
  using assms
proof (induction xs arbitrary: w)
  case (Cons x xs)
  have "wp S (f x) (\<lambda>_. I) w" using Cons.prems by simp
  then have "wp S (f x) (\<lambda>a v. wp S (each f xs) (\<lambda>_. I) v) w"
    by (rule wp_mono) (use Cons in auto)
  then show ?case by (simp add: wp_rules)
qed (simp add: wp_rules)

lemma wp_each_rest:
  assumes "I xs w" and "\<And>x xs w. I (x # xs) w \<Longrightarrow> wp S (f x) (\<lambda>_. I xs) w"
  shows "wp S (each f xs) (\<lambda>_. I []) w"
  using assms(1)
proof (induction xs arbitrary: w)
  case (Cons x xs)
  have "wp S (f x) (\<lambda>a v. wp S (each f xs) (\<lambda>_. I []) v) w"
    by (rule wp_mono [OF assms(2) [OF Cons.prems]]) (use Cons.IH in auto)
  then show ?case by (simp add: wp_rules)
qed (simp add: wp_rules)

text \<open>A loop that threads local variables.\<close>

primrec thread :: "('x \<Rightarrow> 'b \<Rightarrow> ('s, 'b) run) \<Rightarrow> 'x list \<Rightarrow> 'b \<Rightarrow> ('s, 'b) run" where
  "thread f [] b = ret b"
| "thread f (x # xs) b = seq (f x b) (thread f xs)"

lemma wp_thread:
  assumes "I xs b w" and "\<And>x xs b w. I (x # xs) b w \<Longrightarrow> wp S (f x b) (I xs) w"
  shows "wp S (thread f xs b) (I []) w"
  using assms(1)
proof (induction xs arbitrary: b w)
  case (Cons x xs)
  have "wp S (f x b) (\<lambda>b v. wp S (thread f xs b) (I []) v) w"
    by (rule wp_mono [OF assms(2) [OF Cons.prems]]) (use Cons.IH in auto)
  then show ?case by (simp add: wp_rules)
qed (simp add: wp_rules)

text \<open>What a file operation did and reported: \<open>Landed\<close> is an operation that took effect although it
  reported an error (the rename succeeded and the directory could not be synced).\<close>

datatype io = Done | Failed | Landed

definition performed :: "io \<Rightarrow> bool" where
  "performed r \<longleftrightarrow> r \<noteq> Failed"

definition reported :: "io \<Rightarrow> bool" where
  "reported r \<longleftrightarrow> r = Done"

lemma io_simps [simp]:
  "performed Done" "\<not> performed Failed" "performed Landed" "reported Done" "\<not> reported Failed" "\<not> reported Landed"
  by (simp_all add: performed_def reported_def)

lemma reported_performed: "reported r \<Longrightarrow> performed r"
  by (simp add: reported_def)

end
