(* ===== verification/Lifecycle.thy ===== *)
theory Lifecycle
  imports Session_Update Crash_Runs Jail
begin

text \<open>
  What the deletion of sessions works on: the daemon's state in memory and the state file, the recovery
  tombstones (\<^verbatim>\<open>tombstone.go\<close>), the processes, drivers and clients of the sessions, and the operations
  the deletions share: the lifecycle summary (\<^verbatim>\<open>lifecycle.go\<close>), the guards and the killing of processes
  (\<^verbatim>\<open>session_delete.go\<close>, \<^verbatim>\<open>upgrade.go\<close>), and the removal of a session's files (\<open>teardownArtifacts\<close>).

  A crash is one of the daemon: files keep what was last written to them. What the operating system and
  the file system answer is a parameter of each operation.
\<close>

section \<open>State\<close>

record IncludedRepoState =
  ir_RepoPath :: string
  ir_WorktreePath :: string
  ir_Branch :: string

record SessionState = session +
  ExpiresAt :: "int option"
  StatusChangedAt :: int
  StopReason :: string
  SummaryText :: string
  SummarySetAt :: "int option"
  SummaryTTL :: int
  PID :: int
  PIDStartTime :: int
  RemovedHookCleanupPending :: bool
  ss_Agent :: string
  RepoPath :: string
  WorktreePath :: string
  Branch :: string
  Mirror :: bool
  ReadOnlyBranch :: bool
  InPlace :: bool
  Includes :: "IncludedRepoState list"

record OrchestratorAttentionRequestState =
  oa_ID :: string
  oa_OrchestratorID :: string
  oa_Text :: string
  oa_Context :: string
  oa_RequestedAt :: int

record State =
  st_Sessions :: "(string \<times> SessionState) list"
  st_EventFollowRules :: "(string \<times> EventFollowRuleState) list"
  st_OrchestratorAttention :: "OrchestratorAttentionRequestState option"
  st_UpgradeCleanup :: "string list"

record teardownSpec =
  td_ID :: string
  td_RepoPath :: string
  td_WorktreePath :: string
  td_Branch :: string
  td_Shared :: bool
  td_ReadOnlyBranch :: bool
  td_InPlace :: bool
  td_SystemKind :: string
  td_Includes :: "IncludedRepoState list"

record tombstone =
  ts_spec :: teardownSpec
  ts_Name :: string
  ts_Agent :: string
  ts_PID :: int
  ts_PIDStartTime :: int
  ts_CreatedAt :: int

datatype lifecycle_event =
    StatusChange string string string string int
  | SessionDeleted string string int

text \<open>\<open>w_disk\<close> is the state file, \<open>w_drivers\<close> the process each session's driver runs, \<open>w_procs\<close> the
  processes alive with their start times, \<open>w_torn\<close> the sessions whose files a teardown removed.\<close>

record world =
  w_state :: State
  w_disk :: State
  w_tombs :: "(string \<times> tombstone) list"
  w_roots :: "string list"
  w_tokens :: "(string \<times> string) list"
  w_drivers :: "(string \<times> int) list"
  w_clients :: "string list"
  w_hookReports :: "string list"
  w_silentWarned :: "string list"
  w_stopAttempts :: "string list"
  w_upgradePending :: bool
  w_shutdownPending :: bool
  w_inFlight :: int
  w_procs :: "(int \<times> int) list"
  w_torn :: "string list"
  w_events :: "lifecycle_event list"

abbreviation live :: "world \<Rightarrow> (string \<times> SessionState) list" where
  "live w \<equiv> st_Sessions (w_state w)"

abbreviation stored :: "world \<Rightarrow> (string \<times> SessionState) list" where
  "stored w \<equiv> st_Sessions (w_disk w)"

definition tree :: "(string \<times> SessionState) list \<Rightarrow> sessions" where
  "tree ss = map (\<lambda>(i, s). (i, session.truncate s)) ss"

definition put_session :: "string \<Rightarrow> (SessionState \<Rightarrow> SessionState) \<Rightarrow> world \<Rightarrow> world" where
  "put_session i f w =
    w\<lparr>w_state := (w_state w)\<lparr>st_Sessions := map (\<lambda>(j, s). if j = i then (j, f s) else (j, s)) (live w)\<rparr>\<rparr>"

definition saveStateFile :: "io \<Rightarrow> world \<Rightarrow> world" where
  "saveStateFile r w = (if performed r then w\<lparr>w_disk := w_state w\<rparr> else w)"

definition publish :: "lifecycle_event \<Rightarrow> world \<Rightarrow> world" where
  "publish e w = w\<lparr>w_events := w_events w @ [e]\<rparr>"

section \<open>Lifecycle summaries\<close>

definition rune_error :: string where
  "rune_error = [CHR 0xEF, CHR 0xBF, CHR 0xBD]"

function printable_runes :: "string \<Rightarrow> string" where
  "printable_runes s =
    (if s = [] then []
     else (if rune_size s = 1
           then (if 128 \<le> byte_val (hd s) then rune_error
                 else if 32 \<le> byte_val (hd s) \<and> byte_val (hd s) \<noteq> 127 then [hd s] else [])
           else take (rune_size s) s) @ printable_runes (drop (rune_size s) s))"
  by pat_completeness auto
termination
  by (relation "measure length") (simp_all add: rune_size_pos diff_less)

declare printable_runes.simps [simp del]

definition sanitizeSummaryText :: "string \<Rightarrow> string" where
  "sanitizeSummaryText text = trim_space (printable_runes text)"

function whole_runes :: "nat \<Rightarrow> string \<Rightarrow> string" where
  "whole_runes maxBytes s =
    (if s = [] \<or> maxBytes < rune_size s then []
     else take (rune_size s) s @ whole_runes (maxBytes - rune_size s) (drop (rune_size s) s))"
  by pat_completeness auto
termination
  by (relation "measure (\<lambda>(m, s). length s)") (simp_all add: rune_size_pos diff_less)

declare whole_runes.simps [simp del]

definition truncateToBytes :: "string \<Rightarrow> nat \<Rightarrow> string" where
  "truncateToBytes s maxBytes = (if length s \<le> maxBytes then s else whole_runes maxBytes s)"

definition applyLifecycleSummaryLocked :: "int \<Rightarrow> string \<Rightarrow> SessionState \<Rightarrow> SessionState" where
  "applyLifecycleSummaryLocked now text s =
    (if SystemKind s \<noteq> [] then s
     else s\<lparr>SummaryText := truncateToBytes (sanitizeSummaryText text) 100, SummarySetAt := Some now, SummaryTTL := 0\<rparr>)"

section \<open>Guards\<close>

datatype lifecycle_error =
    UpgradeIsPending
  | ShutdownIsPending
  | NoSession string
  | SubtreeDeletion string
  | HasChild string string
  | HookCleanupPending int
  | ProcessCleanupPending
  | ManagedSystemSession string
  | IsStarred string
  | AlreadyDeleting string
  | AlreadyDeleted string
  | StillCreating string
  | UnsafeRoot string string
  | UnsafeDescendant string string
  | NotDeleted string
  | WindowExpired string
  | ParentHidden string string
  | MarkerNotSaved
  | NoTombstone
  | NotTerminated
  | NotKilled int
  | TeardownFailed
  | HooksNotCleaned
  | StateNotPersisted
  | TombstoneNotRemoved
  | Both lifecycle_error lifecycle_error
  | ForSession string lifecycle_error

definition beginLifecycleOperation :: "world \<Rightarrow> world \<times> lifecycle_error option" where
  "beginLifecycleOperation w =
    (if w_upgradePending w then (w, Some UpgradeIsPending)
     else if w_shutdownPending w then (w, Some ShutdownIsPending)
     else (w\<lparr>w_inFlight := w_inFlight w + 1\<rparr>, None))"

definition endLifecycleOperation :: "world \<Rightarrow> world" where
  "endLifecycleOperation w = w\<lparr>w_inFlight := w_inFlight w - 1\<rparr>"

definition rejectDeleteWithChildrenLocked :: "world \<Rightarrow> string \<Rightarrow> lifecycle_error option" where
  "rejectDeleteWithChildrenLocked w i =
    (let parentName = (case map_of (live w) i of Some p \<Rightarrow> if Name p \<noteq> [] then Name p else i | None \<Rightarrow> i)
     in case find (\<lambda>(j, c). ParentID c = i) (live w) of
          None \<Rightarrow> None
        | Some (j, c) \<Rightarrow> Some (HasChild parentName (Name c)))"

definition below :: "world \<Rightarrow> string \<Rightarrow> string list" where
  "below w i = descendants (tree (live w)) i"

definition subtreeDeleteActive :: "world \<Rightarrow> string \<Rightarrow> bool" where
  "subtreeDeleteActive w i = subtreeDeleteActiveLocked (tree (live w)) (w_roots w) i"

definition subtreeDeleteOverlapsLocked :: "world \<Rightarrow> string \<Rightarrow> bool" where
  "subtreeDeleteOverlapsLocked w i \<longleftrightarrow>
    subtreeDeleteActive w i \<or> list_ex (\<lambda>d. d \<in> set (w_roots w)) (below w i)"

definition rejectPendingUpgradeCleanupLocked :: "world \<Rightarrow> string \<Rightarrow> lifecycle_error option" where
  "rejectPendingUpgradeCleanupLocked w i =
    (case map_of (live w) i of
       Some s \<Rightarrow>
         if RemovedHookCleanupPending s then Some (HookCleanupPending (PID s))
         else if i \<in> set (st_UpgradeCleanup (w_state w)) then Some ProcessCleanupPending else None
     | None \<Rightarrow> if i \<in> set (st_UpgradeCleanup (w_state w)) then Some ProcessCleanupPending else None)"

fun first_pending :: "world \<Rightarrow> string list \<Rightarrow> lifecycle_error option" where
  "first_pending w [] = None"
| "first_pending w (i # is) =
    (case rejectPendingUpgradeCleanupLocked w i of Some e \<Rightarrow> Some (ForSession i e) | None \<Rightarrow> first_pending w is)"

definition rejectPendingUpgradeCleanupForIDsLocked :: "world \<Rightarrow> string list \<Rightarrow> lifecycle_error option" where
  "rejectPendingUpgradeCleanupForIDsLocked w ids = first_pending w (sort_strings ids)"

definition systemSessionEnabledInConfig :: "bool \<Rightarrow> SessionState \<Rightarrow> bool" where
  "systemSessionEnabledInConfig orchestratorEnabled s =
    (if SystemKind s = SystemKindOrchestrator then orchestratorEnabled else True)"

definition deleteBlockerName :: "string \<Rightarrow> SessionState \<Rightarrow> string" where
  "deleteBlockerName i s = (if Name s \<noteq> [] then Name s else i)"

definition rejectUnsafeDeleteRootLocked :: "world \<Rightarrow> string \<Rightarrow> bool \<Rightarrow> lifecycle_error option" where
  "rejectUnsafeDeleteRootLocked w i allowSystemRoot =
    (case map_of (live w) i of
       None \<Rightarrow> None
     | Some s \<Rightarrow>
         let name = deleteBlockerName i s
         in if Starred s then Some (UnsafeRoot name ''starred'')
            else if IsSystemSession s \<and> allowSystemRoot then None
            else if Status s = StatusDeleting then Some (UnsafeRoot name ''deleting'')
            else if IsSoftDeleted s then None
            else if IsSystemSession s \<and> \<not> allowSystemRoot then Some (UnsafeRoot name ''system'')
            else if Status s = StatusCreating then Some (UnsafeRoot name ''creating'')
            else None)"

definition unsafe_descendant :: "string \<Rightarrow> SessionState \<Rightarrow> lifecycle_error option" where
  "unsafe_descendant i s =
    (let name = deleteBlockerName i s
     in if Status s = StatusDeleting then Some (UnsafeDescendant name ''deleting'')
        else if IsSoftDeleted s then None
        else if Starred s then Some (UnsafeDescendant name ''starred'')
        else if IsSystemSession s then Some (UnsafeDescendant name ''system'')
        else if Status s = StatusCreating then Some (UnsafeDescendant name ''creating'')
        else None)"

fun first_unsafe :: "world \<Rightarrow> string \<Rightarrow> string list \<Rightarrow> lifecycle_error option" where
  "first_unsafe w i [] = None"
| "first_unsafe w i (d # ds) =
    (if d = i then first_unsafe w i ds
     else case Option.bind (map_of (live w) d) (unsafe_descendant d) of
         Some e \<Rightarrow> Some e
       | None \<Rightarrow> first_unsafe w i ds)"

definition rejectUnsafeDeleteDescendantsLocked :: "world \<Rightarrow> string \<Rightarrow> lifecycle_error option" where
  "rejectUnsafeDeleteDescendantsLocked w i = first_unsafe w i (below w i)"

section \<open>Parts of a removal\<close>

definition clearOrchestratorAttentionForSessionLocked ::
  "string \<Rightarrow> world \<Rightarrow> world \<times> OrchestratorAttentionRequestState option" where
  "clearOrchestratorAttentionForSessionLocked i w =
    (case st_OrchestratorAttention (w_state w) of
       None \<Rightarrow> (w, None)
     | Some a \<Rightarrow>
         if oa_OrchestratorID a \<noteq> i then (w, None)
         else (w\<lparr>w_state := (w_state w)\<lparr>st_OrchestratorAttention := None\<rparr>\<rparr>, Some a))"

definition put_attention :: "OrchestratorAttentionRequestState option \<Rightarrow> world \<Rightarrow> world" where
  "put_attention a w =
    (if a = None then w else w\<lparr>w_state := (w_state w)\<lparr>st_OrchestratorAttention := a\<rparr>\<rparr>)"

definition pendingSessionStatusChangeEvent :: "string \<Rightarrow> SessionState \<Rightarrow> string \<Rightarrow> lifecycle_event option" where
  "pendingSessionStatusChangeEvent i s from =
    (if from = Status s then None else Some (StatusChange i (Name s) from (Status s) (StatusChangedAt s)))"

definition publishPendingStatusChangeEvent :: "lifecycle_event option \<Rightarrow> world \<Rightarrow> world" where
  "publishPendingStatusChangeEvent e w = (case e of None \<Rightarrow> w | Some e \<Rightarrow> publish e w)"

definition setStopReasonLocked :: "string \<Rightarrow> string \<Rightarrow> world \<Rightarrow> world" where
  "setStopReasonLocked i reason w =
    put_session i (\<lambda>s. s\<lparr>StopReason := reason\<rparr>) (w\<lparr>w_stopAttempts := filter (\<lambda>j. j \<noteq> i) (w_stopAttempts w)\<rparr>)"

definition remove_session :: "string \<Rightarrow> world \<Rightarrow> world" where
  "remove_session i w =
    w\<lparr>w_state := (w_state w)\<lparr>st_Sessions := map_delete i (live w),
        st_EventFollowRules := map_delete i (st_EventFollowRules (w_state w))\<rparr>,
      w_hookReports := filter (\<lambda>j. j \<noteq> i) (w_hookReports w)\<rparr>"

section \<open>Tombstones\<close>

definition writeTombstone :: "io \<Rightarrow> tombstone \<Rightarrow> world \<Rightarrow> world \<times> bool" where
  "writeTombstone r t w =
    ((if performed r then w\<lparr>w_tombs := map_put (td_ID (ts_spec t)) t (w_tombs w)\<rparr> else w), reported r)"

definition removeTombstone :: "io \<Rightarrow> string \<Rightarrow> world \<Rightarrow> world \<times> bool" where
  "removeTombstone r i w =
    (if map_of (w_tombs w) i = None then (w, True)
     else ((if performed r then w\<lparr>w_tombs := map_delete i (w_tombs w)\<rparr> else w), reported r))"

definition hasTombstoneFile :: "world \<Rightarrow> string \<Rightarrow> bool" where
  "hasTombstoneFile w i \<longleftrightarrow> map_of (w_tombs w) i \<noteq> None"

section \<open>Processes\<close>

datatype signal_answer = Delivered | ESRCH | SignalError

text \<open>What the operating system answers about one process group: whether the start time can be read,
  whether the process died while it was being read, the answers to the two signals and whether the
  group was confirmed gone in the two waits.\<close>

record os_answers =
  os_startReadable :: bool
  os_diedMeanwhile :: bool
  os_term :: signal_answer
  os_goneAfterTerm :: bool
  os_kill :: signal_answer
  os_goneAfterKill :: bool

definition isProcessAlive :: "world \<Rightarrow> int \<Rightarrow> bool" where
  "isProcessAlive w pid \<longleftrightarrow> map_of (w_procs w) pid \<noteq> None"

definition process_gone :: "int \<Rightarrow> world \<Rightarrow> world" where
  "process_gone pid w = w\<lparr>w_procs := map_delete pid (w_procs w)\<rparr>"

definition killProcessGroup :: "os_answers \<Rightarrow> int \<Rightarrow> bool" where
  "killProcessGroup os pid =
    (if pid \<le> 1 then False
     else case os_term os of
         ESRCH \<Rightarrow> True
       | SignalError \<Rightarrow> False
       | Delivered \<Rightarrow>
           if os_goneAfterTerm os then True
           else case os_kill os of ESRCH \<Rightarrow> True | SignalError \<Rightarrow> False | Delivered \<Rightarrow> os_goneAfterKill os)"

definition killVerifiedProcess :: "os_answers \<Rightarrow> int \<Rightarrow> int \<Rightarrow> world \<Rightarrow> world \<times> (unit, bool) result" where
  "killVerifiedProcess os pid startTime w =
    (if pid \<le> 0 \<or> \<not> isProcessAlive w pid then (w, Inr False)
     else if startTime = 0 then (w, Inl ())
     else if \<not> os_startReadable os then
       (if os_diedMeanwhile os then (process_gone pid w, Inr False) else (w, Inl ()))
     else if map_of (w_procs w) pid \<noteq> Some startTime then (w, Inr False)
     else if killProcessGroup os pid then (process_gone pid w, Inr True)
     else (w, Inl ()))"

text \<open>What a session's driver does when it is told to stop.\<close>

record driver_answers =
  dr_exited :: bool
  dr_doneAfterTerm :: bool
  dr_doneAfterKill :: bool

definition teardownLiveDriver :: "driver_answers \<Rightarrow> int \<Rightarrow> world \<Rightarrow> world \<times> bool" where
  "teardownLiveDriver dr pid w =
    (if dr_exited dr \<or> dr_doneAfterTerm dr \<or> dr_doneAfterKill dr then (process_gone pid w, True) else (w, False))"

section \<open>A session's files\<close>

datatype file_action = RemoveAll "string list" | TeardownSession string string string | RemoveDirOf string

definition teardownIncludes :: "string \<Rightarrow> string \<Rightarrow> string \<Rightarrow> IncludedRepoState list \<Rightarrow> file_action list" where
  "teardownIncludes repo worktree branch includes =
    map (\<lambda>inc. TeardownSession (ir_RepoPath inc) (ir_WorktreePath inc) (ir_Branch inc)) (rev includes) @
    [TeardownSession repo worktree branch, RemoveDirOf worktree]"

text \<open>The paths of \<^verbatim>\<open>filepath.Join(sm.paths.DataDir, ...)\<close> are kept as their parts.\<close>

definition teardownActions :: "string \<Rightarrow> teardownSpec \<Rightarrow> file_action list" where
  "teardownActions dataDir t =
    (if td_SystemKind t = SystemKindOrchestrator then [RemoveAll [dataDir, ''orchestrator'']]
     else if td_ReadOnlyBranch t then
       [TeardownSession (td_RepoPath t) (td_WorktreePath t) [], RemoveAll [dataDir, ''scratch'', td_ID t]]
     else if td_Shared t then [RemoveAll [dataDir, ''scratch'', td_ID t]]
     else if td_InPlace t then []
     else if td_RepoPath t \<noteq> [] \<and> td_Includes t \<noteq> [] then
       teardownIncludes (td_RepoPath t) (td_WorktreePath t) (td_Branch t) (td_Includes t)
     else if td_RepoPath t \<noteq> [] then [TeardownSession (td_RepoPath t) (td_WorktreePath t) (td_Branch t)]
     else if td_WorktreePath t \<noteq> [] then [RemoveAll [td_WorktreePath t]]
     else [])"

text \<open>\<open>ok\<close> tells which of the actions succeed; every action is attempted and the errors are joined.\<close>

definition teardownArtifacts :: "string \<Rightarrow> (file_action \<Rightarrow> bool) \<Rightarrow> teardownSpec \<Rightarrow> world \<Rightarrow> world \<times> bool" where
  "teardownArtifacts dataDir ok t w =
    (if list_all ok (teardownActions dataDir t) then (w\<lparr>w_torn := td_ID t # w_torn w\<rparr>, True) else (w, False))"

end
