(* ===== verification/Session_Delete.thy ===== *)
theory Session_Delete
  imports Lifecycle
begin

text \<open>
  Deleting one session for good (\<open>Delete\<close> of \<^verbatim>\<open>session_delete.go\<close>) and what the daemon does at startup with
  a deletion a crash interrupted (\<open>Reconcile\<close> of \<^verbatim>\<open>state.go\<close>, \<open>resumeTombstones\<close> of \<^verbatim>\<open>tombstone.go\<close>,
  \<open>reconcileSoftDeletedOrphans\<close> of \<^verbatim>\<open>session_softdelete.go\<close>, \<open>cleanupOrphanedProcesses\<close>). The lemmas show
  that whatever the file system and the operating system answer, and wherever a crash stops the
  deletion, the session's process stays recorded, and that the startup finishes or undoes the deletion.
\<close>

section \<open>Deleting a session\<close>

text \<open>The answers a deletion gets: clock readings, saves of the state file in their order, the writing
  and removal of the tombstone, the driver, the process, the files, the hooks, and the text of an error.\<close>

record delete_answers =
  da_now :: "nat \<Rightarrow> int"
  da_save :: "nat \<Rightarrow> io"
  da_write :: io
  da_remove :: io
  da_driver :: driver_answers
  da_os :: os_answers
  da_files :: "file_action \<Rightarrow> bool"
  da_hooks :: bool
  da_error :: string

record delete_config =
  dc_orchestratorEnabled :: bool
  dc_dataDir :: string

definition delete_guard :: "delete_config \<Rightarrow> world \<Rightarrow> string \<Rightarrow> (lifecycle_error, SessionState) result" where
  "delete_guard cfg w i =
    (case map_of (live w) i of
       None \<Rightarrow> Inl (NoSession i)
     | Some s \<Rightarrow>
         fail_when (subtreeDeleteActive w i) (SubtreeDeletion i)
          (case rejectDeleteWithChildrenLocked w i of
             Some e \<Rightarrow> Inl e
           | None \<Rightarrow>
               (case rejectPendingUpgradeCleanupLocked w i of
                  Some e \<Rightarrow> Inl e
                | None \<Rightarrow>
                    fail_when (IsSystemSession s \<and> SystemKind s \<noteq> SystemKindOrchestrator \<and>
                        systemSessionEnabledInConfig (dc_orchestratorEnabled cfg) s) (ManagedSystemSession (Name s))
                     (fail_when (Starred s) (IsStarred i)
                       (fail_when (Status s = StatusDeleting) (AlreadyDeleting i) (Inr s))))))"

record delete_snapshot =
  sn_session :: SessionState
  sn_driver :: "int option"
  sn_client :: bool

datatype begun = Refused lifecycle_error | WasCreating SessionState bool | Begun delete_snapshot

definition detach_runtime :: "string \<Rightarrow> world \<Rightarrow> world" where
  "detach_runtime i w = w\<lparr>w_clients := filter (\<lambda>j. j \<noteq> i) (w_clients w), w_drivers := map_delete i (w_drivers w)\<rparr>"

definition delete_begin :: "delete_config \<Rightarrow> delete_answers \<Rightarrow> string \<Rightarrow> world \<Rightarrow> world \<times> begun" where
  "delete_begin cfg a i w =
    (case delete_guard cfg w i of
       Inl e \<Rightarrow> (w, Refused e)
     | Inr s \<Rightarrow>
         let w1 = detach_runtime i w
         in if Status s = StatusCreating
            then (saveStateFile (da_save a 0) (fst (clearOrchestratorAttentionForSessionLocked i (remove_session i w1))),
                  WasCreating s (reported (da_save a 0)))
            else (put_session i (\<lambda>s. s\<lparr>Status := StatusDeleting, StatusChangedAt := da_now a 0\<rparr>) w1,
                  Begun \<lparr>sn_session = s, sn_driver = map_of (w_drivers w) i, sn_client = (i \<in> set (w_clients w))\<rparr>))"

definition spec_of :: "string \<Rightarrow> SessionState \<Rightarrow> teardownSpec" where
  "spec_of i s =
    \<lparr>td_ID = i, td_RepoPath = RepoPath s, td_WorktreePath = WorktreePath s, td_Branch = Branch s, td_Shared = Mirror s,
     td_ReadOnlyBranch = ReadOnlyBranch s, td_InPlace = InPlace s, td_SystemKind = SystemKind s, td_Includes = Includes s\<rparr>"

definition tombstone_of :: "int \<Rightarrow> string \<Rightarrow> SessionState \<Rightarrow> tombstone" where
  "tombstone_of now i s =
    \<lparr>ts_spec = spec_of i s, ts_Name = Name s, ts_Agent = ss_Agent s, ts_PID = PID s, ts_PIDStartTime = PIDStartTime s,
     ts_CreatedAt = now\<rparr>"

definition put_driver :: "string \<Rightarrow> int option \<Rightarrow> world \<Rightarrow> world" where
  "put_driver i d w = (case d of None \<Rightarrow> w | Some pid \<Rightarrow> w\<lparr>w_drivers := map_put i pid (w_drivers w)\<rparr>)"

definition put_client :: "string \<Rightarrow> bool \<Rightarrow> world \<Rightarrow> world" where
  "put_client i c w = (if c then w\<lparr>w_clients := i # w_clients w\<rparr> else w)"

text \<open>A change of the session's record that is saved at once, if the record is still there.\<close>

definition save_session :: "io \<Rightarrow> string \<Rightarrow> (world \<Rightarrow> world) \<Rightarrow> world \<Rightarrow> world \<times> bool" where
  "save_session r i f w = (if map_of (live w) i = None then (w, True) else (saveStateFile r (f w), reported r))"

definition delete_unmark :: "delete_answers \<Rightarrow> string \<Rightarrow> delete_snapshot \<Rightarrow> world \<Rightarrow> world" where
  "delete_unmark a i sn w =
    put_client i (sn_client sn) (put_driver i (sn_driver sn)
      (put_session i (\<lambda>s. s\<lparr>Status := Status (sn_session sn), StatusChangedAt := da_now a 2\<rparr>) w))"

definition clear_pid :: "string \<Rightarrow> world \<Rightarrow> world" where
  "clear_pid i w = put_session i (\<lambda>s. s\<lparr>PID := 0, PIDStartTime := 0\<rparr>) w"

definition rearm :: "delete_answers \<Rightarrow> string \<Rightarrow> delete_snapshot \<Rightarrow> string \<Rightarrow> world \<Rightarrow> world" where
  "rearm a i sn text w =
    put_driver i (sn_driver sn)
      (put_session i (\<lambda>s. applyLifecycleSummaryLocked (da_now a 3) text
        (s\<lparr>Status := StatusErrored, StatusChangedAt := da_now a 2,
           PID := PID (sn_session sn), PIDStartTime := PIDStartTime (sn_session sn)\<rparr>)) w)"

definition revert_status :: "string \<Rightarrow> SessionState \<Rightarrow> world \<Rightarrow> world" where
  "revert_status i s0 w =
    put_session i (\<lambda>s. s\<lparr>Status := (if Status s0 = StatusRunning then StatusStopped else Status s0)\<rparr>) w"

definition joined :: "lifecycle_error \<Rightarrow> bool \<Rightarrow> bool \<Rightarrow> lifecycle_error" where
  "joined e saved removed =
    (let e1 = (if saved then e else Both e StateNotPersisted) in if removed then e1 else Both e1 TombstoneNotRemoved)"

text \<open>An abandoned deletion: the record is put into its retry state and saved, and the tombstone removed
  once the save succeeded.\<close>

definition abandon ::
  "delete_answers \<Rightarrow> nat \<Rightarrow> string \<Rightarrow> (world \<Rightarrow> world) \<Rightarrow> lifecycle_error \<Rightarrow> (world, lifecycle_error option) run" where
  "abandon a n i f e =
    seq (act (save_session (da_save a n) i f)) (\<lambda>saved.
      if saved then seq (act (removeTombstone (da_remove a) i)) (\<lambda>removed. ret (Some (joined e True removed)))
      else ret (Some (joined e False True)))"

definition delete_commit :: "delete_answers \<Rightarrow> string \<Rightarrow> delete_snapshot \<Rightarrow> world \<Rightarrow> world \<times> bool" where
  "delete_commit a i sn w =
    (let (w1, previous) = clearOrchestratorAttentionForSessionLocked i
           ((remove_session i w)\<lparr>w_silentWarned := filter (\<lambda>j. j \<noteq> i) (w_silentWarned w)\<rparr>);
         w2 = (if Token (sn_session sn) = [] then w1
               else w1\<lparr>w_tokens := map_delete (Token (sn_session sn)) (w_tokens w1)\<rparr>);
         w3 = saveStateFile (da_save a 2) w2
     in (if reported (da_save a 2) then w3 else put_attention previous w3, reported (da_save a 2)))"

definition delete_finish :: "delete_answers \<Rightarrow> string \<Rightarrow> delete_snapshot \<Rightarrow> (world, lifecycle_error option) run" where
  "delete_finish a i sn =
    seq (act (delete_commit a i sn)) (\<lambda>saved.
      if \<not> saved then ret (Some StateNotPersisted)
      else if \<not> da_hooks a then ret (Some HooksNotCleaned)
      else seq (act (removeTombstone (da_remove a) i)) (\<lambda>removed.
        if \<not> removed then ret (Some TombstoneNotRemoved)
        else act (\<lambda>w. ((if IsSoftDeleted (sn_session sn) then w
                        else publish (SessionDeleted i (Name (sn_session sn)) (da_now a 4)) w), None))))"

text \<open>Stopping the process; the value tells whether it is gone.\<close>

definition delete_stop :: "delete_answers \<Rightarrow> delete_snapshot \<Rightarrow> (world, (string \<times> lifecycle_error) option) run" where
  "delete_stop a sn =
    (case sn_driver sn of
       Some pid \<Rightarrow>
         act (\<lambda>w. case teardownLiveDriver (da_driver a) pid w of (w', gone) \<Rightarrow>
           (w', if gone then None
                else Some (''Delete aborted: session process did not terminate during teardown: '' @ da_error a, NotTerminated)))
     | None \<Rightarrow>
         if 0 < PID (sn_session sn) then
           act (\<lambda>w. case killVerifiedProcess (da_os a) (PID (sn_session sn)) (PIDStartTime (sn_session sn)) w of (w', r) \<Rightarrow>
             (w', case r of
                    Inr _ \<Rightarrow> None
                  | Inl _ \<Rightarrow> Some (''Delete aborted: orphaned process (PID '' @ int_str (PID (sn_session sn)) @
                      '') could not be killed: '' @ da_error a, NotKilled (PID (sn_session sn)))))
         else ret None)"

definition delete_stopped ::
  "delete_config \<Rightarrow> delete_answers \<Rightarrow> string \<Rightarrow> delete_snapshot \<Rightarrow> (string \<times> lifecycle_error) option \<Rightarrow>
    (world, lifecycle_error option) run" where
  "delete_stopped cfg a i sn failed =
    (case failed of
       Some (text, e) \<Rightarrow> abandon a 2 i (rearm a i sn text) e
     | None \<Rightarrow>
         seq (act (teardownArtifacts (dc_dataDir cfg) (da_files a) (spec_of i (sn_session sn)))) (\<lambda>ok.
           if ok then delete_finish a i sn
           else abandon a 2 i (revert_status i (sn_session sn)) TeardownFailed))"

definition delete_teardown ::
  "delete_config \<Rightarrow> delete_answers \<Rightarrow> string \<Rightarrow> delete_snapshot \<Rightarrow> (world, lifecycle_error option) run" where
  "delete_teardown cfg a i sn = seq (delete_stop a sn) (delete_stopped cfg a i sn)"

definition delete_marked ::
  "delete_config \<Rightarrow> delete_answers \<Rightarrow> string \<Rightarrow> delete_snapshot \<Rightarrow> (world, lifecycle_error option) run" where
  "delete_marked cfg a i sn =
    seq (act (writeTombstone (da_write a) (tombstone_of (da_now a 1) i (sn_session sn)))) (\<lambda>written.
      if written then
        seq (act (save_session (da_save a 1) i (clear_pid i))) (\<lambda>_. delete_teardown cfg a i sn)
      else
        seq (act (save_session (da_save a 1) i (delete_unmark a i sn))) (\<lambda>saved.
          seq (act (removeTombstone (da_remove a) i)) (\<lambda>removed. ret (Some (joined NoTombstone saved removed)))))"

definition Delete :: "delete_config \<Rightarrow> delete_answers \<Rightarrow> string \<Rightarrow> (world, lifecycle_error option) run" where
  "Delete cfg a i =
    seq (act beginLifecycleOperation) (\<lambda>refused. case refused of
      Some e \<Rightarrow> ret (Some e)
    | None \<Rightarrow>
        seq (act (delete_begin cfg a i)) (\<lambda>b.
          seq (case b of
                 Refused e \<Rightarrow> ret (Some e)
               | WasCreating s saved \<Rightarrow>
                   act (\<lambda>w. (if saved then publish (SessionDeleted i (Name s) (da_now a 1)) w else w, None))
               | Begun sn \<Rightarrow> delete_marked cfg a i sn) (\<lambda>r.
            seq (act (\<lambda>w. (endLifecycleOperation w, ()))) (\<lambda>_. ret r))))"

section \<open>What a crash can find\<close>

definition alive :: "SessionState \<Rightarrow> world \<Rightarrow> bool" where
  "alive s v \<longleftrightarrow> map_of (w_procs v) (PID s) = Some (PIDStartTime s)"

definition records :: "string \<Rightarrow> SessionState \<Rightarrow> (string \<times> SessionState) list \<Rightarrow> bool" where
  "records i s ss \<longleftrightarrow> (\<exists>d. map_of ss i = Some d \<and> PID d = PID s \<and> PIDStartTime d = PIDStartTime s)"

definition entombed :: "string \<Rightarrow> SessionState \<Rightarrow> world \<Rightarrow> bool" where
  "entombed i s v \<longleftrightarrow>
    (\<exists>t. map_of (w_tombs v) i = Some t \<and> ts_PID t = PID s \<and> ts_PIDStartTime t = PIDStartTime s \<and> ts_spec t = spec_of i s)"

text \<open>The session's process, while it lives, is named by the state file or by the tombstone, also if
  another operation writes the state file now; and once its files are gone, no state lists the session
  unless a tombstone can finish its deletion.\<close>

definition crash_safe :: "string \<Rightarrow> SessionState \<Rightarrow> world \<Rightarrow> bool" where
  "crash_safe i s v \<longleftrightarrow>
    entombed i s v \<or>
    (alive s v \<longrightarrow> records i s (stored v) \<and> records i s (live v)) \<and>
    (i \<in> set (w_torn v) \<longrightarrow> map_of (stored v) i = None \<and> map_of (live v) i = None)"

text \<open>More precisely, a crash finds a tombstone, or the record as it was before, errored with its process,
  or stopped without one, or nothing at all.\<close>

definition stopped_status :: "SessionState \<Rightarrow> string" where
  "stopped_status s = (if Status s = StatusRunning then StatusStopped else Status s)"

definition same_core :: "SessionState \<Rightarrow> SessionState \<Rightarrow> bool" where
  "same_core d s \<longleftrightarrow> DeletedAt d = DeletedAt s \<and> RemovedHookCleanupPending d = RemovedHookCleanupPending s"

definition retained :: "string \<Rightarrow> SessionState \<Rightarrow> bool \<Rightarrow> string set \<Rightarrow> (string \<times> SessionState) list \<Rightarrow> bool" where
  "retained i s dead sts ss \<longleftrightarrow>
    (\<exists>d. map_of ss i = Some d \<and> same_core d s \<and>
      (PID d = PID s \<and> PIDStartTime d = PIDStartTime s \<and> Status d \<in> sts \<or> PID d = 0 \<and> dead \<and> Status d = stopped_status s))"

definition crash_point :: "string \<Rightarrow> SessionState \<Rightarrow> world \<Rightarrow> bool" where
  "crash_point i s v \<longleftrightarrow>
    entombed i s v \<or>
    retained i s (\<not> alive s v) {Status s, StatusErrored} (stored v) \<and>
      retained i s (\<not> alive s v) {Status s, StatusErrored, StatusDeleting} (live v) \<and> i \<notin> set (w_torn v) \<or>
    map_of (stored v) i = None \<and> map_of (live v) i = None \<and> \<not> alive s v \<and> i \<in> set (w_torn v)"

lemma crash_point_safe: "crash_point i s v \<Longrightarrow> crash_safe i s v"
  by (auto simp: crash_point_def crash_safe_def retained_def records_def)

lemma retained_mono: "retained i s dead A ss \<Longrightarrow> A \<subseteq> B \<Longrightarrow> retained i s dead B ss"
  by (auto simp: retained_def)

lemma put_session_simps [simp]:
  "map_of (live (put_session i f w)) j = (if j = i then map_option f (map_of (live w) i) else map_of (live w) j)"
  "w_disk (put_session i f w) = w_disk w" "w_tombs (put_session i f w) = w_tombs w"
  "w_procs (put_session i f w) = w_procs w" "w_torn (put_session i f w) = w_torn w"
  "w_drivers (put_session i f w) = w_drivers w" "w_clients (put_session i f w) = w_clients w"
  by (simp_all add: put_session_def map_of_update)

lemma saveStateFile_simps [simp]:
  "w_state (saveStateFile r w) = w_state w" "w_tombs (saveStateFile r w) = w_tombs w" "w_procs (saveStateFile r w) = w_procs w"
  "w_torn (saveStateFile r w) = w_torn w" "w_disk (saveStateFile r w) = (if performed r then w_state w else w_disk w)"
  by (simp_all add: saveStateFile_def)

lemma put_driver_simps [simp]:
  "w_state (put_driver i d w) = w_state w" "w_disk (put_driver i d w) = w_disk w" "w_tombs (put_driver i d w) = w_tombs w"
  "w_procs (put_driver i d w) = w_procs w" "w_torn (put_driver i d w) = w_torn w"
  by (simp_all add: put_driver_def split: option.split)

lemma put_client_simps [simp]:
  "w_state (put_client i c w) = w_state w" "w_disk (put_client i c w) = w_disk w" "w_tombs (put_client i c w) = w_tombs w"
  "w_procs (put_client i c w) = w_procs w" "w_torn (put_client i c w) = w_torn w"
  by (simp_all add: put_client_def)

lemma summary_simps [simp]:
  "PID (applyLifecycleSummaryLocked now text s) = PID s"
  "PIDStartTime (applyLifecycleSummaryLocked now text s) = PIDStartTime s"
  "Status (applyLifecycleSummaryLocked now text s) = Status s"
  "DeletedAt (applyLifecycleSummaryLocked now text s) = DeletedAt s"
  "RemovedHookCleanupPending (applyLifecycleSummaryLocked now text s) = RemovedHookCleanupPending s"
  "ParentID (applyLifecycleSummaryLocked now text s) = ParentID s"
  by (simp_all add: applyLifecycleSummaryLocked_def)

lemma removeTombstone_simps [simp]:
  "w_state (fst (removeTombstone r i w)) = w_state w" "w_disk (fst (removeTombstone r i w)) = w_disk w"
  "w_procs (fst (removeTombstone r i w)) = w_procs w" "w_torn (fst (removeTombstone r i w)) = w_torn w"
  by (simp_all add: removeTombstone_def)

text \<open>A deletion that reports success has removed everything of the session.\<close>

definition deleted :: "string \<Rightarrow> SessionState \<Rightarrow> world \<Rightarrow> bool" where
  "deleted i s v \<longleftrightarrow> map_of (live v) i = None \<and> map_of (stored v) i = None \<and> map_of (w_tombs v) i = None \<and>
    \<not> alive s v \<and> i \<in> set (w_torn v)"

definition settled :: "string \<Rightarrow> SessionState \<Rightarrow> lifecycle_error option \<Rightarrow> world \<Rightarrow> bool" where
  "settled i s r v \<longleftrightarrow> crash_point i s v \<and> (r = None \<longrightarrow> deleted i s v)"

lemma crash_point_entombed: "entombed i s v \<Longrightarrow> crash_point i s v"
  by (simp add: crash_point_def)

text \<open>A deletion with its tombstone written and the process dropped from the state.\<close>

definition under_way :: "string \<Rightarrow> SessionState \<Rightarrow> world \<Rightarrow> bool" where
  "under_way i s v \<longleftrightarrow>
    entombed i s v \<and> (\<exists>d. map_of (live v) i = Some d \<and> same_core d s \<and> PID d = 0) \<and> i \<notin> set (w_torn v)"

lemma wp_abandon:
  assumes "under_way i s w"
    and state: "w_tombs (f w) = w_tombs w" "w_procs (f w) = w_procs w" "w_torn (f w) = w_torn w"
    and retry: "retained i s (\<not> alive s w) {Status s, StatusErrored} (live (f w))"
  shows "wp (crash_point i s) (abandon a n i f e) (\<lambda>r v. r \<noteq> None \<and> crash_point i s v) w"
proof -
  have w: "entombed i s w" "i \<notin> set (w_torn w)" "map_of (live w) i \<noteq> None" using assms(1) by (auto simp: under_way_def)
  let ?w1 = "saveStateFile (da_save a n) (f w)"
  have 1: "entombed i s ?w1" using w(1) state(1) by (simp add: entombed_def)
  have 2: "crash_point i s (fst (removeTombstone r i ?w1))" if "reported (da_save a n)" for r
    using w(2) state retry reported_performed [OF that] retained_mono [OF retry, of "{Status s, StatusErrored, StatusDeleting}"]
    by (auto simp: crash_point_def alive_def)
  show ?thesis
    using 1 2 w(3) by (auto simp: abandon_def save_session_def wp_rules crash_point_entombed)
qed

lemma wp_delete_finish:
  assumes "entombed i s w" "\<not> alive s w" "i \<in> set (w_torn w)" "sn_session sn = s"
  shows "wp (crash_point i s) (delete_finish a i sn) (settled i s) w"
proof -
  let ?c = "delete_commit a i sn w"
  have tombs: "w_tombs (fst ?c) = w_tombs w" and procs: "w_procs (fst ?c) = w_procs w" and torn: "w_torn (fst ?c) = w_torn w"
    by (simp_all add: delete_commit_def remove_session_def clearOrchestratorAttentionForSessionLocked_def put_attention_def
        Let_def split: option.split prod.split)
  have gone: "map_of (live (fst ?c)) i = None" "map_of (stored (fst ?c)) i = None" if "reported (da_save a 2)"
    using that reported_performed [OF that]
    by (simp_all add: delete_commit_def remove_session_def clearOrchestratorAttentionForSessionLocked_def put_attention_def
        Let_def split: option.split prod.split)
  have c: "entombed i s (fst ?c)" using assms(1) tombs by (simp add: entombed_def)
  have rep: "snd ?c = reported (da_save a 2)" by (simp add: delete_commit_def Let_def split: prod.split)
  have r: "crash_point i s v" if "map_of (live v) i = None" "map_of (stored v) i = None" "w_procs v = w_procs w"
      "w_torn v = w_torn w" for v
    using that assms(2,3) by (simp add: crash_point_def alive_def)
  have removed: "map_of (w_tombs (fst (removeTombstone r i v))) i = None" if "snd (removeTombstone r i v)" for r v
    using that by (auto simp: removeTombstone_def reported_performed split: if_splits)
  have d: "deleted i s v" if "map_of (live v) i = None" "map_of (stored v) i = None" "w_procs v = w_procs w"
      "w_torn v = w_torn w" "map_of (w_tombs v) i = None" for v
    using that assms(2,3) by (simp add: deleted_def alive_def)
  show ?thesis
    using c gone procs torn removed
    by (auto simp: delete_finish_def wp_rules rep settled_def crash_point_entombed publish_def intro!: r d)
qed

text \<open>The driver of a session runs the session's recorded process.\<close>

definition driver_ok :: "string \<Rightarrow> delete_snapshot \<Rightarrow> bool" where
  "driver_ok i sn \<longleftrightarrow> (case sn_driver sn of None \<Rightarrow> True | Some pid \<Rightarrow> pid = PID (sn_session sn))"

lemma killVerifiedProcess_frame:
  "w_state (fst (killVerifiedProcess os p st w)) = w_state w" "w_disk (fst (killVerifiedProcess os p st w)) = w_disk w"
  "w_tombs (fst (killVerifiedProcess os p st w)) = w_tombs w" "w_torn (fst (killVerifiedProcess os p st w)) = w_torn w"
  by (simp_all add: killVerifiedProcess_def process_gone_def)

lemma killVerifiedProcess_gone:
  "snd (killVerifiedProcess os (PID s) (PIDStartTime s) w) = Inr b \<Longrightarrow> 0 < PID s \<Longrightarrow>
    \<not> alive s (fst (killVerifiedProcess os (PID s) (PIDStartTime s) w))"
  by (auto simp: killVerifiedProcess_def process_gone_def alive_def isProcessAlive_def split: if_splits)

lemma teardownLiveDriver_frame:
  "w_state (fst (teardownLiveDriver dr p w)) = w_state w" "w_disk (fst (teardownLiveDriver dr p w)) = w_disk w"
  "w_tombs (fst (teardownLiveDriver dr p w)) = w_tombs w" "w_torn (fst (teardownLiveDriver dr p w)) = w_torn w"
  by (simp_all add: teardownLiveDriver_def process_gone_def)

lemma teardownLiveDriver_gone:
  "snd (teardownLiveDriver dr (PID s) w) \<Longrightarrow> \<not> alive s (fst (teardownLiveDriver dr (PID s) w))"
  by (auto simp: teardownLiveDriver_def process_gone_def alive_def split: if_splits)

lemmas stop_frame = killVerifiedProcess_frame teardownLiveDriver_frame

lemma wp_delete_stop:
  assumes "under_way i s w" "sn_session sn = s" "driver_ok i sn" "0 < PID s"
  shows "wp (crash_point i s) (delete_stop a sn) (\<lambda>r v. under_way i s v \<and> (r = None \<longrightarrow> \<not> alive s v)) w"
proof -
  have keep: "under_way i s v" if "w_state v = w_state w" "w_tombs v = w_tombs w" "w_torn v = w_torn w" for v
    using assms(1) that by (simp add: under_way_def entombed_def)
  have safe: "crash_point i s v" if "w_state v = w_state w" "w_tombs v = w_tombs w" "w_torn v = w_torn w" for v
    using keep [OF that] by (simp add: under_way_def crash_point_entombed)
  show ?thesis
  proof (cases "sn_driver sn")
    case None
    obtain v r where v: "killVerifiedProcess (da_os a) (PID s) (PIDStartTime s) w = (v, r)" by fastforce
    then have "under_way i s v" "crash_point i s v" "r = Inr b \<Longrightarrow> \<not> alive s v" for b
      using keep [of v] safe [of v] killVerifiedProcess_frame [of "da_os a" "PID s" "PIDStartTime s" w]
        killVerifiedProcess_gone [of "da_os a" s w b] assms(4) by auto
    then show ?thesis using None assms(2,4) v by (cases r) (auto simp: delete_stop_def wp_rules)
  next
    case (Some pid)
    then have pid: "pid = PID s" using assms(2,3) by (simp add: driver_ok_def)
    obtain v r where v: "teardownLiveDriver (da_driver a) (PID s) w = (v, r)" by fastforce
    then have "under_way i s v" "crash_point i s v" "r \<Longrightarrow> \<not> alive s v"
      using keep [of v] safe [of v] teardownLiveDriver_frame [of "da_driver a" "PID s" w]
        teardownLiveDriver_gone [of "da_driver a" s w] by auto
    then show ?thesis using Some pid v by (auto simp: delete_stop_def wp_rules)
  qed
qed

lemma wp_delete_teardown:
  assumes "under_way i s w" "sn_session sn = s" "driver_ok i sn" "0 < PID s"
  shows "wp (crash_point i s) (delete_teardown cfg a i sn) (settled i s) w"
proof -
  have rearmed: "wp (crash_point i s) (abandon a 2 i (rearm a i sn txt0) e) (settled i s) v"
    if "under_way i s v" for v txt0 e
    by (rule wp_mono, rule wp_abandon [OF that])
      (use that assms(2) in \<open>auto simp: rearm_def retained_def under_way_def settled_def same_core_def\<close>)
  have reverted: "wp (crash_point i s) (abandon a 2 i (revert_status i s) e) (settled i s) v"
    if "under_way i s v" "\<not> alive s v" for v e
    by (rule wp_mono, rule wp_abandon [OF that(1)]) (use that in \<open>auto simp: revert_status_def settled_def retained_def under_way_def same_core_def stopped_status_def\<close>)
  have torn: "entombed i s (fst (teardownArtifacts d ok t v))" "alive s (fst (teardownArtifacts d ok t v)) = alive s v"
    if "under_way i s v" for d ok t v
    using that by (auto simp: teardownArtifacts_def under_way_def entombed_def alive_def)
  have in_torn: "td_ID t \<in> set (w_torn (fst (teardownArtifacts d ok t v)))" if "snd (teardownArtifacts d ok t v)" for d ok t v
    using that by (auto simp: teardownArtifacts_def split: if_splits)
  have kept: "fst (teardownArtifacts d ok t v) = v" if "\<not> snd (teardownArtifacts d ok t v)" for d ok t v
    using that by (auto simp: teardownArtifacts_def split: if_splits)
  have "wp (crash_point i s) (delete_stop a sn) (\<lambda>r v. under_way i s v \<and> (r = None \<longrightarrow> \<not> alive s v)) w"
    by (rule wp_delete_stop [OF assms])
  then show ?thesis unfolding delete_teardown_def wp_seq
  proof (rule wp_mono)
    fix r :: "(string \<times> lifecycle_error) option" and v assume r: "under_way i s v \<and> (r = None \<longrightarrow> \<not> alive s v)"
    show "wp (crash_point i s) (delete_stopped cfg a i sn r) (settled i s) v"
    proof (cases r)
      case None
      let ?t = "teardownArtifacts (dc_dataDir cfg) (da_files a) (spec_of i s) v"
      have "wp (crash_point i s) (delete_finish a i sn) (settled i s) (fst ?t)" if "snd ?t"
        using torn r None assms(2) in_torn [OF that] by (intro wp_delete_finish) (auto simp: spec_of_def)
      then show ?thesis using None torn r reverted kept assms(2)
        by (auto simp: delete_stopped_def wp_rules crash_point_entombed)
    next
      case (Some x)
      then show ?thesis using r rearmed [of v "fst x" "snd x"] by (simp add: delete_stopped_def case_prod_beta)
    qed
  qed
qed

text \<open>From the mark on: the state file and the state name the process until the tombstone does.\<close>

lemma wp_delete_marked:
  assumes live: "map_of (live w) i = Some d" "same_core d s" "PID d = PID s" "PIDStartTime d = PIDStartTime s" "Status d = StatusDeleting"
    and stored: "retained i s (\<not> alive s w) {Status s, StatusErrored} (stored w)" and torn: "i \<notin> set (w_torn w)"
    and sn: "sn_session sn = s" "driver_ok i sn" "0 < PID s"
  shows "wp (crash_point i s) (delete_marked cfg a i sn) (settled i s) w"
proof -
  let ?w1 = "fst (writeTombstone (da_write a) (tombstone_of (da_now a 1) i s) w)"
  have w1: "w_state ?w1 = w_state w" "w_disk ?w1 = w_disk w" "w_torn ?w1 = w_torn w" "w_procs ?w1 = w_procs w"
    by (simp_all add: writeTombstone_def)
  have rep: "snd (writeTombstone (da_write a) t w) = reported (da_write a)" for t by (simp add: writeTombstone_def)
  have written: "entombed i s v" if "reported (da_write a)" "w_tombs v = w_tombs ?w1" for v
    using that by (simp add: entombed_def writeTombstone_def tombstone_of_def spec_of_def reported_performed)
  have kept: "crash_point i s v" if "retained i s (\<not> alive s v) {Status s, StatusErrored, StatusDeleting} (live v)"
      "retained i s (\<not> alive s v) {Status s, StatusErrored} (stored v)" "w_torn v = w_torn w" for v
    using that torn by (simp add: crash_point_def)
  have 1: "crash_point i s ?w1" using live stored w1 by (intro kept) (auto simp: retained_def alive_def)
  show ?thesis
  proof (cases "reported (da_write a)")
    case True
    let ?w2 = "saveStateFile (da_save a 1) (clear_pid i ?w1)"
    have 2: "under_way i s ?w2"
      using written [OF True, of ?w2] w1 torn live by (simp add: under_way_def clear_pid_def same_core_def)
    have "wp (crash_point i s) (delete_teardown cfg a i sn) (settled i s) ?w2"
      by (rule wp_delete_teardown [OF 2 sn])
    then show ?thesis using True 1 2 live w1 sn(1) rep
      by (auto simp: delete_marked_def wp_rules save_session_def under_way_def crash_point_entombed)
  next
    case False
    let ?w2 = "saveStateFile (da_save a 1) (delete_unmark a i sn ?w1)"
    let ?u = "delete_unmark a i sn ?w1"
    have u: "w_disk ?u = w_disk w" "w_torn ?u = w_torn w" "w_procs ?u = w_procs w"
      using w1 by (simp_all add: delete_unmark_def)
    have ru: "retained i s dead {Status s, StatusErrored} (live ?u)" for dead
      using live w1 sn(1) by (simp add: delete_unmark_def retained_def same_core_def)
    have undone: "crash_point i s v"
      if "w_state v = w_state ?u" "w_disk v = w_state ?u \<or> w_disk v = w_disk w" "w_torn v = w_torn w" "w_procs v = w_procs w" for v
      using that ru stored retained_mono [OF ru, of "{Status s, StatusErrored, StatusDeleting}"]
      by (intro kept) (auto simp: alive_def)
    have "crash_point i s ?w2" "\<And>r. crash_point i s (fst (removeTombstone r i ?w2))"
      using u by (auto intro!: undone)
    then show ?thesis using False 1 live w1 sn(1) rep
      by (auto simp: delete_marked_def wp_rules save_session_def settled_def)
  qed
qed

lemma delete_guard_Inr: "delete_guard cfg w i = Inr s \<Longrightarrow> map_of (live w) i = Some s"
  by (auto simp: delete_guard_def fail_when_def split: option.splits if_splits)

lemma detach_runtime_simps [simp]:
  "w_state (detach_runtime i w) = w_state w" "w_disk (detach_runtime i w) = w_disk w"
  "w_tombs (detach_runtime i w) = w_tombs w" "w_procs (detach_runtime i w) = w_procs w" "w_torn (detach_runtime i w) = w_torn w"
  by (simp_all add: detach_runtime_def)

lemma crash_point_frame:
  "w_state v = w_state w \<Longrightarrow> w_disk v = w_disk w \<Longrightarrow> w_tombs v = w_tombs w \<Longrightarrow> w_procs v = w_procs w \<Longrightarrow>
    w_torn v = w_torn w \<Longrightarrow> crash_point i s v = crash_point i s w"
  by (simp add: crash_point_def entombed_def alive_def)

lemma begin_frame:
  "w_state (fst (beginLifecycleOperation w)) = w_state w" "w_disk (fst (beginLifecycleOperation w)) = w_disk w"
  "w_tombs (fst (beginLifecycleOperation w)) = w_tombs w" "w_procs (fst (beginLifecycleOperation w)) = w_procs w"
  "w_torn (fst (beginLifecycleOperation w)) = w_torn w" "w_drivers (fst (beginLifecycleOperation w)) = w_drivers w"
  by (simp_all add: beginLifecycleOperation_def)

lemma end_frame [simp]: "crash_point i s (endLifecycleOperation w) = crash_point i s w"
  by (rule crash_point_frame) (simp_all add: endLifecycleOperation_def)

lemma publish_frame [simp]: "crash_point i s (publish e w) = crash_point i s w"
  by (rule crash_point_frame) (simp_all add: publish_def)

lemma settled_end [simp]: "settled i s r (endLifecycleOperation w) = settled i s r w"
  by (simp add: settled_def deleted_def alive_def) (simp add: endLifecycleOperation_def)

lemma wp_begun [wp_rules]:
  "wp S (case b of Refused e \<Rightarrow> m e | WasCreating s saved \<Rightarrow> n s saved | Begun sn \<Rightarrow> k sn) Q =
    (\<lambda>w. (\<forall>e. b = Refused e \<longrightarrow> wp S (m e) Q w) \<and> (\<forall>s saved. b = WasCreating s saved \<longrightarrow> wp S (n s saved) Q w) \<and>
      (\<forall>sn. b = Begun sn \<longrightarrow> wp S (k sn) Q w))"
  by (cases b) (simp_all add: fun_eq_iff)

text \<open>The facts the mark establishes.\<close>

lemma delete_begin_marks:
  assumes "map_of (live w) i = Some s" "Status s \<noteq> StatusCreating"
    and "retained i s (\<not> alive s w) {Status s, StatusErrored} (stored w)" "i \<notin> set (w_torn w)"
    and "\<And>pid. map_of (w_drivers w) i = Some pid \<Longrightarrow> pid = PID s"
    and "delete_begin cfg a i w = (w', b)"
  shows "crash_point i s w'" "b \<noteq> WasCreating s' saved"
    "b = Begun sn \<Longrightarrow> sn_session sn = s \<and> driver_ok i sn \<and> w_disk w' = w_disk w \<and> w_torn w' = w_torn w \<and> w_procs w' = w_procs w \<and>
      (\<exists>d. map_of (live w') i = Some d \<and> same_core d s \<and> PID d = PID s \<and> PIDStartTime d = PIDStartTime s \<and> Status d = StatusDeleting)"
  using assms by (auto simp: delete_begin_def Let_def driver_ok_def retained_def crash_point_def same_core_def alive_def
      dest!: delete_guard_Inr split: sum.splits if_splits option.split)

lemma Delete_crash_points:
  assumes "map_of (live w) i = Some s" "Status s \<noteq> StatusCreating" "0 < PID s"
    and "retained i s (\<not> alive s w) {Status s, StatusErrored} (stored w)" "i \<notin> set (w_torn w)"
    and "\<And>pid. map_of (w_drivers w) i = Some pid \<Longrightarrow> pid = PID s"
  shows "wp (crash_point i s) (Delete cfg a i) (settled i s) w"
proof -
  let ?w0 = "fst (beginLifecycleOperation w)"
  have al: "alive s ?w0 = alive s w" using begin_frame [of w] by (simp add: alive_def)
  have w0: "crash_point i s ?w0"
    using assms(1,4,5) begin_frame [of w] al by (auto simp: crash_point_def retained_def same_core_def)
  obtain w1 b where b: "delete_begin cfg a i ?w0 = (w1, b)" by fastforce
  have w1: "crash_point i s w1" and nc: "b \<noteq> WasCreating s' saved" for s' saved
    using delete_begin_marks(1,2) [OF _ assms(2) _ _ _ b] assms begin_frame [of w] al by simp_all
  have "wp (crash_point i s) (delete_marked cfg a i sn) (settled i s) w1" if "b = Begun sn" for sn
  proof -
    from delete_begin_marks(3) [OF _ assms(2) _ _ _ b that] assms begin_frame [of w] al
    obtain d where d: "sn_session sn = s" "driver_ok i sn" "w_disk w1 = w_disk w" "w_torn w1 = w_torn w" "w_procs w1 = w_procs w"
        "map_of (live w1) i = Some d" "same_core d s" "PID d = PID s" "PIDStartTime d = PIDStartTime s" "Status d = StatusDeleting"
      by auto
    show ?thesis
      by (rule wp_delete_marked [OF d(6-10)]) (use assms d in \<open>auto simp: alive_def\<close>)
  qed
  then have "wp (crash_point i s) (delete_marked cfg a i sn) (\<lambda>r v. settled i s r (endLifecycleOperation v)) w1" if "b = Begun sn" for sn
    using that by simp
  then show ?thesis using w0 w1 b nc by (auto simp: Delete_def wp_rules settled_def)
qed


definition example_session :: SessionState where
  "example_session =
    \<lparr>Name = ''build'', ParentID = [], SystemKind = [], Status = StatusRunning, Token = ''tok'', DeletedAt = None,
     Starred = False, Labels = [], ExpiresAt = None, StatusChangedAt = 1, StopReason = [], SummaryText = [],
     SummarySetAt = None, SummaryTTL = 0, PID = 42, PIDStartTime = 7, RemovedHookCleanupPending = False,
     ss_Agent = ''claude'', RepoPath = ''/r'', WorktreePath = ''/w/a'', Branch = ''b'', Mirror = False,
     ReadOnlyBranch = False, InPlace = False, Includes = []\<rparr>"

definition example_state :: State where
  "example_state =
    \<lparr>st_Sessions = [(''a'', example_session)], st_EventFollowRules = [], st_OrchestratorAttention = None, st_UpgradeCleanup = []\<rparr>"

definition example_world :: world where
  "example_world =
    \<lparr>w_state = example_state, w_disk = example_state, w_tombs = [], w_roots = [], w_tokens = [(''tok'', ''a'')],
     w_drivers = [(''a'', 42)], w_clients = [], w_hookReports = [], w_silentWarned = [], w_stopAttempts = [],
     w_upgradePending = False, w_shutdownPending = False, w_inFlight = 0, w_procs = [(42, 7)], w_torn = [], w_events = []\<rparr>"

definition example_delete_config :: delete_config where
  "example_delete_config = \<lparr>dc_orchestratorEnabled = True, dc_dataDir = ''/d''\<rparr>"

text \<open>Every file operation succeeds, and the driver of the process stops only if \<open>stops\<close>; the third save fails.\<close>

definition example_answers :: "bool \<Rightarrow> delete_answers" where
  "example_answers stops =
    \<lparr>da_now = (\<lambda>n. int n), da_save = (\<lambda>n. if n = 2 then Failed else Done), da_write = Done, da_remove = Done,
     da_driver = \<lparr>dr_exited = False, dr_doneAfterTerm = stops, dr_doneAfterKill = False\<rparr>,
     da_os = \<lparr>os_startReadable = True, os_diedMeanwhile = False, os_term = Delivered, os_goneAfterTerm = True,
              os_kill = Delivered, os_goneAfterKill = True\<rparr>,
     da_files = (\<lambda>_. True), da_hooks = True, da_error = ''timeout''\<rparr>"


end
