(* ===== verification/Delete_Recovery.thy ===== *)
theory Delete_Recovery
  imports Session_Delete
begin

text \<open>
  What the daemon does at a cold start with the sessions it finds (\<open>LoadState\<close> of \<^verbatim>\<open>daemon.go\<close>, \<open>Reconcile\<close>
  of \<^verbatim>\<open>state.go\<close>, \<open>resumeTombstones\<close> of \<^verbatim>\<open>tombstone.go\<close>, \<open>reconcileSoftDeletedOrphans\<close> of
  \<^verbatim>\<open>session_softdelete.go\<close>, \<open>cleanupOrphanedProcesses\<close> of \<^verbatim>\<open>session_delete.go\<close>, in the order of \<^verbatim>\<open>run.go\<close>). The
  lemmas show that the loop over the tombstones ends, and that a start after a crash at any point of
  \<open>Delete\<close> finishes the deletion or leaves the session stopped with its process gone.
\<close>

section \<open>Loading the state\<close>

definition Reconcile_session :: "int \<Rightarrow> world \<Rightarrow> SessionState \<Rightarrow> SessionState" where
  "Reconcile_session now w s =
    (if RemovedHookCleanupPending s then s
     else if Status s = StatusCreating then
       applyLifecycleSummaryLocked now ''Interrupted by daemon restart'' (s\<lparr>Status := StatusErrored, StatusChangedAt := now\<rparr>)
     else
       let s1 = (if Status s = StatusRunning \<and> 0 < PID s \<and> \<not> isProcessAlive w (PID s) then
                   applyLifecycleSummaryLocked now ''Lost during daemon restart''
                     (s\<lparr>Status := StatusStopped, StatusChangedAt := now, PID := 0, PIDStartTime := 0\<rparr>)
                 else s)
       in if Status s1 = StatusDeleting then
            applyLifecycleSummaryLocked now ''Delete interrupted by restart'' (s1\<lparr>Status := StatusStopped, StatusChangedAt := now\<rparr>)
          else s1)"

definition Reconcile :: "int \<Rightarrow> world \<Rightarrow> State \<Rightarrow> State" where
  "Reconcile now w st = st\<lparr>st_Sessions := map (\<lambda>(i, s). (i, Reconcile_session now w s)) (st_Sessions st)\<rparr>"

definition rebuildTokenIndex :: "(string \<times> SessionState) list \<Rightarrow> (string \<times> string) list" where
  "rebuildTokenIndex ss = map (\<lambda>(i, s). (Token s, i)) (filter (\<lambda>(i, s). Token s \<noteq> []) ss)"

text \<open>A new daemon process has only the state file, the tombstones and the processes.\<close>

definition LoadState :: "io \<Rightarrow> int \<Rightarrow> world \<Rightarrow> world \<times> bool" where
  "LoadState r now w =
    (let st = Reconcile now w (w_disk w);
         w1 = w\<lparr>w_state := st, w_roots := [], w_tokens := rebuildTokenIndex (st_Sessions st), w_drivers := [], w_clients := [],
                w_hookReports := [], w_silentWarned := [], w_stopAttempts := [], w_upgradePending := False,
                w_shutdownPending := False, w_inFlight := 0, w_events := []\<rparr>
     in (saveStateFile r w1, reported r))"

section \<open>Resuming interrupted deletions\<close>

text \<open>The answers to the recovery; those about one tombstone depend on the pass over the directory.\<close>

record recovery_answers =
  ra_now :: int
  ra_load :: io
  ra_readable :: "nat \<Rightarrow> string \<Rightarrow> bool"
  ra_readDir :: "nat \<Rightarrow> bool"
  ra_childWrite :: "nat \<Rightarrow> string \<Rightarrow> io"
  ra_childSave :: "nat \<Rightarrow> string \<Rightarrow> io"
  ra_childRemove :: "nat \<Rightarrow> string \<Rightarrow> io"
  ra_os :: "int \<Rightarrow> os_answers"
  ra_files :: "file_action \<Rightarrow> bool"
  ra_save :: "nat \<Rightarrow> string \<Rightarrow> io"
  ra_hooks :: "nat \<Rightarrow> string \<Rightarrow> bool"
  ra_remove :: "nat \<Rightarrow> string \<Rightarrow> io"
  ra_orphanSave :: "string \<Rightarrow> io"
  ra_lastSave :: io
  ra_error :: string

definition tombstoneBeforeBulkTeardown :: "io \<Rightarrow> io \<Rightarrow> io \<Rightarrow> tombstone \<Rightarrow> (world, lifecycle_error option) run" where
  "tombstoneBeforeBulkTeardown write remove save t =
    (let i = td_ID (ts_spec t)
     in seq (act (writeTombstone write t)) (\<lambda>written.
          if written then
            seq (act (\<lambda>w. (saveStateFile save (clear_pid i w), ()))) (\<lambda>_. ret None)
          else
            seq (act (removeTombstone remove i)) (\<lambda>removed.
              ret (Some (if removed then ForSession i NoTombstone else Both (ForSession i NoTombstone) (ForSession i TombstoneNotRemoved))))))"

definition untombed_children :: "world \<Rightarrow> string \<Rightarrow> (string \<times> SessionState) list" where
  "untombed_children w i = filter (\<lambda>(j, c). ParentID c = i \<and> \<not> hasTombstoneFile w j) (live w)"

definition drop_resumed :: "io \<Rightarrow> string \<Rightarrow> world \<Rightarrow> world \<times> bool" where
  "drop_resumed r i w =
    (let w1 = (case map_of (live w) i of
                 None \<Rightarrow> w
               | Some s \<Rightarrow>
                   remove_session i (if Token s = [] then w else w\<lparr>w_tokens := map_delete (Token s) (w_tokens w)\<rparr>))
     in (saveStateFile r w1, reported r))"

text \<open>The end of a resumed deletion, once no child is in its way; the value tells whether it completed.\<close>

definition resume_finish :: "delete_config \<Rightarrow> recovery_answers \<Rightarrow> nat \<Rightarrow> tombstone \<Rightarrow> (world, bool) run" where
  "resume_finish cfg a pass t =
    (let i = td_ID (ts_spec t)
     in seq (act (\<lambda>w. if 0 < ts_PID t
                      then case killVerifiedProcess (ra_os a (ts_PID t)) (ts_PID t) (ts_PIDStartTime t) w of
                             (w', r) \<Rightarrow> (w', \<not> isl r)
                      else (w, True))) (\<lambda>gone.
          if \<not> gone then ret False
          else seq (act (teardownArtifacts (dc_dataDir cfg) (ra_files a) (ts_spec t))) (\<lambda>torn.
            if \<not> torn then ret False
            else seq (act (drop_resumed (ra_save a pass i) i)) (\<lambda>saved.
              if \<not> saved then ret False
              else if \<not> ra_hooks a pass i then ret False
              else act (removeTombstone (ra_remove a pass i) i)))))"

definition synthesize_child :: "recovery_answers \<Rightarrow> nat \<Rightarrow> string \<times> SessionState \<Rightarrow> (world, bool) run" where
  "synthesize_child a pass e =
    seq (tombstoneBeforeBulkTeardown (ra_childWrite a pass (fst e)) (ra_childRemove a pass (fst e)) (ra_childSave a pass (fst e))
          (tombstone_of (ra_now a) (fst e) (snd e)))
        (\<lambda>failed. ret (failed = None))"

text \<open>One directory entry; the value tells whether it made progress.\<close>

definition resume_one :: "delete_config \<Rightarrow> recovery_answers \<Rightarrow> nat \<Rightarrow> string \<Rightarrow> (world, bool) run" where
  "resume_one cfg a pass entry =
    seq (act (\<lambda>w. (w, (map_of (w_tombs w) entry, w)))) (\<lambda>(found, w). case found of
      None \<Rightarrow> ret False
    | Some t \<Rightarrow>
        let i = td_ID (ts_spec t);
            pending = (case map_of (live w) i of None \<Rightarrow> False | Some s \<Rightarrow> RemovedHookCleanupPending s);
            children = untombed_children w i
        in if \<not> ra_readable a pass entry \<or> pending then ret False
           else if children \<noteq> [] then
             seq (each (synthesize_child a pass) (filter (\<lambda>e. Status (snd e) = StatusDeleting) children))
                 (\<lambda>synthesized. ret (True \<in> set synthesized))
           else resume_finish cfg a pass t)"

definition tomb_entries :: "world \<Rightarrow> string list" where
  "tomb_entries w = sort_strings (remdups (map fst (w_tombs w)))"

fun resume_passes :: "delete_config \<Rightarrow> recovery_answers \<Rightarrow> nat \<Rightarrow> nat \<Rightarrow> string list \<Rightarrow> (world, bool) run" where
  "resume_passes cfg a 0 pass entries = ret (length entries \<le> pass)"
| "resume_passes cfg a (Suc n) pass entries =
    (if pass < length entries then
       seq (each (resume_one cfg a pass) entries) (\<lambda>progress.
         if True \<in> set progress then
           seq (act (\<lambda>w. (w, if ra_readDir a pass then tomb_entries w else entries))) (resume_passes cfg a n (Suc pass))
         else ret True)
     else ret True)"

text \<open>The passes are bounded by the tombstones and sessions there are; the value is whether the loop ended
  within that bound.\<close>

definition resumeTombstones :: "delete_config \<Rightarrow> recovery_answers \<Rightarrow> (world, bool) run" where
  "resumeTombstones cfg a w = resume_passes cfg a (length (w_tombs w) + length (live w)) 0 (tomb_entries w) w"

section \<open>Orphaned processes\<close>

definition reconcile_orphan :: "recovery_answers \<Rightarrow> string \<times> SessionState \<Rightarrow> (world, unit) run" where
  "reconcile_orphan a c =
    seq (act (\<lambda>w. killVerifiedProcess (ra_os a (PID (snd c))) (PID (snd c)) (PIDStartTime (snd c)) w)) (\<lambda>r.
      if isl r then ret ()
      else act (\<lambda>w. case map_of (live w) (fst c) of
          None \<Rightarrow> (w, ())
        | Some s \<Rightarrow>
            if IsSoftDeleted s \<and> PID s = PID (snd c)
            then (saveStateFile (ra_orphanSave a (fst c)) (clear_pid (fst c) w), ()) else (w, ())))"

definition soft_orphans :: "world \<Rightarrow> (string \<times> SessionState) list" where
  "soft_orphans w = filter (\<lambda>(i, s). IsSoftDeleted s \<and> 0 < PID s \<and> \<not> RemovedHookCleanupPending s) (live w)"

definition reconcileSoftDeletedOrphans :: "recovery_answers \<Rightarrow> (world, unit) run" where
  "reconcileSoftDeletedOrphans a =
    seq (act (\<lambda>w. (w, soft_orphans w))) (\<lambda>cs. seq (each (reconcile_orphan a) cs) (\<lambda>_. ret ()))"

definition StopReasonCrash :: string where "StopReasonCrash = ''crash''"

definition same_process :: "SessionState \<Rightarrow> SessionState \<Rightarrow> bool" where
  "same_process s c \<longleftrightarrow> PID s = PID c \<and> PIDStartTime s = PIDStartTime c"

definition mark_stopped :: "int \<Rightarrow> string \<Rightarrow> string \<Rightarrow> world \<Rightarrow> world" where
  "mark_stopped now text i w =
    setStopReasonLocked i StopReasonCrash (put_session i (\<lambda>s. applyLifecycleSummaryLocked now text
      (s\<lparr>Status := StatusStopped, StatusChangedAt := now, PID := 0, PIDStartTime := 0\<rparr>)) w)"

definition mark_errored :: "int \<Rightarrow> string \<Rightarrow> string \<Rightarrow> world \<Rightarrow> world" where
  "mark_errored now text i w =
    setStopReasonLocked i StopReasonCrash (put_session i (\<lambda>s. applyLifecycleSummaryLocked now text
      (s\<lparr>Status := StatusErrored, StatusChangedAt := now\<rparr>)) w)"

text \<open>A change to the record of a candidate, if it still names the candidate's process.\<close>

definition if_same :: "string \<times> SessionState \<Rightarrow> (SessionState \<Rightarrow> bool) \<Rightarrow> (world \<Rightarrow> world) \<Rightarrow> world \<Rightarrow> world \<times> unit" where
  "if_same c p f w =
    (case map_of (live w) (fst c) of
       None \<Rightarrow> (w, ())
     | Some s \<Rightarrow> (if same_process s (snd c) \<and> p s then f w else w, ()))"

definition cleanup_candidate :: "recovery_answers \<Rightarrow> string \<times> SessionState \<Rightarrow> (world, unit) run" where
  "cleanup_candidate a c =
    (let i = fst c; pid = PID (snd c); start = PIDStartTime (snd c); os = ra_os a pid
     in seq (act (\<lambda>w. (w, w))) (\<lambda>w.
          if \<not> isProcessAlive w pid then
            act (if_same c (\<lambda>s. Status s = StatusRunning \<or> Status s = StatusErrored)
              (mark_stopped (ra_now a) ''Orphaned process had already exited'' i))
          else if start \<noteq> 0 \<and> os_startReadable os \<and> map_of (w_procs w) pid = Some start then
            seq (act (\<lambda>w. if killProcessGroup os pid then (process_gone pid w, True) else (w, False))) (\<lambda>killed.
              act (if_same c (\<lambda>_. True)
                (if killed then mark_stopped (ra_now a) (''Orphaned by daemon crash '' @ em_dash @ '' killed'') i
                 else mark_errored (ra_now a)
                   (''Orphaned process (PID '' @ int_str pid @ '') '' @ em_dash @ '' kill failed: '' @ ra_error a) i)))
          else
            act (if_same c (\<lambda>_. True) (mark_errored (ra_now a)
              (''Orphaned process (PID '' @ int_str pid @ '') '' @ em_dash @ '' identity unverified, manual cleanup needed'') i))))"

definition orphan_candidates :: "world \<Rightarrow> (string \<times> SessionState) list" where
  "orphan_candidates w =
    filter (\<lambda>(i, s). (Status s = StatusRunning \<or> Status s = StatusErrored) \<and> 0 < PID s \<and> \<not> RemovedHookCleanupPending s \<and>
      map_of (w_drivers w) i = None) (live w)"

definition cleanupOrphanedProcesses :: "recovery_answers \<Rightarrow> (world, unit) run" where
  "cleanupOrphanedProcesses a =
    seq (act (\<lambda>w. (w, orphan_candidates w))) (\<lambda>cs.
      seq (each (cleanup_candidate a) cs) (\<lambda>_.
        if cs = [] then ret () else act (\<lambda>w. (saveStateFile (ra_lastSave a) w, ()))))"

text \<open>A cold start; the daemon does not come up when the reconciled state cannot be saved.\<close>

definition cold_start :: "delete_config \<Rightarrow> recovery_answers \<Rightarrow> (world, bool) run" where
  "cold_start cfg a =
    seq (act (LoadState (ra_load a) (ra_now a))) (\<lambda>up.
      if \<not> up then ret False
      else seq (resumeTombstones cfg a) (\<lambda>_.
        seq (reconcileSoftDeletedOrphans a) (\<lambda>_.
          seq (cleanupOrphanedProcesses a) (\<lambda>_. ret True))))"

section \<open>What every step keeps\<close>

text \<open>No state has a child of the session, its record keeps what recovery looks at, there is no other
  tombstone, and the process identifier is not reused.\<close>

definition undisturbed :: "string \<Rightarrow> SessionState \<Rightarrow> (string \<times> SessionState) list \<Rightarrow> bool" where
  "undisturbed i s ss \<longleftrightarrow>
    distinct (map fst ss) \<and> list_all (\<lambda>e. ParentID (snd e) \<noteq> i) ss \<and> (\<forall>d. map_of ss i = Some d \<longrightarrow> same_core d s)"

definition recovery_frame :: "string \<Rightarrow> SessionState \<Rightarrow> world \<Rightarrow> bool" where
  "recovery_frame i s v \<longleftrightarrow>
    list_all (\<lambda>e. fst e = i \<and> entombed i s v) (w_tombs v) \<and> undisturbed i s (live v) \<and> undisturbed i s (stored v) \<and>
    (map_of (w_procs v) (PID s) = None \<or> alive s v)"

named_theorems keeps \<open>steps that keep the recovery frame\<close>

lemma frame_put [keeps]:
  assumes "recovery_frame i s v" "\<And>x. ParentID (f x) = ParentID x" "\<And>x. same_core (f x) s = same_core x s"
  shows "recovery_frame i s (put_session j f v)"
proof -
  have "distinct (map fst (live (put_session j f v)))"
    using assms(1) by (simp add: recovery_frame_def undisturbed_def put_session_def fst_update_keys del: map_map)
  moreover have "list_all (\<lambda>e. ParentID (snd e) \<noteq> i) (live (put_session j f v))"
  proof -
    have "list_all (\<lambda>e. ParentID (snd e) \<noteq> i) (live v)" using assms(1) by (simp add: recovery_frame_def undisturbed_def)
    moreover have "ParentID (snd (if k = j then (k, f x) else (k, x))) = ParentID x" for k x using assms(2) by simp
    ultimately show ?thesis using assms(2) by (fastforce simp: put_session_def list.pred_map comp_def case_prod_beta list_all_iff)
  qed
  moreover have "same_core d s" if "map_of (live (put_session j f v)) i = Some d" for d
    using that assms(1,3) by (auto simp: recovery_frame_def undisturbed_def split: if_splits)
  ultimately have "undisturbed i s (live (put_session j f v))" by (simp add: undisturbed_def)
  then show ?thesis using assms(1) by (simp add: recovery_frame_def entombed_def alive_def)
qed

lemma frame_save [keeps]: "recovery_frame i s v \<Longrightarrow> recovery_frame i s (saveStateFile r v)"
  by (simp add: recovery_frame_def entombed_def alive_def)

lemma frame_same:
  "recovery_frame i s v \<Longrightarrow> w_state u = w_state v \<Longrightarrow> w_disk u = w_disk v \<Longrightarrow> w_tombs u = w_tombs v \<Longrightarrow> w_procs u = w_procs v \<Longrightarrow>
    recovery_frame i s u"
  by (simp add: recovery_frame_def entombed_def alive_def)

lemma frame_driver [keeps]: "recovery_frame i s v \<Longrightarrow> recovery_frame i s (put_driver j d v)"
  "recovery_frame i s v \<Longrightarrow> recovery_frame i s (put_client j c v)"
  "recovery_frame i s v \<Longrightarrow> recovery_frame i s (publish e v)"
  "recovery_frame i s v \<Longrightarrow> recovery_frame i s (endLifecycleOperation v)"
  "recovery_frame i s v \<Longrightarrow> recovery_frame i s (fst (beginLifecycleOperation v))"
  "recovery_frame i s v \<Longrightarrow> recovery_frame i s (detach_runtime j v)"
  "recovery_frame i s v \<Longrightarrow> recovery_frame i s (fst (teardownArtifacts dir ok t v))"
  by (erule frame_same; simp add: publish_def endLifecycleOperation_def beginLifecycleOperation_def teardownArtifacts_def)+

lemma undisturbed_delete: "undisturbed i s ss \<Longrightarrow> undisturbed i s (map_delete j ss)"
  by (auto simp: undisturbed_def list_all_iff set_map_delete) (simp add: map_delete_def distinct_map_filter_key)

lemma frame_remove [keeps]: "recovery_frame i s v \<Longrightarrow> recovery_frame i s (remove_session j v)"
  by (simp add: recovery_frame_def entombed_def alive_def remove_session_def undisturbed_delete)

lemma frame_attention [keeps]: "recovery_frame i s v \<Longrightarrow> recovery_frame i s (fst (clearOrchestratorAttentionForSessionLocked j v))"
  "recovery_frame i s v \<Longrightarrow> recovery_frame i s (put_attention a v)"
  by (auto simp: clearOrchestratorAttentionForSessionLocked_def put_attention_def recovery_frame_def entombed_def alive_def split: option.split)

lemma frame_removeTomb [keeps]: "recovery_frame i s v \<Longrightarrow> recovery_frame i s (fst (removeTombstone r j v))"
  by (auto simp: removeTombstone_def recovery_frame_def entombed_def alive_def list_all_iff set_map_delete)

lemma frame_writeTomb [keeps]:
  "recovery_frame i s v \<Longrightarrow> recovery_frame i s (fst (writeTombstone r (tombstone_of now i s) v))"
  by (auto simp: writeTombstone_def tombstone_of_def spec_of_def recovery_frame_def entombed_def alive_def list_all_iff
      map_put_def set_map_delete)

lemma frame_gone [keeps]: "recovery_frame i s v \<Longrightarrow> recovery_frame i s (process_gone p v)"
  by (auto simp: process_gone_def recovery_frame_def entombed_def alive_def)

lemma frame_kill [keeps]: "recovery_frame i s v \<Longrightarrow> recovery_frame i s (fst (killVerifiedProcess os p st v))"
  by (simp add: killVerifiedProcess_def keeps)

lemma frame_teardown [keeps]: "recovery_frame i s v \<Longrightarrow> recovery_frame i s (fst (teardownLiveDriver dr p v))"
  by (simp add: teardownLiveDriver_def keeps)

lemma frame_saved [keeps]:
  "recovery_frame i s v \<Longrightarrow> recovery_frame i s (f v) \<Longrightarrow> recovery_frame i s (fst (save_session r j f v))"
  by (simp add: save_session_def keeps)

lemma frame_changes [keeps]:
  assumes "recovery_frame i s v"
  shows "recovery_frame i s (rearm a j sn msg v)" "recovery_frame i s (revert_status j s0 v)"
    "recovery_frame i s (delete_unmark a j sn v)" "recovery_frame i s (clear_pid j v)"
  using assms by (auto simp: rearm_def revert_status_def delete_unmark_def clear_pid_def same_core_def intro!: keeps)

lemma frame_commit [keeps]: "recovery_frame i s v \<Longrightarrow> recovery_frame i s (fst (delete_commit a j sn v))"
proof -
  assume v: "recovery_frame i s v"
  have silent: "recovery_frame i s (u\<lparr>w_silentWarned := x\<rparr>)" "recovery_frame i s (u\<lparr>w_tokens := y\<rparr>)" if "recovery_frame i s u" for u x y
    using that by (auto intro: frame_same)
  define u where "u = (remove_session j v)\<lparr>w_silentWarned := filter (\<lambda>k. k \<noteq> j) (w_silentWarned v)\<rparr>"
  have "recovery_frame i s u" unfolding u_def by (intro silent keeps v)
  then have c: "recovery_frame i s (fst (clearOrchestratorAttentionForSessionLocked j u))" by (rule keeps)
  show ?thesis
    unfolding delete_commit_def Let_def u_def [symmetric] using c
    by (auto intro!: keeps silent split: prod.split)
qed

section \<open>The frame through a deletion\<close>

lemma wp_frame_abandon:
  "recovery_frame i s v \<Longrightarrow> (\<And>u. recovery_frame i s u \<Longrightarrow> recovery_frame i s (f u)) \<Longrightarrow>
    wp (recovery_frame i s) (abandon a n j f e) (\<lambda>_. recovery_frame i s) v"
  by (simp add: abandon_def wp_rules keeps)

lemma wp_frame_finish: "recovery_frame i s v \<Longrightarrow> wp (recovery_frame i s) (delete_finish a j sn) (\<lambda>_. recovery_frame i s) v"
  by (simp add: delete_finish_def wp_rules keeps)

lemma wp_frame_stop: "recovery_frame i s v \<Longrightarrow> wp (recovery_frame i s) (delete_stop a sn) (\<lambda>_. recovery_frame i s) v"
  by (auto simp: delete_stop_def wp_rules case_prod_beta intro!: keeps)

lemma wp_frame_stopped:
  "recovery_frame i s v \<Longrightarrow> wp (recovery_frame i s) (delete_stopped cfg a j sn r) (\<lambda>_. recovery_frame i s) v"
  by (cases r) (auto simp: delete_stopped_def wp_rules case_prod_beta intro!: wp_frame_abandon wp_frame_finish keeps)

lemma wp_frame_marked:
  assumes "recovery_frame i s v" "sn_session sn = s"
  shows "wp (recovery_frame i s) (delete_marked cfg a i sn) (\<lambda>_. recovery_frame i s) v"
proof -
  have td: "wp (recovery_frame i s) (delete_teardown cfg a i sn) (\<lambda>_. recovery_frame i s) u" if "recovery_frame i s u" for u
    unfolding delete_teardown_def wp_seq by (rule wp_mono [OF wp_frame_stop [OF that]]) (auto intro: wp_frame_stopped)
  show ?thesis using assms(1) by (auto simp: delete_marked_def wp_rules assms(2) intro!: keeps td)
qed

lemma wp_frame_Delete:
  assumes "recovery_frame i s w" "map_of (live w) i = Some s" "Status s \<noteq> StatusCreating"
  shows "wp (recovery_frame i s) (Delete cfg a i) (\<lambda>_. recovery_frame i s) w"
proof -
  let ?w0 = "fst (beginLifecycleOperation w)"
  obtain w1 b where b: "delete_begin cfg a i ?w0 = (w1, b)" by fastforce
  have w0: "recovery_frame i s ?w0" using assms(1) by (rule keeps)
  have w1: "recovery_frame i s w1 \<and> (\<forall>sn. b = Begun sn \<longrightarrow> sn_session sn = s)"
    using b w0 assms(2,3) begin_frame(1) [of w]
    by (auto simp: delete_begin_def Let_def same_core_def dest!: delete_guard_Inr split: sum.splits if_splits intro!: keeps)
  have "wp (recovery_frame i s) (delete_marked cfg a i sn) (\<lambda>_ v. recovery_frame i s (endLifecycleOperation v)) w1" if "b = Begun sn" for sn
    by (rule wp_mono, rule wp_frame_marked [of i s w1 sn]) (use w1 that in \<open>auto intro: keeps\<close>)
  then show ?thesis using w0 w1 b by (auto simp: Delete_def wp_rules intro!: keeps)
qed

section \<open>The start after a crash\<close>

lemma Reconcile_session_frame [simp]:
  "ParentID (Reconcile_session now w s) = ParentID s" "same_core (Reconcile_session now w s) s' = same_core s s'"
  by (simp_all add: Reconcile_session_def Let_def same_core_def)

lemma map_of_map_snd: "map_of (map (\<lambda>(k, v). (k, f v)) xs) k = map_option f (map_of xs k)"
  by (induction xs) auto

lemma LoadState_shape:
  assumes "recovery_frame i s v" "u = fst (LoadState Done now v)"
  shows "map_of (live u) k = map_option (Reconcile_session now v) (map_of (stored v) k)" "w_disk u = w_state u"
    "w_tombs u = w_tombs v" "w_procs u = w_procs v" "w_torn u = w_torn v" "w_drivers u = []" "recovery_frame i s u"
proof -
  let ?ss = "map (\<lambda>(k, x). (k, Reconcile_session now v x)) (stored v)"
  have u: "live u = ?ss" "w_disk u = w_state u" "w_tombs u = w_tombs v" "w_procs u = w_procs v" "w_torn u = w_torn v" "w_drivers u = []"
    unfolding assms(2) by (simp_all add: LoadState_def Reconcile_def Let_def saveStateFile_def)
  have keys: "map fst ?ss = map fst (stored v)" by (induction "stored v") auto
  have "undisturbed i s (stored v)" using assms(1) by (simp add: recovery_frame_def)
  then have "undisturbed i s ?ss"
    by (auto simp: undisturbed_def keys map_of_map_snd list.pred_map comp_def case_prod_beta list_all_iff simp del: map_map)
  then show "recovery_frame i s u" using assms(1) u by (simp add: recovery_frame_def entombed_def alive_def)
  show "map_of (live u) k = map_option (Reconcile_session now v) (map_of (stored v) k)"
    unfolding u(1) by (rule map_of_map_snd)
qed (use assms in \<open>simp_all add: LoadState_def Let_def saveStateFile_def\<close>)

text \<open>The operating system and the file system let the recovery do its work.\<close>

definition cooperative :: "recovery_answers \<Rightarrow> string \<Rightarrow> SessionState \<Rightarrow> bool" where
  "cooperative r i s \<longleftrightarrow>
    ra_load r = Done \<and> (\<forall>p. ra_readable r p i) \<and> os_startReadable (ra_os r (PID s)) \<and> killProcessGroup (ra_os r (PID s)) (PID s) \<and>
    (\<forall>f. ra_files r f) \<and>
    (\<forall>p. ra_save r p i = Done \<and> ra_hooks r p i \<and> ra_remove r p i = Done) \<and> ra_lastSave r = Done"

definition vanished :: "string \<Rightarrow> SessionState \<Rightarrow> world \<Rightarrow> bool" where
  "vanished i s v \<longleftrightarrow> deleted i s v \<and> w_tombs v = []"

lemma wp_resume_finish:
  assumes "recovery_frame i s u" "cooperative r i s" "0 < PID s" "PIDStartTime s \<noteq> 0"
    and "ts_spec t = spec_of i s" "ts_PID t = PID s" "ts_PIDStartTime t = PIDStartTime s"
  shows "wp (\<lambda>_. True) (resume_finish cfg r p t) (\<lambda>ok v. ok \<and> vanished i s v \<and> w_drivers v = w_drivers u) u"
proof -
  obtain v b where k: "killVerifiedProcess (ra_os r (PID s)) (PID s) (PIDStartTime s) u = (v, Inr b)" "\<not> alive s v"
      "w_tombs v = w_tombs u" "w_drivers v = w_drivers u"
    using assms(1-4) by (auto simp: killVerifiedProcess_def recovery_frame_def cooperative_def alive_def isProcessAlive_def process_gone_def)
  define x where "x = fst (teardownArtifacts (dc_dataDir cfg) (ra_files r) (spec_of i s) v)"
  have x: "snd (teardownArtifacts (dc_dataDir cfg) (ra_files r) (spec_of i s) v)" "\<not> alive s x" "i \<in> set (w_torn x)"
      "w_tombs x = w_tombs u" "w_drivers x = w_drivers u"
    using k assms(2) by (auto simp: x_def teardownArtifacts_def cooperative_def alive_def spec_of_def list_all_iff)
  have frame: "recovery_frame i s x" unfolding x_def
    using frame_kill [OF assms(1), of "ra_os r (PID s)" "PID s" "PIDStartTime s"] k(1) by (auto intro: keeps)
  define y where "y = fst (drop_resumed Done i x)"
  have y: "map_of (live y) i = None" "map_of (stored y) i = None" "\<not> alive s y" "w_torn y = w_torn x" "w_tombs y = w_tombs x"
      "w_drivers y = w_drivers u"
    using x(2,5) by (auto simp: y_def drop_resumed_def Let_def saveStateFile_def remove_session_def alive_def split: option.split)
  have only: "list_all (\<lambda>e. fst e = i) (w_tombs y)"
    using frame y(5) by (simp add: recovery_frame_def list_all_iff)
  then have "filter (\<lambda>e. fst e \<noteq> i) (w_tombs y) = []" by (simp add: list_all_iff filter_empty_conv)
  moreover have "w_tombs y = []" if "map_of (w_tombs y) i = None"
    using that only by (cases "w_tombs y") (auto split: if_splits)
  ultimately have z: "vanished i s (fst (removeTombstone Done i y))" "snd (removeTombstone Done i y)"
      "w_drivers (fst (removeTombstone Done i y)) = w_drivers u"
    using y x by (auto simp: vanished_def deleted_def alive_def removeTombstone_def map_delete_def)
  have step: "teardownArtifacts (dc_dataDir cfg) (ra_files r) (spec_of i s) v = (x, True)" "drop_resumed Done i x = (y, True)"
      "td_ID (spec_of i s) = i"
    using x(1) by (simp_all add: x_def y_def prod_eq_iff drop_resumed_def Let_def spec_of_def)
  have io: "ra_save r p i = Done" "ra_hooks r p i" "ra_remove r p i = Done" using assms(2) by (simp_all add: cooperative_def)
  show ?thesis
    using z by (simp add: resume_finish_def Let_def wp_rules assms(3,5-7) k(1) step io)
qed

lemma tomb_entries_single:
  assumes "recovery_frame i s u" "entombed i s u"
  shows "tomb_entries u = [i]"
proof -
  have "list_all (\<lambda>e. fst e = i) ts \<Longrightarrow> ts \<noteq> [] \<Longrightarrow> remdups (map fst ts) = [i]" for ts :: "(string \<times> tombstone) list"
  proof (induction ts)
    case (Cons e ts)
    then show ?case by (cases ts) auto
  qed simp
  moreover have "w_tombs u \<noteq> []" using assms(2) by (auto simp: entombed_def)
  moreover have "list_all (\<lambda>e. fst e = i) (w_tombs u)" using assms(1) by (simp add: recovery_frame_def list_all_iff)
  ultimately have "remdups (map fst (w_tombs u)) = [i]" by blast
  then show ?thesis by (simp add: tomb_entries_def sort_strings_def)
qed

lemma resume_passes_done: "length es \<le> p \<Longrightarrow> wp S (resume_passes cfg r n p es) Q u \<longleftrightarrow> Q True u"
  by (cases n) (simp_all add: wp_rules)

lemma wp_resume_entombed:
  assumes "recovery_frame i s u" "entombed i s u" "cooperative r i s" "0 < PID s" "PIDStartTime s \<noteq> 0" "\<not> RemovedHookCleanupPending s"
  shows "wp (\<lambda>_. True) (resumeTombstones cfg r) (\<lambda>_ v. vanished i s v \<and> w_drivers v = w_drivers u) u"
proof -
  obtain t where t: "map_of (w_tombs u) i = Some t" "ts_PID t = PID s" "ts_PIDStartTime t = PIDStartTime s" "ts_spec t = spec_of i s"
    using assms(2) by (auto simp: entombed_def)
  have id: "td_ID (ts_spec t) = i" using t(4) by (simp add: spec_of_def)
  have alone: "untombed_children u i = []"
    using assms(1) by (auto simp: untombed_children_def recovery_frame_def undisturbed_def list_all_iff filter_empty_conv)
  have ready: "\<not> (\<not> ra_readable r 0 i \<or> (case map_of (live u) i of None \<Rightarrow> False | Some d \<Rightarrow> RemovedHookCleanupPending d))"
    using assms(1,3,6) by (auto simp: cooperative_def recovery_frame_def undisturbed_def same_core_def split: option.split)
  have one: "wp (\<lambda>_. True) (resume_one cfg r 0 i) (\<lambda>ok v. ok \<and> vanished i s v \<and> w_drivers v = w_drivers u) u"
    using wp_resume_finish [OF assms(1,3,4,5) t(4,2,3)] ready t(1) id alone by (simp add: resume_one_def wp_rules Let_def)
  have rest: "wp (\<lambda>_. True) (resume_passes cfg r n (Suc 0) (if b then tomb_entries v else [i])) (\<lambda>_ v. vanished i s v \<and> w_drivers v = w_drivers u) v"
    if "vanished i s v \<and> w_drivers v = w_drivers u" for n b v
    using that by (subst resume_passes_done) (auto simp: vanished_def tomb_entries_def sort_strings_def)
  obtain n where n: "length (w_tombs u) + length (live u) = Suc n" using t(1) by (cases "w_tombs u") auto
  have "wp (\<lambda>_. True) (resume_passes cfg r (Suc n) 0 [i]) (\<lambda>_ v. vanished i s v \<and> w_drivers v = w_drivers u) u"
    using wp_mono [OF one] rest by (simp add: wp_rules)
  then show ?thesis using tomb_entries_single [OF assms(1,2)] n by (simp add: resumeTombstones_def wp_def outcome_def final_def)
qed

lemma wp_resume_none: "w_tombs u = [] \<Longrightarrow> wp S (resumeTombstones cfg r) Q u \<longleftrightarrow> Q True u"
  using resume_passes_done [of "[]" 0 S cfg r "length (live u)" Q u]
  by (simp add: resumeTombstones_def tomb_entries_def sort_strings_def wp_def outcome_def final_def)

text \<open>What the two sweeps over orphaned processes leave alone.\<close>

definition untouched :: "string \<Rightarrow> SessionState \<Rightarrow> world \<Rightarrow> world \<Rightarrow> bool" where
  "untouched i s u v \<longleftrightarrow>
    map_of (live v) i = map_of (live u) i \<and> map_of (stored v) i = map_of (live u) i \<and> w_tombs v = w_tombs u \<and> w_torn v = w_torn u \<and>
    w_drivers v = w_drivers u \<and> (map_of (w_procs v) (PID s) = map_of (w_procs u) (PID s) \<or> map_of (w_procs v) (PID s) = None)"

lemma untouched_kill: "untouched i s u v \<Longrightarrow> untouched i s u (fst (killVerifiedProcess os p st v))"
  "untouched i s u v \<Longrightarrow> untouched i s u (process_gone p v)"
  by (auto simp: untouched_def killVerifiedProcess_def process_gone_def)

lemma wp_soft_orphans:
  assumes "untouched i s u u" "\<And>d. map_of (live u) i = Some d \<Longrightarrow> \<not> IsSoftDeleted d"
  shows "wp (\<lambda>_. True) (reconcileSoftDeletedOrphans r) (\<lambda>_. untouched i s u) u"
proof -
  have "wp (\<lambda>_. True) (reconcile_orphan r c) (\<lambda>_. untouched i s u) v" if v: "untouched i s u v" for c v
  proof -
    define k where "k = fst (killVerifiedProcess (ra_os r (PID (snd c))) (PID (snd c)) (PIDStartTime (snd c)) v)"
    have k: "untouched i s u k" unfolding k_def by (rule untouched_kill [OF v])
    have "untouched i s u (saveStateFile q (clear_pid (fst c) k))" if "map_of (live k) (fst c) = Some d" "IsSoftDeleted d" for d q
    proof -
      have "fst c \<noteq> i" using that k assms(2) by (auto simp: untouched_def)
      then show ?thesis using k by (simp add: untouched_def clear_pid_def saveStateFile_def)
    qed
    then show ?thesis using k
      by (auto simp: reconcile_orphan_def wp_rules k_def [symmetric] split: option.split)
  qed
  then have "wp (\<lambda>_. True) (each (reconcile_orphan r) cs) (\<lambda>_. untouched i s u) u" for cs
    by (intro wp_each assms(1))
  then show ?thesis by (simp add: reconcileSoftDeletedOrphans_def wp_rules)
qed

definition halted :: "string \<Rightarrow> SessionState \<Rightarrow> world \<Rightarrow> world \<Rightarrow> bool" where
  "halted i s u v \<longleftrightarrow>
    (\<exists>d. map_of (live v) i = Some d \<and> Status d = StatusStopped \<and> PID d = 0) \<and> \<not> alive s v \<and> w_tombs v = w_tombs u \<and> w_torn v = w_torn u"

lemma mark_simps [simp]:
  "j \<noteq> i \<Longrightarrow> map_of (live (mark_stopped now msg j w)) i = map_of (live w) i"
  "j \<noteq> i \<Longrightarrow> map_of (live (mark_errored now msg j w)) i = map_of (live w) i"
  "w_disk (mark_stopped now msg j w) = w_disk w" "w_disk (mark_errored now msg j w) = w_disk w"
  "w_tombs (mark_stopped now msg j w) = w_tombs w" "w_tombs (mark_errored now msg j w) = w_tombs w"
  "w_torn (mark_stopped now msg j w) = w_torn w" "w_torn (mark_errored now msg j w) = w_torn w"
  "w_procs (mark_stopped now msg j w) = w_procs w" "w_procs (mark_errored now msg j w) = w_procs w"
  "w_drivers (mark_stopped now msg j w) = w_drivers w" "w_drivers (mark_errored now msg j w) = w_drivers w"
  by (simp_all add: mark_stopped_def mark_errored_def setStopReasonLocked_def)

lemma wp_cleanup_other:
  assumes "fst c \<noteq> i"
    and "P v" "\<And>v p. P v \<Longrightarrow> P (process_gone p v)"
    and "\<And>v now msg. P v \<Longrightarrow> P (mark_stopped now msg (fst c) v) \<and> P (mark_errored now msg (fst c) v)"
  shows "wp (\<lambda>_. True) (cleanup_candidate r c) (\<lambda>_. P) v"
  using assms by (simp add: cleanup_candidate_def Let_def wp_rules if_same_def split: option.split)

lemma wp_cleanup_other_untouched:
  "fst c \<noteq> i \<Longrightarrow> untouched i s u v \<Longrightarrow> wp (\<lambda>_. True) (cleanup_candidate r c) (\<lambda>_. untouched i s u) v"
  by (rule wp_cleanup_other) (auto simp: untouched_def process_gone_def)

lemma wp_cleanup_other_halted:
  "fst c \<noteq> i \<Longrightarrow> halted i s u v \<Longrightarrow> wp (\<lambda>_. True) (cleanup_candidate r c) (\<lambda>_. halted i s u) v"
  by (rule wp_cleanup_other) (auto simp: halted_def process_gone_def alive_def)

lemma wp_cleanup_self:
  assumes "untouched i s u v" "map_of (live u) i = Some d" "PID d = PID s" "PIDStartTime d = PIDStartTime s"
    and "Status d = StatusRunning \<or> Status d = StatusErrored" "map_of (w_procs u) (PID s) = None \<or> alive s u"
    and "cooperative r i s" "PIDStartTime s \<noteq> 0"
  shows "wp (\<lambda>_. True) (cleanup_candidate r (i, d)) (\<lambda>_. halted i s u) v"
proof -
  have v: "map_of (live v) i = Some d" "map_of (w_procs v) (PID s) = None \<or> alive s v"
    using assms(1,2,6) by (auto simp: untouched_def alive_def)
  have stopped: "halted i s u (mark_stopped now msg i x)"
    if "w_state x = w_state v" "w_tombs x = w_tombs v" "w_torn x = w_torn v" "\<not> alive s x" for x now msg
  proof -
    have "\<exists>d. map_of (live (mark_stopped now msg i x)) i = Some d \<and> Status d = StatusStopped \<and> PID d = 0"
      using that(1) v(1) by (simp add: mark_stopped_def setStopReasonLocked_def)
    then show ?thesis using that(2-4) assms(1) by (simp add: halted_def untouched_def alive_def)
  qed
  show ?thesis
    using v assms(3-5,7,8)
    by (auto simp: cleanup_candidate_def Let_def wp_rules if_same_def same_process_def isProcessAlive_def cooperative_def alive_def
        process_gone_def intro!: stopped)
qed

lemma wp_cleanup_untouched:
  assumes "untouched i s u u" "i \<notin> fst ` set (orphan_candidates u)"
  shows "wp (\<lambda>_. True) (cleanupOrphanedProcesses r) (\<lambda>_. untouched i s u) u"
proof -
  have "wp (\<lambda>_. True) (each (cleanup_candidate r) (orphan_candidates u)) (\<lambda>_. untouched i s u) u"
    using assms(2) by (intro wp_each assms(1) wp_cleanup_other_untouched) auto
  then have "wp (\<lambda>_. True) (each (cleanup_candidate r) (orphan_candidates u)) (\<lambda>_ v. untouched i s u v \<and> untouched i s u (saveStateFile (ra_lastSave r) v)) u"
    by (rule wp_mono) (auto simp: untouched_def saveStateFile_def)
  then show ?thesis using assms(1) by (auto simp: cleanupOrphanedProcesses_def wp_rules elim: wp_mono)
qed

lemma wp_cleanup_halts:
  assumes "untouched i s u u" "map_of (live u) i = Some d" "PID d = PID s" "PIDStartTime d = PIDStartTime s"
    and "Status d = StatusRunning \<or> Status d = StatusErrored" "map_of (w_procs u) (PID s) = None \<or> alive s u"
    and "cooperative r i s" "PIDStartTime s \<noteq> 0" "0 < PID s" "\<not> RemovedHookCleanupPending d" "w_drivers u = []"
    and "distinct (map fst (live u))"
  shows "wp (\<lambda>_. True) (cleanupOrphanedProcesses r) (\<lambda>_ v. halted i s u v \<and> map_of (stored v) i = map_of (live v) i) u"
proof -
  let ?cs = "orphan_candidates u"
  define J where "J xs v \<longleftrightarrow> distinct (map fst xs) \<and> (\<forall>c \<in> set xs. fst c = i \<longrightarrow> snd c = d) \<and>
    (if i \<in> fst ` set xs then untouched i s u v else halted i s u v)" for xs :: "(string \<times> SessionState) list" and v
  have mem: "(i, d) \<in> set ?cs" using assms(2,3,5,9,10,11) by (auto simp: orphan_candidates_def map_of_SomeD)
  have "distinct (map fst ?cs)" using assms(12) by (simp add: orphan_candidates_def distinct_map_filter_key)
  moreover have "snd c = d" if "c \<in> set ?cs" "fst c = i" for c
  proof -
    have "(i, snd c) \<in> set (live u)" using that by (auto simp: orphan_candidates_def)
    then show ?thesis using assms(2,12) by simp
  qed
  moreover have "i \<in> fst ` set ?cs" using imageI [OF mem, of fst] by simp
  ultimately have start: "J ?cs u" using assms(1) unfolding J_def by simp
  have "wp (\<lambda>_. True) (cleanup_candidate r c) (\<lambda>_. J cs) v" if "J (c # cs) v" for c cs v
  proof (cases "fst c = i")
    case True
    then have "c = (i, d)" "untouched i s u v" "i \<notin> fst ` set cs" using that by (auto simp: J_def)
    then show ?thesis using wp_cleanup_self [OF _ assms(2-8), of v] that by (auto simp: J_def elim!: wp_mono)
  next
    case False
    have J: "J cs = (if i \<in> fst ` set cs then untouched i s u else halted i s u)"
      using that by (simp add: J_def fun_eq_iff)
    have "if i \<in> fst ` set cs then untouched i s u v else halted i s u v" using that False by (auto simp: J_def split: if_splits)
    then show ?thesis
      using wp_cleanup_other_untouched [OF False, of s u v r] wp_cleanup_other_halted [OF False, of s u v r]
      by (cases "i \<in> fst ` set cs") (simp_all add: J)
  qed
  then have "wp (\<lambda>_. True) (each (cleanup_candidate r) ?cs) (\<lambda>_. J []) u" by (rule wp_each_rest [where I = J, OF start])
  then have "wp (\<lambda>_. True) (each (cleanup_candidate r) ?cs)
      (\<lambda>_ v. halted i s u (saveStateFile Done v) \<and> map_of (stored (saveStateFile Done v)) i = map_of (live (saveStateFile Done v)) i) u"
    by (rule wp_mono) (simp_all add: J_def halted_def alive_def)
  then show ?thesis using mem assms(7) by (auto simp: cleanupOrphanedProcesses_def wp_rules cooperative_def elim!: wp_mono)
qed

text \<open>The session is gone with everything it had, or it is there, stopped, and has its files; its process
  is dead.\<close>

definition recovered :: "string \<Rightarrow> SessionState \<Rightarrow> world \<Rightarrow> bool" where
  "recovered i s v \<longleftrightarrow>
    \<not> alive s v \<and> map_of (w_tombs v) i = None \<and>
    (deleted i s v \<or>
     i \<notin> set (w_torn v) \<and> (\<exists>d. map_of (stored v) i = Some d \<and> Status d = StatusStopped \<and> PID d = 0))"

definition sweeps :: "recovery_answers \<Rightarrow> (world, bool) run" where
  "sweeps r = seq (reconcileSoftDeletedOrphans r) (\<lambda>_. seq (cleanupOrphanedProcesses r) (\<lambda>_. ret True))"

lemma wp_sweeps:
  assumes "untouched i s u u" "\<And>d. map_of (live u) i = Some d \<Longrightarrow> \<not> IsSoftDeleted d"
    and "\<And>v. untouched i s u v \<Longrightarrow> wp (\<lambda>_. True) (cleanupOrphanedProcesses r) (\<lambda>_. P) v"
  shows "wp (\<lambda>_. True) (sweeps r) (\<lambda>_. P) u"
  unfolding sweeps_def wp_seq
  by (rule wp_mono [OF wp_soft_orphans [OF assms(1,2)]]) (use assms(3) in \<open>auto simp: wp_rules\<close>)

lemma wp_sweeps_vanished:
  assumes "vanished i s u" "w_drivers u = []"
  shows "wp (\<lambda>_. True) (sweeps r) (\<lambda>_. recovered i s) u"
proof (rule wp_sweeps)
  have u: "map_of (live u) i = None" "map_of (stored u) i = None" "\<not> alive s u" "i \<in> set (w_torn u)" "w_tombs u = []"
    using assms(1) by (simp_all add: vanished_def deleted_def)
  then show "untouched i s u u" by (simp add: untouched_def)
  fix v assume v: "untouched i s u v"
  then have none: "map_of (live v) i = None" "map_of (stored v) i = None" using u by (simp_all add: untouched_def)
  then have "i \<notin> fst ` set (orphan_candidates v)" by (auto simp: orphan_candidates_def map_of_eq_None_iff image_iff)
  moreover have "untouched i s v v" using none by (simp add: untouched_def)
  ultimately have "wp (\<lambda>_. True) (cleanupOrphanedProcesses r) (\<lambda>_. untouched i s v) v" by (intro wp_cleanup_untouched)
  then show "wp (\<lambda>_. True) (cleanupOrphanedProcesses r) (\<lambda>_. recovered i s) v"
    by (rule wp_mono) (use u v none in \<open>auto simp: untouched_def recovered_def deleted_def alive_def\<close>)
qed (use assms in \<open>simp add: vanished_def deleted_def\<close>)

lemma wp_sweeps_retained:
  assumes live: "map_of (live u) i = Some d" "map_of (stored u) i = Some d" and core: "\<not> IsSoftDeleted d" "\<not> RemovedHookCleanupPending d"
    and u: "w_tombs u = []" "i \<notin> set (w_torn u)" "w_drivers u = []" "map_of (w_procs u) (PID s) = None \<or> alive s u"
    and keys: "distinct (map fst (live u))" and r: "cooperative r i s" "0 < PID s" "PIDStartTime s \<noteq> 0"
    and d: "PID d = PID s \<and> PIDStartTime d = PIDStartTime s \<and> (Status d = StatusRunning \<or> Status d = StatusErrored) \<or>
      PID d = 0 \<and> Status d = StatusStopped \<and> \<not> alive s u"
  shows "wp (\<lambda>_. True) (sweeps r) (\<lambda>_. recovered i s) u"
proof -
  have same: "untouched i s u u" using live by (simp add: untouched_def)
  have soft: "wp (\<lambda>_. True) (reconcileSoftDeletedOrphans r) (\<lambda>_ v. untouched i s u v \<and> distinct (map fst (live v))) u"
  proof -
    have "distinct (map fst (live (put_session j f v)))" if "distinct (map fst (live v))" for j f v
      using that by (simp add: put_session_def fst_update_keys del: map_map)
    then have one: "wp (\<lambda>_. True) (reconcile_orphan r c) (\<lambda>_ v. distinct (map fst (live v))) v" if "distinct (map fst (live v))" for c v
      using that by (simp add: reconcile_orphan_def wp_rules clear_pid_def killVerifiedProcess_frame split: option.split)
    have "wp (\<lambda>_. True) (each (reconcile_orphan r) (soft_orphans u)) (\<lambda>_ v. distinct (map fst (live v))) u"
      by (rule wp_each [OF keys one])
    then have "wp (\<lambda>_. True) (reconcileSoftDeletedOrphans r) (\<lambda>_ v. distinct (map fst (live v))) u"
      by (simp add: reconcileSoftDeletedOrphans_def wp_rules)
    moreover have "wp (\<lambda>_. True) (reconcileSoftDeletedOrphans r) (\<lambda>_. untouched i s u) u"
      by (rule wp_soft_orphans [OF same]) (use live core in auto)
    ultimately have "wp (\<lambda>_. True \<and> True) (reconcileSoftDeletedOrphans r) (\<lambda>_ v. distinct (map fst (live v)) \<and> untouched i s u v) u"
      by (rule wp_conj)
    then show ?thesis by (rule wp_mono) simp_all
  qed
  have "wp (\<lambda>_. True) (cleanupOrphanedProcesses r) (\<lambda>_. recovered i s) v" if v: "untouched i s u v" and kv: "distinct (map fst (live v))" for v
  proof -
    have vs: "map_of (live v) i = Some d" "map_of (stored v) i = Some d" "w_tombs v = []" "i \<notin> set (w_torn v)" "w_drivers v = []"
        "map_of (w_procs v) (PID s) = None \<or> alive s v" "untouched i s v v" "\<not> alive s u \<Longrightarrow> \<not> alive s v"
      using v live u by (auto simp: untouched_def alive_def)
    show ?thesis
    proof (cases "PID d = 0")
      case True
      have "x = d" if "(i, x) \<in> set (live v)" for x using that vs(1) kv by simp
      then have "i \<notin> fst ` set (orphan_candidates v)" using True by (fastforce simp: orphan_candidates_def)
      from wp_cleanup_untouched [OF vs(7) this, of r] show ?thesis
        by (rule wp_mono) (use vs d True r(2) in \<open>auto simp: untouched_def recovered_def alive_def\<close>)
    next
      case False
      with d have d': "PID d = PID s" "PIDStartTime d = PIDStartTime s" "Status d = StatusRunning \<or> Status d = StatusErrored" by auto
      from wp_cleanup_halts [OF vs(7,1) d' vs(6) r(1,3,2) core(2) vs(5) kv] show ?thesis
        by (rule wp_mono) (use vs in \<open>auto simp: halted_def recovered_def\<close>)
    qed
  qed
  then show ?thesis unfolding sweeps_def wp_seq
    by (intro wp_mono [OF soft]) (auto simp: wp_rules)
qed

text \<open>What a start makes of the record a crash left.\<close>

lemma Reconcile_retained:
  assumes "retained i s (\<not> alive s v) {Status s, StatusErrored} (stored v)" "Status s = StatusRunning" "0 < PID s"
    and "\<not> RemovedHookCleanupPending s" "\<not> IsSoftDeleted s"
  obtains x d where "map_of (stored v) i = Some x" "d = Reconcile_session now v x" "\<not> IsSoftDeleted d" "\<not> RemovedHookCleanupPending d"
    "PID d = PID s \<and> PIDStartTime d = PIDStartTime s \<and> (Status d = StatusRunning \<or> Status d = StatusErrored) \<or>
      PID d = 0 \<and> Status d = StatusStopped \<and> \<not> alive s v"
proof -
  from assms(1,2) obtain x where x: "map_of (stored v) i = Some x" "same_core x s"
    "PID x = PID s \<and> PIDStartTime x = PIDStartTime s \<and> (Status x = StatusRunning \<or> Status x = StatusErrored) \<or>
     PID x = 0 \<and> \<not> alive s v \<and> Status x = StatusStopped"
    by (auto simp: retained_def stopped_status_def)
  have st: "StatusRunning \<noteq> StatusCreating" "StatusErrored \<noteq> StatusCreating" "StatusStopped \<noteq> StatusCreating"
    "StatusRunning \<noteq> StatusDeleting" "StatusErrored \<noteq> StatusDeleting" "StatusStopped \<noteq> StatusDeleting"
    "StatusErrored \<noteq> StatusRunning" "StatusStopped \<noteq> StatusRunning"
    by (simp_all add: StatusRunning_def StatusErrored_def StatusStopped_def StatusCreating_def StatusDeleting_def)
  let ?d = "Reconcile_session now v x"
  have core: "\<not> IsSoftDeleted ?d" "\<not> RemovedHookCleanupPending ?d"
    using x(2) assms(4,5) Reconcile_session_frame(2) [of now v x s] by (auto simp: same_core_def IsSoftDeleted_def)
  have rx: "\<not> RemovedHookCleanupPending x" using x(2) assms(4) by (simp add: same_core_def)
  have "PID ?d = PID s \<and> PIDStartTime ?d = PIDStartTime s \<and> (Status ?d = StatusRunning \<or> Status ?d = StatusErrored) \<or>
      PID ?d = 0 \<and> Status ?d = StatusStopped \<and> \<not> alive s v"
    using x(3) rx st assms(3) by (auto simp: Reconcile_session_def Let_def alive_def isProcessAlive_def)
  then show thesis using that [OF x(1) refl core] by blast
qed

lemma cold_start_recovers:
  assumes "crash_point i s v" "recovery_frame i s v" "Status s = StatusRunning" "0 < PID s" "PIDStartTime s \<noteq> 0"
    and "\<not> RemovedHookCleanupPending s" "\<not> IsSoftDeleted s" "cooperative r i s"
  shows "wp (\<lambda>_. True) (cold_start cfg r) (\<lambda>_. recovered i s) v"
proof -
  define u where "u = fst (LoadState Done (ra_now r) v)"
  note shape = LoadState_shape [OF assms(2) u_def]
  have al: "alive s u = alive s v" using shape(4) by (simp add: alive_def)
  have keys: "distinct (map fst (live u))" and procs: "map_of (w_procs u) (PID s) = None \<or> alive s u"
    using shape(7) by (simp_all add: recovery_frame_def undisturbed_def)
  have body: "wp (\<lambda>_. True) (seq (resumeTombstones cfg r) (\<lambda>_. sweeps r)) (\<lambda>_. recovered i s) u"
  proof (cases "entombed i s v")
    case True
    then have "entombed i s u" using shape(3) by (simp add: entombed_def)
    from wp_resume_entombed [OF shape(7) this assms(8,4,5,6), of cfg]
    show ?thesis unfolding wp_seq by (rule wp_mono) (auto simp: shape(6) intro: wp_sweeps_vanished)
  next
    case False
    then have tombs: "w_tombs u = []"
      using assms(2) shape(3) by (cases "w_tombs v") (auto simp: recovery_frame_def)
    have "wp (\<lambda>_. True) (sweeps r) (\<lambda>_. recovered i s) u"
    proof (cases "map_of (stored v) i")
      case None
      then have "\<not> alive s v" "i \<in> set (w_torn v)" using assms(1) False by (auto simp: crash_point_def retained_def)
      then have "vanished i s u" using None tombs shape al by (simp add: vanished_def deleted_def)
      then show ?thesis using shape(6) by (rule wp_sweeps_vanished)
    next
      case (Some x)
      then have "retained i s (\<not> alive s v) {Status s, StatusErrored} (stored v)" "i \<notin> set (w_torn v)"
        using assms(1) False by (auto simp: crash_point_def)
      then obtain y d where d: "map_of (stored v) i = Some y" "d = Reconcile_session (ra_now r) v y"
          "\<not> IsSoftDeleted d" "\<not> RemovedHookCleanupPending d"
          "PID d = PID s \<and> PIDStartTime d = PIDStartTime s \<and> (Status d = StatusRunning \<or> Status d = StatusErrored) \<or>
            PID d = 0 \<and> Status d = StatusStopped \<and> \<not> alive s u"
        and torn: "i \<notin> set (w_torn u)"
        using Reconcile_retained [OF _ assms(3,4,6,7), of i v "ra_now r"] al shape(5) by metis
      have "map_of (live u) i = Some d" "map_of (stored u) i = Some d" using shape(1) [of i] shape(2) d(1,2) by simp_all
      then show ?thesis
        by (rule wp_sweeps_retained [OF _ _ d(3,4) tombs torn shape(6) procs keys assms(8,4,5) d(5)])
    qed
    then show ?thesis by (simp add: wp_rules wp_resume_none [OF tombs])
  qed
  have "ra_load r = Done" using assms(8) by (simp add: cooperative_def)
  then show ?thesis using body u_def unfolding cold_start_def sweeps_def by (simp add: wp_rules) (simp add: LoadState_def Let_def)
qed


definition example_recovery :: recovery_answers where
  "example_recovery =
    \<lparr>ra_now = 9, ra_load = Done, ra_readable = (\<lambda>_ _. True), ra_readDir = (\<lambda>_. True), ra_childWrite = (\<lambda>_ _. Done),
     ra_childSave = (\<lambda>_ _. Done), ra_childRemove = (\<lambda>_ _. Done),
     ra_os = (\<lambda>_. \<lparr>os_startReadable = True, os_diedMeanwhile = False, os_term = Delivered, os_goneAfterTerm = True,
                    os_kill = Delivered, os_goneAfterKill = True\<rparr>),
     ra_files = (\<lambda>_. True), ra_save = (\<lambda>_ _. Done), ra_hooks = (\<lambda>_ _. True), ra_remove = (\<lambda>_ _. Done),
     ra_orphanSave = (\<lambda>_. Done), ra_lastSave = Done, ra_error = []\<rparr>"


text \<open>A session marked as being deleted whose mark reaches the state file before its tombstone is written
  (as \<open>deleteWithChildren\<close> saves it, and any other operation's save does during \<open>Delete\<close>): the next start
  turns the mark into a stopped session, which no sweep looks at, and its process lives on.\<close>

theorem crash_before_tombstone_strands_process:
  "let v = saveStateFile Done (fst (delete_begin example_delete_config (example_answers True) ''a'' example_world));
       u = final (cold_start example_delete_config example_recovery) v
   in alive example_session u \<and> map_option Status (map_of (stored u) ''a'') = Some StatusStopped \<and> w_tombs u = [] \<and> w_drivers u = []"
  by code_simp

section \<open>The loop over the tombstones ends\<close>

definition within :: "string set \<Rightarrow> world \<Rightarrow> bool" where
  "within U v \<longleftrightarrow> fst ` set (w_tombs v) \<subseteq> U \<and> fst ` set (live v) \<subseteq> U"

lemma within_save [simp]: "within U (saveStateFile r v) = within U v"
  by (simp add: within_def)

lemma within_same: "within U v \<Longrightarrow> w_state u = w_state v \<Longrightarrow> w_tombs u = w_tombs v \<Longrightarrow> within U u"
  by (simp add: within_def)

lemma within_put: "within U v \<Longrightarrow> within U (put_session j f v)"
proof -
  have "map fst (live (put_session j f v)) = map fst (live v)" by (simp add: put_session_def fst_update_keys del: map_map)
  then have "fst ` set (live (put_session j f v)) = fst ` set (live v)" by (metis set_map)
  then show "within U v \<Longrightarrow> within U (put_session j f v)" by (simp add: within_def)
qed

lemma within_removeTombstone: "within U v \<Longrightarrow> within U (fst (removeTombstone r j v))"
  by (auto simp: within_def removeTombstone_def set_map_delete)

lemma within_writeTombstone: "within U v \<Longrightarrow> td_ID (ts_spec t) \<in> U \<Longrightarrow> within U (fst (writeTombstone r t v))"
  by (auto simp: within_def writeTombstone_def map_put_def set_map_delete)

lemma within_drop: "within U v \<Longrightarrow> within U (fst (drop_resumed r j v))"
  by (auto simp: within_def drop_resumed_def Let_def remove_session_def set_map_delete split: option.splits)

lemma wp_within_synthesize:
  "within U v \<Longrightarrow> fst e \<in> U \<Longrightarrow> wp (\<lambda>_. True) (synthesize_child a p e) (\<lambda>_. within U) v"
  by (auto simp: synthesize_child_def tombstoneBeforeBulkTeardown_def tombstone_of_def spec_of_def Let_def wp_rules clear_pid_def
      intro!: within_put within_writeTombstone within_removeTombstone)

lemma wp_within_resume: "within U v \<Longrightarrow> wp (\<lambda>_. True) (resume_one cfg a p e) (\<lambda>_. within U) v"
proof (cases "map_of (w_tombs v) e")
  case (Some t)
  assume v: "within U v"
  let ?i = "td_ID (ts_spec t)"
  have k: "within U (fst (case killVerifiedProcess os x y v of (w', r) \<Rightarrow> (w', \<not> isl r)))" for os x y
    using v by (auto simp: case_prod_beta intro: within_same simp: killVerifiedProcess_frame)
  have t: "within U (fst (teardownArtifacts d ok sp u))" if "within U u" for d ok sp u
    using that by (auto simp: teardownArtifacts_def intro: within_same)
  have "wp (\<lambda>_. True) (resume_finish cfg a p t) (\<lambda>_. within U) v"
    using v k by (auto simp: resume_finish_def Let_def wp_rules intro!: within_removeTombstone within_drop t)
  moreover have "wp (\<lambda>_. True) (each (synthesize_child a p) (filter (\<lambda>e. Status (snd e) = StatusDeleting) (untombed_children v ?i))) (\<lambda>_. within U) v"
    by (rule wp_each [where I = "within U", OF v], rule wp_within_synthesize) (use v in \<open>auto simp: untombed_children_def within_def\<close>)
  ultimately show ?thesis using Some v by (auto simp: resume_one_def Let_def wp_rules)
qed (simp add: resume_one_def wp_rules)

lemma resume_passes_end:
  assumes "within U w" "finite U" "card U \<le> n + p" "distinct es" "set es \<subseteq> U"
  shows "wp (\<lambda>_. True) (resume_passes cfg a n p es) (\<lambda>b _. b) w"
  using assms
proof (induction n arbitrary: p es w)
  case 0
  then have "length es \<le> card U" by (metis card_mono distinct_card)
  then show ?case using 0 by (simp add: wp_rules)
next
  case (Suc n)
  have rest: "wp (\<lambda>_. True) (resume_passes cfg a n (Suc p) (if b then tomb_entries v else es)) (\<lambda>b _. b) v" if "within U v" for b v
    using Suc.prems that by (intro Suc.IH) (auto simp: tomb_entries_def sort_strings_def within_def)
  have "wp (\<lambda>_. True) (each (resume_one cfg a p) es) (\<lambda>_. within U) w"
    by (rule wp_each [where I = "within U", OF Suc.prems(1)]) (rule wp_within_resume)
  then have "wp (\<lambda>_. True) (each (resume_one cfg a p) es) (\<lambda>_ v. wp (\<lambda>_. True) (resume_passes cfg a n (Suc p) (if ra_readDir a p then tomb_entries v else es)) (\<lambda>b _. b) v) w"
    by (rule wp_mono) (use rest in auto)
  then show ?case by (auto simp: wp_rules elim!: wp_mono)
qed


text \<open>\<open>Reconcile\<close> leaves no session marked as being deleted, so on a cold start \<open>resumeTombstones\<close> never writes
  the tombstone of a child that lacks one: a parent with such a child is deferred at every start.\<close>

theorem child_tombstones_never_synthesized:
  assumes "u = fst (LoadState r now w)" and "(j, c) \<in> set (untombed_children u i)" and "\<not> RemovedHookCleanupPending c"
  shows "Status c \<noteq> StatusDeleting"
proof -
  have "live u = map (\<lambda>(i, s). (i, Reconcile_session now w s)) (stored w)"
    unfolding assms(1) by (simp add: LoadState_def Reconcile_def Let_def saveStateFile_def)
  then obtain s where "c = Reconcile_session now w s" using assms(2) by (auto simp: untombed_children_def)
  then show ?thesis using assms(3)
    by (auto simp: Reconcile_session_def Let_def StatusDeleting_def StatusStopped_def StatusErrored_def StatusCreating_def split: if_splits)
qed

end
