(* ===== verification/Soft_Delete.thy ===== *)
theory Soft_Delete
  imports Delete_Recovery
begin

text \<open>
  Recoverable deletion (\<^verbatim>\<open>session_softdelete.go\<close>): a soft delete marks a session with a frozen deadline,
  stops its process and keeps its files; a restore before the deadline brings it back; after the deadline
  it may only be purged. Subtrees are soft-deleted leaves first and restored root first.

  \<open>fmt\<close> prints a time in the daemon's zone; the retention is the configured duration.
\<close>

section \<open>The deadline\<close>

definition shouldPurge :: "SessionState \<Rightarrow> int \<Rightarrow> int \<Rightarrow> bool" where
  "shouldPurge s now fallbackExpiry \<longleftrightarrow>
    (if DeletedAt s = None then False
     else (case ExpiresAt s of None \<Rightarrow> fallbackExpiry | Some e \<Rightarrow> e) \<le> now)"

definition fallbackExpiryLocked :: "int \<Rightarrow> SessionState \<Rightarrow> int \<Rightarrow> int \<times> bool" where
  "fallbackExpiryLocked retention s now =
    (case ExpiresAt s of
       Some e \<Rightarrow> (e, False)
     | None \<Rightarrow> (case DeletedAt s of Some d \<Rightarrow> (d + retention, True) | None \<Rightarrow> (now, True)))"

section \<open>Soft delete\<close>

record soft_config =
  sc_orchestratorEnabled :: bool
  sc_retention :: int

record soft_answers =
  sa_now :: "nat \<Rightarrow> int"
  sa_save :: "nat \<Rightarrow> io"
  sa_driver :: driver_answers
  sa_os :: os_answers
  sa_fmt :: "int \<Rightarrow> string"

definition softDelete_guard :: "soft_config \<Rightarrow> world \<Rightarrow> string \<Rightarrow> bool \<Rightarrow> (lifecycle_error, SessionState) result" where
  "softDelete_guard cfg w i rejectChildren =
    (case map_of (live w) i of
       None \<Rightarrow> Inl (NoSession i)
     | Some s \<Rightarrow>
         fail_when (rejectChildren \<and> subtreeDeleteOverlapsLocked w i) (SubtreeDeletion i)
          (case (if rejectChildren then rejectDeleteWithChildrenLocked w i else None) of
             Some e \<Rightarrow> Inl e
           | None \<Rightarrow>
               (case rejectPendingUpgradeCleanupLocked w i of
                  Some e \<Rightarrow> Inl e
                | None \<Rightarrow>
                    fail_when (IsSystemSession s \<and> systemSessionEnabledInConfig (sc_orchestratorEnabled cfg) s)
                      (ManagedSystemSession (Name s))
                     (fail_when (Starred s) (IsStarred i)
                       (fail_when (IsSoftDeleted s) (AlreadyDeleted (Name s))
                         (fail_when (Status s = StatusCreating) (StillCreating (Name s))
                           (fail_when (Status s = StatusDeleting) (AlreadyDeleting i) (Inr s))))))))"

definition softDeleteSummary :: "(int \<Rightarrow> string) \<Rightarrow> int \<Rightarrow> string" where
  "softDeleteSummary fmt expiresAt = ''Soft-deleted, recoverable until '' @ fmt expiresAt"

definition soft_mark :: "soft_config \<Rightarrow> soft_answers \<Rightarrow> SessionState \<Rightarrow> SessionState" where
  "soft_mark cfg a s =
    (let now = sa_now a 0; expiresAt = now + sc_retention cfg
     in applyLifecycleSummaryLocked (sa_now a 1) (softDeleteSummary (sa_fmt a) expiresAt)
          (s\<lparr>DeletedAt := Some now, ExpiresAt := Some expiresAt, Status := StatusStopped, StatusChangedAt := now\<rparr>))"

definition soft_rollback :: "string \<Rightarrow> SessionState \<Rightarrow> world \<Rightarrow> world" where
  "soft_rollback i s w = put_session i (\<lambda>x. x\<lparr>DeletedAt := None, ExpiresAt := None, Status := Status s\<rparr>) w"

text \<open>The first critical section: the guards, the mark and its save.\<close>

definition softDelete_begin ::
  "soft_config \<Rightarrow> soft_answers \<Rightarrow> string \<Rightarrow> bool \<Rightarrow> world \<Rightarrow> world \<times> (lifecycle_error, delete_snapshot) result" where
  "softDelete_begin cfg a i rejectChildren w =
    (case softDelete_guard cfg w i rejectChildren of
       Inl e \<Rightarrow> (w, Inl e)
     | Inr s \<Rightarrow>
         let (w1, previous) = clearOrchestratorAttentionForSessionLocked i (put_session i (soft_mark cfg a) w);
             w2 = saveStateFile (sa_save a 0) w1
         in if reported (sa_save a 0)
            then (detach_runtime i w2,
                  Inr \<lparr>sn_session = s, sn_driver = map_of (w_drivers w) i, sn_client = (i \<in> set (w_clients w))\<rparr>)
            else (put_attention previous (soft_rollback i s w2), Inl MarkerNotSaved))"

text \<open>The process is told to stop; the value is \<^verbatim>\<open>killedOK\<close>. Nothing is learned from a driver.\<close>

definition softDelete_stop :: "soft_answers \<Rightarrow> delete_snapshot \<Rightarrow> (world, bool) run" where
  "softDelete_stop a sn =
    (case sn_driver sn of
       Some pid \<Rightarrow> act (\<lambda>w. (fst (teardownLiveDriver (sa_driver a) pid w), True))
     | None \<Rightarrow>
         if 0 < PID (sn_session sn) then
           act (\<lambda>w. case killVerifiedProcess (sa_os a) (PID (sn_session sn)) (PIDStartTime (sn_session sn)) w of
                  (w', r) \<Rightarrow> (w', \<not> isl r))
         else ret True)"

definition softDelete_end :: "soft_answers \<Rightarrow> string \<Rightarrow> bool \<Rightarrow> world \<Rightarrow> world \<times> SessionState option" where
  "softDelete_end a i killedOK w =
    (case map_of (live w) i of
       None \<Rightarrow> (w, None)
     | Some _ \<Rightarrow>
         let w1 = (if killedOK then clear_pid i w else w)
         in (saveStateFile (sa_save a 1) w1, map_of (live w1) i))"

definition softDelete ::
  "soft_config \<Rightarrow> soft_answers \<Rightarrow> string \<Rightarrow> bool \<Rightarrow> (world, (lifecycle_error, SessionState option) result) run" where
  "softDelete cfg a i rejectChildren =
    seq (act beginLifecycleOperation) (\<lambda>refused. case refused of
      Some e \<Rightarrow> ret (Inl e)
    | None \<Rightarrow>
        seq (act (softDelete_begin cfg a i rejectChildren)) (\<lambda>b.
          seq (case b of
                 Inl e \<Rightarrow> ret (Inl e)
               | Inr sn \<Rightarrow>
                   seq (act (\<lambda>w. (publishPendingStatusChangeEvent
                     (pendingSessionStatusChangeEvent i (soft_mark cfg a (sn_session sn)) (Status (sn_session sn))) w, ()))) (\<lambda>_.
                   seq (softDelete_stop a sn) (\<lambda>killedOK.
                   seq (act (softDelete_end a i killedOK)) (\<lambda>snapshot.
                   act (\<lambda>w. (publish (SessionDeleted i (case snapshot of None \<Rightarrow> [] | Some s \<Rightarrow> Name s)
                        (case Option.bind snapshot DeletedAt of None \<Rightarrow> sa_now a 2 | Some d \<Rightarrow> d)) w, Inr snapshot)))))) (\<lambda>r.
            seq (act (\<lambda>w. (endLifecycleOperation w, ()))) (\<lambda>_. ret r))))"

definition SoftDelete :: "soft_config \<Rightarrow> soft_answers \<Rightarrow> string \<Rightarrow> (world, (lifecycle_error, SessionState option) result) run" where
  "SoftDelete cfg a i = softDelete cfg a i True"

section \<open>Soft-deleting a subtree\<close>

definition softDeletableLocked :: "SessionState option \<Rightarrow> bool" where
  "softDeletableLocked s \<longleftrightarrow>
    (case s of
       None \<Rightarrow> False
     | Some s \<Rightarrow> \<not> IsSoftDeleted s \<and> \<not> Starred s \<and> \<not> IsSystemSession s \<and> Status s \<noteq> StatusCreating \<and> Status s \<noteq> StatusDeleting)"

definition filterExcludeRoot :: "string list \<Rightarrow> string \<Rightarrow> string list" where
  "filterExcludeRoot ids rootID = filter (\<lambda>i. i \<noteq> rootID) ids"

definition soft_preflight :: "string \<Rightarrow> bool \<Rightarrow> world \<Rightarrow> (lifecycle_error, string list) result" where
  "soft_preflight rootID excludeRoot w =
    (if map_of (live w) rootID = None then Inl (NoSession rootID)
     else if subtreeDeleteOverlapsLocked w rootID then Inl (SubtreeDeletion rootID)
     else case (if excludeRoot then None else rejectUnsafeDeleteRootLocked w rootID False) of
         Some e \<Rightarrow> Inl e
       | None \<Rightarrow>
           (case rejectUnsafeDeleteDescendantsLocked w rootID of
              Some e \<Rightarrow> Inl e
            | None \<Rightarrow>
                let initial = (if excludeRoot then filterExcludeRoot (below w rootID) rootID else below w rootID)
                in case rejectPendingUpgradeCleanupForIDsLocked w initial of Some e \<Rightarrow> Inl e | None \<Rightarrow> Inr initial))"

text \<open>The reservation of the root, with the optional predicate that every session of the subtree is owned.\<close>

definition soft_reserve ::
  "string \<Rightarrow> (string \<Rightarrow> SessionState option \<Rightarrow> bool) option \<Rightarrow> world \<Rightarrow> world \<times> lifecycle_error option" where
  "soft_reserve rootID owned w =
    (if subtreeDeleteOverlapsLocked w rootID then (w, Some (SubtreeDeletion rootID))
     else case owned of
         Some own \<Rightarrow>
           if \<not> own rootID (map_of (live w) rootID) then (w, Some (UnsafeRoot rootID ''owner''))
           else if \<not> list_all (\<lambda>d. own d (map_of (live w) d)) (below w rootID) then (w, Some (UnsafeDescendant rootID ''owner''))
           else (w\<lparr>w_roots := rootID # w_roots w\<rparr>, None)
       | None \<Rightarrow> (w\<lparr>w_roots := rootID # w_roots w\<rparr>, None))"

definition soft_release :: "string \<Rightarrow> world \<Rightarrow> world" where
  "soft_release rootID w = w\<lparr>w_roots := filter (\<lambda>i. i \<noteq> rootID) (w_roots w)\<rparr>"

record soft_progress =
  sp_seen :: "string list"
  sp_deleted :: "string list"
  sp_errors :: "lifecycle_error list"

text \<open>\<open>a i n\<close> answers the attempt on \<open>i\<close> made after \<open>n\<close> failures.\<close>

definition softDeleteOne ::
  "soft_config \<Rightarrow> (string \<Rightarrow> nat \<Rightarrow> soft_answers) \<Rightarrow> string \<Rightarrow> soft_progress \<Rightarrow> (world, soft_progress) run" where
  "softDeleteOne cfg a i p =
    (if i \<in> set (sp_seen p) then ret p
     else seq (act (\<lambda>w. (w, softDeletableLocked (map_of (live w) i)))) (\<lambda>ok.
       if \<not> ok then ret (p\<lparr>sp_seen := i # sp_seen p\<rparr>)
       else seq (softDelete cfg (a i (length (sp_errors p))) i False) (\<lambda>r.
         case r of
           Inl e \<Rightarrow> ret (p\<lparr>sp_errors := sp_errors p @ [ForSession i e]\<rparr>)
         | Inr _ \<Rightarrow> ret (p\<lparr>sp_seen := i # sp_seen p, sp_deleted := sp_deleted p @ [i]\<rparr>))))"

definition late_descendants :: "soft_progress \<Rightarrow> world \<Rightarrow> string list" where
  "late_descendants p w =
    map fst (filter (\<lambda>(i, s). i \<notin> set (sp_seen p) \<and> ParentID s \<noteq> [] \<and> ParentID s \<in> set (sp_seen p)) (live w))"

text \<open>The rounds of the sweep; \<open>others n\<close> is what other operations did to the world before round \<open>n\<close>.\<close>

fun soft_sweep ::
  "soft_config \<Rightarrow> (string \<Rightarrow> nat \<Rightarrow> soft_answers) \<Rightarrow> (nat \<Rightarrow> world \<Rightarrow> world) \<Rightarrow> nat \<Rightarrow> soft_progress \<Rightarrow> (world, soft_progress) run" where
  "soft_sweep cfg a others 0 p = ret p"
| "soft_sweep cfg a others (Suc n) p =
    seq (act (\<lambda>w. (others n w, late_descendants p (others n w)))) (\<lambda>late.
      if late = [] then ret p
      else seq (thread (softDeleteOne cfg a) late p) (soft_sweep cfg a others n))"

definition maxSweepRounds :: nat where "maxSweepRounds = 10"

definition softDeleteWithChildren ::
  "soft_config \<Rightarrow> (string \<Rightarrow> nat \<Rightarrow> soft_answers) \<Rightarrow> (nat \<Rightarrow> world \<Rightarrow> world) \<Rightarrow> string \<Rightarrow> bool \<Rightarrow>
    (string \<Rightarrow> SessionState option \<Rightarrow> bool) option \<Rightarrow> (world, string list \<times> lifecycle_error list) run" where
  "softDeleteWithChildren cfg a others rootID excludeRoot owned =
    seq (act beginLifecycleOperation) (\<lambda>refused. case refused of
      Some e \<Rightarrow> ret ([], [e])
    | None \<Rightarrow>
        seq (act (\<lambda>w. (w, soft_preflight rootID excludeRoot w))) (\<lambda>pre.
          seq (case pre of
                 Inl e \<Rightarrow> ret ([], [e])
               | Inr initial \<Rightarrow>
                   seq (act (soft_reserve rootID owned)) (\<lambda>refused. case refused of
                     Some e \<Rightarrow> ret ([], [e])
                   | None \<Rightarrow>
                       seq (thread (softDeleteOne cfg a) initial \<lparr>sp_seen = [], sp_deleted = [], sp_errors = []\<rparr>) (\<lambda>p.
                         seq (soft_sweep cfg a others maxSweepRounds p) (\<lambda>p.
                           act (\<lambda>w. (soft_release rootID w, (sp_deleted p, sp_errors p))))))) (\<lambda>r.
            seq (act (\<lambda>w. (endLifecycleOperation w, ()))) (\<lambda>_. ret r))))"

section \<open>Restore\<close>

definition restored_text :: string where
  "restored_text = ''Restored '' @ em_dash @ '' resume to continue''"

definition restore_mark :: "int \<Rightarrow> int \<Rightarrow> SessionState \<Rightarrow> SessionState" where
  "restore_mark now now' s =
    applyLifecycleSummaryLocked now' restored_text
      (s\<lparr>DeletedAt := None, ExpiresAt := None, Status := StatusStopped, StatusChangedAt := now\<rparr>)"

definition restore_guard :: "int \<Rightarrow> int \<Rightarrow> world \<Rightarrow> string \<Rightarrow> (lifecycle_error, SessionState) result" where
  "restore_guard retention now w i =
    (case map_of (live w) i of
       None \<Rightarrow> Inl (NoSession i)
     | Some s \<Rightarrow>
         (case rejectPendingUpgradeCleanupLocked w i of
            Some e \<Rightarrow> Inl e
          | None \<Rightarrow>
              fail_when (\<not> IsSoftDeleted s) (NotDeleted (Name s))
               (fail_when (subtreeDeleteOverlapsLocked w i) (SubtreeDeletion (Name s))
                 (fail_when (shouldPurge s now (fst (fallbackExpiryLocked retention s now))) (WindowExpired (Name s))
                   (case (if ParentID s = [] then None else map_of (live w) (ParentID s)) of
                      Some parent \<Rightarrow>
                        fail_when (IsSoftDeleted parent \<or> Status parent = StatusDeleting) (ParentHidden (Name s) (Name parent)) (Inr s)
                    | None \<Rightarrow> Inr s)))))"

definition restoreLocked :: "int \<Rightarrow> (nat \<Rightarrow> int) \<Rightarrow> string \<Rightarrow> world \<Rightarrow> world \<times> (lifecycle_error, SessionState) result" where
  "restoreLocked retention now i w =
    (case restore_guard retention (now 0) w i of
       Inl e \<Rightarrow> (w, Inl e)
     | Inr s \<Rightarrow> (put_session i (\<lambda>_. restore_mark (now 1) (now 2) s) w, Inr (restore_mark (now 1) (now 2) s)))"

text \<open>A save that takes the latest state and is retried until no other save came in between; the lock is
  free before it, so \<open>w\<close> is the state it finds.\<close>

definition persistLatestUpgradeState :: "io \<Rightarrow> world \<Rightarrow> world \<times> bool" where
  "persistLatestUpgradeState r w = (saveStateFile r w, reported r)"

definition rollback_restored :: "string \<times> SessionState \<Rightarrow> world \<Rightarrow> world" where
  "rollback_restored e w =
    (case map_of (live w) (fst e) of
       None \<Rightarrow> w
     | Some current \<Rightarrow>
         if DeletedAt current \<noteq> None \<or> ExpiresAt current \<noteq> None \<or> Status current \<noteq> StatusStopped then w
         else put_session (fst e) (\<lambda>_. snd e) w)"

definition rollbackRestoredStates :: "io \<Rightarrow> (string \<times> SessionState) list \<Rightarrow> (world, unit) run" where
  "rollbackRestoredStates r originals =
    seq (act (\<lambda>w. (fold rollback_restored originals w, ()))) (\<lambda>_.
      act (\<lambda>w. (fst (persistLatestUpgradeState r w), ())))"

record restore_answers =
  rr_now :: "string \<Rightarrow> nat \<Rightarrow> int"
  rr_save :: io
  rr_rollbackSave :: io

definition Restore ::
  "int \<Rightarrow> restore_answers \<Rightarrow> string \<Rightarrow> (world, (lifecycle_error, SessionState) result) run" where
  "Restore retention a i =
    seq (act beginLifecycleOperation) (\<lambda>refused. case refused of
      Some e \<Rightarrow> ret (Inl e)
    | None \<Rightarrow>
        seq (act (\<lambda>w. case map_of (live w) i of
               None \<Rightarrow> (w, Inl (NoSession i))
             | Some before \<Rightarrow>
                 (case rejectPendingUpgradeCleanupLocked w i of
                    Some e \<Rightarrow> (w, Inl e)
                  | None \<Rightarrow>
                      (case restoreLocked retention (rr_now a i) i w of
                         (w', Inl e) \<Rightarrow> (w', Inl e)
                       | (w', Inr s) \<Rightarrow> (w', Inr (before, s)))))) (\<lambda>r.
          seq (case r of
                 Inl e \<Rightarrow> ret (Inl e)
               | Inr x \<Rightarrow>
                   seq (act (persistLatestUpgradeState (rr_save a))) (\<lambda>saved.
                     if saved then ret (Inr (snd x))
                     else seq (rollbackRestoredStates (rr_rollbackSave a) [(i, fst x)]) (\<lambda>_. ret (Inl StateNotPersisted)))) (\<lambda>r.
            seq (act (\<lambda>w. (endLifecycleOperation w, ()))) (\<lambda>_. ret r))))"

text \<open>The loop over a subtree, root first: what was restored and the originals.\<close>

fun restore_each ::
  "int \<Rightarrow> restore_answers \<Rightarrow> string list \<Rightarrow> world \<Rightarrow> world \<times> SessionState list \<times> (string \<times> SessionState) list" where
  "restore_each retention a [] w = (w, [], [])"
| "restore_each retention a (i # is) w =
    (case map_of (live w) i of
       None \<Rightarrow> restore_each retention a is w
     | Some s \<Rightarrow>
         if \<not> IsSoftDeleted s then restore_each retention a is w
         else case restoreLocked retention (rr_now a i) i w of
             (w1, Inl e) \<Rightarrow> restore_each retention a is w1
           | (w1, Inr x) \<Rightarrow>
               (case restore_each retention a is w1 of (w2, xs, os) \<Rightarrow> (w2, x # xs, (i, s) # os)))"

definition restore_subtree ::
  "int \<Rightarrow> restore_answers \<Rightarrow> string \<Rightarrow> world \<Rightarrow> world \<times> (lifecycle_error, SessionState list \<times> (string \<times> SessionState) list) result" where
  "restore_subtree retention a rootID w =
    (case map_of (live w) rootID of
       None \<Rightarrow> (w, Inl (NoSession rootID))
     | Some _ \<Rightarrow>
         (case rejectPendingUpgradeCleanupForIDsLocked w (below w rootID) of
            Some e \<Rightarrow> (w, Inl e)
          | None \<Rightarrow>
              (case restore_each retention a (rev (below w rootID)) w of
                 (w', xs, os) \<Rightarrow> if xs = [] then (w', Inl (NotDeleted rootID)) else (w', Inr (xs, os)))))"

definition RestoreWithChildren ::
  "int \<Rightarrow> restore_answers \<Rightarrow> string \<Rightarrow> (world, (lifecycle_error, SessionState list) result) run" where
  "RestoreWithChildren retention a rootID =
    seq (act beginLifecycleOperation) (\<lambda>refused. case refused of
      Some e \<Rightarrow> ret (Inl e)
    | None \<Rightarrow>
        seq (act (restore_subtree retention a rootID)) (\<lambda>r.
          seq (case r of
                 Inl e \<Rightarrow> ret (Inl e)
               | Inr x \<Rightarrow>
                   seq (act (persistLatestUpgradeState (rr_save a))) (\<lambda>saved.
                     if saved then ret (Inr (fst x))
                     else seq (rollbackRestoredStates (rr_rollbackSave a) (snd x)) (\<lambda>_. ret (Inl StateNotPersisted)))) (\<lambda>r.
            seq (act (\<lambda>w. (endLifecycleOperation w, ()))) (\<lambda>_. ret r))))"

definition softDeletedDescendantCount :: "world \<Rightarrow> string \<Rightarrow> nat" where
  "softDeletedDescendantCount w i =
    length (filter (\<lambda>d. d \<noteq> i \<and> (case map_of (live w) d of None \<Rightarrow> False | Some s \<Rightarrow> IsSoftDeleted s)) (below w i))"

section \<open>Deleting and restoring\<close>

lemma no_roots_active: "subtreeDeleteActive_loop ss [] seen i = False"
  by (induction ss "[] :: string list" seen i rule: subtreeDeleteActive_loop.induct)
    (simp add: subtreeDeleteActive_loop.simps split: option.split)

lemma no_roots_overlap: "w_roots w = [] \<Longrightarrow> \<not> subtreeDeleteOverlapsLocked w i"
  by (simp add: subtreeDeleteOverlapsLocked_def subtreeDeleteActive_def subtreeDeleteActiveLocked_def no_roots_active list_ex_iff)

lemma runtime_simps [simp]:
  "w_roots (put_session i f w) = w_roots w" "w_upgradePending (put_session i f w) = w_upgradePending w"
  "w_shutdownPending (put_session i f w) = w_shutdownPending w"
  "st_UpgradeCleanup (w_state (put_session i f w)) = st_UpgradeCleanup (w_state w)"
  "w_roots (saveStateFile r w) = w_roots w" "w_upgradePending (saveStateFile r w) = w_upgradePending w"
  "w_shutdownPending (saveStateFile r w) = w_shutdownPending w"
  by (simp_all add: put_session_def saveStateFile_def)

lemma attention_simps [simp]:
  "live (fst (clearOrchestratorAttentionForSessionLocked i w)) = live w"
  "st_UpgradeCleanup (w_state (fst (clearOrchestratorAttentionForSessionLocked i w))) = st_UpgradeCleanup (w_state w)"
  "w_disk (fst (clearOrchestratorAttentionForSessionLocked i w)) = w_disk w"
  "w_torn (fst (clearOrchestratorAttentionForSessionLocked i w)) = w_torn w"
  "w_procs (fst (clearOrchestratorAttentionForSessionLocked i w)) = w_procs w"
  "w_roots (fst (clearOrchestratorAttentionForSessionLocked i w)) = w_roots w"
  "w_upgradePending (fst (clearOrchestratorAttentionForSessionLocked i w)) = w_upgradePending w"
  "w_shutdownPending (fst (clearOrchestratorAttentionForSessionLocked i w)) = w_shutdownPending w"
  by (simp_all add: clearOrchestratorAttentionForSessionLocked_def split: option.split)

text \<open>What the parts of a soft delete leave alone.\<close>

definition soft_frame :: "world \<Rightarrow> world \<Rightarrow> bool" where
  "soft_frame w v \<longleftrightarrow> w_torn v = w_torn w \<and> w_roots v = w_roots w \<and> w_upgradePending v = w_upgradePending w \<and>
    w_shutdownPending v = w_shutdownPending w \<and> st_UpgradeCleanup (w_state v) = st_UpgradeCleanup (w_state w)"

lemma softDelete_guard_Inr:
  assumes "softDelete_guard cfg w i rc = Inr s"
  shows "map_of (live w) i = Some s \<and> \<not> IsSoftDeleted s \<and> \<not> Starred s \<and> Status s \<noteq> StatusCreating \<and> Status s \<noteq> StatusDeleting \<and>
    rejectPendingUpgradeCleanupLocked w i = None \<and> (rc \<longrightarrow> rejectDeleteWithChildrenLocked w i = None)"
  using assms by (auto simp: softDelete_guard_def fail_when_Inr split: option.splits if_splits)

text \<open>A soft delete that succeeds has marked the session with the frozen deadline, has changed no other
  session, and has at most dropped the process of its record.\<close>

lemma softDelete_begin_Inr:
  assumes "softDelete_begin cfg a i rc w = (v, Inr sn)"
  shows "softDelete_guard cfg w i rc = Inr (sn_session sn) \<and> soft_frame w v \<and> reported (sa_save a 0) \<and>
    (\<forall>j. map_of (live v) j = (if j = i then Some (soft_mark cfg a (sn_session sn)) else map_of (live w) j)) \<and>
    w_disk v = w_state v \<and> w_procs v = w_procs w \<and> sn_driver sn = map_of (w_drivers w) i"
  using assms
  by (auto simp: softDelete_begin_def soft_frame_def Let_def detach_runtime_def reported_performed case_prod_beta saveStateFile_def
      split: sum.splits if_splits dest!: softDelete_guard_Inr)

lemma softDelete_guard_begin [simp]: "softDelete_guard cfg (fst (beginLifecycleOperation w)) i rc = softDelete_guard cfg w i rc"
proof -
  have "w_state (fst (beginLifecycleOperation w)) = w_state w" "w_roots (fst (beginLifecycleOperation w)) = w_roots w"
    by (simp_all add: beginLifecycleOperation_def)
  then have "rejectPendingUpgradeCleanupLocked (fst (beginLifecycleOperation w)) i = rejectPendingUpgradeCleanupLocked w i"
    "rejectDeleteWithChildrenLocked (fst (beginLifecycleOperation w)) i = rejectDeleteWithChildrenLocked w i"
    "subtreeDeleteOverlapsLocked (fst (beginLifecycleOperation w)) i = subtreeDeleteOverlapsLocked w i"
    "live (fst (beginLifecycleOperation w)) = live w"
    by (simp_all add: rejectPendingUpgradeCleanupLocked_def rejectDeleteWithChildrenLocked_def
      subtreeDeleteOverlapsLocked_def subtreeDeleteActive_def below_def)
  then show ?thesis by (simp add: softDelete_guard_def cong: option.case_cong)
qed

definition no_process :: "SessionState \<Rightarrow> SessionState" where
  "no_process s = s\<lparr>PID := 0, PIDStartTime := 0\<rparr>"

text \<open>The world after a soft delete of \<open>i\<close> from \<open>w\<close>.\<close>

definition soft_deleted :: "soft_config \<Rightarrow> soft_answers \<Rightarrow> string \<Rightarrow> bool \<Rightarrow> world \<Rightarrow> SessionState \<Rightarrow> world \<Rightarrow> bool" where
  "soft_deleted cfg a i rc w x v \<longleftrightarrow>
    (\<exists>s m. softDelete_guard cfg w i rc = Inr s \<and> m = soft_mark cfg a s \<and> (x = m \<or> x = no_process m) \<and> soft_frame w v \<and>
      (\<forall>j. map_of (live v) j = (if j = i then Some x else map_of (live w) j)) \<and>
      (\<exists>d. map_of (stored v) i = Some d \<and> (d = m \<or> d = no_process m)))"

lemma softDelete_end_shape:
  assumes "map_of (live v) i = Some m" "map_of (stored v) i = Some m" "softDelete_end a i k v = (u, y)"
  shows "\<exists>x. y = Some x \<and> (x = m \<or> x = no_process m) \<and> (\<forall>j. map_of (live u) j = (if j = i then Some x else map_of (live v) j)) \<and>
    (\<exists>d. map_of (stored u) i = Some d \<and> (d = m \<or> d = no_process m)) \<and> soft_frame v u"
  using assms by (auto simp: softDelete_end_def Let_def clear_pid_def no_process_def soft_frame_def split: if_splits)

lemma soft_frame_trans: "soft_frame w v \<Longrightarrow> soft_frame v u \<Longrightarrow> soft_frame w u"
  by (simp add: soft_frame_def)

lemma wp_softDelete_stop:
  assumes "live v = live w" "w_disk v = w_disk w" "soft_frame w v"
  shows "wp (\<lambda>_. True) (softDelete_stop a sn) (\<lambda>_ u. live u = live w \<and> w_disk u = w_disk w \<and> soft_frame w u) v"
  using assms by (auto simp: softDelete_stop_def wp_rules killVerifiedProcess_def teardownLiveDriver_def process_gone_def soft_frame_def
      split: option.split)

lemma wp_softDelete:
  "wp (\<lambda>_. True) (softDelete cfg a i rc) (\<lambda>r v. \<forall>x. r = Inr x \<longrightarrow> (\<exists>m. x = Some m \<and> soft_deleted cfg a i rc w m v)) w"
proof -
  let ?w0 = "fst (beginLifecycleOperation w)"
  have f0: "soft_frame w ?w0" "live ?w0 = live w" by (simp_all add: beginLifecycleOperation_def soft_frame_def)
  obtain v b where b: "softDelete_begin cfg a i rc ?w0 = (v, b)" by fastforce
  have body: "wp (\<lambda>_. True)
      (seq (act (\<lambda>w. (publishPendingStatusChangeEvent (pendingSessionStatusChangeEvent i (soft_mark cfg a (sn_session sn)) (Status (sn_session sn))) w, ())))
        (\<lambda>_. seq (softDelete_stop a sn) (\<lambda>k. seq (act (softDelete_end a i k)) (\<lambda>y.
          act (\<lambda>w. (publish (SessionDeleted i (case y of None \<Rightarrow> [] | Some s \<Rightarrow> Name s)
            (case Option.bind y DeletedAt of None \<Rightarrow> sa_now a 2 | Some d \<Rightarrow> d)) w, Inr y))))))
      (\<lambda>r u. \<forall>x. r = Inr x \<longrightarrow> (\<exists>m. x = Some m \<and> soft_deleted cfg a i rc w m (endLifecycleOperation u))) v"
    if "b = Inr sn" for sn
  proof -
    let ?m = "soft_mark cfg a (sn_session sn)"
    from softDelete_begin_Inr [of cfg a i rc ?w0 v sn] b that
    have v: "softDelete_guard cfg w i rc = Inr (sn_session sn)" "soft_frame w v" "w_disk v = w_state v"
        "\<And>j. map_of (live v) j = (if j = i then Some ?m else map_of (live w) j)"
      using f0 by (auto intro: soft_frame_trans)
    let ?p = "publishPendingStatusChangeEvent (pendingSessionStatusChangeEvent i ?m (Status (sn_session sn))) v"
    have p: "live ?p = live v" "w_disk ?p = w_disk v" "soft_frame v ?p"
      by (auto simp: publishPendingStatusChangeEvent_def publish_def soft_frame_def split: option.split)
    have fin: "\<exists>m. y = Some m \<and> soft_deleted cfg a i rc w m (endLifecycleOperation (publish e u'))"
      if "live u = live v \<and> w_disk u = w_disk v \<and> soft_frame v u" "softDelete_end a i k u = (u', y)" for u k u' y e
    proof -
      from softDelete_end_shape [of u i ?m a k u' y] that v obtain x where
        "y = Some x" "x = ?m \<or> x = no_process ?m" "\<And>j. map_of (live u') j = (if j = i then Some x else map_of (live u) j)"
        "\<exists>d. map_of (stored u') i = Some d \<and> (d = ?m \<or> d = no_process ?m)" "soft_frame u u'" by auto
      moreover have "soft_frame w u'" using soft_frame_trans [OF v(2)] that(1) \<open>soft_frame u u'\<close> by (blast intro: soft_frame_trans)
      ultimately show ?thesis using v that(1)
        by (auto simp: soft_deleted_def endLifecycleOperation_def publish_def soft_frame_def)
    qed
    show ?thesis
      unfolding wp_seq wp_act
      by (simp, rule wp_mono [OF wp_softDelete_stop [OF p]]) (use fin in \<open>auto simp: wp_rules\<close>)
  qed
  show ?thesis using body b by (auto simp: softDelete_def wp_rules)
qed

text \<open>A restore that passes its guard and is saved.\<close>

lemma Restore_saved:
  assumes "restore_guard retention (rr_now r i 0) u i = Inr d" "\<not> w_upgradePending u" "\<not> w_shutdownPending u" "rr_save r = Done"
  shows "wp (\<lambda>_. True) (Restore retention r i) (\<lambda>res v. res = Inr (restore_mark (rr_now r i 1) (rr_now r i 2) d) \<and>
    (\<forall>j. map_of (live v) j = (if j = i then Some (restore_mark (rr_now r i 1) (rr_now r i 2) d) else map_of (live u) j)) \<and>
    w_disk v = w_state v \<and> w_torn v = w_torn u \<and> w_procs v = w_procs u) u"
proof -
  let ?u0 = "fst (beginLifecycleOperation u)"
  have u0: "w_state ?u0 = w_state u" "w_roots ?u0 = w_roots u" "snd (beginLifecycleOperation u) = None" "w_torn ?u0 = w_torn u" "w_procs ?u0 = w_procs u"
    using assms(2,3) by (simp_all add: beginLifecycleOperation_def)
  have guards: "rejectPendingUpgradeCleanupLocked ?u0 i = rejectPendingUpgradeCleanupLocked u i"
      "subtreeDeleteOverlapsLocked ?u0 i = subtreeDeleteOverlapsLocked u i"
    using u0 by (simp_all add: rejectPendingUpgradeCleanupLocked_def subtreeDeleteOverlapsLocked_def subtreeDeleteActive_def below_def)
  have d: "map_of (live u) i = Some d" "rejectPendingUpgradeCleanupLocked u i = None"
    using assms(1) by (auto simp: restore_guard_def fail_when_Inr split: option.splits if_splits)
  have "restore_guard retention (rr_now r i 0) ?u0 i = Inr d"
    using assms(1) guards u0(1) by (simp add: restore_guard_def cong: option.case_cong if_cong)
  then show ?thesis using d guards u0 assms(4)
    by (simp add: Restore_def wp_rules restoreLocked_def persistLatestUpgradeState_def endLifecycleOperation_def)
qed

lemma soft_mark_simps [simp]:
  "DeletedAt (soft_mark cfg a s) = Some (sa_now a 0)" "ExpiresAt (soft_mark cfg a s) = Some (sa_now a 0 + sc_retention cfg)"
  "Status (soft_mark cfg a s) = StatusStopped" "ParentID (soft_mark cfg a s) = ParentID s" "Name (soft_mark cfg a s) = Name s"
  "RemovedHookCleanupPending (soft_mark cfg a s) = RemovedHookCleanupPending s" "SystemKind (soft_mark cfg a s) = SystemKind s"
  by (simp_all add: soft_mark_def Let_def applyLifecycleSummaryLocked_def)

lemma no_process_simps [simp]:
  "DeletedAt (no_process s) = DeletedAt s" "ExpiresAt (no_process s) = ExpiresAt s" "ParentID (no_process s) = ParentID s"
  "RemovedHookCleanupPending (no_process s) = RemovedHookCleanupPending s" "Name (no_process s) = Name s"
  by (simp_all add: no_process_def)

text \<open>Two records that agree on everything but status, summary, process and deadline.\<close>

definition same_session :: "SessionState \<Rightarrow> SessionState \<Rightarrow> bool" where
  "same_session x s \<longleftrightarrow>
    x\<lparr>Status := Status s, StatusChangedAt := StatusChangedAt s, SummaryText := SummaryText s, SummarySetAt := SummarySetAt s,
      SummaryTTL := SummaryTTL s, PID := PID s, PIDStartTime := PIDStartTime s, ExpiresAt := ExpiresAt s\<rparr> = s"

lemma restored_same:
  "DeletedAt s = None \<Longrightarrow> m = soft_mark cfg a s \<Longrightarrow> x = m \<or> x = no_process m \<Longrightarrow> same_session (restore_mark t t' x) s"
  by (auto simp: same_session_def restore_mark_def soft_mark_def no_process_def applyLifecycleSummaryLocked_def Let_def)

text \<open>C8: a soft-deleted session can be restored until the deadline it was given. After a soft delete that
  reported success, a restore before the frozen deadline succeeds, whatever the retention is configured to
  by then, if the parent is visible and the state can be saved; the session comes back stopped and
  without a deletion mark, in memory and in the state file, with everything but its status, summary and
  process as it was, no other session has changed, and no files were removed.\<close>

theorem soft_delete_restore_roundtrip:
  assumes "outcome (SoftDelete cfg a i) w = Inr y" and "map_of (live w) i = Some s" and "u = final (SoftDelete cfg a i) w"
    and "rr_now r i 0 < sa_now a 0 + sc_retention cfg" and "rr_save r = Done" and "w_roots w = []"
    and "\<not> w_upgradePending w" and "\<not> w_shutdownPending w"
    and "\<And>p. ParentID s \<noteq> [] \<Longrightarrow> map_of (live w) (ParentID s) = Some p \<Longrightarrow> \<not> IsSoftDeleted p \<and> Status p \<noteq> StatusDeleting"
  shows "\<exists>x. outcome (Restore retention r i) u = Inr x \<and> same_session x s \<and> Status x = StatusStopped \<and> DeletedAt x = None \<and>
    ExpiresAt x = None \<and> map_of (stored (final (Restore retention r i) u)) i = Some x \<and>
    (\<forall>j. map_of (live (final (Restore retention r i) u)) j = (if j = i then Some x else map_of (live w) j)) \<and>
    w_torn (final (Restore retention r i) u) = w_torn w"
proof -
  from wp_final [OF wp_softDelete [of cfg a i True w]] assms(1,3)
  obtain x where "soft_deleted cfg a i True w x u" by (auto simp: SoftDelete_def)
  then obtain s' m where g: "softDelete_guard cfg w i True = Inr s'" and m: "m = soft_mark cfg a s'" "x = m \<or> x = no_process m"
    and fr: "soft_frame w u" and live: "\<And>j. map_of (live u) j = (if j = i then Some x else map_of (live w) j)"
    unfolding soft_deleted_def by blast
  note gd = softDelete_guard_Inr [OF g]
  then have s: "s' = s" using assms(2) by simp
  have child: "ParentID s \<noteq> i"
    using gd assms(2) by (auto simp: rejectDeleteWithChildrenLocked_def Let_def find_None_iff split: option.splits dest: map_of_SomeD)
  have x: "DeletedAt x = Some (sa_now a 0)" "ExpiresAt x = Some (sa_now a 0 + sc_retention cfg)" "ParentID x = ParentID s"
      "RemovedHookCleanupPending x = RemovedHookCleanupPending s"
    using m s by auto
  have "rejectPendingUpgradeCleanupLocked u i = None"
    using gd assms(2) s live [of i] x(4) fr by (auto simp: rejectPendingUpgradeCleanupLocked_def soft_frame_def split: if_splits)
  moreover have "\<not> subtreeDeleteOverlapsLocked u i" using fr assms(6) by (intro no_roots_overlap) (simp add: soft_frame_def)
  moreover have "\<not> shouldPurge x (rr_now r i 0) (fst (fallbackExpiryLocked retention x (rr_now r i 0)))"
    using x assms(4) by (simp add: shouldPurge_def)
  ultimately have "restore_guard retention (rr_now r i 0) u i = Inr x"
    using live [of i] live [of "ParentID s"] child x assms(9)
    by (auto simp: restore_guard_def fail_when_def IsSoftDeleted_def split: option.split)
  moreover have "\<not> w_upgradePending u" "\<not> w_shutdownPending u" using fr assms(7,8) by (simp_all add: soft_frame_def)
  ultimately have "wp (\<lambda>_. True) (Restore retention r i) (\<lambda>res v. res = Inr (restore_mark (rr_now r i 1) (rr_now r i 2) x) \<and>
    (\<forall>j. map_of (live v) j = (if j = i then Some (restore_mark (rr_now r i 1) (rr_now r i 2) x) else map_of (live u) j)) \<and>
    w_disk v = w_state v \<and> w_torn v = w_torn u \<and> w_procs v = w_procs u) u"
    using assms(5) by (rule Restore_saved)
  from wp_final [OF this] have
    "outcome (Restore retention r i) u = Inr (restore_mark (rr_now r i 1) (rr_now r i 2) x)"
    "\<And>j. map_of (live (final (Restore retention r i) u)) j = (if j = i then Some (restore_mark (rr_now r i 1) (rr_now r i 2) x) else map_of (live w) j)"
    "w_disk (final (Restore retention r i) u) = w_state (final (Restore retention r i) u)"
    "w_torn (final (Restore retention r i) u) = w_torn w"
    using live fr by (auto simp: soft_frame_def)
  moreover have "same_session (restore_mark (rr_now r i 1) (rr_now r i 2) x) s"
    using restored_same [of s] gd s m by (auto simp: IsSoftDeleted_def)
  ultimately show ?thesis
    by (intro exI [of _ "restore_mark (rr_now r i 1) (rr_now r i 2) x"])
      (simp add: restore_mark_def applyLifecycleSummaryLocked_def)
qed

definition example_soft_config :: soft_config where
  "example_soft_config = \<lparr>sc_orchestratorEnabled = True, sc_retention = 100\<rparr>"

definition example_soft_answers :: "bool \<Rightarrow> io \<Rightarrow> soft_answers" where
  "example_soft_answers stops save =
    \<lparr>sa_now = (\<lambda>n. 10 + int n), sa_save = (\<lambda>_. save),
     sa_driver = \<lparr>dr_exited = False, dr_doneAfterTerm = stops, dr_doneAfterKill = False\<rparr>,
     sa_os = \<lparr>os_startReadable = True, os_diedMeanwhile = False, os_term = Delivered, os_goneAfterTerm = True,
              os_kill = Delivered, os_goneAfterKill = True\<rparr>,
     sa_fmt = (\<lambda>_. ''tomorrow'')\<rparr>"

definition example_restore :: "int \<Rightarrow> io \<Rightarrow> restore_answers" where
  "example_restore t save = \<lparr>rr_now = (\<lambda>_ n. t + int n), rr_save = save, rr_rollbackSave = Done\<rparr>"

abbreviation example_trash :: world where
  "example_trash \<equiv> final (SoftDelete example_soft_config (example_soft_answers True Done) ''a'') example_world"

theorem soft_delete_restore_roundtrip_witness:
  "\<exists>x. outcome (Restore 0 (example_restore 50 Done) ''a'') example_trash = Inr x \<and> same_session x example_session \<and> Status x = StatusStopped"
proof -
  let ?run = "SoftDelete example_soft_config (example_soft_answers True Done) ''a''"
  have "\<not> isl (outcome ?run example_world)" by code_simp
  then obtain y where "outcome ?run example_world = Inr y" by (cases "outcome ?run example_world") auto
  then show ?thesis
    using soft_delete_restore_roundtrip [of example_soft_config "example_soft_answers True Done" "''a''" example_world y example_session
        "final ?run example_world" "example_restore 50 Done" 0]
    by (auto simp: example_world_def example_state_def example_session_def example_restore_def example_soft_answers_def example_soft_config_def)
qed

section \<open>No visible session below a hidden one\<close>

definition parents_visible :: "(string \<Rightarrow> SessionState option) \<Rightarrow> bool" where
  "parents_visible m \<longleftrightarrow>
    (\<forall>j c p. m j = Some c \<longrightarrow> \<not> IsSoftDeleted c \<longrightarrow> ParentID c \<noteq> [] \<longrightarrow> m (ParentID c) = Some p \<longrightarrow> \<not> IsSoftDeleted p)"

abbreviation visible_tree :: "world \<Rightarrow> bool" where
  "visible_tree w \<equiv> parents_visible (map_of (live w))"

lemma visible_put:
  assumes "visible_tree w" "\<And>x. map_of (live w) i = Some x \<Longrightarrow> ParentID (f x) = ParentID x \<and> (IsSoftDeleted (f x) \<longleftrightarrow> IsSoftDeleted x)"
  shows "visible_tree (put_session i f w)"
  unfolding parents_visible_def
proof (intro allI impI)
  fix j c p
  assume j: "map_of (live (put_session i f w)) j = Some c" "\<not> IsSoftDeleted c" "ParentID c \<noteq> []"
    and p: "map_of (live (put_session i f w)) (ParentID c) = Some p"
  obtain c' where c': "map_of (live w) j = Some c'" "ParentID c = ParentID c'" "\<not> IsSoftDeleted c'"
    using j assms(2) by (cases "j = i") auto
  obtain p' where p': "map_of (live w) (ParentID c') = Some p'" "IsSoftDeleted p = IsSoftDeleted p'"
    using p c'(2) assms(2) by (cases "ParentID c' = i") auto
  then show "\<not> IsSoftDeleted p" using assms(1) c' j(3) unfolding parents_visible_def by metis
qed

lemma visible_remove: "visible_tree w \<Longrightarrow> parents_visible ((map_of (live w))(i := None))"
  by (auto simp: parents_visible_def split: if_splits)

lemma visible_live: "visible_tree w \<Longrightarrow> live v = live w \<Longrightarrow> visible_tree v"
  by simp

lemma visible_soft_begin:
  assumes "visible_tree w"
  shows "visible_tree (fst (softDelete_begin cfg a i True w))"
proof (cases "softDelete_guard cfg w i True")
  case (Inr s)
  note g = softDelete_guard_Inr [OF Inr]
  have alone: "ParentID c \<noteq> i" if "map_of (live w) j = Some c" for j c
    using that g by (fastforce simp: rejectDeleteWithChildrenLocked_def Let_def find_None_iff split: option.splits dest: map_of_SomeD)
  show ?thesis
  proof (cases "reported (sa_save a 0)")
    case True
    then have "map_of (live (fst (softDelete_begin cfg a i True w))) = (map_of (live w))(i \<mapsto> soft_mark cfg a s)"
      using Inr g by (auto simp: softDelete_begin_def Let_def case_prod_beta fun_eq_iff)
    then show ?thesis using assms alone g by (auto simp: parents_visible_def IsSoftDeleted_def split: if_splits)
  next
    case False
    have "live (put_attention q (soft_rollback i s v)) = live (soft_rollback i s v)" for q v by (simp add: put_attention_def)
    then have "map_of (live (fst (softDelete_begin cfg a i True w))) =
        (map_of (live w))(i \<mapsto> (soft_mark cfg a s)\<lparr>DeletedAt := None, ExpiresAt := None, Status := Status s\<rparr>)"
      using Inr g False by (auto simp: softDelete_begin_def Let_def case_prod_beta fun_eq_iff soft_rollback_def)
    then show ?thesis using assms alone g by (auto simp: parents_visible_def IsSoftDeleted_def split: if_splits)
  qed
qed (use assms in \<open>simp add: softDelete_begin_def\<close>)

lemma visible_soft_end: "visible_tree w \<Longrightarrow> visible_tree (fst (softDelete_end a i k w))"
proof -
  assume w: "visible_tree w"
  have "visible_tree (clear_pid i w)" unfolding clear_pid_def by (rule visible_put [OF w]) (simp add: IsSoftDeleted_def)
  then show ?thesis using w by (simp add: softDelete_end_def Let_def split: option.split)
qed

lemma restore_guard_Inr:
  assumes "restore_guard retention now w i = Inr s"
  shows "map_of (live w) i = Some s \<and> IsSoftDeleted s \<and> \<not> shouldPurge s now (fst (fallbackExpiryLocked retention s now)) \<and>
    (\<forall>p. ParentID s \<noteq> [] \<longrightarrow> map_of (live w) (ParentID s) = Some p \<longrightarrow> \<not> IsSoftDeleted p)"
  using assms by (auto simp: restore_guard_def fail_when_Inr split: option.splits if_splits)

lemma restore_mark_simps [simp]:
  "ParentID (restore_mark t t' s) = ParentID s" "DeletedAt (restore_mark t t' s) = None" "ExpiresAt (restore_mark t t' s) = None"
  "Status (restore_mark t t' s) = StatusStopped"
  by (simp_all add: restore_mark_def applyLifecycleSummaryLocked_def)

lemma visible_restore: "visible_tree w \<Longrightarrow> visible_tree (fst (restoreLocked retention now i w))"
proof (cases "restore_guard retention (now 0) w i")
  case (Inr s)
  assume w: "visible_tree w"
  note g = restore_guard_Inr [OF Inr]
  have "map_of (live (fst (restoreLocked retention now i w))) = (map_of (live w))(i \<mapsto> restore_mark (now 1) (now 2) s)"
    using Inr g by (auto simp: restoreLocked_def fun_eq_iff)
  then show ?thesis using w g by (auto simp: parents_visible_def IsSoftDeleted_def split: if_splits)
qed (simp add: restoreLocked_def)

lemma visible_restore_each: "visible_tree w \<Longrightarrow> visible_tree (fst (restore_each retention a is w))"
proof (induction retention a "is" w rule: restore_each.induct)
  case (2 retention a i "is" w)
  have "visible_tree (fst (restoreLocked retention (rr_now a i) i w))" using 2 by (intro visible_restore)
  then show ?case using 2 by (auto split: option.split prod.split sum.split)
qed simp

lemma visible_restore_subtree: "visible_tree w \<Longrightarrow> visible_tree (fst (restore_subtree retention a i w))"
  using visible_restore_each [of w retention a "rev (below w i)"]
  by (auto simp: restore_subtree_def split: option.split prod.split)

section \<open>A subtree is hidden as a whole\<close>

text \<open>How a soft delete of \<open>i\<close>, successful or not, may change the sessions.\<close>

definition only_hides :: "string set \<Rightarrow> world \<Rightarrow> world \<Rightarrow> bool" where
  "only_hides D w v \<longleftrightarrow>
    (\<forall>j. (j \<notin> D \<longrightarrow> map_of (live v) j = map_of (live w) j) \<and> (map_of (live w) j = None \<longrightarrow> map_of (live v) j = None) \<and>
      (\<forall>s. map_of (live w) j = Some s \<longrightarrow> (\<exists>x. map_of (live v) j = Some x \<and> ParentID x = ParentID s \<and> (IsSoftDeleted s \<longrightarrow> IsSoftDeleted x))))"

definition hidden :: "string \<Rightarrow> world \<Rightarrow> bool" where
  "hidden i v \<longleftrightarrow> (\<forall>x. map_of (live v) i = Some x \<longrightarrow> IsSoftDeleted x)"

lemma only_hides_refl: "live v = live w \<Longrightarrow> only_hides D w v"
  by (simp add: only_hides_def)

lemma only_hides_trans: "only_hides D w v \<Longrightarrow> only_hides E v u \<Longrightarrow> only_hides (D \<union> E) w u"
proof -
  assume wv: "only_hides D w v" and vu: "only_hides E v u"
  have "(j \<notin> D \<union> E \<longrightarrow> map_of (live u) j = map_of (live w) j) \<and> (map_of (live w) j = None \<longrightarrow> map_of (live u) j = None) \<and>
      (\<forall>s. map_of (live w) j = Some s \<longrightarrow> (\<exists>x. map_of (live u) j = Some x \<and> ParentID x = ParentID s \<and> (IsSoftDeleted s \<longrightarrow> IsSoftDeleted x)))" for j
    using spec [OF wv [unfolded only_hides_def], of j] spec [OF vu [unfolded only_hides_def], of j] by fastforce
  then show ?thesis by (simp add: only_hides_def)
qed

lemma only_hides_live: "only_hides D w v \<Longrightarrow> live u = live v \<Longrightarrow> only_hides D w u"
  by (simp add: only_hides_def)

lemma hidden_mono: "hidden i v \<Longrightarrow> only_hides D v u \<Longrightarrow> hidden i u"
  unfolding hidden_def only_hides_def by (metis option.exhaust option.sel)

lemma soft_deleted_hides: "soft_deleted cfg a i rc w x v \<Longrightarrow> only_hides {i} w v \<and> hidden i v"
  by (auto simp: soft_deleted_def only_hides_def hidden_def IsSoftDeleted_def dest!: softDelete_guard_Inr)

lemma softDelete_begin_Inl:
  assumes "softDelete_begin cfg a i rc w = (v, Inl e)"
  shows "only_hides {i} w v"
proof (cases "softDelete_guard cfg w i rc")
  case (Inl e')
  then show ?thesis using assms by (simp add: softDelete_begin_def only_hides_refl)
next
  case (Inr s)
  have "live (put_attention q u) = live u" for q u by (simp add: put_attention_def)
  moreover have "map_of (live w) i = Some s" "\<not> IsSoftDeleted s" using softDelete_guard_Inr [OF Inr] by simp_all
  moreover have "v = put_attention q (soft_rollback i s u)" if "u = saveStateFile (sa_save a 0) (fst (clearOrchestratorAttentionForSessionLocked i (put_session i (soft_mark cfg a) w)))"
      "q = snd (clearOrchestratorAttentionForSessionLocked i (put_session i (soft_mark cfg a) w))" for u q
    using that assms Inr by (auto simp: softDelete_begin_def Let_def case_prod_beta split: if_splits)
  ultimately show ?thesis by (auto simp: only_hides_def soft_rollback_def)
qed

lemma wp_softDelete_hides:
  "wp (\<lambda>_. True) (softDelete cfg a i rc) (\<lambda>r v. only_hides {i} w v \<and> (\<not> isl r \<longrightarrow> hidden i v)) w"
proof -
  let ?w0 = "fst (beginLifecycleOperation w)"
  have f0: "live ?w0 = live w" by (simp add: beginLifecycleOperation_def)
  obtain v b where b: "softDelete_begin cfg a i rc ?w0 = (v, b)" by fastforce
  have e: "live (endLifecycleOperation u) = live u" for u by (simp add: endLifecycleOperation_def)
  have "wp (\<lambda>_. True) (softDelete cfg a i rc) (\<lambda>r v. isl r \<longrightarrow> only_hides {i} w v) w"
  proof (cases b)
    case (Inl x)
    then have "only_hides {i} w v" using softDelete_begin_Inl [of cfg a i rc ?w0 v x] b f0 by (simp add: only_hides_def)
    then show ?thesis using Inl b f0 e by (auto simp: softDelete_def wp_rules only_hides_def)
  next
    case (Inr sn)
    show ?thesis using Inr b f0 by (auto simp: softDelete_def wp_rules only_hides_refl) (simp add: wp_def)
  qed
  moreover have "wp (\<lambda>_. True) (softDelete cfg a i rc) (\<lambda>r v. \<not> isl r \<longrightarrow> only_hides {i} w v \<and> hidden i v) w"
  proof (rule wp_mono [OF wp_softDelete])
    fix r v assume "\<forall>x. r = Inr x \<longrightarrow> (\<exists>m. x = Some m \<and> soft_deleted cfg a i rc w m v)"
    then show "\<not> isl r \<longrightarrow> only_hides {i} w v \<and> hidden i v" by (cases r) (auto dest: soft_deleted_hides)
  qed simp
  ultimately have "wp (\<lambda>_. True \<and> True) (softDelete cfg a i rc)
      (\<lambda>r v. (isl r \<longrightarrow> only_hides {i} w v) \<and> (\<not> isl r \<longrightarrow> only_hides {i} w v \<and> hidden i v)) w" by (rule wp_conj)
  then show ?thesis by (rule wp_mono) auto
qed

text \<open>What the loop over the subtree has achieved: sessions it has seen are hidden, and only those it was
  given were touched. \<open>todo\<close> is what is left of the loop.\<close>

definition soft_loop :: "world \<Rightarrow> string set \<Rightarrow> string list \<Rightarrow> soft_progress \<Rightarrow> world \<Rightarrow> bool" where
  "soft_loop w U todo p v \<longleftrightarrow>
    set (sp_seen p) \<subseteq> U \<and> set todo \<subseteq> U \<and> only_hides U w v \<and>
    (sp_errors p = [] \<longrightarrow>
      (\<forall>i \<in> set (sp_seen p). hidden i v) \<and> (\<forall>i. i \<notin> set (sp_seen p) \<longrightarrow> map_of (live v) i = map_of (live w) i) \<and>
      U \<subseteq> set (sp_seen p) \<union> set todo)"

lemma wp_softDeleteOne:
  assumes "soft_loop w U (i # is) p v"
    and ready: "\<And>s. map_of (live w) i = Some s \<Longrightarrow> softDeletableLocked (Some s) \<or> IsSoftDeleted s"
  shows "wp (\<lambda>_. True) (softDeleteOne cfg a i p) (soft_loop w U is) v"
proof -
  note L = assms(1) [unfolded soft_loop_def]
  have seen: "soft_loop w U is p v" if "i \<in> set (sp_seen p) \<or> sp_errors p \<noteq> []"
    using that L by (auto simp: soft_loop_def)
  consider (seen) "i \<in> set (sp_seen p)" | (skip) "i \<notin> set (sp_seen p)" "\<not> softDeletableLocked (map_of (live v) i)"
    | (delete) "i \<notin> set (sp_seen p)" "softDeletableLocked (map_of (live v) i)" by blast
  then show ?thesis
  proof cases
    case seen
    then show ?thesis using \<open>i \<in> set (sp_seen p) \<or> sp_errors p \<noteq> [] \<Longrightarrow> soft_loop w U is p v\<close> by (simp add: softDeleteOne_def wp_rules)
  next
    case skip
    have "soft_loop w U is (p\<lparr>sp_seen := i # sp_seen p\<rparr>) v" if "sp_errors p = []"
    proof -
      have "map_of (live v) i = map_of (live w) i" using L skip(1) that by blast
      then have "hidden i v" using ready skip(2) by (auto simp: hidden_def)
      then show ?thesis using L by (auto simp: soft_loop_def)
    qed
    moreover have "soft_loop w U is (p\<lparr>sp_seen := i # sp_seen p\<rparr>) v \<or> sp_errors p = []"
      using L by (auto simp: soft_loop_def)
    ultimately show ?thesis using skip by (auto simp: softDeleteOne_def wp_rules)
  next
    case delete
    have step: "soft_loop w U is (case r of Inl e \<Rightarrow> p\<lparr>sp_errors := sp_errors p @ [ForSession i e]\<rparr>
        | Inr x \<Rightarrow> p\<lparr>sp_seen := i # sp_seen p, sp_deleted := sp_deleted p @ [i]\<rparr>) u"
      if "only_hides {i} v u \<and> (\<not> isl r \<longrightarrow> hidden i u)" for r u
    proof -
      have "only_hides (U \<union> {i}) w u" using L that only_hides_trans by blast
      moreover have "U \<union> {i} = U" using L by auto
      moreover have "hidden j u" if "hidden j v" for j using that hidden_mono \<open>only_hides {i} v u \<and> _\<close> by blast
      moreover have "map_of (live u) j = map_of (live v) j" if "j \<noteq> i" for j using that \<open>only_hides {i} v u \<and> _\<close> by (simp add: only_hides_def)
      ultimately show ?thesis using L that by (cases r) (auto simp: soft_loop_def)
    qed
    have "wp (\<lambda>_. True) (softDelete cfg (a i (length (sp_errors p))) i False) (\<lambda>r u. only_hides {i} v u \<and> (\<not> isl r \<longrightarrow> hidden i u)) v"
      by (rule wp_softDelete_hides)
    then have "wp (\<lambda>_. True) (softDelete cfg (a i (length (sp_errors p))) i False) (\<lambda>r u. soft_loop w U is (case r of
          Inl e \<Rightarrow> p\<lparr>sp_errors := sp_errors p @ [ForSession i e]\<rparr>
        | Inr x \<Rightarrow> p\<lparr>sp_seen := i # sp_seen p, sp_deleted := sp_deleted p @ [i]\<rparr>) u) v"
      by (rule wp_mono) (use step in auto)
    then have "wp (\<lambda>_. True) (softDelete cfg (a i (length (sp_errors p))) i False) (\<lambda>r. wp (\<lambda>_. True) (case r of
          Inl e \<Rightarrow> ret (p\<lparr>sp_errors := sp_errors p @ [ForSession i e]\<rparr>)
        | Inr x \<Rightarrow> ret (p\<lparr>sp_seen := i # sp_seen p, sp_deleted := sp_deleted p @ [i]\<rparr>)) (soft_loop w U is)) v"
      by (rule wp_mono) (auto simp: wp_ret split: sum.splits)
    then show ?thesis using delete by (simp add: softDeleteOne_def wp_seq wp_act wp_if)
  qed
qed

text \<open>The order of the sessions in the state is never changed.\<close>

abbreviation ids :: "world \<Rightarrow> string list" where
  "ids w \<equiv> map fst (live w)"

lemma ids_put: "ids (put_session i f w) = ids w"
  by (simp add: put_session_def fst_update_keys del: map_map)

lemma ids_simps [simp]:
  "ids (soft_rollback i s w) = ids w" "ids (clear_pid i w) = ids w" "ids (put_attention q w) = ids w"
  "ids (detach_runtime i w) = ids w" "ids (publish e w) = ids w" "ids (endLifecycleOperation w) = ids w"
  "ids (fst (beginLifecycleOperation w)) = ids w" "ids (publishPendingStatusChangeEvent pe w) = ids w"
  "ids (fst (killVerifiedProcess os p st w)) = ids w" "ids (fst (teardownLiveDriver dr p w)) = ids w"
  by (simp_all add: soft_rollback_def clear_pid_def ids_put put_attention_def detach_runtime_def publish_def endLifecycleOperation_def
      beginLifecycleOperation_def publishPendingStatusChangeEvent_def killVerifiedProcess_def teardownLiveDriver_def process_gone_def
      split: option.split)

lemma wp_softDelete_ids: "wp (\<lambda>_. True) (softDelete cfg a i rc) (\<lambda>_ v. ids v = ids w) w"
proof -
  have "ids (fst (softDelete_begin cfg a i rc v)) = ids v" for v
    by (simp add: softDelete_begin_def Let_def case_prod_beta ids_put del: map_map split: sum.split)
  moreover have "ids (fst (softDelete_end a i k v)) = ids v" for k v
    by (simp add: softDelete_end_def Let_def del: map_map split: option.split)
  moreover have "wp (\<lambda>_. True) (softDelete_stop a sn) (\<lambda>k u. ids u = ids w) v" if "ids v = ids w" for sn v
    using that by (auto simp: softDelete_stop_def wp_rules case_prod_beta simp del: map_map split: option.split)
  ultimately show ?thesis
    by (auto simp: softDelete_def wp_rules simp del: map_map elim!: wp_mono)
qed

lemma wp_softDeleteOne_ids: "ids v = ids w \<Longrightarrow> wp (\<lambda>_. True) (softDeleteOne cfg a i p) (\<lambda>_ v. ids v = ids w) v"
  using wp_softDelete_ids [of cfg "a i (length (sp_errors p))" i False v]
  by (auto simp: softDeleteOne_def wp_rules simp del: map_map elim!: wp_mono)

lemma wp_softDeleteOne_errors:
  "sp_errors p \<noteq> [] \<Longrightarrow> wp (\<lambda>_. True) (softDeleteOne cfg a i p) (\<lambda>p' _. sp_errors p' \<noteq> []) v"
  by (auto simp: softDeleteOne_def wp_rules) (simp add: wp_def)

lemma wp_soft_sweep_errors:
  "sp_errors p \<noteq> [] \<Longrightarrow> wp (\<lambda>_. True) (soft_sweep cfg a others n p) (\<lambda>p' _. sp_errors p' \<noteq> []) v"
proof (induction n arbitrary: p v)
  case (Suc n)
  have t: "wp (\<lambda>_. True) (thread (softDeleteOne cfg a) late p) (\<lambda>p' _. sp_errors p' \<noteq> []) u" for late u
    by (rule wp_thread [where I = "\<lambda>_ p' _. sp_errors p' \<noteq> []"]) (use Suc.prems wp_softDeleteOne_errors in auto)
  have "wp (\<lambda>_. True) (thread (softDeleteOne cfg a) late p)
      (\<lambda>p'. wp (\<lambda>_. True) (soft_sweep cfg a others n p') (\<lambda>p' _. sp_errors p' \<noteq> [])) u" for late u
    by (rule wp_mono [OF t]) (use Suc.IH in auto)
  then show ?case using Suc.prems by (simp add: wp_rules)
qed (simp add: wp_rules)

lemma first_unsafe_None:
  "first_unsafe w r ds = None \<Longrightarrow> d \<in> set ds \<Longrightarrow> d \<noteq> r \<Longrightarrow> map_of (live w) d = Some s \<Longrightarrow> unsafe_descendant d s = None"
  by (induction ds) (auto split: if_splits option.splits)

lemma preflight_ready:
  assumes "soft_preflight r ex w = Inr initial" "i \<in> set initial" "map_of (live w) i = Some s"
  shows "softDeletableLocked (Some s) \<or> IsSoftDeleted s"
proof (cases "i = r")
  case True
  then have "\<not> ex" "rejectUnsafeDeleteRootLocked w r False = None"
    using assms(1,2) by (auto simp: soft_preflight_def filterExcludeRoot_def Let_def split: if_splits option.splits)
  then show ?thesis using assms(3) True
    by (auto simp: rejectUnsafeDeleteRootLocked_def softDeletableLocked_def Let_def split: if_splits)
next
  case False
  have "rejectUnsafeDeleteDescendantsLocked w r = None" "i \<in> set (below w r)"
    using assms(1,2) by (auto simp: soft_preflight_def filterExcludeRoot_def Let_def split: if_splits option.splits)
  then have "unsafe_descendant i s = None"
    unfolding rejectUnsafeDeleteDescendantsLocked_def using first_unsafe_None False assms(3) by blast
  then show ?thesis by (auto simp: unsafe_descendant_def softDeletableLocked_def Let_def split: if_splits)
qed

lemma preflight_set: "soft_preflight r ex w = Inr initial \<Longrightarrow> set initial = set (below w r) - (if ex then {r} else {})"
  by (auto simp: soft_preflight_def filterExcludeRoot_def Let_def split: if_splits option.splits)

lemma tree_ids: "map fst (tree ss) = map fst ss"
  by (induction ss) (auto simp: tree_def)

lemma map_of_tree: "map_of (tree ss) j = map_option session.truncate (map_of ss j)"
  unfolding tree_def by (rule map_of_map_snd)

lemma parent_rel_tree:
  "(c, p) \<in> parent_rel (tree ss) \<longleftrightarrow> (\<exists>s. map_of ss c = Some s \<and> ParentID s = p \<and> p \<noteq> [])"
  by (auto simp: parent_rel_iff map_of_tree session.truncate_def)

lemma below_set: "distinct (ids w) \<Longrightarrow> x \<in> set (below w r) \<longleftrightarrow> (x, r) \<in> (parent_rel (tree (live w)))\<^sup>*"
  unfolding below_def by (rule descendants_set) (simp add: tree_ids)

text \<open>The subtree of \<open>r\<close>, with or without its root, is hidden and nothing else has changed.\<close>

definition doomed :: "world \<Rightarrow> string \<Rightarrow> bool \<Rightarrow> string set" where
  "doomed w r ex = set (below w r) - (if ex then {r} else {})"

definition hidden_whole :: "world \<Rightarrow> string \<Rightarrow> bool \<Rightarrow> world \<Rightarrow> bool" where
  "hidden_whole w r ex v \<longleftrightarrow> only_hides (doomed w r ex) w v \<and> (\<forall>i \<in> doomed w r ex. hidden i v)"

lemma doomed_closed:
  assumes "distinct (ids w)" "session_forest (tree (live w))"
    and "map_of (live w) c = Some s" "ParentID s \<in> doomed w r ex" "ParentID s \<noteq> []"
  shows "c \<in> doomed w r ex"
proof -
  have e: "(c, ParentID s) \<in> parent_rel (tree (live w))" using assms(3,5) by (auto simp: parent_rel_tree)
  have p: "(ParentID s, r) \<in> (parent_rel (tree (live w)))\<^sup>*" "ex \<Longrightarrow> ParentID s \<noteq> r"
    using assms(1,4) by (auto simp: doomed_def below_set split: if_splits)
  have "c \<noteq> r" using e p(1) assms(2) unfolding session_forest_def acyclic_def by (metis rtrancl_into_trancl2)
  then show ?thesis using assms(1) e p(1) by (auto simp: doomed_def below_set intro: converse_rtrancl_into_rtrancl)
qed

lemma no_late_descendants:
  assumes "distinct (ids w)" "session_forest (tree (live w))" "ids v = ids w"
    and "only_hides (doomed w r ex) w v" "set (sp_seen p) = doomed w r ex"
  shows "late_descendants p v = []"
proof -
  have "i \<in> doomed w r ex" if i: "(i, s) \<in> set (live v)" "ParentID s \<noteq> []" "ParentID s \<in> doomed w r ex" for i s
  proof -
    have v: "map_of (live v) i = Some s" using i(1) assms(1,3) by (intro map_of_is_SomeI) auto
    then obtain s' where "map_of (live w) i = Some s'" "ParentID s = ParentID s'"
      using spec [OF assms(4) [unfolded only_hides_def], of i] by (cases "map_of (live w) i") auto
    then show ?thesis using doomed_closed [OF assms(1,2)] i by auto
  qed
  then show ?thesis using assms(5) by (auto simp: late_descendants_def filter_empty_conv)
qed

lemma wp_soft_sweep_quiet:
  assumes "soft_loop w (doomed w r ex) [] p v" "ids v = ids w" "distinct (ids w)" "session_forest (tree (live w))"
  shows "wp (\<lambda>_. True) (soft_sweep cfg a (\<lambda>_ w. w) n p) (\<lambda>p' u. sp_errors p' = [] \<longrightarrow> hidden_whole w r ex u) v"
proof (cases "sp_errors p = []")
  case True
  then have "set (sp_seen p) = doomed w r ex" "only_hides (doomed w r ex) w v" "\<forall>i \<in> doomed w r ex. hidden i v"
    using assms(1) by (auto simp: soft_loop_def)
  moreover from this have "late_descendants p v = []" using no_late_descendants assms(2,3,4) by blast
  ultimately show ?thesis by (cases n) (simp_all add: wp_rules hidden_whole_def)
next
  case False
  show ?thesis by (rule wp_mono [OF wp_soft_sweep_errors [OF False]]) auto
qed

lemma wp_soft_thread:
  assumes "soft_preflight r ex w = Inr initial" "live u = live w"
  shows "wp (\<lambda>_. True) (thread (softDeleteOne cfg a) initial \<lparr>sp_seen = [], sp_deleted = [], sp_errors = []\<rparr>)
    (\<lambda>p v. soft_loop w (doomed w r ex) [] p v \<and> ids v = ids w) u"
proof (rule wp_thread [where I = "\<lambda>is p v. soft_loop w (doomed w r ex) is p v \<and> ids v = ids w"])
  show "soft_loop w (doomed w r ex) initial \<lparr>sp_seen = [], sp_deleted = [], sp_errors = []\<rparr> u \<and> ids u = ids w"
    using preflight_set [OF assms(1)] assms(2) by (simp add: soft_loop_def doomed_def only_hides_refl)
next
  fix i "is" p v
  assume I: "soft_loop w (doomed w r ex) (i # is) p v \<and> ids v = ids w"
  then have "i \<in> set initial" using preflight_set [OF assms(1)] by (simp add: soft_loop_def doomed_def)
  then have "wp (\<lambda>_. True) (softDeleteOne cfg a i p) (soft_loop w (doomed w r ex) is) v"
    using I preflight_ready [OF assms(1)] by (intro wp_softDeleteOne) auto
  moreover have "wp (\<lambda>_. True) (softDeleteOne cfg a i p) (\<lambda>_ v. ids v = ids w) v" using I by (intro wp_softDeleteOne_ids) simp
  ultimately have "wp (\<lambda>_. True \<and> True) (softDeleteOne cfg a i p) (\<lambda>p v. soft_loop w (doomed w r ex) is p v \<and> ids v = ids w) v"
    by (rule wp_conj)
  then show "wp (\<lambda>_. True) (softDeleteOne cfg a i p) (\<lambda>p v. soft_loop w (doomed w r ex) is p v \<and> ids v = ids w) v" by simp
qed

lemma hidden_whole_cong: "live u = live v \<Longrightarrow> hidden_whole w r ex v \<Longrightarrow> hidden_whole w r ex u"
  by (simp add: hidden_whole_def only_hides_def hidden_def)

lemma wp_softDeleteWithChildren:
  assumes "distinct (ids w)" "session_forest (tree (live w))"
  shows "wp (\<lambda>_. True) (softDeleteWithChildren cfg a (\<lambda>_ w. w) r ex owned)
    (\<lambda>res v. snd res = [] \<longrightarrow> hidden_whole w r ex v) w"
proof -
  let ?w0 = "fst (beginLifecycleOperation w)"
  have w0: "live ?w0 = live w" by (simp add: beginLifecycleOperation_def)
  have frame: "live (soft_release r u) = live u" "live (endLifecycleOperation u) = live u" "live (fst (soft_reserve r owned u)) = live u" for u
    by (auto simp: soft_release_def endLifecycleOperation_def soft_reserve_def split: option.split)
  have body: "wp (\<lambda>_. True) (thread (softDeleteOne cfg a) initial \<lparr>sp_seen = [], sp_deleted = [], sp_errors = []\<rparr>)
      (\<lambda>p. wp (\<lambda>_. True) (soft_sweep cfg a (\<lambda>_ w. w) maxSweepRounds p)
        (\<lambda>p' u. sp_errors p' = [] \<longrightarrow> hidden_whole w r ex (endLifecycleOperation (soft_release r u)))) u"
    if "soft_preflight r ex ?w0 = Inr initial" "live u = live w" for initial u
  proof -
    have d: "doomed ?w0 r ex = doomed w r ex" "ids ?w0 = ids w" by (simp_all add: doomed_def below_def w0)
    have s: "soft_loop ?w0 = soft_loop w" by (simp add: fun_eq_iff soft_loop_def only_hides_def w0)
    show ?thesis
    proof (rule wp_mono [OF wp_soft_thread [OF that(1), of u cfg a]])
      show "live u = live ?w0" using that(2) w0 by simp
    next
      fix p v assume p: "soft_loop ?w0 (doomed ?w0 r ex) [] p v \<and> ids v = ids ?w0"
      show "wp (\<lambda>_. True) (soft_sweep cfg a (\<lambda>_ w. w) maxSweepRounds p)
        (\<lambda>p' u. sp_errors p' = [] \<longrightarrow> hidden_whole w r ex (endLifecycleOperation (soft_release r u))) v"
        by (rule wp_mono [OF wp_soft_sweep_quiet [OF _ _ assms, of r ex p v cfg a maxSweepRounds]])
          (use p d s frame hidden_whole_cong in auto)
    qed simp
  qed
  show ?thesis using body w0 frame by (auto simp: softDeleteWithChildren_def wp_rules)
qed

text \<open>C12: a subtree is soft-deleted as a whole. When the operation reports no error and no other operation
  runs meanwhile, every session of the root's subtree (the root itself only if it is not excluded) is
  soft-deleted, every session outside it is exactly what it was, none has been added or removed, and if no visible
  session had a soft-deleted parent before then none has one now.\<close>

theorem subtree_soft_delete_whole:
  assumes "outcome (softDeleteWithChildren cfg a (\<lambda>_ w. w) r ex owned) w = (gone, [])"
    and "v = final (softDeleteWithChildren cfg a (\<lambda>_ w. w) r ex owned) w"
    and "distinct (map fst (live w))" and "session_forest (tree (live w))"
  shows "(\<forall>j. let inside = ((j, r) \<in> (parent_rel (tree (live w)))\<^sup>* \<and> \<not> (ex \<and> j = r))
      in case map_of (live w) j of
           None \<Rightarrow> map_of (live v) j = None
         | Some s \<Rightarrow> if inside then \<exists>x. map_of (live v) j = Some x \<and> IsSoftDeleted x else map_of (live v) j = Some s) \<and>
    (visible_tree w \<longrightarrow> visible_tree v)"
proof -
  have h: "hidden_whole w r ex v" using wp_final [OF wp_softDeleteWithChildren [OF assms(3,4), of cfg a r ex owned]] assms(1,2) by simp
  then have oh: "only_hides (doomed w r ex) w v" and hd: "\<And>i. i \<in> doomed w r ex \<Longrightarrow> hidden i v" by (simp_all add: hidden_whole_def)
  have doomed: "j \<in> doomed w r ex \<longleftrightarrow> (j, r) \<in> (parent_rel (tree (live w)))\<^sup>* \<and> \<not> (ex \<and> j = r)" for j
    using assms(3) by (auto simp: doomed_def below_set)
  have each: "case map_of (live w) j of
           None \<Rightarrow> map_of (live v) j = None
         | Some s \<Rightarrow> if j \<in> doomed w r ex then \<exists>x. map_of (live v) j = Some x \<and> IsSoftDeleted x else map_of (live v) j = Some s" for j
  proof -
    note oj = spec [OF oh [unfolded only_hides_def], of j]
    show ?thesis
    proof (cases "map_of (live w) j")
      case (Some s)
      then obtain x where x: "map_of (live v) j = Some x" using oj by blast
      show ?thesis using Some x oj hd [of j] by (simp add: hidden_def)
    qed (use oj in simp)
  qed
  have vis: "visible_tree v" if w: "visible_tree w"
    unfolding parents_visible_def
  proof (intro allI impI)
    fix j c p
    assume j: "map_of (live v) j = Some c" "\<not> IsSoftDeleted c" "ParentID c \<noteq> []" and p: "map_of (live v) (ParentID c) = Some p"
    have nd: "j \<notin> doomed w r ex" using hd j by (auto simp: hidden_def)
    then have jw: "map_of (live w) j = Some c" using oh j(1) by (simp add: only_hides_def)
    then have "ParentID c \<notin> doomed w r ex" using doomed_closed [OF assms(3,4)] nd j(3) by blast
    then have "map_of (live w) (ParentID c) = Some p" using oh p by (simp add: only_hides_def)
    then show "\<not> IsSoftDeleted p" using w [unfolded parents_visible_def] jw j(2,3) by blast
  qed
  show ?thesis using each vis unfolding Let_def doomed by blast
qed

text \<open>A parent \<open>a\<close> with a child \<open>b\<close>, and an unrelated session \<open>c\<close>.\<close>

definition example_family :: world where
  "example_family =
    (let state = example_state\<lparr>st_Sessions := [(''a'', example_session),
        (''b'', example_session\<lparr>Name := ''test'', ParentID := ''a'', Token := ''tok2'', PID := 0\<rparr>),
        (''c'', example_session\<lparr>Name := ''docs'', Token := ''tok3'', PID := 0\<rparr>)]\<rparr>
     in example_world\<lparr>w_state := state, w_disk := state\<rparr>)"

abbreviation example_hide :: "bool \<Rightarrow> (world, string list \<times> lifecycle_error list) run" where
  "example_hide ex \<equiv> softDeleteWithChildren example_soft_config (\<lambda>_ _. example_soft_answers True Done) (\<lambda>_ w. w) ''a'' ex None"

theorem subtree_soft_delete_whole_witness:
  "outcome (example_hide False) example_family = ([''b'', ''a''], []) \<and> visible_tree (final (example_hide False) example_family)"
proof -
  have out: "outcome (example_hide False) example_family = ([''b'', ''a''], [])" by code_simp
  have live: "live example_family = [(''a'', example_session),
        (''b'', example_session\<lparr>Name := ''test'', ParentID := ''a'', Token := ''tok2'', PID := 0\<rparr>),
        (''c'', example_session\<lparr>Name := ''docs'', Token := ''tok3'', PID := 0\<rparr>)]"
    by (simp add: example_family_def Let_def)
  have "parent_rel (tree (live example_family)) \<subseteq> {(''b'', ''a'')}"
    by (auto simp: parent_rel_tree live example_session_def split: if_splits)
  then have "session_forest (tree (live example_family))"
    unfolding session_forest_def by (rule acyclic_subset [rotated]) (auto simp: acyclic_def trancl_insert)
  moreover have "visible_tree example_family"
    by (auto simp: parents_visible_def live example_session_def IsSoftDeleted_def split: if_splits)
  ultimately show ?thesis
    using subtree_soft_delete_whole [OF out, of "final (example_hide False) example_family"] out by (simp add: live)
qed

section \<open>Hidden parents in every reachable state\<close>

text \<open>A parent that a new or moved session may be put under.\<close>

definition parent_guard :: "world \<Rightarrow> string \<Rightarrow> lifecycle_error option" where
  "parent_guard w p =
    (if p = [] then None
     else if subtreeDeleteActive w p then Some (SubtreeDeletion p)
     else case map_of (live w) p of
         None \<Rightarrow> None
       | Some parent \<Rightarrow>
           if Status parent = StatusCreating then Some (StillCreating (Name parent))
           else if Status parent = StatusDeleting \<or> IsSoftDeleted parent then Some (AlreadyDeleting (Name parent))
           else None)"

text \<open>The reservation of a new session \<open>s\<close> under the id \<open>i\<close>, with the rule for the events it follows and
  with its save.\<close>

definition create_reserve :: "io \<Rightarrow> string \<Rightarrow> SessionState \<Rightarrow> EventFollowRuleState option \<Rightarrow> world \<Rightarrow> world" where
  "create_reserve r i s rule w =
    (let rules = map_delete i (st_EventFollowRules (w_state w));
         w1 = saveStateFile r (w\<lparr>w_state := (w_state w)\<lparr>st_Sessions := map_put i s (live w),
           st_EventFollowRules := (case rule of None \<Rightarrow> rules | Some x \<Rightarrow> map_put i x rules)\<rparr>\<rparr>)
     in if reported r then w1
        else w1\<lparr>w_state := (w_state w1)\<lparr>st_Sessions := map_delete i (live w1),
          st_EventFollowRules := map_delete i (st_EventFollowRules (w_state w1))\<rparr>\<rparr>)"

text \<open>The critical sections of the operations on one session, of the restore of a subtree and of session
  creation and re-parenting, in any interleaving, and a restart from the state file.\<close>

inductive lock_step :: "world \<Rightarrow> world \<Rightarrow> bool" where
  soft_begin: "lock_step w (fst (softDelete_begin cfg a i True w))"
| soft_end: "lock_step w (fst (softDelete_end a i k w))"
| restore_one: "lock_step w (fst (restoreLocked retention now i w))"
| restore_tree: "lock_step w (fst (restore_subtree retention r i w))"
| persist: "lock_step w (fst (persistLatestUpgradeState io w))"
| del_begin: "lock_step w (fst (delete_begin dcfg da i w))"
| del_mark: "lock_step w (fst (save_session io i (clear_pid i) w))"
| del_unmark: "lock_step w (fst (save_session io i (delete_unmark da i sn) w))"
| del_rearm: "lock_step w (fst (save_session io i (rearm da i sn msg) w))"
| del_revert: "lock_step w (fst (save_session io i (revert_status i s) w))"
| del_commit: "lock_step w (fst (delete_commit da i sn w))"
| create: "map_of (live w) i = None \<Longrightarrow> \<not> IsSoftDeleted s \<Longrightarrow> parent_guard w (ParentID s) = None \<Longrightarrow> lock_step w (create_reserve io i s rule w)"
| reparent: "parent_guard w p = None \<Longrightarrow> lock_step w (saveStateFile io (put_session i (\<lambda>s. s\<lparr>ParentID := p\<rparr>) w))"
| restart: "lock_step w (w\<lparr>w_state := w_disk w\<rparr>)"

definition both_visible :: "world \<Rightarrow> bool" where
  "both_visible w \<longleftrightarrow> visible_tree w \<and> parents_visible (map_of (stored w))"

lemma both_same: "both_visible w \<Longrightarrow> live v = live w \<Longrightarrow> stored v = stored w \<or> stored v = live w \<Longrightarrow> both_visible v"
  by (auto simp: both_visible_def)

lemma both_put:
  assumes "both_visible w" "\<And>x. ParentID (f x) = ParentID x \<and> DeletedAt (f x) = DeletedAt x"
  shows "both_visible (put_session i f w)"
  using assms visible_put [of w i f] by (auto simp: both_visible_def IsSoftDeleted_def)

lemma both_save: "both_visible w \<Longrightarrow> both_visible (saveStateFile r w)"
  by (auto simp: both_visible_def)

lemma both_save_session:
  "both_visible w \<Longrightarrow> (both_visible w \<Longrightarrow> both_visible (f w)) \<Longrightarrow> both_visible (fst (save_session r i f w))"
  by (simp add: save_session_def both_save)

lemma map_of_remove_session: "map_of (live (remove_session i w)) = (map_of (live w))(i := None)"
  by (simp add: remove_session_def fun_eq_iff)

lemma both_remove:
  assumes "both_visible w"
  shows "both_visible (remove_session i w)"
proof -
  have "stored (remove_session i w) = stored w" by (simp add: remove_session_def)
  then show ?thesis using assms visible_remove [of w i] unfolding both_visible_def map_of_remove_session by simp
qed

lemma both_attention:
  "both_visible w \<Longrightarrow> both_visible (fst (clearOrchestratorAttentionForSessionLocked i w))" "both_visible w \<Longrightarrow> both_visible (put_attention q w)"
  by (simp_all add: both_visible_def put_attention_def)

lemma both_detach: "both_visible w \<Longrightarrow> both_visible (detach_runtime i w)"
  by (erule both_same) (simp_all add: detach_runtime_def)

lemma both_create:
  assumes "both_visible w" "\<not> IsSoftDeleted s" "parent_guard w (ParentID s) = None"
  shows "both_visible (create_reserve r i s rule w)"
proof -
  have live: "map_of (live (create_reserve r i s rule w)) = (if reported r then (map_of (live w))(i \<mapsto> s) else (map_of (live w))(i := None))"
    by (simp add: create_reserve_def Let_def fun_eq_iff)
  have put: "parents_visible ((map_of (live w))(i \<mapsto> s))"
    using assms by (auto simp: both_visible_def parents_visible_def parent_guard_def split: if_splits option.splits)
  moreover have "map_of (stored (create_reserve r i s rule w)) = (if performed r then (map_of (live w))(i \<mapsto> s) else map_of (stored w))"
    by (simp add: create_reserve_def Let_def fun_eq_iff)
  moreover have "visible_tree (create_reserve r i s rule w)"
    unfolding live using put visible_remove [of w i] assms(1) by (simp add: both_visible_def)
  ultimately show ?thesis using assms(1) by (simp add: both_visible_def)
qed

lemma both_reparent:
  assumes "both_visible w" "parent_guard w p = None"
  shows "both_visible (put_session i (\<lambda>s. s\<lparr>ParentID := p\<rparr>) w)"
proof (cases "map_of (live w) i")
  case None
  then have "map_of (live (put_session i (\<lambda>s. s\<lparr>ParentID := p\<rparr>) w)) = map_of (live w)" by (auto simp: fun_eq_iff)
  then show ?thesis using assms(1) by (simp add: both_visible_def)
next
  case (Some s)
  then have "map_of (live (put_session i (\<lambda>s. s\<lparr>ParentID := p\<rparr>) w)) = (map_of (live w))(i \<mapsto> s\<lparr>ParentID := p\<rparr>)" by (auto simp: fun_eq_iff)
  moreover have "parents_visible ((map_of (live w))(i \<mapsto> s\<lparr>ParentID := p\<rparr>))"
    unfolding parents_visible_def
  proof (intro allI impI)
    fix j c q
    assume j: "((map_of (live w))(i \<mapsto> s\<lparr>ParentID := p\<rparr>)) j = Some c" "\<not> IsSoftDeleted c" "ParentID c \<noteq> []"
      and q: "((map_of (live w))(i \<mapsto> s\<lparr>ParentID := p\<rparr>)) (ParentID c) = Some q"
    obtain q' where q': "map_of (live w) (ParentID c) = Some q'" "IsSoftDeleted q = IsSoftDeleted q'"
      using q Some by (cases "ParentID c = i") (auto simp: IsSoftDeleted_def)
    show "\<not> IsSoftDeleted q"
    proof (cases "j = i")
      case True
      then show ?thesis using j q' assms(2) by (auto simp: parent_guard_def split: if_splits)
    next
      case False
      then show ?thesis using j q' assms(1) unfolding both_visible_def parents_visible_def by (metis fun_upd_other)
    qed
  qed
  ultimately show ?thesis using assms(1) by (simp add: both_visible_def)
qed

lemma both_soft_begin:
  assumes "both_visible w"
  shows "both_visible (fst (softDelete_begin cfg a i True w))"
proof (cases "softDelete_guard cfg w i True")
  case (Inr s)
  have "visible_tree (put_session i (soft_mark cfg a) w)"
  proof -
    have "soft_mark cfg (a\<lparr>sa_save := \<lambda>_. Done\<rparr>) = soft_mark cfg a" by (simp add: soft_mark_def fun_eq_iff)
    then have "live (fst (softDelete_begin cfg (a\<lparr>sa_save := \<lambda>_. Done\<rparr>) i True w)) = live (put_session i (soft_mark cfg a) w)"
      using Inr by (simp add: softDelete_begin_def Let_def case_prod_beta detach_runtime_def)
    then show ?thesis using visible_soft_begin [of w cfg "a\<lparr>sa_save := \<lambda>_. Done\<rparr>" i] assms by (simp add: both_visible_def)
  qed
  then have "parents_visible (map_of (stored (fst (softDelete_begin cfg a i True w))))"
    using assms Inr by (auto simp: softDelete_begin_def Let_def case_prod_beta both_visible_def put_attention_def soft_rollback_def)
  then show ?thesis using assms visible_soft_begin by (simp add: both_visible_def)
qed (use assms in \<open>simp add: softDelete_begin_def\<close>)

lemma both_restore: "both_visible w \<Longrightarrow> both_visible (fst (restoreLocked retention now i w))"
  using visible_restore [of w retention now i] by (auto simp: both_visible_def restoreLocked_def split: sum.splits)

lemma restore_each_disk: "w_disk (fst (restore_each retention r is w)) = w_disk w"
  by (induction retention r "is" w rule: restore_each.induct) (auto simp: restoreLocked_def split: option.split sum.split prod.split)

lemma both_restore_tree: "both_visible w \<Longrightarrow> both_visible (fst (restore_subtree retention r i w))"
  using visible_restore_subtree [of w retention r i] restore_each_disk [of retention r "rev (below w i)" w]
  by (auto simp: both_visible_def restore_subtree_def split: option.splits prod.splits)

lemma both_delete_begin: "both_visible w \<Longrightarrow> both_visible (fst (delete_begin cfg a i w))"
  by (auto simp: delete_begin_def Let_def split: sum.split
      intro!: both_save both_attention both_remove both_detach both_put)

lemma both_delete_commit: "both_visible w \<Longrightarrow> both_visible (fst (delete_commit a i sn w))"
proof -
  assume w: "both_visible w"
  let ?r = "(remove_session i w)\<lparr>w_silentWarned := filter (\<lambda>j. j \<noteq> i) (w_silentWarned w)\<rparr>"
  have r: "both_visible ?r" using both_remove [OF w, of i] by (simp add: both_visible_def)
  have t: "both_visible (v\<lparr>w_tokens := ts\<rparr>)" if "both_visible v" for v ts using that by (simp add: both_visible_def)
  show ?thesis using both_attention(1) [OF r, of i]
    by (auto simp: delete_commit_def Let_def case_prod_beta intro!: both_save both_attention(2) t)
qed

interpretation hiding: invariant_system both_visible lock_step both_visible
proof
  fix w v assume w: "both_visible w" and "lock_step w v"
  from this(2) show "both_visible v"
  proof cases
    case soft_begin then show ?thesis using w both_soft_begin by simp
  next
    case (soft_end a i k)
    then show ?thesis using w visible_soft_end [of w a i k]
      by (auto simp: both_visible_def softDelete_end_def Let_def clear_pid_def split: option.splits if_splits)
  next
    case restore_one then show ?thesis using w both_restore by simp
  next
    case restore_tree then show ?thesis using w both_restore_tree by simp
  next
    case persist then show ?thesis using w both_save by (simp add: persistLatestUpgradeState_def)
  next
    case del_begin then show ?thesis using w both_delete_begin by simp
  next
    case del_mark then show ?thesis using w by (auto intro!: both_save_session both_put simp: clear_pid_def)
  next
    case (del_unmark io i da sn)
    have "both_visible (delete_unmark da i sn w)"
      by (rule both_same [OF both_put [OF w]]) (auto simp: delete_unmark_def)
    then show ?thesis using w del_unmark by (auto intro!: both_save_session)
  next
    case (del_rearm io i da sn msg)
    have "both_visible (rearm da i sn msg w)"
      by (rule both_same [OF both_put [OF w]]) (auto simp: rearm_def)
    then show ?thesis using w del_rearm by (auto intro!: both_save_session)
  next
    case del_revert then show ?thesis using w by (auto intro!: both_save_session both_put simp: revert_status_def)
  next
    case del_commit then show ?thesis using w both_delete_commit by simp
  next
    case create then show ?thesis using w both_create by simp
  next
    case reparent then show ?thesis using w both_reparent both_save by simp
  next
    case restart then show ?thesis using w by (simp add: both_visible_def)
  qed
qed simp



section \<open>Where the code falls short of its comments\<close>

text \<open>The soft delete of a subtree goes on with the parent after the soft delete of a child has failed, and
  leaves the visible child below the hidden parent; the rollback of the child keeps the summary of a
  soft-deleted session.\<close>

abbreviation example_half_hidden :: "(world, string list \<times> lifecycle_error list) run" where
  "example_half_hidden \<equiv> softDeleteWithChildren example_soft_config
    (\<lambda>i _. example_soft_answers True (if i = ''b'' then Failed else Done)) (\<lambda>_ w. w) ''a'' False None"

theorem failed_child_left_below_hidden_parent:
  "case example_half_hidden example_family of (_, v, result) \<Rightarrow>
     result = ([''a''], replicate 11 (ForSession ''b'' MarkerNotSaved)) \<and>
     map_option IsSoftDeleted (map_of (live v) ''a'') = Some True \<and>
     map_option (\<lambda>s. (ParentID s, IsSoftDeleted s, Status s, SummaryText s)) (map_of (live v) ''b'') =
       Some (''a'', False, StatusRunning, ''Soft-deleted, recoverable until tomorrow'')"
  by code_simp

text \<open>The recorded process is dropped although the driver's process survived both signals.\<close>

theorem soft_delete_forgets_survivor:
  "let v = final (SoftDelete example_soft_config (example_soft_answers False Done) ''a'') example_world
   in map_of (w_procs v) (PID example_session) = Some (PIDStartTime example_session) \<and>
      map_option PID (map_of (live v) ''a'') = Some 0 \<and> map_option PID (map_of (stored v) ''a'') = Some 0 \<and>
      map_of (w_drivers v) ''a'' = None"
  by code_simp

text \<open>A restore that is accepted between the critical sections of a deletion reports success for a session
  that the deletion then removes.\<close>

abbreviation example_deleting :: world where
  "example_deleting \<equiv> fst (delete_begin example_delete_config (example_answers True) ''a'' example_trash)"

theorem restore_accepted_during_deletion:
  "\<not> isl (outcome (Restore 100 (example_restore 50 Done) ''a'') example_deleting) \<and>
   map_of (live (fst (delete_commit (example_answers True) ''a''
     \<lparr>sn_session = example_session, sn_driver = None, sn_client = False\<rparr>
     (final (Restore 100 (example_restore 50 Done) ''a'') example_deleting)))) ''a'' = None"
  by code_simp

text \<open>The rollback of a restore whose save failed hides the parent again although a child was created under
  it meanwhile.\<close>

theorem restore_rollback_hides_parent:
  "let restored = fst (restoreLocked 100 (\<lambda>n. 50 + int n) ''a'' example_trash);
       child = example_session\<lparr>Name := ''test'', ParentID := ''a'', Status := StatusCreating, PID := 0\<rparr>;
       v = final (rollbackRestoredStates Done [(''a'', the (map_of (live example_trash) ''a''))]) (create_reserve Done ''b'' child None restored)
   in parent_guard restored ''a'' = None \<and> map_option IsSoftDeleted (map_of (live v) ''a'') = Some True \<and>
      map_option (\<lambda>s. (ParentID s, IsSoftDeleted s)) (map_of (live v) ''b'') = Some (''a'', False)"
  by code_simp

end
