(* ===== verification/Purge.thy ===== *)
theory Purge
  imports Soft_Delete
begin

text \<open>
  The removal of soft-deleted sessions whose deadline has passed (\<^verbatim>\<open>purgeExpired\<close> and its helpers in
  \<^verbatim>\<open>session_softdelete.go\<close>): the candidates are collected under the read lock, sorted deepest first, and each
  is checked again before it is deleted. Shown here: a purge removes nothing but expired sessions; no
  restore can win against it between the check and the deletion; and one pass removes a whole expired
  subtree, although a single deletion refuses a session that has children.

  A cycle of parents is deleted by \<^verbatim>\<open>DeleteWithChildren\<close>, which is an argument of \<open>purgeExpired\<close>; in a forest
  of sessions it is never called.
\<close>

section \<open>Candidates\<close>

lemma seen_decreases:
  assumes "i \<notin> set seen" "map_of ss i = Some s"
  shows "card (fst ` set ss - set (i # seen)) < card (fst ` set ss - set seen)"
proof -
  have "i \<in> fst ` set ss - set seen" using assms by (force dest: map_of_SomeD)
  moreover have "fst ` set ss - set (i # seen) = (fst ` set ss - set seen) - {i}" by auto
  ultimately show ?thesis by (metis card_Diff1_less finite_Diff finite_imageI finite_set)
qed

text \<open>The number of parents that can be walked up from a session.\<close>

function depth_loop :: "(string \<times> SessionState) list \<Rightarrow> string list \<Rightarrow> string \<Rightarrow> nat" where
  "depth_loop ss seen parentID =
    (if parentID = [] \<or> parentID \<in> set seen then 0
     else case map_of ss parentID of
         None \<Rightarrow> 0
       | Some parent \<Rightarrow> Suc (depth_loop ss (parentID # seen) (ParentID parent)))"
  by pat_completeness auto
termination
  by (relation "measure (\<lambda>(ss, seen, p). card (fst ` set ss - set seen))") (simp, use seen_decreases in fastforce)

declare depth_loop.simps [simp del]

text \<open>The members of the cycle are the part of the chain that starts at the session met again.\<close>

function cycle_loop :: "(string \<times> SessionState) list \<Rightarrow> string list \<Rightarrow> string \<Rightarrow> string" where
  "cycle_loop ss chain current =
    (if current = [] then []
     else if current \<in> set chain then
       (let members = dropWhile (\<lambda>i. i \<noteq> current) chain in fold min (tl members) (hd members))
     else case map_of ss current of
         None \<Rightarrow> []
       | Some s \<Rightarrow> cycle_loop ss (chain @ [current]) (ParentID s))"
  by pat_completeness auto
termination
  by (relation "measure (\<lambda>(ss, chain, c). card (fst ` set ss - set chain))") (simp, use seen_decreases in fastforce)

declare cycle_loop.simps [simp del]

definition expiredOwnershipCycleRootLocked :: "world \<Rightarrow> string \<Rightarrow> string" where
  "expiredOwnershipCycleRootLocked w i = cycle_loop (live w) [] i"

record expiredPurgeCandidate =
  pc_id :: string
  pc_expiresAt :: int
  pc_depth :: nat
  pc_cycleRoot :: string

definition purge_candidates :: "int \<Rightarrow> int \<Rightarrow> world \<Rightarrow> expiredPurgeCandidate list" where
  "purge_candidates retention now w =
    concat (map (\<lambda>(i, s).
      if DeletedAt s = None then []
      else let expiry = fst (fallbackExpiryLocked retention s now)
           in if shouldPurge s now expiry
              then [\<lparr>pc_id = i, pc_expiresAt = expiry, pc_depth = depth_loop (live w) [i] (ParentID s),
                     pc_cycleRoot = expiredOwnershipCycleRootLocked w i\<rparr>]
              else []) (live w))"

text \<open>The order is total on candidates with different ids, so that the result of the sort is determined.\<close>

definition sortExpiredPurgeCandidates :: "expiredPurgeCandidate list \<Rightarrow> expiredPurgeCandidate list" where
  "sortExpiredPurgeCandidates cs = sort_key (\<lambda>c. (- int (pc_depth c), pc_cycleRoot c, pc_expiresAt c, pc_id c)) cs"

definition expiredCycleSubtreeEligible :: "int \<Rightarrow> int \<Rightarrow> string \<Rightarrow> world \<Rightarrow> bool" where
  "expiredCycleSubtreeEligible retention now rootID w =
    list_all (\<lambda>i. case map_of (live w) i of
      None \<Rightarrow> False
    | Some s \<Rightarrow>
        \<not> (Status s = StatusCreating \<or> Status s = StatusDeleting \<or> Starred s \<or> IsSystemSession s \<or> \<not> IsSoftDeleted s) \<and>
        shouldPurge s now (fst (fallbackExpiryLocked retention s now))) (below w rootID)"

section \<open>The pass\<close>

definition still_expired :: "int \<Rightarrow> int \<Rightarrow> expiredPurgeCandidate \<Rightarrow> world \<Rightarrow> bool" where
  "still_expired retention now c w =
    (case map_of (live w) (pc_id c) of
       None \<Rightarrow> False
     | Some s \<Rightarrow>
         if DeletedAt s = None then False
         else let expiry = fst (fallbackExpiryLocked retention s now)
              in expiry = pc_expiresAt c \<and> shouldPurge s now expiry)"

record purge_progress =
  pp_cycles :: "string list"
  pp_purged :: nat
  pp_failures :: nat

definition count_delete :: "lifecycle_error option \<Rightarrow> purge_progress \<Rightarrow> purge_progress" where
  "count_delete r p =
    (if r = None then p\<lparr>pp_purged := pp_purged p + 1\<rparr> else p\<lparr>pp_failures := pp_failures p + 1\<rparr>)"

record purge_config =
  pg_delete :: delete_config
  pg_retention :: int

type_synonym cycle_delete = "string \<Rightarrow> (world, string list \<times> lifecycle_error option) run"

definition purge_one ::
  "purge_config \<Rightarrow> (string \<Rightarrow> delete_answers) \<Rightarrow> cycle_delete \<Rightarrow> int \<Rightarrow> expiredPurgeCandidate \<Rightarrow> purge_progress \<Rightarrow>
    (world, purge_progress) run" where
  "purge_one cfg a DeleteWithChildren now c p =
    (if pc_cycleRoot c \<noteq> [] then
       (if pc_cycleRoot c \<in> set (pp_cycles p) then ret p
        else let p1 = p\<lparr>pp_cycles := pc_cycleRoot c # pp_cycles p\<rparr>
             in seq (act (\<lambda>w. (w, expiredCycleSubtreeEligible (pg_retention cfg) now (pc_cycleRoot c) w))) (\<lambda>eligible.
                  if \<not> eligible then ret p1
                  else seq (DeleteWithChildren (pc_cycleRoot c)) (\<lambda>r.
                    ret (p1\<lparr>pp_purged := pp_purged p1 + length (fst r),
                            pp_failures := pp_failures p1 + (if snd r = None then 0 else 1)\<rparr>))))
     else seq (act (\<lambda>w. (w, still_expired (pg_retention cfg) now c w))) (\<lambda>still.
       if \<not> still then ret p
       else seq (Delete (pg_delete cfg) (a (pc_id c)) (pc_id c)) (\<lambda>r. ret (count_delete r p))))"

definition purgeExpired ::
  "purge_config \<Rightarrow> (string \<Rightarrow> delete_answers) \<Rightarrow> cycle_delete \<Rightarrow> int \<Rightarrow> (world, nat \<times> purge_progress) run" where
  "purgeExpired cfg a DeleteWithChildren now =
    seq (act (\<lambda>w. (w, sortExpiredPurgeCandidates (purge_candidates (pg_retention cfg) now w)))) (\<lambda>expired.
      seq (thread (purge_one cfg a DeleteWithChildren now) expired \<lparr>pp_cycles = [], pp_purged = 0, pp_failures = 0\<rparr>) (\<lambda>p.
        ret (length expired, p)))"

section \<open>What one deletion leaves alone\<close>

definition delete_frame :: "string \<Rightarrow> world \<Rightarrow> world \<Rightarrow> bool" where
  "delete_frame i w v \<longleftrightarrow>
    (\<forall>j. j \<noteq> i \<longrightarrow> map_of (live v) j = map_of (live w) j) \<and> (map_of (live w) i = None \<longrightarrow> map_of (live v) i = None) \<and>
    w_roots v = w_roots w \<and> w_upgradePending v = w_upgradePending w \<and> w_shutdownPending v = w_shutdownPending w \<and>
    st_UpgradeCleanup (w_state v) = st_UpgradeCleanup (w_state w) \<and> (distinct (ids w) \<longrightarrow> distinct (ids v))"

named_theorems frame_intros \<open>actions within the frame of a deletion\<close>

lemma keeps_refl [simp]: "delete_frame i w w"
  by (simp add: delete_frame_def)

lemma keeps_put [frame_intros]: "delete_frame i w v \<Longrightarrow> delete_frame i w (put_session i f v)"
  using ids_put [of i f v] by (auto simp: delete_frame_def simp del: map_map)

lemma keeps_save [frame_intros]: "delete_frame i w v \<Longrightarrow> delete_frame i w (saveStateFile r v)"
  by (simp add: delete_frame_def)

lemma keeps_remove [frame_intros]: "delete_frame i w v \<Longrightarrow> delete_frame i w (remove_session i v)"
  by (auto simp: delete_frame_def map_of_remove_session) (simp_all add: remove_session_def map_delete_def distinct_map_filter)

lemma keeps_runtime [frame_intros]:
  assumes "delete_frame i w v"
  shows "delete_frame i w (detach_runtime i v)" "delete_frame i w (publish e v)" "delete_frame i w (endLifecycleOperation v)"
    "delete_frame i w (fst (beginLifecycleOperation v))" "delete_frame i w (put_driver i d v)" "delete_frame i w (put_client i c v)"
    "delete_frame i w (put_attention q v)" "delete_frame i w (fst (clearOrchestratorAttentionForSessionLocked i v))"
    "delete_frame i w (fst (removeTombstone r i v))" "delete_frame i w (fst (writeTombstone r t v))"
    "delete_frame i w (fst (killVerifiedProcess os p st v))" "delete_frame i w (fst (teardownLiveDriver dr p v))"
    "delete_frame i w (fst (teardownArtifacts dir ok spec v))" "delete_frame i w (v\<lparr>w_silentWarned := ws\<rparr>)"
    "delete_frame i w (v\<lparr>w_tokens := ts\<rparr>)"
  using assms
  by (simp_all add: delete_frame_def detach_runtime_def publish_def endLifecycleOperation_def beginLifecycleOperation_def put_driver_def
      put_client_def put_attention_def removeTombstone_def writeTombstone_def killVerifiedProcess_def teardownLiveDriver_def process_gone_def
      teardownArtifacts_def split: option.split)

lemma keeps_save_session [frame_intros]:
  "delete_frame i w v \<Longrightarrow> delete_frame i w (f v) \<Longrightarrow> delete_frame i w (fst (save_session r i f v))"
  by (simp add: save_session_def keeps_save)

lemma keeps_commit [frame_intros]: "delete_frame i w v \<Longrightarrow> delete_frame i w (fst (delete_commit a i sn v))"
  by (auto simp: delete_commit_def Let_def case_prod_beta intro!: frame_intros)

lemma keeps_updates [frame_intros]:
  assumes "delete_frame i w v"
  shows "delete_frame i w (clear_pid i v)" "delete_frame i w (delete_unmark a i sn v)" "delete_frame i w (rearm a i sn msg v)"
    "delete_frame i w (revert_status i s v)"
  using assms by (simp_all add: clear_pid_def delete_unmark_def rearm_def revert_status_def frame_intros)

lemma keeps_begin [frame_intros]: "delete_frame i w v \<Longrightarrow> delete_frame i w (fst (delete_begin cfg a i v))"
  by (auto simp: delete_begin_def Let_def split: sum.split intro!: frame_intros)

lemma keeps_stop: "delete_frame i w v \<Longrightarrow> wp (\<lambda>_. True) (delete_stop a sn) (\<lambda>_. delete_frame i w) v"
  by (auto simp: delete_stop_def wp_rules case_prod_beta intro!: frame_intros split: option.split)

lemma keeps_abandon: "delete_frame i w v \<Longrightarrow> (\<And>u. delete_frame i w u \<Longrightarrow> delete_frame i w (f u)) \<Longrightarrow>
    wp (\<lambda>_. True) (abandon a n i f e) (\<lambda>_. delete_frame i w) v"
  by (auto simp: abandon_def wp_rules intro!: frame_intros)

lemma keeps_finish: "delete_frame i w v \<Longrightarrow> wp (\<lambda>_. True) (delete_finish a i sn) (\<lambda>_. delete_frame i w) v"
  by (auto simp: delete_finish_def wp_rules intro!: frame_intros)

lemma keeps_stopped: "delete_frame i w v \<Longrightarrow> wp (\<lambda>_. True) (delete_stopped cfg a i sn failed) (\<lambda>_. delete_frame i w) v"
  by (auto simp: delete_stopped_def wp_rules intro!: keeps_abandon keeps_finish frame_intros split: option.split prod.split)

lemma keeps_teardown: "delete_frame i w v \<Longrightarrow> wp (\<lambda>_. True) (delete_teardown cfg a i sn) (\<lambda>_. delete_frame i w) v"
proof -
  assume "delete_frame i w v"
  then have "wp (\<lambda>_. True) (delete_stop a sn) (\<lambda>_. delete_frame i w) v" by (rule keeps_stop)
  then have "wp (\<lambda>_. True) (delete_stop a sn) (\<lambda>r. wp (\<lambda>_. True) (delete_stopped cfg a i sn r) (\<lambda>_. delete_frame i w)) v"
    by (rule wp_mono) (use keeps_stopped in auto)
  then show ?thesis by (simp add: delete_teardown_def wp_seq)
qed

lemma keeps_marked: "delete_frame i w v \<Longrightarrow> wp (\<lambda>_. True) (delete_marked cfg a i sn) (\<lambda>_. delete_frame i w) v"
  by (auto simp: delete_marked_def wp_rules intro!: keeps_teardown frame_intros)

lemma wp_Delete_frame: "wp (\<lambda>_. True) (Delete cfg a i) (\<lambda>_. delete_frame i w) w"
proof -
  have m: "wp (\<lambda>_. True) (delete_marked cfg a i sn) (\<lambda>_ v. delete_frame i w (endLifecycleOperation v)) v" if "delete_frame i w v" for sn v
    by (rule wp_mono [OF keeps_marked [OF that]]) (auto intro: frame_intros)
  show ?thesis by (auto simp: Delete_def wp_rules intro!: m frame_intros)
qed

section \<open>The candidates of a forest\<close>

definition expired :: "int \<Rightarrow> int \<Rightarrow> SessionState \<Rightarrow> bool" where
  "expired retention now s \<longleftrightarrow> IsSoftDeleted s \<and> shouldPurge s now (fst (fallbackExpiryLocked retention s now))"

abbreviation parents :: "world \<Rightarrow> (string \<times> string) set" where
  "parents w \<equiv> parent_rel (tree (live w))"

lemma candidate_iff:
  "c \<in> set (purge_candidates retention now w) \<longleftrightarrow>
    (\<exists>i s. (i, s) \<in> set (live w) \<and> expired retention now s \<and>
      c = \<lparr>pc_id = i, pc_expiresAt = fst (fallbackExpiryLocked retention s now),
           pc_depth = depth_loop (live w) [i] (ParentID s), pc_cycleRoot = expiredOwnershipCycleRootLocked w i\<rparr>)"
  by (auto simp: purge_candidates_def expired_def IsSoftDeleted_def Let_def split: if_splits)

lemma candidate_ids: "map pc_id (purge_candidates retention now w) = map fst (filter (\<lambda>(i, s). expired retention now s) (live w))"
proof -
  have "map pc_id (concat (map (\<lambda>(i, s). if DeletedAt s = None then []
      else let expiry = fst (fallbackExpiryLocked retention s now)
           in if shouldPurge s now expiry then [\<lparr>pc_id = i, pc_expiresAt = expiry, pc_depth = d i s, pc_cycleRoot = r i s\<rparr>] else []) ss)) =
    map fst (filter (\<lambda>(i, s). expired retention now s) ss)" for d r ss
    by (induction ss) (auto simp: expired_def IsSoftDeleted_def Let_def split: if_splits)
  then show ?thesis unfolding purge_candidates_def by (simp add: case_prod_beta del: map_concat)
qed

lemma sorted_candidates:
  assumes "distinct (ids w)"
  shows "distinct (map pc_id (sortExpiredPurgeCandidates (purge_candidates retention now w)))"
proof -
  have "distinct (map pc_id (purge_candidates retention now w))"
    unfolding candidate_ids using assms by (rule distinct_map_filter)
  then show ?thesis by (simp add: sortExpiredPurgeCandidates_def distinct_map)
qed

lemma cycle_loop_forest:
  assumes "session_forest (tree ss)" "\<forall>x \<in> set chain. (x, i) \<in> (parent_rel (tree ss))\<^sup>+"
  shows "cycle_loop ss chain i = []"
  using assms
proof (induction ss chain i rule: cycle_loop.induct)
  case (1 ss chain i)
  have fresh: "i \<notin> set chain" using 1(2,3) unfolding session_forest_def acyclic_def by blast
  have step: "cycle_loop ss (chain @ [i]) (ParentID s) = []" if "i \<noteq> []" "map_of ss i = Some s" for s
  proof (cases "ParentID s = []")
    case True
    then show ?thesis by (simp add: cycle_loop.simps)
  next
    case False
    then have "(i, ParentID s) \<in> parent_rel (tree ss)" using that by (auto simp: parent_rel_tree)
    then have "\<forall>x \<in> set (chain @ [i]). (x, ParentID s) \<in> (parent_rel (tree ss))\<^sup>+" using 1(3) by (auto intro: trancl_into_trancl)
    then show ?thesis using 1(1) [OF that(1) fresh that(2)] 1(2) by simp
  qed
  show ?case using fresh step by (auto simp: cycle_loop.simps [of ss chain i] split: option.split)
qed

lemma depth_loop_cong:
  assumes "\<And>x. (q, x) \<in> (parent_rel (tree ss))\<^sup>* \<Longrightarrow> x \<in> set A \<longleftrightarrow> x \<in> set B"
  shows "depth_loop ss A q = depth_loop ss B q"
  using assms
proof (induction ss A q arbitrary: B rule: depth_loop.induct)
  case (1 ss A q)
  have "q \<in> set A \<longleftrightarrow> q \<in> set B" using 1(2) by blast
  moreover have "depth_loop ss (q # A) (ParentID s) = depth_loop ss (q # B) (ParentID s)"
    if q: "q \<noteq> []" "q \<notin> set A" "map_of ss q = Some s" for s
  proof (cases "ParentID s = []")
    case True
    then show ?thesis by (simp add: depth_loop.simps)
  next
    case False
    then have e: "(q, ParentID s) \<in> parent_rel (tree ss)" using q by (auto simp: parent_rel_tree)
    have "x \<in> set (q # A) \<longleftrightarrow> x \<in> set (q # B)" if "(ParentID s, x) \<in> (parent_rel (tree ss))\<^sup>*" for x
      using 1(2) [of x] e that by (auto intro: converse_rtrancl_into_rtrancl)
    then show ?thesis using 1(1) q by blast
  qed
  ultimately show ?case by (auto simp: depth_loop.simps [of ss A q] depth_loop.simps [of ss B q] split: option.split)
qed

lemma depth_child:
  assumes "session_forest (tree ss)" "map_of ss c = Some s" "ParentID s = p" "p \<noteq> []" "map_of ss p = Some t"
  shows "depth_loop ss [c] (ParentID s) = Suc (depth_loop ss [p] (ParentID t))"
proof -
  have cp: "(c, p) \<in> parent_rel (tree ss)" using assms by (auto simp: parent_rel_tree)
  have np: "p \<noteq> c" using cp assms(1) unfolding session_forest_def acyclic_def by blast
  have "depth_loop ss [p, c] (ParentID t) = depth_loop ss [p] (ParentID t)"
  proof (cases "ParentID t = []")
    case True
    then show ?thesis by (simp add: depth_loop.simps)
  next
    case False
    then have "(p, ParentID t) \<in> parent_rel (tree ss)" using assms by (auto simp: parent_rel_tree)
    then have "(ParentID t, c) \<notin> (parent_rel (tree ss))\<^sup>*"
      using cp assms(1) unfolding session_forest_def acyclic_def by (meson rtrancl_into_trancl2 r_into_rtrancl rtrancl_trans)
    then show ?thesis by (intro depth_loop_cong) auto
  qed
  then show ?thesis using np assms by (simp add: depth_loop.simps [of ss "[c]"])
qed

lemma sorted_depth:
  assumes "sorted (map (\<lambda>c. (- int (pc_depth c), pc_cycleRoot c, pc_expiresAt c, pc_id c)) (c # cs))" "d \<in> set cs"
  shows "pc_depth d \<le> pc_depth c"
  using assms by (auto simp: less_eq_prod_def)

text \<open>A child that is a candidate is handled before its parent.\<close>

lemma child_first:
  assumes "session_forest (tree (live w))" "distinct (ids w)" "set (c # cs) \<subseteq> set (purge_candidates retention now w)"
    and "sorted (map (\<lambda>c. (- int (pc_depth c), pc_cycleRoot c, pc_expiresAt c, pc_id c)) (c # cs))"
    and "map_of (live w) d = Some s" "ParentID s = pc_id c" "pc_id c \<noteq> []"
  shows "d \<notin> pc_id ` set (c # cs)"
proof
  assume "d \<in> pc_id ` set (c # cs)"
  then obtain e where e: "e \<in> set (c # cs)" "pc_id e = d" by blast
  have depth: "pc_depth x = depth_loop (live w) [pc_id x] (ParentID t)"
    if x: "x \<in> set (c # cs)" "map_of (live w) (pc_id x) = Some t" for x t
  proof -
    have "x \<in> set (purge_candidates retention now w)" using x(1) assms(3) by blast
    then obtain t' where "(pc_id x, t') \<in> set (live w)" "pc_depth x = depth_loop (live w) [pc_id x] (ParentID t')"
      by (auto simp: candidate_iff)
    then show ?thesis using x(2) assms(2) map_of_is_SomeI by fastforce
  qed
  obtain t where t: "map_of (live w) (pc_id c) = Some t"
    using assms(2,3) by (auto simp: candidate_iff dest: map_of_is_SomeI)
  have "pc_depth e = Suc (pc_depth c)"
    using depth [OF e(1)] depth [of c t] e(2) assms(5,6,7) t depth_child [OF assms(1,5,6,7) t] by simp
  moreover have "pc_depth e \<le> pc_depth c" using e(1) sorted_depth [OF assms(4)] by auto
  ultimately show False by simp
qed

section \<open>A pass in which every step succeeds\<close>

text \<open>The answers of a deletion that goes through, and a session whose process can be identified.\<close>

definition prompt :: "delete_answers \<Rightarrow> bool" where
  "prompt a \<longleftrightarrow> (\<forall>n. da_save a n = Done) \<and> da_write a = Done \<and> da_remove a = Done \<and> (\<forall>f. da_files a f) \<and> da_hooks a \<and>
    dr_doneAfterTerm (da_driver a) \<and> os_startReadable (da_os a) \<and> os_term (da_os a) = Delivered \<and> os_goneAfterTerm (da_os a)"

definition stoppable :: "SessionState \<Rightarrow> bool" where
  "stoppable s \<longleftrightarrow> PID s \<le> 0 \<or> 1 < PID s \<and> PIDStartTime s \<noteq> 0"

lemma delete_guard_state: "w_state v = w_state w \<Longrightarrow> w_roots v = w_roots w \<Longrightarrow> delete_guard cfg v i = delete_guard cfg w i"
  by (simp add: delete_guard_def subtreeDeleteActive_def rejectDeleteWithChildrenLocked_def rejectPendingUpgradeCleanupLocked_def
      cong: option.case_cong)

lemma stop_ok: "prompt a \<Longrightarrow> stoppable (sn_session sn) \<Longrightarrow> wp (\<lambda>_. True) (delete_stop a sn) (\<lambda>r _. r = None) v"
  by (auto simp: delete_stop_def wp_rules prompt_def stoppable_def teardownLiveDriver_def killVerifiedProcess_def killProcessGroup_def
      split: option.split)

lemma commit_gone: "map_of (live (fst (delete_commit a i sn w))) i = None"
  by (simp add: delete_commit_def Let_def case_prod_beta put_attention_def map_of_remove_session)

lemma teardown_ok:
  assumes "prompt a" "stoppable (sn_session sn)"
  shows "wp (\<lambda>_. True) (delete_teardown cfg a i sn) (\<lambda>r v. r = None \<and> map_of (live v) i = None) v"
proof -
  have "list_all (da_files a) fs" for fs using assms(1) by (simp add: prompt_def list_all_iff)
  moreover have "snd (removeTombstone (da_remove a) i u)" for u using assms(1) by (simp add: removeTombstone_def prompt_def)
  moreover have "snd (delete_commit a i sn u)" for u using assms(1) by (simp add: delete_commit_def Let_def case_prod_beta prompt_def)
  ultimately have "wp (\<lambda>_. True) (delete_stopped cfg a i sn None) (\<lambda>r v. r = None \<and> map_of (live v) i = None) u" for u
    using assms(1) by (auto simp: delete_stopped_def delete_finish_def wp_rules teardownArtifacts_def prompt_def publish_def commit_gone)
  then have "wp (\<lambda>_. True) (delete_stop a sn) (\<lambda>r. wp (\<lambda>_. True) (delete_stopped cfg a i sn r) (\<lambda>r v. r = None \<and> map_of (live v) i = None)) v"
    by (intro wp_mono [OF stop_ok [OF assms]]) auto
  then show ?thesis by (simp add: delete_teardown_def wp_seq)
qed

lemma wp_Delete_ok:
  assumes "delete_guard cfg w i = Inr s" "stoppable s" "prompt a" "\<not> w_upgradePending w" "\<not> w_shutdownPending w"
  shows "wp (\<lambda>_. True) (Delete cfg a i) (\<lambda>r v. r = None \<and> map_of (live v) i = None) w"
proof -
  let ?w0 = "fst (beginLifecycleOperation w)"
  have w0: "snd (beginLifecycleOperation w) = None" "delete_guard cfg ?w0 i = Inr s"
    using assms(1,4,5) delete_guard_state [of ?w0 w] by (auto simp: beginLifecycleOperation_def)
  have end_ok: "live (endLifecycleOperation u) = live u" for u by (simp add: endLifecycleOperation_def)
  have marked: "wp (\<lambda>_. True) (delete_marked cfg a i sn) (\<lambda>r v. r = None \<and> map_of (live v) i = None) v" if "sn_session sn = s" for sn v
    using teardown_ok [OF assms(3), of sn] assms(2,3) that
    by (auto simp: delete_marked_def wp_rules writeTombstone_def prompt_def)
  show ?thesis
  proof (cases "Status s = StatusCreating")
    case True
    then show ?thesis using w0 assms(3)
      by (auto simp: Delete_def wp_rules delete_begin_def Let_def prompt_def publish_def end_ok map_of_remove_session)
  next
    case False
    then show ?thesis using w0 marked
      by (auto simp: Delete_def wp_rules delete_begin_def Let_def end_ok)
  qed
qed

lemma wp_Delete_refused:
  assumes "delete_guard cfg w i = Inl e"
  shows "wp (\<lambda>_. True) (Delete cfg a i) (\<lambda>r v. live v = live w) w"
proof -
  let ?w0 = "fst (beginLifecycleOperation w)"
  have "delete_guard cfg ?w0 i = Inl e" "live ?w0 = live w"
    using assms delete_guard_state [of ?w0 w] by (auto simp: beginLifecycleOperation_def)
  then show ?thesis by (auto simp: Delete_def wp_rules delete_begin_def endLifecycleOperation_def)
qed

text \<open>A session goes if it and everything below it is expired and none of them is protected.\<close>

definition purgeable_session :: "purge_config \<Rightarrow> int \<Rightarrow> SessionState \<Rightarrow> bool" where
  "purgeable_session cfg now s \<longleftrightarrow>
    expired (pg_retention cfg) now s \<and> \<not> Starred s \<and> Status s \<noteq> StatusDeleting \<and> \<not> RemovedHookCleanupPending s \<and>
    \<not> (IsSystemSession s \<and> SystemKind s \<noteq> SystemKindOrchestrator \<and>
        systemSessionEnabledInConfig (dc_orchestratorEnabled (pg_delete cfg)) s)"

definition purgeable :: "purge_config \<Rightarrow> int \<Rightarrow> world \<Rightarrow> string \<Rightarrow> bool" where
  "purgeable cfg now w i \<longleftrightarrow>
    (\<forall>d. (d, i) \<in> (parents w)\<^sup>* \<longrightarrow> (\<exists>s. map_of (live w) d = Some s \<and> purgeable_session cfg now s))"

lemma purgeable_step:
  assumes "map_of (live w) i = Some s" "i \<noteq> []"
  shows "purgeable cfg now w i \<longleftrightarrow>
    purgeable_session cfg now s \<and> (\<forall>d t. map_of (live w) d = Some t \<longrightarrow> ParentID t = i \<longrightarrow> purgeable cfg now w d)"
proof
  assume p: "purgeable cfg now w i"
  have "(x, i) \<in> (parents w)\<^sup>*" if "map_of (live w) d = Some t" "ParentID t = i" "(x, d) \<in> (parents w)\<^sup>*" for d t x
    using that assms(2) by (auto simp: parent_rel_tree intro: rtrancl_into_rtrancl)
  then show "purgeable_session cfg now s \<and> (\<forall>d t. map_of (live w) d = Some t \<longrightarrow> ParentID t = i \<longrightarrow> purgeable cfg now w d)"
    using p assms(1) unfolding purgeable_def by force
next
  assume p: "purgeable_session cfg now s \<and> (\<forall>d t. map_of (live w) d = Some t \<longrightarrow> ParentID t = i \<longrightarrow> purgeable cfg now w d)"
  show "purgeable cfg now w i"
    unfolding purgeable_def
  proof (intro allI impI)
    fix d assume "(d, i) \<in> (parents w)\<^sup>*"
    then show "\<exists>s. map_of (live w) d = Some s \<and> purgeable_session cfg now s"
    proof (cases rule: rtranclE)
      case base
      then show ?thesis using p assms(1) by simp
    next
      case (step y)
      then have "purgeable cfg now w y" using p by (auto simp: parent_rel_tree)
      then show ?thesis using step(1) by (simp add: purgeable_def)
    qed
  qed
qed

lemma guard_clear:
  assumes "map_of (live v) i = Some s" "w_roots v = []" "st_UpgradeCleanup (w_state v) = []"
    and "expired (pg_retention cfg) now s"
  shows "if purgeable_session cfg now s \<and> (\<forall>(j, c) \<in> set (live v). ParentID c \<noteq> i)
    then delete_guard (pg_delete cfg) v i = Inr s else \<exists>e. delete_guard (pg_delete cfg) v i = Inl e"
proof -
  have "\<not> subtreeDeleteActive v i"
    using assms(2) by (simp add: subtreeDeleteActive_def subtreeDeleteActiveLocked_def no_roots_active)
  moreover have "rejectDeleteWithChildrenLocked v i = None \<longleftrightarrow> (\<forall>(j, c) \<in> set (live v). ParentID c \<noteq> i)"
    using find_None_iff [of "\<lambda>(j, c). ParentID c = i" "live v"]
    by (auto simp: rejectDeleteWithChildrenLocked_def Let_def split: option.split)
  moreover have "rejectPendingUpgradeCleanupLocked v i = None \<longleftrightarrow> \<not> RemovedHookCleanupPending s"
    using assms(1,3) by (simp add: rejectPendingUpgradeCleanupLocked_def)
  ultimately show ?thesis using assms(1,4)
    by (auto simp: delete_guard_def fail_when_def purgeable_session_def split: option.split)
qed

definition purge_loop :: "purge_config \<Rightarrow> int \<Rightarrow> world \<Rightarrow> expiredPurgeCandidate list \<Rightarrow> world \<Rightarrow> bool" where
  "purge_loop cfg now w todo v \<longleftrightarrow>
    sorted (map (\<lambda>c. (- int (pc_depth c), pc_cycleRoot c, pc_expiresAt c, pc_id c)) todo) \<and> distinct (map pc_id todo) \<and>
    set todo \<subseteq> set (purge_candidates (pg_retention cfg) now w) \<and>
    (\<forall>j. map_of (live v) j = (if purgeable cfg now w j \<and> j \<notin> pc_id ` set todo then None else map_of (live w) j)) \<and>
    w_roots v = [] \<and> st_UpgradeCleanup (w_state v) = [] \<and> \<not> w_upgradePending v \<and> \<not> w_shutdownPending v \<and> distinct (ids v)"

lemma purge_loop_step:
  assumes loop: "purge_loop cfg now w (c # cs) v" and frame: "delete_frame (pc_id c) v u"
    and live: "map_of (live u) (pc_id c) = (if purgeable cfg now w (pc_id c) then None else map_of (live w) (pc_id c))"
  shows "purge_loop cfg now w cs u"
proof -
  have d: "map_of (live u) j = (if purgeable cfg now w j \<and> j \<notin> pc_id ` set cs then None else map_of (live w) j)" for j
    using loop frame live unfolding purge_loop_def delete_frame_def by (cases "j = pc_id c") auto
  show ?thesis using d loop frame unfolding purge_loop_def delete_frame_def by simp
qed

lemma candidate_record:
  assumes "distinct (ids w)" "c \<in> set (purge_candidates retention now w)"
  obtains s where "map_of (live w) (pc_id c) = Some s" "expired retention now s"
    "pc_expiresAt c = fst (fallbackExpiryLocked retention s now)" "pc_cycleRoot c = cycle_loop (live w) [] (pc_id c)"
  using assms by (auto simp: candidate_iff expiredOwnershipCycleRootLocked_def dest: map_of_is_SomeI)

lemma purgeable_expired:
  assumes "purgeable cfg now w d"
  obtains s where "map_of (live w) d = Some s" "expired (pg_retention cfg) now s"
proof -
  have "\<exists>s. map_of (live w) d = Some s \<and> purgeable_session cfg now s"
    using assms unfolding purgeable_def by (blast intro: rtrancl_refl)
  then show ?thesis using that by (auto simp: purgeable_session_def)
qed

text \<open>When a candidate is handled, the children that could go are gone.\<close>

lemma children_left:
  assumes "session_forest (tree (live w))" "distinct (ids w)" "map_of (live w) [] = None"
    and loop: "purge_loop cfg now w (c # cs) v" and c: "map_of (live w) (pc_id c) = Some s"
  shows "(\<forall>(j, t) \<in> set (live v). ParentID t \<noteq> pc_id c) \<longleftrightarrow>
    (\<forall>d t. map_of (live w) d = Some t \<longrightarrow> ParentID t = pc_id c \<longrightarrow> purgeable cfg now w d)"
proof -
  have ne: "pc_id c \<noteq> []" using c assms(3) by auto
  have dv: "distinct (ids v)" using loop by (simp add: purge_loop_def)
  have live: "map_of (live v) d = (if purgeable cfg now w d \<and> d \<notin> pc_id ` set (c # cs) then None else map_of (live w) d)" for d
    using loop by (simp add: purge_loop_def)
  have early: "d \<notin> pc_id ` set (c # cs)" if "map_of (live w) d = Some t" "ParentID t = pc_id c" for d t
    by (rule child_first [where retention = "pg_retention cfg" and now = now, OF assms(1,2) _ _ that ne])
      (use loop in \<open>simp_all add: purge_loop_def\<close>)
  have m: "(j, t) \<in> set (live v) \<longleftrightarrow> map_of (live v) j = Some t" for j t
    using dv by (metis map_of_SomeD map_of_is_SomeI)
  have "(\<forall>(j, t) \<in> set (live v). ParentID t \<noteq> pc_id c) \<longleftrightarrow> (\<forall>d t. map_of (live v) d = Some t \<longrightarrow> ParentID t \<noteq> pc_id c)"
    by (simp add: Ball_def split_paired_All m)
  also have "\<dots> \<longleftrightarrow> (\<forall>d t. map_of (live w) d = Some t \<longrightarrow> ParentID t = pc_id c \<longrightarrow> purgeable cfg now w d)"
    using live early by (metis option.distinct(1))
  finally show ?thesis .
qed

lemma wp_purge_one:
  assumes "session_forest (tree (live w))" "distinct (ids w)" "map_of (live w) [] = None"
    and ok: "\<And>i. prompt (a i)" "\<And>i s. map_of (live w) i = Some s \<Longrightarrow> IsSoftDeleted s \<Longrightarrow> stoppable s"
    and loop: "purge_loop cfg now w (c # cs) v"
  shows "wp (\<lambda>_. True) (purge_one cfg a DWC now c p) (\<lambda>_. purge_loop cfg now w cs) v"
proof -
  have "c \<in> set (purge_candidates (pg_retention cfg) now w)" using loop by (simp add: purge_loop_def)
  from candidate_record [OF assms(2) this] obtain s where s: "map_of (live w) (pc_id c) = Some s" "expired (pg_retention cfg) now s"
      "pc_expiresAt c = fst (fallbackExpiryLocked (pg_retention cfg) s now)" and "pc_cycleRoot c = cycle_loop (live w) [] (pc_id c)" .
  then have root: "pc_cycleRoot c = []" using cycle_loop_forest [OF assms(1), of "[]"] by simp
  have v: "map_of (live v) (pc_id c) = Some s" "w_roots v = []" "st_UpgradeCleanup (w_state v) = []" "\<not> w_upgradePending v" "\<not> w_shutdownPending v"
    using loop s(1) by (simp_all add: purge_loop_def)
  have still: "still_expired (pg_retention cfg) now c v"
    using v(1) s by (auto simp: still_expired_def expired_def IsSoftDeleted_def)
  have step: "purgeable cfg now w (pc_id c) \<longleftrightarrow> purgeable_session cfg now s \<and> (\<forall>(j, t) \<in> set (live v). ParentID t \<noteq> pc_id c)"
    using purgeable_step [OF s(1)] children_left [OF assms(1-3) loop s(1)] assms(3) s(1) by fastforce
  have "wp (\<lambda>_. True) (Delete (pg_delete cfg) (a (pc_id c)) (pc_id c))
      (\<lambda>_ u. map_of (live u) (pc_id c) = (if purgeable cfg now w (pc_id c) then None else map_of (live w) (pc_id c))) v"
  proof (cases "purgeable cfg now w (pc_id c)")
    case True
    then have "delete_guard (pg_delete cfg) v (pc_id c) = Inr s" using guard_clear [OF v(1-3) s(2)] step by presburger
    then show ?thesis
      by (rule wp_mono [OF wp_Delete_ok]) (use True v ok s in \<open>auto simp: expired_def\<close>)
  next
    case False
    then obtain e where "delete_guard (pg_delete cfg) v (pc_id c) = Inl e" using guard_clear [OF v(1-3) s(2)] step by presburger
    then show ?thesis
      by (rule wp_mono [OF wp_Delete_refused]) (use False v(1) s(1) in auto)
  qed
  from wp_conj [OF this wp_Delete_frame]
  have "wp (\<lambda>_. True) (Delete (pg_delete cfg) (a (pc_id c)) (pc_id c)) (\<lambda>_. purge_loop cfg now w cs) v"
    by (rule wp_mono) (use purge_loop_step [OF loop] in auto)
  then show ?thesis using root still by (simp add: purge_one_def wp_rules)
qed

text \<open>C9: one pass of the purge removes exactly what may go. In a forest of sessions, when nothing else runs
  and every step of the deletions succeeds, a session is removed if and only if it and all its descendants
  are soft-deleted with the deadline passed and none of them is starred, protected or already being
  deleted; every other session is exactly what it was, and none is added. This holds whatever the
  deletion of a cycle of parents would do.\<close>

theorem purge_exact:
  assumes "session_forest (tree (live w))" and "distinct (map fst (live w))" and "map_of (live w) [] = None"
    and "\<And>i. prompt (a i)" and "\<And>i s. map_of (live w) i = Some s \<Longrightarrow> IsSoftDeleted s \<Longrightarrow> stoppable s"
    and "w_roots w = []" and "st_UpgradeCleanup (w_state w) = []" and "\<not> w_upgradePending w" and "\<not> w_shutdownPending w"
  shows "map_of (live (final (purgeExpired cfg a DeleteWithChildren now) w)) j =
    (if \<forall>d. (d, j) \<in> (parent_rel (tree (live w)))\<^sup>* \<longrightarrow> (\<exists>s. map_of (live w) d = Some s \<and> purgeable_session cfg now s)
     then None else map_of (live w) j)"
proof -
  let ?cs = "sortExpiredPurgeCandidates (purge_candidates (pg_retention cfg) now w)"
  have gone: "i \<in> pc_id ` set ?cs" if p: "purgeable cfg now w i" for i
  proof -
    obtain s where "map_of (live w) i = Some s" "expired (pg_retention cfg) now s" by (rule purgeable_expired [OF p])
    then have "i \<in> set (map pc_id (purge_candidates (pg_retention cfg) now w))"
      unfolding candidate_ids by (force dest: map_of_SomeD)
    then show ?thesis by (simp add: sortExpiredPurgeCandidates_def)
  qed
  have "purge_loop cfg now w ?cs w"
    using sorted_candidates [OF assms(2)] gone assms(2,6-9)
    by (auto simp: purge_loop_def sortExpiredPurgeCandidates_def)
  then have "wp (\<lambda>_. True) (thread (purge_one cfg a DeleteWithChildren now) ?cs \<lparr>pp_cycles = [], pp_purged = 0, pp_failures = 0\<rparr>)
      (\<lambda>_. purge_loop cfg now w []) w"
    by (rule wp_thread [where I = "\<lambda>cs _ v. purge_loop cfg now w cs v"]) (rule wp_purge_one [OF assms(1-5)])
  then have "wp (\<lambda>_. True) (purgeExpired cfg a DeleteWithChildren now) (\<lambda>_. purge_loop cfg now w []) w"
    by (simp add: purgeExpired_def wp_rules)
  from wp_final [OF this] show ?thesis by (simp add: purge_loop_def purgeable_def)
qed

definition example_purge :: purge_config where
  "example_purge = \<lparr>pg_delete = example_delete_config, pg_retention = 1000\<rparr>"

definition example_prompt :: delete_answers where
  "example_prompt = (example_answers True)\<lparr>da_save := \<lambda>_. Done\<rparr>"

text \<open>The hidden family with a deadline that has passed, except for the unrelated session.\<close>

definition example_expired :: world where
  "example_expired =
    (let state = example_state\<lparr>st_Sessions := [(''a'', example_session\<lparr>DeletedAt := Some 10, ExpiresAt := Some 110\<rparr>),
        (''b'', example_session\<lparr>ParentID := ''a'', DeletedAt := Some 9, ExpiresAt := Some 109\<rparr>), (''c'', example_session)]\<rparr>
     in example_world\<lparr>w_state := state, w_disk := state\<rparr>)"

theorem purge_exact_witness:
  "map_of (live (final (purgeExpired example_purge (\<lambda>_. example_prompt) (\<lambda>_. ret ([], None)) 200) example_expired)) ''c'' =
    Some example_session"
proof -
  have live: "live example_expired = [(''a'', example_session\<lparr>DeletedAt := Some 10, ExpiresAt := Some 110\<rparr>),
        (''b'', example_session\<lparr>ParentID := ''a'', DeletedAt := Some 9, ExpiresAt := Some 109\<rparr>), (''c'', example_session)]"
    by (simp add: example_expired_def Let_def)
  have "parents example_expired \<subseteq> {(''b'', ''a'')}"
    by (auto simp: parent_rel_tree live example_session_def split: if_splits)
  then have forest: "session_forest (tree (live example_expired))"
    unfolding session_forest_def by (rule acyclic_subset [rotated]) (auto simp: acyclic_def trancl_insert)
  have ok: "prompt example_prompt" by (simp add: prompt_def example_prompt_def example_answers_def)
  have st: "stoppable s" if "map_of (live example_expired) i = Some s" for i s
    using that by (auto simp: live example_session_def stoppable_def split: if_splits)
  have "\<not> purgeable_session example_purge 200 example_session"
    by (simp add: purgeable_session_def expired_def IsSoftDeleted_def example_session_def)
  then have np: "\<not> (\<forall>d. (d, ''c'') \<in> (parents example_expired)\<^sup>* \<longrightarrow>
      (\<exists>s. map_of (live example_expired) d = Some s \<and> purgeable_session example_purge 200 s))"
    by (intro notI) (drule spec [of _ "''c''"], simp add: live)
  have rt: "w_roots example_expired = []" "st_UpgradeCleanup (w_state example_expired) = []"
      "\<not> w_upgradePending example_expired" "\<not> w_shutdownPending example_expired"
    by (simp_all add: example_expired_def Let_def example_world_def example_state_def)
  have ids: "distinct (map fst (live example_expired))" "map_of (live example_expired) [] = None"
      "map_of (live example_expired) ''c'' = Some example_session" by (simp_all add: live)
  have "map_of (live (final (purgeExpired example_purge (\<lambda>_. example_prompt) (\<lambda>_. ret ([], None)) 200) example_expired)) ''c'' =
      map_of (live example_expired) ''c''"
    by (subst purge_exact [OF forest ids(1,2) ok st rt]) (use np in \<open>simp_all only: if_False\<close>)
  then show ?thesis using ids(3) by simp
qed

section \<open>A purge against a restore\<close>

text \<open>The critical sections that other operations may run between the purge's second check of session \<open>i\<close>
  and its deletion; the clock of a restore is not behind the purge's, and ids are not reused.\<close>

inductive purge_env :: "int \<Rightarrow> string \<Rightarrow> world \<Rightarrow> world \<Rightarrow> bool" for now i where
  env_soft_begin: "purge_env now i w (fst (softDelete_begin cfg a j rc w))"
| env_soft_end: "purge_env now i w (fst (softDelete_end a j k w))"
| env_restore: "now \<le> clock 0 \<Longrightarrow> purge_env now i w (fst (restoreLocked retention clock j w))"
| env_restore_tree: "(\<And>j. now \<le> rr_now r j 0) \<Longrightarrow> purge_env now i w (fst (restore_subtree retention r j w))"
| env_rollback: "purge_env now i w (rollback_restored original w)"
| env_persist: "purge_env now i w (fst (persistLatestUpgradeState io w))"
| env_del_begin: "purge_env now i w (fst (delete_begin dcfg da j w))"
| env_del_update: "f \<in> {clear_pid j, delete_unmark da j sn, rearm da j sn msg, revert_status j s} \<Longrightarrow> purge_env now i w (fst (save_session io j f w))"
| env_del_commit: "purge_env now i w (fst (delete_commit da j sn w))"
| env_create: "j \<noteq> i \<Longrightarrow> purge_env now i w (create_reserve io j s rule w)"
| env_reparent: "purge_env now i w (saveStateFile io (put_session j (\<lambda>s. s\<lparr>ParentID := p\<rparr>) w))"

definition doomed_at :: "string \<Rightarrow> int \<Rightarrow> int \<Rightarrow> world \<Rightarrow> bool" where
  "doomed_at i e now v \<longleftrightarrow> e \<le> now \<and> (\<forall>s. map_of (live v) i = Some s \<longrightarrow> IsSoftDeleted s \<and> ExpiresAt s = Some e)"

lemma doomed_live: "doomed_at i e now w \<Longrightarrow> live v = live w \<Longrightarrow> doomed_at i e now v"
  by (simp add: doomed_at_def)

lemma doomed_save [simp]: "doomed_at i e now (saveStateFile r w) = doomed_at i e now w"
  by (simp add: doomed_at_def)

lemma doomed_put:
  "doomed_at i e now w \<Longrightarrow> (\<And>s. DeletedAt (f s) = DeletedAt s \<and> ExpiresAt (f s) = ExpiresAt s) \<Longrightarrow> doomed_at i e now (put_session j f w)"
  by (auto simp: doomed_at_def IsSoftDeleted_def)

lemma doomed_remove: "doomed_at i e now w \<Longrightarrow> doomed_at i e now (remove_session j w)"
  by (auto simp: doomed_at_def map_of_remove_session)

lemma doomed_visible:
  "doomed_at i e now w \<Longrightarrow> map_of (live w) j = Some s \<Longrightarrow> \<not> IsSoftDeleted s \<Longrightarrow> j \<noteq> i"
  by (auto simp: doomed_at_def)

lemma doomed_soft_begin:
  assumes "doomed_at i e now w"
  shows "doomed_at i e now (fst (softDelete_begin cfg a j rc w))"
proof (cases "softDelete_guard cfg w j rc")
  case (Inr s)
  then have "j \<noteq> i" using softDelete_guard_Inr [OF Inr] doomed_visible [OF assms] by blast
  then have "map_of (live (fst (softDelete_begin cfg a j rc w))) i = map_of (live w) i"
    using Inr by (auto simp: softDelete_begin_def Let_def case_prod_beta soft_rollback_def put_attention_def)
  then show ?thesis using assms by (simp add: doomed_at_def)
qed (use assms in \<open>simp add: softDelete_begin_def\<close>)

lemma doomed_restore:
  assumes "doomed_at i e now w" "now \<le> clock 0"
  shows "doomed_at i e now (fst (restoreLocked retention clock j w))"
proof (cases "restore_guard retention (clock 0) w j")
  case (Inr s)
  note g = restore_guard_Inr [OF Inr]
  have "j \<noteq> i"
  proof
    assume "j = i"
    then have "ExpiresAt s = Some e" "e \<le> clock 0" "DeletedAt s \<noteq> None" using g assms by (auto simp: doomed_at_def IsSoftDeleted_def)
    then show False using g by (auto simp: shouldPurge_def)
  qed
  then show ?thesis using Inr assms(1) by (simp add: restoreLocked_def doomed_at_def)
qed (use assms in \<open>simp add: restoreLocked_def\<close>)

lemma doomed_restore_each:
  "doomed_at i e now w \<Longrightarrow> (\<And>j. now \<le> rr_now r j 0) \<Longrightarrow> doomed_at i e now (fst (restore_each retention r is w))"
proof (induction retention r "is" w rule: restore_each.induct)
  case (2 retention r j "is" w)
  have "doomed_at i e now (fst (restoreLocked retention (rr_now r j) j w))" using 2 by (intro doomed_restore)
  then show ?case using 2 by (auto split: option.split prod.split sum.split)
qed simp

lemma doomed_restore_tree:
  "doomed_at i e now w \<Longrightarrow> (\<And>j. now \<le> rr_now r j 0) \<Longrightarrow> doomed_at i e now (fst (restore_subtree retention r j w))"
  using doomed_restore_each [of i e now w r retention "rev (below w j)"]
  by (auto simp: restore_subtree_def split: option.split prod.split)

lemma doomed_rollback:
  assumes "doomed_at i e now w"
  shows "doomed_at i e now (rollback_restored original w)"
proof (cases "fst original = i")
  case True
  then show ?thesis using assms by (auto simp: rollback_restored_def doomed_at_def IsSoftDeleted_def split: option.split)
next
  case False
  then show ?thesis using assms by (auto simp: rollback_restored_def doomed_at_def split: option.split)
qed

lemma doomed_commit: "doomed_at i e now w \<Longrightarrow> doomed_at i e now (fst (delete_commit a j sn w))"
  by (auto simp: delete_commit_def Let_def case_prod_beta put_attention_def doomed_at_def map_of_remove_session)

lemma doomed_update:
  assumes "doomed_at i e now w" "f \<in> {clear_pid j, delete_unmark da j sn, rearm da j sn msg, revert_status j s}"
  shows "doomed_at i e now (f w)"
proof -
  have "doomed_at i e now (clear_pid j w)" "doomed_at i e now (revert_status j s w)"
    unfolding clear_pid_def revert_status_def by (rule doomed_put [OF assms(1)], simp)+
  moreover have "doomed_at i e now (delete_unmark da j sn w)"
    by (rule doomed_live [OF doomed_put [OF assms(1)]]) (auto simp: delete_unmark_def)
  moreover have "doomed_at i e now (rearm da j sn msg w)"
    by (rule doomed_live [OF doomed_put [OF assms(1)]]) (auto simp: rearm_def applyLifecycleSummaryLocked_def)
  ultimately show ?thesis using assms(2) by blast
qed

interpretation race: invariant_system "doomed_at i e now" "purge_env now i" "doomed_at i e now" for i e now
proof
  fix w v assume w: "doomed_at i e now w" and "purge_env now i w v"
  from this(2) show "doomed_at i e now v"
  proof cases
    case (env_soft_end a j k)
    then show ?thesis using w
      by (auto simp: softDelete_end_def Let_def clear_pid_def doomed_at_def IsSoftDeleted_def split: option.split if_splits)
  next
    case env_persist then show ?thesis using w doomed_live by (simp add: persistLatestUpgradeState_def)
  next
    case (env_del_begin dcfg da j)
    then show ?thesis using w
      by (auto simp: delete_begin_def Let_def detach_runtime_def doomed_at_def IsSoftDeleted_def map_of_remove_session split: sum.split if_splits)
  next
    case (env_del_update f j da sn msg s io)
    then have "doomed_at i e now (f w)" by (intro doomed_update [OF w])
    then show ?thesis using w env_del_update(1) by (simp add: save_session_def)
  next
    case (env_create j io s rule)
    then have "map_of (live v) i = map_of (live w) i" by (simp add: create_reserve_def Let_def)
    then show ?thesis using w by (simp add: doomed_at_def)
  next
    case (env_reparent io j p)
    then show ?thesis using doomed_put [OF w, of "\<lambda>s. s\<lparr>ParentID := p\<rparr>" j] doomed_live by simp
  qed (use w doomed_soft_begin doomed_restore doomed_restore_tree doomed_rollback doomed_commit in auto)
qed simp

text \<open>C10: no restore can slip in between the purge's second check of a session and its deletion. After a
  check that passed on a session with a frozen deadline, and any interleaving of the critical sections of
  soft deletions, restores, rolled back restores, deletions, creations and re-parentings, the session is
  already gone or would pass the check again, even if the configured retention has changed.\<close>

theorem purge_race_free:
  assumes "still_expired retention now c w" and "map_of (live w) (pc_id c) = Some s" and "ExpiresAt s = Some e"
    and "(purge_env now (pc_id c))\<^sup>*\<^sup>* w v"
  shows "map_of (live v) (pc_id c) = None \<or> still_expired retention' now c v"
proof -
  have "doomed_at (pc_id c) e now w" "e = pc_expiresAt c"
    using assms(1-3) by (auto simp: doomed_at_def still_expired_def shouldPurge_def fallbackExpiryLocked_def IsSoftDeleted_def Let_def split: if_splits)
  then have v: "doomed_at (pc_id c) (pc_expiresAt c) now v" using race.steps_inv [OF assms(4)] by simp
  show ?thesis
  proof (cases "map_of (live v) (pc_id c)")
    case (Some x)
    then have "DeletedAt x \<noteq> None" "ExpiresAt x = Some (pc_expiresAt c)" "pc_expiresAt c \<le> now"
      using v by (auto simp: doomed_at_def IsSoftDeleted_def)
    then show ?thesis using Some by (simp add: still_expired_def shouldPurge_def fallbackExpiryLocked_def)
  qed simp
qed

definition example_candidate :: expiredPurgeCandidate where
  "example_candidate = \<lparr>pc_id = ''b'', pc_expiresAt = 109, pc_depth = 1, pc_cycleRoot = []\<rparr>"

theorem purge_race_free_witness:
  "still_expired 0 200 example_candidate (fst (restoreLocked 1000 (\<lambda>_. 201) ''b'' example_expired))"
proof -
  let ?v = "fst (restoreLocked 1000 (\<lambda>_. 201) ''b'' example_expired)"
  let ?s = "example_session\<lparr>ParentID := ''a'', DeletedAt := Some 9, ExpiresAt := Some 109\<rparr>"
  have checked: "still_expired 1000 200 example_candidate example_expired" by code_simp
  have rec: "map_of (live example_expired) (pc_id example_candidate) = Some ?s" "ExpiresAt ?s = Some 109"
    by (simp_all add: example_expired_def example_candidate_def Let_def)
  have steps: "(purge_env 200 (pc_id example_candidate))\<^sup>*\<^sup>* example_expired ?v"
    by (rule r_into_rtranclp, rule env_restore) simp
  have left: "map_of (live ?v) (pc_id example_candidate) \<noteq> None" by code_simp
  from purge_race_free [OF checked rec steps, of 0] left show ?thesis by blast
qed

end
