(* ===== verification/Pairing.thy ===== *)
theory Pairing
  imports Auth
begin

text \<open>
  Device pairing: the requests, approvals and revocations of pairing.go, the local-only handlers of
  handler_query.go and the proof-of-possession step of the connection loop in handler.go.

  Go maps are association lists. \<open>hmac\<close> is the keyed hash of client tokens, \<open>valid_key\<close> and \<open>verify\<close> are
  the decoding of a public key and the verification of a signature; random identifiers, tokens and keys
  and clock readings are arguments, as is \<open>saved\<close>: whether the state file could be written. An approval
  sent to a waiting request stays in \<open>pairInbox\<close> until the request's goroutine takes it. The profile and the
  listener's pin, which an approval copies from the manager into the reply, are left out.
\<close>

record pendingPairing =
  pp_DeviceLabel :: string
  pp_PubKey :: string
  pp_Identity :: TailnetIdentity
  pp_RequestedAt :: int
  pp_ExpiresAt :: int

record pairApproval =
  pa_DeviceID :: string
  pa_Token :: string

record PairRate =
  rate_Count :: int
  rate_Per :: int

record PairingState =
  p_sm :: SessionManager
  pendingPairings :: "(string \<times> pendingPairing) list"
  pairWaiters :: "string list"
  pairInbox :: "(string \<times> pairApproval) list"
  pairReqTimes :: "int list"
  connsByDevice :: "(string \<times> nat list) list"
  disk_Devices :: "(string \<times> PairedDevice) list"
  disk_HMACKey :: string

text \<open>Writing the state file, and what a restarted daemon makes of it.\<close>

definition saveState :: "PairingState \<Rightarrow> PairingState" where
  "saveState s = s\<lparr>disk_Devices := PairedDevices (p_sm s), disk_HMACKey := PairingHMACKey (p_sm s)\<rparr>"

datatype pairing_error =
    InvalidPublicKey
  | RateLimited int int
  | TooManyPending
  | NoPendingPairing string
  | NoPairedDevice string
  | SaveFailed
  | LocalOnly
  | NoLease
  | ListenerUnavailable
  | NilConfig

section \<open>Requests\<close>

definition MaxPendingPairingsOrDefault :: "int \<Rightarrow> int" where
  "MaxPendingPairingsOrDefault n = (if n < 1 then 16 else if 1024 < n then 1024 else n)"

definition expirePendingLocked :: "int \<Rightarrow> PairingState \<Rightarrow> PairingState" where
  "expirePendingLocked now s =
    s\<lparr>pendingPairings := filter (\<lambda>e. now < pp_ExpiresAt (snd e)) (pendingPairings s)\<rparr>"

definition AddPendingPairing ::
  "(string \<Rightarrow> bool) \<Rightarrow> PairRate \<Rightarrow> int \<Rightarrow> int \<Rightarrow> string \<Rightarrow> string \<Rightarrow> TailnetIdentity \<Rightarrow> string \<Rightarrow> int \<Rightarrow>
    PairingState \<Rightarrow> PairingState \<times> (pairing_error, string \<times> int) result" where
  "AddPendingPairing valid_key rate maxPending ttl label pubKey i rid now s0 =
    (if \<not> valid_key pubKey then (s0, Inl InvalidPublicKey)
     else
       let s1 = expirePendingLocked now s0;
           kept = filter (\<lambda>t. now - rate_Per rate < t) (pairReqTimes s1);
           s2 = s1\<lparr>pairReqTimes := kept\<rparr>
       in if rate_Count rate \<le> int (length kept) then (s2, Inl (RateLimited (rate_Count rate) (rate_Per rate)))
          else if MaxPendingPairingsOrDefault maxPending \<le> int (length (pendingPairings s2)) then (s2, Inl TooManyPending)
          else (s2\<lparr>pendingPairings := map_put rid
                    \<lparr>pp_DeviceLabel = label, pp_PubKey = pubKey, pp_Identity = i, pp_RequestedAt = now,
                     pp_ExpiresAt = now + ttl\<rparr> (pendingPairings s2),
                   pairReqTimes := kept @ [now],
                   pairWaiters := rid # removeAll rid (pairWaiters s2)\<rparr>, Inr (rid, now + ttl)))"

definition cancelPendingPairing :: "string \<Rightarrow> PairingState \<Rightarrow> PairingState" where
  "cancelPendingPairing rid s =
    s\<lparr>pairWaiters := removeAll rid (pairWaiters s), pendingPairings := map_delete rid (pendingPairings s)\<rparr>"

section \<open>Approval and revocation\<close>

definition EnsurePairingHMACKey :: "string \<Rightarrow> SessionManager \<Rightarrow> SessionManager" where
  "EnsurePairingHMACKey fresh sm = (if PairingHMACKey sm = [] then sm\<lparr>PairingHMACKey := fresh\<rparr> else sm)"

definition ApprovePairing ::
  "(string \<Rightarrow> string \<Rightarrow> string) \<Rightarrow> bool \<Rightarrow> string \<Rightarrow> bool \<Rightarrow> string \<Rightarrow> string \<Rightarrow> string \<Rightarrow> int \<Rightarrow>
    PairingState \<Rightarrow> PairingState \<times> (pairing_error, string \<times> string) result" where
  "ApprovePairing hmac saved requestID readOnly freshKey devID clientToken now s0 =
    (let s = expirePendingLocked now s0
     in case map_of (pendingPairings s) requestID of
          None \<Rightarrow> (s, Inl (NoPendingPairing requestID))
        | Some p \<Rightarrow>
            let sm = EnsurePairingHMACKey freshKey (p_sm s);
                hash = hmac (PairingHMACKey sm) clientToken;
                dev = \<lparr>DeviceID = devID, DeviceLabel = pp_DeviceLabel p, PubKey = pp_PubKey p,
                       TailnetUser = User (pp_Identity p), TailnetNode = Node (pp_Identity p), TokenHash = hash,
                       ReadOnly = readOnly, CreatedAt = now\<rparr>;
                sm' = sm\<lparr>PairedDevices := map_put devID dev (PairedDevices sm),
                         deviceTokenIndex := map_put hash devID (deviceTokenIndex sm)\<rparr>
            in if \<not> saved
               then (s\<lparr>p_sm := sm'\<lparr>PairedDevices := map_delete devID (PairedDevices sm'),
                                  deviceTokenIndex := map_delete hash (deviceTokenIndex sm')\<rparr>\<rparr>, Inl SaveFailed)
               else (saveState (s\<lparr>p_sm := sm', pendingPairings := map_delete requestID (pendingPairings s),
                       pairInbox := (if requestID \<in> set (pairWaiters s)
                                     then map_put requestID \<lparr>pa_DeviceID = devID, pa_Token = clientToken\<rparr> (pairInbox s)
                                     else pairInbox s),
                       pairWaiters := removeAll requestID (pairWaiters s)\<rparr>), Inr (devID, clientToken)))"

definition rollbackPairingDelivery ::
  "(string \<Rightarrow> string \<Rightarrow> string) \<Rightarrow> bool \<Rightarrow> pairApproval \<Rightarrow> PairingState \<Rightarrow> PairingState \<times> pairing_error option" where
  "rollbackPairingDelivery hmac saved a s =
    (let sm = p_sm s
     in case map_of (PairedDevices sm) (pa_DeviceID a) of
          None \<Rightarrow> (s, None)
        | Some device \<Rightarrow>
            let hash = hmac (PairingHMACKey sm) (pa_Token a)
            in if PairingHMACKey sm = [] then (s, None)
               else if TokenHash device \<noteq> hash \<or> map_of (deviceTokenIndex sm) hash \<noteq> Some (pa_DeviceID a) then (s, None)
               else if \<not> saved then (s, Some SaveFailed)
               else (saveState (s\<lparr>p_sm := sm\<lparr>PairedDevices := map_delete (pa_DeviceID a) (PairedDevices sm),
                                              deviceTokenIndex := map_delete hash (deviceTokenIndex sm)\<rparr>\<rparr>), None))"

definition rebuildDeviceTokenIndex :: "SessionManager \<Rightarrow> SessionManager" where
  "rebuildDeviceTokenIndex sm =
    sm\<lparr>deviceTokenIndex := map (\<lambda>(i, d). (TokenHash d, i)) (filter (\<lambda>(i, d). TokenHash d \<noteq> []) (PairedDevices sm))\<rparr>"

definition restart :: "PairingState \<Rightarrow> PairingState" where
  "restart s =
    \<lparr>p_sm = rebuildDeviceTokenIndex
       ((p_sm s)\<lparr>PairedDevices := disk_Devices s, PairingHMACKey := disk_HMACKey s\<rparr>),
     pendingPairings = [], pairWaiters = [], pairInbox = [], pairReqTimes = [], connsByDevice = [],
     disk_Devices = disk_Devices s, disk_HMACKey = disk_HMACKey s\<rparr>"

definition RegisterDeviceConn :: "string \<Rightarrow> nat \<Rightarrow> PairingState \<Rightarrow> PairingState" where
  "RegisterDeviceConn devID conn s =
    s\<lparr>connsByDevice := map_put devID
        ((case map_of (connsByDevice s) devID of None \<Rightarrow> [] | Some cs \<Rightarrow> cs) @ [conn]) (connsByDevice s)\<rparr>"

definition UnregisterDeviceConn :: "string \<Rightarrow> nat \<Rightarrow> PairingState \<Rightarrow> PairingState" where
  "UnregisterDeviceConn devID conn s =
    (let kept = removeAll conn (case map_of (connsByDevice s) devID of None \<Rightarrow> [] | Some cs \<Rightarrow> cs)
     in s\<lparr>connsByDevice := (if kept = [] then map_delete devID (connsByDevice s)
                            else map_put devID kept (connsByDevice s))\<rparr>)"

text \<open>The result is the connections that are closed and the error of the save, if any.\<close>

definition RevokeDevice ::
  "bool \<Rightarrow> string \<Rightarrow> PairingState \<Rightarrow> PairingState \<times> nat list \<times> pairing_error option" where
  "RevokeDevice saved devID s =
    (let sm = p_sm s
     in case map_of (PairedDevices sm) devID of
          None \<Rightarrow> (s, [], Some (NoPairedDevice devID))
        | Some d \<Rightarrow>
            ((if saved then saveState else id)
               (s\<lparr>p_sm := sm\<lparr>PairedDevices := map_delete devID (PairedDevices sm),
                             deviceTokenIndex := map_delete (TokenHash d) (deviceTokenIndex sm)\<rparr>,
                  connsByDevice := map_delete devID (connsByDevice s)\<rparr>),
             case map_of (connsByDevice s) devID of None \<Rightarrow> [] | Some cs \<Rightarrow> cs,
             if saved then None else Some SaveFailed))"

section \<open>Handlers\<close>

text \<open>\<open>NilConfig\<close> is the nil dereference of a manager without configuration.\<close>

definition handlePairApprove ::
  "(string \<Rightarrow> string \<Rightarrow> string) \<Rightarrow> bool \<Rightarrow> bool \<Rightarrow> string \<Rightarrow> authContext \<Rightarrow> string \<Rightarrow> string \<Rightarrow> string \<Rightarrow> string \<Rightarrow> int \<Rightarrow>
    PairingState \<Rightarrow> PairingState \<times> (pairing_error, string \<times> string) result" where
  "handlePairApprove hmac saved hasRemote tlsPin ac requestID freshKey devID clientToken now s =
    (if role ac \<noteq> roleLocalHuman then (s, Inl LocalOnly)
     else case remoteCfg (p_sm s) of
         None \<Rightarrow> (s, Inl NilConfig)
       | Some cfg \<Rightarrow>
           if hasRemote \<and> tlsPin = [] then (s, Inl ListenerUnavailable)
           else ApprovePairing hmac saved requestID (\<not> RequirePairing cfg) freshKey devID clientToken now s)"

definition handlePairRevoke ::
  "bool \<Rightarrow> authContext \<Rightarrow> string \<Rightarrow> PairingState \<Rightarrow> PairingState \<times> nat list \<times> pairing_error option" where
  "handlePairRevoke saved ac devID s =
    (if role ac \<noteq> roleLocalHuman then (s, [], Some LocalOnly) else RevokeDevice saved devID s)"

text \<open>A pairing request queues for approval under a mutation lease (\<open>leased\<close>: whether the daemon granted
  one). Its goroutine then waits for the first of three events: an approval, the request's deadline or the
  end of the connection; \<open>written\<close> says whether the response could be written.\<close>

definition handle_pair_request ::
  "(string \<Rightarrow> bool) \<Rightarrow> PairRate \<Rightarrow> int \<Rightarrow> int \<Rightarrow> bool \<Rightarrow> ConnOrigin \<Rightarrow> string \<Rightarrow> string \<Rightarrow> string \<Rightarrow> int \<Rightarrow>
    PairingState \<Rightarrow> PairingState \<times> (pairing_error, string \<times> int) result" where
  "handle_pair_request valid_key rate maxPending ttl leased org label pubKey rid now s =
    (let identity = (case Identity org of None \<Rightarrow> \<lparr>User = [], Node = [], Tags = []\<rparr> | Some i \<Rightarrow> i)
     in case AddPendingPairing valid_key rate maxPending ttl label pubKey identity rid now s of
          (s', Inl e) \<Rightarrow> (s', Inl e)
        | (s', Inr r) \<Rightarrow> if leased then (s', Inr r) else (cancelPendingPairing (fst r) s', Inl NoLease))"

datatype waiter_event = Approved bool | TimedOut | Disconnected

definition take_approval :: "string \<Rightarrow> PairingState \<Rightarrow> PairingState" where
  "take_approval rid s = s\<lparr>pairInbox := map_delete rid (pairInbox s)\<rparr>"

definition cancelUndelivered ::
  "(string \<Rightarrow> string \<Rightarrow> string) \<Rightarrow> bool \<Rightarrow> string \<Rightarrow> PairingState \<Rightarrow> PairingState" where
  "cancelUndelivered hmac saved rid s =
    (let s1 = cancelPendingPairing rid s
     in case map_of (pairInbox s1) rid of
          None \<Rightarrow> s1
        | Some a \<Rightarrow> fst (rollbackPairingDelivery hmac saved a (take_approval rid s1)))"

definition pair_waiter ::
  "(string \<Rightarrow> string \<Rightarrow> string) \<Rightarrow> bool \<Rightarrow> string \<Rightarrow> waiter_event \<Rightarrow> PairingState \<Rightarrow>
    PairingState \<times> pairApproval option" where
  "pair_waiter hmac saved rid ev s =
    (case ev of
       Approved written \<Rightarrow>
         (case map_of (pairInbox s) rid of
            None \<Rightarrow> (s, None)
          | Some a \<Rightarrow>
              if written then (take_approval rid s, Some a)
              else (fst (rollbackPairingDelivery hmac saved a (take_approval rid s)), None))
     | TimedOut \<Rightarrow> (cancelUndelivered hmac saved rid s, None)
     | Disconnected \<Rightarrow> (cancelUndelivered hmac saved rid s, None))"

text \<open>A connection's part of the handshake: the challenge it was sent and the device it has proven.\<close>

record connState =
  cs_id :: nat
  cs_origin :: ConnOrigin
  challengeNonce :: string
  poppedDevice :: string

definition verifyPoP :: "(string \<Rightarrow> string \<Rightarrow> string \<Rightarrow> string \<Rightarrow> bool) \<Rightarrow> string \<Rightarrow> string \<Rightarrow> string \<Rightarrow> string \<Rightarrow> bool" where
  "verifyPoP verify pubKey nonce spki sig \<longleftrightarrow>
    pubKey \<noteq> [] \<and> nonce \<noteq> [] \<and> spki \<noteq> [] \<and> sig \<noteq> [] \<and> verify pubKey nonce spki sig"

definition issue_challenge :: "string \<Rightarrow> connState \<Rightarrow> connState" where
  "issue_challenge nonce c = (if Remote (cs_origin c) then c\<lparr>challengeNonce := nonce\<rparr> else c)"

definition auth_proof ::
  "(string \<Rightarrow> string \<Rightarrow> string) \<Rightarrow> (string \<Rightarrow> string \<Rightarrow> string \<Rightarrow> string \<Rightarrow> bool) \<Rightarrow> string \<Rightarrow> string \<Rightarrow>
    connState \<times> PairingState \<Rightarrow> (connState \<times> PairingState) \<times> bool" where
  "auth_proof hmac verify token sig cp =
    (case cp of (c, s) \<Rightarrow>
      case DeviceForToken hmac (p_sm s) token of
        None \<Rightarrow> (cp, False)
      | Some dev \<Rightarrow>
          if challengeNonce c = [] \<or> \<not> verifyPoP verify (PubKey dev) (challengeNonce c) (RemoteTLSPin (cs_origin c)) sig \<or>
             Remote (cs_origin c) \<and> \<not> identityMatchesDevice (Identity (cs_origin c)) dev
          then (cp, False)
          else ((c\<lparr>poppedDevice := DeviceID dev, challengeNonce := []\<rparr>, RegisterDeviceConn (DeviceID dev) (cs_id c) s), True))"

section \<open>The invariant\<close>

definition devices_ok :: "(string \<times> PairedDevice) list \<Rightarrow> bool" where
  "devices_ok ds \<longleftrightarrow> distinct (map fst ds) \<and> distinct (map (TokenHash \<circ> snd) ds) \<and>
    (\<forall>e \<in> set ds. DeviceID (snd e) = fst e \<and> TokenHash (snd e) \<noteq> [])"

definition index_ok :: "SessionManager \<Rightarrow> bool" where
  "index_ok sm \<longleftrightarrow>
    (\<forall>h i. map_of (deviceTokenIndex sm) h = Some i \<longleftrightarrow> (\<exists>d. (i, d) \<in> set (PairedDevices sm) \<and> TokenHash d = h))"

definition pair_inv :: "PairingState \<Rightarrow> bool" where
  "pair_inv s \<longleftrightarrow> devices_ok (PairedDevices (p_sm s)) \<and> devices_ok (disk_Devices s) \<and> index_ok (p_sm s)"

text \<open>The transitions of the pairing state, with the identifier an approval mints. A minted identifier and
  the hash of a minted token are new (both are random), and a hash is never empty. Any other part of the
  daemon may write the state file at any time.\<close>

inductive pair_step :: "(string \<Rightarrow> string \<Rightarrow> string) \<Rightarrow> string option \<Rightarrow> PairingState \<Rightarrow> PairingState \<Rightarrow> bool" for hmac where
  pstep_add: "pair_step hmac None s (fst (AddPendingPairing valid_key rate cap ttl label pubKey i rid now s))"
| pstep_cancel: "pair_step hmac None s (cancelPendingPairing rid s)"
| pstep_approve: "devID \<notin> fst ` set (PairedDevices (p_sm s)) \<Longrightarrow>
    (\<And>e. e \<in> set (PairedDevices (p_sm s)) \<Longrightarrow>
      TokenHash (snd e) \<noteq> hmac (PairingHMACKey (EnsurePairingHMACKey key (p_sm s))) token) \<Longrightarrow>
    hmac (PairingHMACKey (EnsurePairingHMACKey key (p_sm s))) token \<noteq> [] \<Longrightarrow>
    pair_step hmac (Some devID) s (fst (ApprovePairing hmac saved rid ro key devID token now s))"
| pstep_rollback: "pair_step hmac None s (fst (rollbackPairingDelivery hmac saved a s))"
| pstep_waiter: "pair_step hmac None s (fst (pair_waiter hmac saved rid ev s))"
| pstep_revoke: "pair_step hmac None s (fst (RevokeDevice saved devID s))"
| pstep_register: "pair_step hmac None s (RegisterDeviceConn devID conn s)"
| pstep_unregister: "pair_step hmac None s (UnregisterDeviceConn devID conn s)"
| pstep_save: "pair_step hmac None s (saveState s)"
| pstep_restart: "pair_step hmac None s (restart s)"

lemma devices_ok_delete: "devices_ok ds \<Longrightarrow> devices_ok (map_delete k ds)"
  by (auto simp: devices_ok_def map_delete_def distinct_map_filter)

lemma devices_mem: "devices_ok ds \<Longrightarrow> (i, d) \<in> set ds \<longleftrightarrow> map_of ds i = Some d"
  by (auto simp: devices_ok_def)

lemma same_hash:
  assumes "devices_ok ds" "(i, d) \<in> set ds" "(j, e) \<in> set ds" "TokenHash d = TokenHash e"
  shows "i = j \<and> d = e"
proof -
  have "inj_on (TokenHash \<circ> snd) (set ds)" using assms(1) by (simp add: devices_ok_def distinct_map)
  from inj_onD [OF this, of "(i, d)" "(j, e)"] assms show ?thesis by simp
qed

lemma index_ok_delete:
  assumes "devices_ok (PairedDevices sm)" "index_ok sm" "map_of (PairedDevices sm) i = Some d"
  shows "index_ok (sm\<lparr>PairedDevices := map_delete i (PairedDevices sm),
    deviceTokenIndex := map_delete (TokenHash d) (deviceTokenIndex sm)\<rparr>)"
proof -
  have d: "(i, d) \<in> set (PairedDevices sm)" using assms(3) by (simp add: map_of_SomeD)
  have idx: "map_of (deviceTokenIndex sm) h = Some j \<longleftrightarrow> (\<exists>e. (j, e) \<in> set (PairedDevices sm) \<and> TokenHash e = h)" for h j
    using assms(2) by (simp add: index_ok_def)
  have "((map_of (deviceTokenIndex sm))(TokenHash d := None)) h = Some j \<longleftrightarrow>
      (\<exists>e. (j, e) \<in> set (PairedDevices sm) \<and> j \<noteq> i \<and> TokenHash e = h)" for h j
  proof (cases "h = TokenHash d")
    case True
    then show ?thesis using same_hash [OF assms(1) d] by auto
  next
    case False
    have "e = d" if "(i, e) \<in> set (PairedDevices sm)" for e
      using that d assms(1) by (metis devices_mem option.inject)
    then show ?thesis using False idx [of h j] by auto
  qed
  then show ?thesis by (simp add: index_ok_def set_map_delete)
qed

lemma devices_ok_put:
  assumes "devices_ok ds" "i \<notin> fst ` set ds" "\<And>e. e \<in> set ds \<Longrightarrow> TokenHash (snd e) \<noteq> TokenHash d"
    and "DeviceID d = i" "TokenHash d \<noteq> []"
  shows "devices_ok (map_put i d ds)"
proof -
  have "TokenHash d \<notin> (TokenHash \<circ> snd) ` set ds" using assms(3) by fastforce
  then show ?thesis using assms(1,2,4,5) by (simp add: map_put_def map_delete_new devices_ok_def)
qed

lemma index_ok_put:
  assumes "devices_ok (PairedDevices sm)" "index_ok sm" "i \<notin> fst ` set (PairedDevices sm)"
    and "\<And>e. e \<in> set (PairedDevices sm) \<Longrightarrow> TokenHash (snd e) \<noteq> TokenHash d"
  shows "index_ok (sm\<lparr>PairedDevices := map_put i d (PairedDevices sm),
    deviceTokenIndex := map_put (TokenHash d) i (deviceTokenIndex sm)\<rparr>)"
proof -
  have idx: "map_of (deviceTokenIndex sm) h = Some j \<longleftrightarrow> (\<exists>e. (j, e) \<in> set (PairedDevices sm) \<and> TokenHash e = h)" for h j
    using assms(2) by (simp add: index_ok_def)
  have "((map_of (deviceTokenIndex sm))(TokenHash d \<mapsto> i)) h = Some j \<longleftrightarrow>
      (\<exists>e. (j, e) \<in> insert (i, d) (set (PairedDevices sm)) \<and> TokenHash e = h)" for h j
    using idx [of h j] assms(4) by (cases "h = TokenHash d") fastforce+
  then show ?thesis by (simp add: index_ok_def map_put_def map_delete_new [OF assms(3)])
qed

lemma EnsureKey_simps [simp]:
  "PairedDevices (EnsurePairingHMACKey k sm) = PairedDevices sm"
  "deviceTokenIndex (EnsurePairingHMACKey k sm) = deviceTokenIndex sm"
  "index_ok (EnsurePairingHMACKey k sm) = index_ok sm"
  by (simp_all add: EnsurePairingHMACKey_def index_ok_def)

lemma expire_simps [simp]:
  "p_sm (expirePendingLocked now s) = p_sm s" "disk_Devices (expirePendingLocked now s) = disk_Devices s"
  by (simp_all add: expirePendingLocked_def)

lemma index_ok_rebuild:
  assumes "devices_ok ds"
  shows "index_ok (rebuildDeviceTokenIndex (sm\<lparr>PairedDevices := ds, PairingHMACKey := k\<rparr>))"
proof -
  have all: "filter (\<lambda>(i, d). TokenHash d \<noteq> []) ds = ds"
    using assms by (auto simp: devices_ok_def filter_id_conv)
  have "distinct (map fst (map (\<lambda>(i, d). (TokenHash d, i)) ds))"
    using assms by (simp add: devices_ok_def comp_def case_prod_beta)
  then have "map_of (map (\<lambda>(i, d). (TokenHash d, i)) ds) h = Some j \<longleftrightarrow> (\<exists>d. (j, d) \<in> set ds \<and> TokenHash d = h)" for h j
    by (subst map_of_eq_Some_iff) (force simp: image_iff)+
  then show ?thesis by (simp add: index_ok_def rebuildDeviceTokenIndex_def all)
qed

lemma Approve_inv:
  assumes inv: "pair_inv s" and dev: "devID \<notin> fst ` set (PairedDevices (p_sm s))"
    and hash: "\<And>e. e \<in> set (PairedDevices (p_sm s)) \<Longrightarrow>
      TokenHash (snd e) \<noteq> hmac (PairingHMACKey (EnsurePairingHMACKey key (p_sm s))) token"
    and ne: "hmac (PairingHMACKey (EnsurePairingHMACKey key (p_sm s))) token \<noteq> []"
  shows "pair_inv (fst (ApprovePairing hmac saved rid ro key devID token now s))"
proof (cases "map_of (pendingPairings (expirePendingLocked now s)) rid")
  case None
  then show ?thesis using inv by (simp add: ApprovePairing_def Let_def pair_inv_def)
next
  case (Some p)
  let ?sm = "EnsurePairingHMACKey key (p_sm s)"
  let ?hash = "hmac (PairingHMACKey ?sm) token"
  let ?d = "\<lparr>DeviceID = devID, DeviceLabel = pp_DeviceLabel p, PubKey = pp_PubKey p,
     TailnetUser = User (pp_Identity p), TailnetNode = Node (pp_Identity p), TokenHash = ?hash,
     ReadOnly = ro, CreatedAt = now\<rparr>"
  have ok: "devices_ok (PairedDevices ?sm)" "index_ok ?sm" using inv by (simp_all add: pair_inv_def)
  show ?thesis
  proof (cases saved)
    case True
    have "devices_ok (map_put devID ?d (PairedDevices (p_sm s)))"
      using ok dev hash ne by (intro devices_ok_put) simp_all
    moreover have "index_ok (?sm\<lparr>PairedDevices := map_put devID ?d (PairedDevices ?sm),
        deviceTokenIndex := map_put (TokenHash ?d) devID (deviceTokenIndex ?sm)\<rparr>)"
      using ok dev hash by (intro index_ok_put) simp_all
    ultimately show ?thesis
      using True Some inv by (simp add: ApprovePairing_def Let_def pair_inv_def saveState_def)
  next
    case False
    have "?hash \<notin> fst ` set (deviceTokenIndex (p_sm s))"
    proof
      assume "?hash \<in> fst ` set (deviceTokenIndex (p_sm s))"
      then obtain j where "map_of (deviceTokenIndex (p_sm s)) ?hash = Some j" by (metis not_None_eq map_of_eq_None_iff)
      then obtain d where "(j, d) \<in> set (PairedDevices (p_sm s))" "TokenHash d = ?hash"
        using inv by (auto simp: pair_inv_def index_ok_def)
      then show False using hash [of "(j, d)"] by simp
    qed
    then have same: "map_delete devID (map_put devID ?d (PairedDevices (p_sm s))) = PairedDevices (p_sm s)"
      "map_delete ?hash (map_put ?hash devID (deviceTokenIndex (p_sm s))) = deviceTokenIndex (p_sm s)"
      using dev by (simp_all add: map_put_def map_delete_def filter_id_conv; force)+
    show ?thesis using False Some inv
      by (simp add: ApprovePairing_def Let_def pair_inv_def same) (simp add: index_ok_def)
  qed
qed

lemma AddPending_frame:
  "p_sm (fst (AddPendingPairing valid_key rate cap ttl label pubKey i rid now s)) = p_sm s"
  "disk_Devices (fst (AddPendingPairing valid_key rate cap ttl label pubKey i rid now s)) = disk_Devices s"
  by (simp_all add: AddPendingPairing_def Let_def)

lemma Revoke_inv: "pair_inv s \<Longrightarrow> pair_inv (fst (RevokeDevice saved devID s))"
  by (cases "map_of (PairedDevices (p_sm s)) devID")
    (simp_all add: RevokeDevice_def Let_def pair_inv_def saveState_def devices_ok_delete index_ok_delete)

lemma rollback_inv: "pair_inv s \<Longrightarrow> pair_inv (fst (rollbackPairingDelivery hmac saved a s))"
proof (cases "map_of (PairedDevices (p_sm s)) (pa_DeviceID a)")
  case (Some d)
  assume "pair_inv s"
  then show ?thesis
    using Some index_ok_delete [of "p_sm s" "pa_DeviceID a" d]
    by (auto simp: rollbackPairingDelivery_def Let_def pair_inv_def saveState_def devices_ok_delete)
qed (simp add: rollbackPairingDelivery_def Let_def)

lemma pair_inv_frame:
  "pair_inv (take_approval rid s) = pair_inv s" "pair_inv (cancelPendingPairing rid s) = pair_inv s"
  by (simp_all add: pair_inv_def take_approval_def cancelPendingPairing_def)

lemma waiter_shape:
  assumes "P s" "P (cancelPendingPairing rid s)"
    and "\<And>a. P (fst (rollbackPairingDelivery hmac saved a (take_approval rid s)))"
    and "\<And>a. P (fst (rollbackPairingDelivery hmac saved a (take_approval rid (cancelPendingPairing rid s))))"
    and "P (take_approval rid s)"
  shows "P (fst (pair_waiter hmac saved rid ev s))"
  using assms by (simp add: pair_waiter_def cancelUndelivered_def Let_def split: waiter_event.split option.split)

lemma pair_step_inv: "pair_step hmac m s t \<Longrightarrow> pair_inv s \<Longrightarrow> pair_inv t"
proof (induction rule: pair_step.induct)
  case (pstep_approve devID s key token saved rid ro now)
  then show ?case by (intro Approve_inv) simp_all
next
  case (pstep_restart s)
  then show ?case
    by (simp add: restart_def pair_inv_def index_ok_rebuild) (simp add: rebuildDeviceTokenIndex_def)
next
  case (pstep_waiter s saved rid ev)
  then show ?case by - (rule waiter_shape, simp_all add: pair_inv_frame rollback_inv)
qed (simp_all add: pair_inv_def AddPending_frame cancelPendingPairing_def RegisterDeviceConn_def saveState_def
    UnregisterDeviceConn_def Let_def Revoke_inv [unfolded pair_inv_def] rollback_inv [unfolded pair_inv_def])

section \<open>Revocation\<close>

definition gone :: "string \<Rightarrow> PairingState \<Rightarrow> bool" where
  "gone dev s \<longleftrightarrow> dev \<notin> fst ` set (PairedDevices (p_sm s)) \<and> dev \<notin> fst ` set (disk_Devices s)"

lemma gone_delete: "dev \<notin> fst ` set xs \<Longrightarrow> dev \<notin> fst ` set (map_delete k xs)"
  by (auto simp: set_map_delete)

lemma gone_put: "dev \<notin> fst ` set xs \<Longrightarrow> k \<noteq> dev \<Longrightarrow> dev \<notin> fst ` set (map_put k v xs)"
  by (auto simp: map_put_def set_map_delete)

lemma gone_Approve:
  "gone dev s \<Longrightarrow> devID \<noteq> dev \<Longrightarrow> gone dev (fst (ApprovePairing hmac saved rid ro key devID token now s))"
  by (cases "map_of (pendingPairings (expirePendingLocked now s)) rid")
    (simp_all add: ApprovePairing_def Let_def gone_def saveState_def gone_delete gone_put)

lemma gone_rollback: "gone dev s \<Longrightarrow> gone dev (fst (rollbackPairingDelivery hmac saved a s))"
  by (simp add: rollbackPairingDelivery_def Let_def gone_def saveState_def gone_delete split: option.split)

lemma gone_frame:
  "gone dev (take_approval rid s) = gone dev s" "gone dev (cancelPendingPairing rid s) = gone dev s"
  by (simp_all add: gone_def take_approval_def cancelPendingPairing_def)

lemma gone_step:
  "pair_step hmac m s t \<Longrightarrow> m \<noteq> Some dev \<Longrightarrow> gone dev s \<Longrightarrow> gone dev t"
proof (induction rule: pair_step.induct)
  case (pstep_approve devID s key token saved rid ro now)
  then show ?case by (intro gone_Approve) simp_all
next
  case (pstep_rollback s saved a)
  then show ?case by (simp add: gone_rollback)
next
  case (pstep_waiter s saved rid ev)
  then show ?case by - (rule waiter_shape, simp_all add: gone_frame gone_rollback)
next
  case (pstep_revoke s saved devID)
  then show ?case
    by (simp add: RevokeDevice_def Let_def gone_def saveState_def gone_delete split: option.split)
next
  case (pstep_restart s)
  then show ?case by (simp add: gone_def restart_def rebuildDeviceTokenIndex_def)
qed (simp_all add: gone_def AddPending_frame cancelPendingPairing_def RegisterDeviceConn_def saveState_def
    UnregisterDeviceConn_def Let_def)

inductive pair_run :: "(string \<Rightarrow> string \<Rightarrow> string) \<Rightarrow> string \<Rightarrow> PairingState \<Rightarrow> PairingState \<Rightarrow> bool" for hmac dev where
  run_refl: "pair_run hmac dev s s"
| run_step: "pair_run hmac dev s t \<Longrightarrow> pair_step hmac m t u \<Longrightarrow> m \<noteq> Some dev \<Longrightarrow> pair_run hmac dev s u"

lemma pair_run_keeps:
  "pair_run hmac dev s t \<Longrightarrow> pair_inv s \<Longrightarrow> gone dev s \<Longrightarrow> pair_inv t \<and> gone dev t"
  by (induction rule: pair_run.induct) (auto dest: pair_step_inv gone_step)

lemma resolveAuth_device:
  assumes "deviceID (fst (resolveAuth hmac sm token org popped)) \<noteq> []"
  shows "\<exists>d. DeviceForToken hmac sm token = Some d \<and> deviceID (fst (resolveAuth hmac sm token org popped)) = DeviceID d"
proof (cases "DeviceForToken hmac sm token")
  case None
  then have "deviceID (fst (resolveAuth hmac sm token org popped)) = []"
    by (simp add: resolveAuth_def session_context_def Let_def)
  then show ?thesis using assms by simp
next
  case (Some d)
  moreover have "token \<noteq> []" using Some by (auto simp: DeviceForToken_def)
  ultimately have "deviceID (fst (resolveAuth hmac sm token org popped)) \<in> {[], DeviceID d}"
    by (simp add: resolveAuth_def session_context_def Let_def split: option.split)
  then show ?thesis using assms Some by simp
qed

definition pair_init :: "PairingState \<Rightarrow> bool" where
  "pair_init s \<longleftrightarrow> PairedDevices (p_sm s) = [] \<and> deviceTokenIndex (p_sm s) = [] \<and> disk_Devices s = []"

definition pair_any :: "(string \<Rightarrow> string \<Rightarrow> string) \<Rightarrow> PairingState \<Rightarrow> PairingState \<Rightarrow> bool" where
  "pair_any hmac s t \<longleftrightarrow> (\<exists>m. pair_step hmac m s t)"

lemma pair_init_inv: "pair_init s \<Longrightarrow> pair_inv s"
  by (simp add: pair_init_def pair_inv_def devices_ok_def index_ok_def)

interpretation pairing: invariant_system pair_init "pair_any hmac" pair_inv for hmac
  by unfold_locales (auto simp: pair_any_def pair_init_inv pair_step_inv)

lemma gone_unresolved:
  assumes "pair_inv u" "gone dev u" "dev \<noteq> []"
  shows "deviceID (fst (resolveAuth hmac (p_sm u) token org popped)) \<noteq> dev"
proof
  assume eq: "deviceID (fst (resolveAuth hmac (p_sm u) token org popped)) = dev"
  then obtain x where x: "DeviceForToken hmac (p_sm u) token = Some x" "DeviceID x = dev"
    using resolveAuth_device [of hmac "p_sm u" token org popped] assms(3) by auto
  then obtain i where "map_of (PairedDevices (p_sm u)) i = Some x"
    by (auto simp: DeviceForToken_def split: if_splits option.splits)
  then have "(i, x) \<in> set (PairedDevices (p_sm u))" by (rule map_of_SomeD)
  moreover from this have "DeviceID x = i" using assms(1) by (auto simp: pair_inv_def devices_ok_def)
  ultimately show False using assms(2) x(2) by (auto simp: gone_def image_iff)
qed

text \<open>C27: a successful revocation takes effect at once and for good. The device's live connections are
  closed, and from then on no token, connection or proof resolves to the device, whatever further
  pairings, revocations, rollbacks and daemon restarts happen, as long as its random identifier is not
  minted again.\<close>

theorem revocation_final:
  assumes "reach pair_init (pair_any hmac) s" and "RevokeDevice saved dev s = (t, closed, None)" and "dev \<noteq> []"
    and "pair_run hmac dev t u"
  shows "deviceID (fst (resolveAuth hmac (p_sm u) token org popped)) \<noteq> dev \<and>
    map_of (connsByDevice t) dev = None \<and> map_of (connsByDevice s) dev \<in> {None, Some closed}"
proof -
  have s: "pair_inv s" using assms(1) by (rule pairing.reach_inv)
  obtain d where d: "map_of (PairedDevices (p_sm s)) dev = Some d" "saved"
    using assms(2) by (auto simp: RevokeDevice_def Let_def split: option.splits if_splits)
  then have t: "gone dev t" "map_of (connsByDevice t) dev = None" "map_of (connsByDevice s) dev \<in> {None, Some closed}"
    using assms(2) by (auto simp: RevokeDevice_def Let_def gone_def saveState_def set_map_delete split: option.splits)
  have "pair_inv t" using Revoke_inv [OF s, of saved dev] assms(2) by simp
  then have "pair_inv u" "gone dev u" using pair_run_keeps [OF assms(4)] t(1) by simp_all
  with t assms(3) show ?thesis by (simp add: gone_unresolved)
qed

definition example_hmac :: "string \<Rightarrow> string \<Rightarrow> string" where
  "example_hmac k t = CHR ''h'' # k @ t"

definition example_unpaired :: PairingState where
  "example_unpaired =
    \<lparr>p_sm = example_manager, pendingPairings = [], pairWaiters = [], pairInbox = [], pairReqTimes = [],
     connsByDevice = [], disk_Devices = [], disk_HMACKey = []\<rparr>"

definition example_pending :: PairingState where
  "example_pending =
    fst (AddPendingPairing (\<lambda>k. k \<noteq> []) \<lparr>rate_Count = 5, rate_Per = 60\<rparr> 16 600 ''phone'' ''pk''
      \<lparr>User = ''ann'', Node = ''n1'', Tags = []\<rparr> ''r1'' 0 example_unpaired)"

definition example_paired :: PairingState where
  "example_paired =
    fst (ApprovePairing example_hmac True ''r1'' False ''key'' ''d1'' ''tok'' 10 example_pending)"

lemma example_pending_reach: "reach pair_init (pair_any example_hmac) example_pending"
proof -
  have "pair_init example_unpaired" by code_simp
  moreover have "pair_any example_hmac example_unpaired example_pending"
    unfolding pair_any_def example_pending_def by (blast intro: pstep_add)
  ultimately show ?thesis by (blast intro: reach.intros)
qed

lemma example_pending_sm: "p_sm example_pending = example_manager"
  by (simp add: example_pending_def AddPending_frame example_unpaired_def)

lemma example_paired_reach: "reach pair_init (pair_any example_hmac) example_paired"
proof -
  have "pair_any example_hmac example_pending example_paired"
    unfolding pair_any_def example_paired_def
    by (rule exI, rule pstep_approve) (simp_all add: example_pending_sm example_manager_def example_hmac_def)
  then show ?thesis using example_pending_reach by (blast intro: reach.intros)
qed

theorem revocation_final_witness:
  "deviceID (fst (resolveAuth example_hmac (p_sm (fst (RevokeDevice True ''d1'' example_paired))) ''tok'' example_origin ''d1'')) \<noteq> ''d1'' \<and>
   deviceID (fst (resolveAuth example_hmac (p_sm example_paired) ''tok'' example_origin ''d1'')) = ''d1''"
proof -
  let ?t = "fst (RevokeDevice True ''d1'' example_paired)"
  have "RevokeDevice True ''d1'' example_paired = (?t, [], None)" by code_simp
  from revocation_final [OF example_paired_reach this _ run_refl]
  have "deviceID (fst (resolveAuth example_hmac (p_sm ?t) ''tok'' example_origin ''d1'')) \<noteq> ''d1''" by simp
  moreover have "deviceID (fst (resolveAuth example_hmac (p_sm example_paired) ''tok'' example_origin ''d1'')) = ''d1''"
    by code_simp
  ultimately show ?thesis by (rule conjI)
qed

section \<open>Approval and delivery\<close>

lemma Approve_success:
  assumes "ApprovePairing hmac saved rid ro key dev token now s = (t, Inr r)"
  obtains p d where "map_of (pendingPairings (expirePendingLocked now s)) rid = Some p" "saved" "r = (dev, token)"
    "DeviceID d = dev" "PubKey d = pp_PubKey p" "ReadOnly d = ro"
    "TokenHash d = hmac (PairingHMACKey (p_sm t)) token"
    "PairingHMACKey (p_sm t) = PairingHMACKey (EnsurePairingHMACKey key (p_sm s))"
    "PairedDevices (p_sm t) = map_put dev d (PairedDevices (p_sm s))"
    "deviceTokenIndex (p_sm t) = map_put (TokenHash d) dev (deviceTokenIndex (p_sm s))"
    "disk_Devices t = PairedDevices (p_sm t)"
    "rid \<in> set (pairWaiters s) \<Longrightarrow> map_of (pairInbox t) rid = Some \<lparr>pa_DeviceID = dev, pa_Token = token\<rparr>"
proof (cases "map_of (pendingPairings (expirePendingLocked now s)) rid")
  case None
  then show thesis using assms by (simp add: ApprovePairing_def Let_def)
next
  case (Some p)
  let ?sm = "EnsurePairingHMACKey key (p_sm s)"
  let ?d = "\<lparr>DeviceID = dev, DeviceLabel = pp_DeviceLabel p, PubKey = pp_PubKey p,
     TailnetUser = User (pp_Identity p), TailnetNode = Node (pp_Identity p), TokenHash = hmac (PairingHMACKey ?sm) token,
     ReadOnly = ro, CreatedAt = now\<rparr>"
  have "saved" using assms Some by (auto simp: ApprovePairing_def Let_def split: if_splits)
  moreover have "pairWaiters (expirePendingLocked now s) = pairWaiters s" by (simp add: expirePendingLocked_def)
  ultimately show thesis
    using assms Some by (intro that [of p ?d]) (auto simp: ApprovePairing_def Let_def saveState_def)
qed

lemma Ensure_nonempty: "key \<noteq> [] \<Longrightarrow> PairingHMACKey (EnsurePairingHMACKey key sm) \<noteq> []"
  by (simp add: EnsurePairingHMACKey_def)

lemma pending_expired: "map_of (pendingPairings (expirePendingLocked now s)) rid = Some p \<Longrightarrow>
    (rid, p) \<in> set (pendingPairings s) \<and> now < pp_ExpiresAt p"
  by (auto simp: expirePendingLocked_def dest!: map_of_SomeD)

lemma rollback_undoes:
  assumes "map_of (PairedDevices (p_sm t)) dev = Some d" "PairingHMACKey (p_sm t) \<noteq> []"
    and "TokenHash d = hmac (PairingHMACKey (p_sm t)) token" "map_of (deviceTokenIndex (p_sm t)) (TokenHash d) = Some dev"
  shows "gone dev (fst (rollbackPairingDelivery hmac True \<lparr>pa_DeviceID = dev, pa_Token = token\<rparr> t)) \<and>
    DeviceForToken hmac (p_sm (fst (rollbackPairingDelivery hmac True \<lparr>pa_DeviceID = dev, pa_Token = token\<rparr> t))) token = None"
  using assms by (simp add: rollbackPairingDelivery_def Let_def gone_def saveState_def set_map_delete DeviceForToken_def image_iff)

text \<open>C28: pairing is all or nothing. An approval that succeeds was given for a request that was pending and
  not expired; when the request's connection then ends its wait, in whatever way, either the requester has
  been sent exactly the minted identifier and token, and the token resolves to a device with the key the
  requester registered, or the device is gone from memory and from the state file and the token resolves
  to nothing (the rollback's save succeeding).\<close>

theorem pairing_delivered_or_undone:
  assumes "ApprovePairing hmac saved rid ro key dev token now s = (t, Inr r)"
    and "rid \<in> set (pairWaiters s)" and "token \<noteq> []" and "key \<noteq> []"
    and "pair_waiter hmac True rid ev t = (u, sent)"
  shows "\<exists>p. (rid, p) \<in> set (pendingPairings s) \<and> now < pp_ExpiresAt p \<and>
    (sent = Some \<lparr>pa_DeviceID = dev, pa_Token = token\<rparr> \<and>
       (\<exists>d. DeviceForToken hmac (p_sm u) token = Some d \<and> DeviceID d = dev \<and> PubKey d = pp_PubKey p \<and> ReadOnly d = ro)
     \<or> sent = None \<and> gone dev u \<and> DeviceForToken hmac (p_sm u) token = None)"
proof -
  obtain p d where pd: "map_of (pendingPairings (expirePendingLocked now s)) rid = Some p"
    "DeviceID d = dev" "PubKey d = pp_PubKey p" "ReadOnly d = ro"
    "TokenHash d = hmac (PairingHMACKey (p_sm t)) token"
    "PairingHMACKey (p_sm t) = PairingHMACKey (EnsurePairingHMACKey key (p_sm s))"
    "PairedDevices (p_sm t) = map_put dev d (PairedDevices (p_sm s))"
    "deviceTokenIndex (p_sm t) = map_put (TokenHash d) dev (deviceTokenIndex (p_sm s))"
    "map_of (pairInbox t) rid = Some \<lparr>pa_DeviceID = dev, pa_Token = token\<rparr>"
    using assms(2) by (rule_tac Approve_success [OF assms(1)]) simp
  let ?a = "\<lparr>pa_DeviceID = dev, pa_Token = token\<rparr>"
  have key: "PairingHMACKey (p_sm t) \<noteq> []" using pd(6) assms(4) by (simp add: Ensure_nonempty)
  have kept: "DeviceForToken hmac (p_sm t) token = Some d"
    using pd(5,7,8) key assms(3) by (simp add: DeviceForToken_def)
  have undone: "gone dev (fst (rollbackPairingDelivery hmac True ?a v)) \<and>
      DeviceForToken hmac (p_sm (fst (rollbackPairingDelivery hmac True ?a v))) token = None" if "p_sm v = p_sm t" for v
    using pd(5,7,8) key that by (intro rollback_undoes [of _ _ d]) simp_all
  have same: "p_sm (take_approval rid v) = p_sm v" "p_sm (cancelPendingPairing rid v) = p_sm v"
    "pairInbox (cancelPendingPairing rid v) = pairInbox v" for v
    by (simp_all add: take_approval_def cancelPendingPairing_def)
  have "sent = Some ?a \<and> p_sm u = p_sm t \<or>
      sent = None \<and> u = fst (rollbackPairingDelivery hmac True ?a (take_approval rid t)) \<or>
      sent = None \<and> u = fst (rollbackPairingDelivery hmac True ?a (take_approval rid (cancelPendingPairing rid t)))"
    using assms(5) pd(9) same by (auto simp: pair_waiter_def cancelUndelivered_def Let_def split: waiter_event.splits if_splits)
  then show ?thesis
    using pending_expired [OF pd(1)] kept pd(2,3,4) undone [of "take_approval rid t"]
      undone [of "take_approval rid (cancelPendingPairing rid t)"] by (auto simp: same)
qed

theorem pairing_delivered_or_undone_witness:
  "DeviceForToken example_hmac (p_sm (fst (pair_waiter example_hmac True ''r1'' (Approved False) example_paired))) ''tok'' = None \<and>
   gone ''d1'' (fst (pair_waiter example_hmac True ''r1'' TimedOut example_paired))"
proof -
  have a: "ApprovePairing example_hmac True ''r1'' False ''key'' ''d1'' ''tok'' 10 example_pending = (example_paired, Inr (''d1'', ''tok''))"
    by code_simp
  have w: "''r1'' \<in> set (pairWaiters example_pending)" by code_simp
  have n: "snd (pair_waiter example_hmac True ''r1'' (Approved False) example_paired) = None"
    "snd (pair_waiter example_hmac True ''r1'' TimedOut example_paired) = None" by code_simp+
  show ?thesis
    using pairing_delivered_or_undone [OF a w _ _ prod.collapse [symmetric], of "Approved False"]
      pairing_delivered_or_undone [OF a w _ _ prod.collapse [symmetric], of TimedOut] n
    by auto
qed

section \<open>Proof of possession\<close>

text \<open>A connection's challenge is spent by the first proof that is accepted. Between two proofs the daemon may
  issue another challenge, reject proofs and change the pairing state at will.\<close>

definition proof_take ::
  "(string \<Rightarrow> string \<Rightarrow> string) \<Rightarrow> (string \<Rightarrow> string \<Rightarrow> string \<Rightarrow> string \<Rightarrow> bool) \<Rightarrow> string \<times> string \<Rightarrow> string \<Rightarrow>
    connState \<times> PairingState \<Rightarrow> (connState \<times> PairingState) option" where
  "proof_take hmac verify p nonce cp =
    (if challengeNonce (fst cp) = nonce \<and> snd (auth_proof hmac verify (fst p) (snd p) cp)
     then Some (fst (auth_proof hmac verify (fst p) (snd p) cp)) else None)"

definition challenge_open :: "string \<Rightarrow> connState \<times> PairingState \<Rightarrow> bool" where
  "challenge_open nonce cp \<longleftrightarrow> nonce \<noteq> [] \<and> challengeNonce (fst cp) = nonce"

inductive conn_env ::
  "(string \<Rightarrow> string \<Rightarrow> string) \<Rightarrow> (string \<Rightarrow> string \<Rightarrow> string \<Rightarrow> string \<Rightarrow> bool) \<Rightarrow> string \<Rightarrow>
    connState \<times> PairingState \<Rightarrow> connState \<times> PairingState \<Rightarrow> bool" for hmac verify nonce where
  env_challenge: "n \<noteq> nonce \<Longrightarrow> conn_env hmac verify nonce (c, s) (issue_challenge n c, s)"
| env_proof: "conn_env hmac verify nonce cp (fst (auth_proof hmac verify token sig cp))"
| env_pairing: "pair_any hmac s t \<Longrightarrow> conn_env hmac verify nonce (c, s) (c, t)"

lemma auth_proof_shape:
  "auth_proof hmac verify token sig cp = (cp, False) \<or>
   (\<exists>dev. DeviceForToken hmac (p_sm (snd cp)) token = Some dev \<and> challengeNonce (fst cp) \<noteq> [] \<and>
      verifyPoP verify (PubKey dev) (challengeNonce (fst cp)) (RemoteTLSPin (cs_origin (fst cp))) sig \<and>
      (Remote (cs_origin (fst cp)) \<longrightarrow> identityMatchesDevice (Identity (cs_origin (fst cp))) dev) \<and>
      auth_proof hmac verify token sig cp =
        ((fst cp\<lparr>poppedDevice := DeviceID dev, challengeNonce := []\<rparr>,
          RegisterDeviceConn (DeviceID dev) (cs_id (fst cp)) (snd cp)), True))"
  by (cases cp) (simp add: auth_proof_def split: option.split)

lemma proof_take_some: "proof_take hmac verify p nonce cp = Some cp' \<Longrightarrow>
    challenge_open nonce cp \<and> challengeNonce (fst cp') = []"
  using auth_proof_shape [of hmac verify "fst p" "snd p" cp]
  by (auto simp: proof_take_def challenge_open_def split: if_splits)

lemma conn_env_keeps: "conn_env hmac verify nonce cp cp' \<Longrightarrow> \<not> challenge_open nonce cp \<Longrightarrow> \<not> challenge_open nonce cp'"
proof (induction rule: conn_env.induct)
  case (env_proof cp token sig)
  then show ?case using auth_proof_shape [of hmac verify token sig cp] by (auto simp: challenge_open_def)
qed (auto simp: challenge_open_def issue_challenge_def)

interpretation challenge: one_shot "proof_take hmac verify" challenge_open "conn_env hmac verify" "\<lambda>_. True" for hmac verify
proof unfold_locales
  show "\<not> challenge_open k t \<and> True" if "proof_take hmac verify a k s = Some t" for a k s t
    using proof_take_some [OF that] by (auto simp: challenge_open_def)
qed (simp_all add: proof_take_some conn_env_keeps)

text \<open>C29: a challenge is single use. A proof is accepted only against the connection's outstanding challenge,
  signed by the key of the device the token names and, on a remote connection, from that device's tailnet
  identity. Acceptance spends the challenge: the next proof is refused, and whatever happens on the
  connection and to the pairings, the spent challenge is never outstanding again, short of the same
  random value being issued anew.\<close>

theorem auth_proof_single_use:
  assumes "auth_proof hmac verify token sig (c, s) = ((c', s'), True)"
    and "(conn_env hmac verify (challengeNonce c))\<^sup>*\<^sup>* (c', s') (d, u)"
  shows "(\<exists>dev. DeviceForToken hmac (p_sm s) token = Some dev \<and> poppedDevice c' = DeviceID dev \<and>
      verifyPoP verify (PubKey dev) (challengeNonce c) (RemoteTLSPin (cs_origin c)) sig \<and>
      (Remote (cs_origin c) \<longrightarrow> identityMatchesDevice (Identity (cs_origin c)) dev)) \<and>
    auth_proof hmac verify token' sig' (c', s') = ((c', s'), False) \<and> challengeNonce d \<noteq> challengeNonce c"
proof -
  obtain dev where dev: "DeviceForToken hmac (p_sm s) token = Some dev" "challengeNonce c \<noteq> []"
    "verifyPoP verify (PubKey dev) (challengeNonce c) (RemoteTLSPin (cs_origin c)) sig"
    "Remote (cs_origin c) \<longrightarrow> identityMatchesDevice (Identity (cs_origin c)) dev"
    "c' = c\<lparr>poppedDevice := DeviceID dev, challengeNonce := []\<rparr>"
    using auth_proof_shape [of hmac verify token sig "(c, s)"] assms(1) by auto
  have "auth_proof hmac verify token' sig' (c', s') = ((c', s'), False)"
    using auth_proof_shape [of hmac verify token' sig' "(c', s')"] dev(5) by simp
  moreover have "\<not> challenge_open (challengeNonce c) (d, u)"
    using challenge.env_steps_keep [OF assms(2)] dev(2,5) by (simp add: challenge_open_def)
  ultimately show ?thesis using dev by (simp add: challenge_open_def)
qed

definition example_conn :: connState where
  "example_conn = \<lparr>cs_id = 7, cs_origin = example_origin, challengeNonce = ''nonce'', poppedDevice = []\<rparr>"

theorem auth_proof_single_use_witness:
  "let r = auth_proof example_hmac (\<lambda>pk n spki sig. sig = pk @ n @ spki) ''tok'' ''pknoncepin'' (example_conn, example_paired)
   in snd r \<and> auth_proof example_hmac (\<lambda>pk n spki sig. sig = pk @ n @ spki) ''tok'' ''pknoncepin'' (fst r) = (fst r, False)"
proof -
  let ?v = "\<lambda>pk n spki sig. sig = pk @ n @ spki"
  let ?c' = "example_conn\<lparr>poppedDevice := ''d1'', challengeNonce := []\<rparr>"
  let ?s' = "RegisterDeviceConn ''d1'' 7 example_paired"
  have r: "auth_proof example_hmac ?v ''tok'' ''pknoncepin'' (example_conn, example_paired) = ((?c', ?s'), True)"
    by code_simp
  from auth_proof_single_use [OF r rtranclp.rtrancl_refl, of "''tok''" "''pknoncepin''"]
  have "auth_proof example_hmac ?v ''tok'' ''pknoncepin'' (?c', ?s') = ((?c', ?s'), False)" by blast
  then show ?thesis unfolding r Let_def by simp
qed

section \<open>Flood limits\<close>

text \<open>A life of the daemon as far as pairing requests are concerned: the clock of the last request, the
  times at which requests were accepted, newest first, and the state. Requests arrive at nondecreasing
  times; approvals, cancellations, deliveries, rollbacks and revocations happen in between.\<close>

inductive flood ::
  "(string \<Rightarrow> string \<Rightarrow> string) \<Rightarrow> (string \<Rightarrow> bool) \<Rightarrow> PairRate \<Rightarrow> int \<Rightarrow> int \<Rightarrow> int list \<Rightarrow> PairingState \<Rightarrow> bool"
  for hmac valid_key rate maxPending where
  flood_start: "pairReqTimes s = [] \<Longrightarrow> pendingPairings s = [] \<Longrightarrow> flood hmac valid_key rate maxPending c [] s"
| flood_request: "flood hmac valid_key rate maxPending c h s \<Longrightarrow> c \<le> now \<Longrightarrow>
    AddPendingPairing valid_key rate maxPending ttl label pubKey i rid now s = (t, r) \<Longrightarrow>
    flood hmac valid_key rate maxPending now (case r of Inl _ \<Rightarrow> h | Inr _ \<Rightarrow> now # h) t"
| flood_other: "flood hmac valid_key rate maxPending c h s \<Longrightarrow>
    t \<in> {cancelPendingPairing rid s, fst (ApprovePairing hmac saved rid ro key dev token now s),
         fst (pair_waiter hmac saved rid ev s), fst (rollbackPairingDelivery hmac saved a s),
         fst (RevokeDevice saved dev s)} \<Longrightarrow>
    flood hmac valid_key rate maxPending c h t"

definition no_request :: "PairingState \<Rightarrow> PairingState \<Rightarrow> bool" where
  "no_request s t \<longleftrightarrow> pairReqTimes t = pairReqTimes s \<and> length (pendingPairings t) \<le> length (pendingPairings s)"

lemma no_request_frame:
  "no_request s (cancelPendingPairing rid s)" "no_request s (take_approval rid s)" "no_request s s"
  "no_request s (fst (rollbackPairingDelivery hmac saved a s))" "no_request s (fst (RevokeDevice saved dev s))"
  by (simp_all add: no_request_def cancelPendingPairing_def take_approval_def rollbackPairingDelivery_def
      RevokeDevice_def Let_def saveState_def length_map_delete split: option.split)

lemma no_request_trans: "no_request s t \<Longrightarrow> no_request t u \<Longrightarrow> no_request s u"
  by (simp add: no_request_def)

lemma expire_length: "length (pendingPairings (expirePendingLocked now s)) \<le> length (pendingPairings s)"
  by (simp add: expirePendingLocked_def)

lemma no_request_Approve: "no_request s (fst (ApprovePairing hmac saved rid ro key dev token now s))"
  by (simp add: no_request_def ApprovePairing_def Let_def saveState_def expirePendingLocked_def split: option.split)
    (meson le_trans length_filter_le length_map_delete)

lemma no_request_waiter: "no_request s (fst (pair_waiter hmac saved rid ev s))"
  by (rule waiter_shape) (blast intro: no_request_frame no_request_trans)+

lemma window_kept:
  "a \<le> (x :: int) \<Longrightarrow> length (filter (\<lambda>t. x < t) (filter (\<lambda>t. a < t) ts)) = length (filter (\<lambda>t. x < t) ts)"
  by (rule arg_cong [where f = length]) (induction ts, auto)

definition flood_inv :: "PairRate \<Rightarrow> int \<Rightarrow> int \<Rightarrow> int list \<Rightarrow> PairingState \<Rightarrow> bool" where
  "flood_inv rate maxPending c h s \<longleftrightarrow>
    int (length (pendingPairings s)) \<le> MaxPendingPairingsOrDefault maxPending \<and>
    (\<forall>x \<ge> c - rate_Per rate. length (filter (\<lambda>t. x < t) h) = length (filter (\<lambda>t. x < t) (pairReqTimes s))) \<and>
    (\<forall>w. int (length (filter (\<lambda>t. w - rate_Per rate < t \<and> t \<le> w) h)) \<le> rate_Count rate)"

lemma window_add:
  assumes "\<And>w. int (length (filter (\<lambda>t. w - p < t \<and> t \<le> w) h)) \<le> n"
    and "int (length (filter (\<lambda>t. now - p < t) h)) < n"
  shows "int (length (filter (\<lambda>t. w - p < t \<and> t \<le> w) ((now :: int) # h))) \<le> n"
proof (cases "w - p < now \<and> now \<le> w")
  case True
  then have "length (filter (\<lambda>t. w - p < t \<and> t \<le> w) h) \<le> length (filter (\<lambda>t. now - p < t) h)"
    by (induction h) auto
  then show ?thesis using True assms(2) by simp
qed (use assms(1) [of w] in auto)

lemma flood_inv_request:
  assumes inv: "flood_inv rate maxPending c h s" and "c \<le> now"
    and add: "AddPendingPairing valid_key rate maxPending ttl label pubKey i rid now s = (t, r)"
  shows "flood_inv rate maxPending now (case r of Inl _ \<Rightarrow> h | Inr _ \<Rightarrow> now # h) t"
proof -
  let ?kept = "filter (\<lambda>x. now - rate_Per rate < x) (pairReqTimes s)"
  have same: "length (filter (\<lambda>x. y < x) h) = length (filter (\<lambda>x. y < x) (pairReqTimes s))"
    if "now - rate_Per rate \<le> y" for y
    using inv that assms(2) by (simp add: flood_inv_def)
  have window: "int (length (filter (\<lambda>x. w - rate_Per rate < x \<and> x \<le> w) h)) \<le> rate_Count rate" for w
    using inv by (simp add: flood_inv_def)
  have keep: "length (filter (\<lambda>x. y < x) ?kept) = length (filter (\<lambda>x. y < x) h)" if "now - rate_Per rate \<le> y" for y
    unfolding window_kept [OF that] using same [OF that] by simp
  have old: "int (length (pendingPairings (expirePendingLocked now s))) \<le> MaxPendingPairingsOrDefault maxPending"
    using inv expire_length [of now s] by (simp add: flood_inv_def)
  consider (invalid) "t = s" "r = Inl InvalidPublicKey"
    | (refused) e where "r = Inl e" "pairReqTimes t = ?kept" "pendingPairings t = pendingPairings (expirePendingLocked now s)"
    | (accepted) y where "r = Inr y" "pairReqTimes t = ?kept @ [now]" "int (length ?kept) < rate_Count rate"
        "int (length (pendingPairings t)) \<le> MaxPendingPairingsOrDefault maxPending"
    using add length_map_delete [of rid "pendingPairings (expirePendingLocked now s)"]
    by (fastforce simp: AddPendingPairing_def Let_def map_put_def expirePendingLocked_def split: if_splits)
  then show ?thesis
  proof cases
    case invalid
    then show ?thesis using inv assms(2) by (simp add: flood_inv_def)
  next
    case refused
    then show ?thesis using keep window old by (simp add: flood_inv_def)
  next
    case accepted
    have "int (length (filter (\<lambda>x. now - rate_Per rate < x) h)) < rate_Count rate"
      using same [of "now - rate_Per rate"] accepted(3) by simp
    from window_add [OF window this] show ?thesis
      using accepted keep by (simp add: flood_inv_def del: filter.simps) simp
  qed
qed

lemma flood_keeps: "flood hmac valid_key rate maxPending c h s \<Longrightarrow> 0 \<le> rate_Count rate \<Longrightarrow> flood_inv rate maxPending c h s"
proof (induction rule: flood.induct)
  case (flood_start s c)
  then show ?case by (simp add: flood_inv_def MaxPendingPairingsOrDefault_def)
next
  case (flood_request c h s now ttl label pubKey i rid t r)
  then show ?case by (blast intro: flood_inv_request)
next
  case (flood_other c h s t rid saved ro key dev token now ev a)
  then have "no_request s t" by (auto intro: no_request_frame no_request_Approve no_request_waiter)
  then show ?case using flood_other by (simp add: flood_inv_def no_request_def)
qed



end
