(* ===== verification/Event_Follow.thy ===== *)
theory Event_Follow
  imports Session_Update Go_Time
begin

text \<open>
  Forwarding of a child session's CI events to its parent (\<^verbatim>\<open>event_follow.go\<close>): the rules, who may set
  them, and the delivery with its duplicate suppression. The last section gathers everything that
  changes session metadata into one transition system and its invariant.

  \<open>to_lower\<close> is \<^verbatim>\<open>strings.ToLower\<close>, \<open>saved\<close> whether the state file could be written, \<open>notified\<close> whether the
  parent's inbox accepted the notification.
\<close>

definition eventFollowClassCI :: string where "eventFollowClassCI = ''ci''"

definition allowedEventFollowClasses :: "string list" where
  "allowedEventFollowClasses = [eventFollowClassCI]"

datatype follow_error =
    UnsupportedEventClass string
  | EventClassRequired
  | ChildNotFound string
  | ChildBeingDeleted string
  | ChildBeingCreated string
  | ChildSoftDeleted string
  | ChildHasNoParent string
  | FollowParentNotFound string
  | FollowParentBeingCreated string
  | FollowParentBeingDeleted string
  | OrchestratorCannotFollow
  | FollowNotAuthorized
  | NotFollowing string
  | FollowNotSaved

fun split_on :: "char \<Rightarrow> string \<Rightarrow> string list" where
  "split_on c [] = [[]]"
| "split_on c (x # s) = (if x = c then [] # split_on c s else (x # hd (split_on c s)) # tl (split_on c s))"

definition event_parts :: "(string \<Rightarrow> string) \<Rightarrow> string list \<Rightarrow> string list" where
  "event_parts to_lower events =
    filter (\<lambda>e. e \<noteq> []) (map (\<lambda>part. to_lower (trim_space part)) (concat (map (split_on CHR '','') events)))"

definition normalizeEventFollowClasses ::
  "(string \<Rightarrow> string) \<Rightarrow> string list \<Rightarrow> bool \<Rightarrow> (follow_error, string list) result" where
  "normalizeEventFollowClasses to_lower events require =
    (let parts = event_parts to_lower events
     in case find (\<lambda>e. e \<notin> set allowedEventFollowClasses) parts of
          Some e \<Rightarrow> Inl (UnsupportedEventClass e)
        | None \<Rightarrow> if parts = [] \<and> require then Inl EventClassRequired else Inr (sort_strings (dedup [] parts)))"

definition authorizeEventFollowRuleLocked ::
  "SessionManager \<Rightarrow> authContext \<Rightarrow> string \<Rightarrow> (follow_error, session \<times> session) result" where
  "authorizeEventFollowRuleLocked sm ac childID =
    (case map_of (Sessions sm) childID of
       None \<Rightarrow> Inl (ChildNotFound childID)
     | Some child \<Rightarrow>
         fail_when (Status child = StatusDeleting) (ChildBeingDeleted (Name child))
          (fail_when (Status child = StatusCreating) (ChildBeingCreated (Name child))
            (fail_when (IsSoftDeleted child) (ChildSoftDeleted (Name child))
              (fail_when (ParentID child = []) (ChildHasNoParent (Name child))
                (case map_of (Sessions sm) (ParentID child) of
                   None \<Rightarrow> Inl (FollowParentNotFound (ParentID child))
                 | Some parent \<Rightarrow>
                     fail_when (Status parent = StatusCreating) (FollowParentBeingCreated (Name parent))
                      (fail_when (Status parent = StatusDeleting \<or> IsSoftDeleted parent) (FollowParentBeingDeleted (Name parent))
                        (fail_when (SystemKind parent = SystemKindOrchestrator) OrchestratorCannotFollow
                          (fail_when (\<not> (isLocalHuman ac \<or> authenticated ac \<and> sessionID ac = ParentID child))
                             FollowNotAuthorized (Inr (child, parent))))))))))"

definition pruneLastDelivered :: "EventFollowRuleState \<Rightarrow> EventFollowRuleState" where
  "pruneLastDelivered rule =
    rule\<lparr>LastDelivered := filter (\<lambda>e. fst e \<in> set (Events rule)) (LastDelivered rule)\<rparr>"

definition removeEventFollowClasses :: "string list \<Rightarrow> string list \<Rightarrow> string list" where
  "removeEventFollowClasses current remove = sort_strings (filter (\<lambda>e. e \<notin> set remove) current)"

text \<open>A failed save restores the rule, so the state is the old one.\<close>

definition FollowEvents ::
  "(string \<Rightarrow> string) \<Rightarrow> bool \<Rightarrow> int \<Rightarrow> authContext \<Rightarrow> string \<Rightarrow> string list \<Rightarrow> MetaState \<Rightarrow>
    MetaState \<times> (follow_error, EventFollowRuleState) result" where
  "FollowEvents to_lower saved now ac childID events st =
    (case rbind (normalizeEventFollowClasses to_lower events True)
        (\<lambda>ns. rbind (authorizeEventFollowRuleLocked (meta_sm st) ac childID) (\<lambda>_. Inr ns)) of
       Inl e \<Rightarrow> (st, Inl e)
     | Inr ns \<Rightarrow>
         let old = (case map_of (EventFollowRules st) childID of
                      None \<Rightarrow> \<lparr>SourceSessionID = childID, Events = [], fr_CreatedAt = now, fr_UpdatedAt = now, LastDelivered = []\<rparr>
                    | Some rule \<Rightarrow> rule);
             rule = pruneLastDelivered (old\<lparr>Events := ns, fr_UpdatedAt := now\<rparr>)
         in if \<not> saved then (st, Inl FollowNotSaved)
            else (st\<lparr>EventFollowRules := map_put childID rule (EventFollowRules st)\<rparr>, Inr rule))"

definition UnfollowEvents ::
  "(string \<Rightarrow> string) \<Rightarrow> bool \<Rightarrow> int \<Rightarrow> authContext \<Rightarrow> string \<Rightarrow> string list \<Rightarrow> MetaState \<Rightarrow>
    MetaState \<times> (follow_error, EventFollowRuleState) result" where
  "UnfollowEvents to_lower saved now ac childID events st =
    (case rbind (normalizeEventFollowClasses to_lower events False)
        (\<lambda>ns. rbind (authorizeEventFollowRuleLocked (meta_sm st) ac childID) (\<lambda>(child, _). Inr (ns, child))) of
       Inl e \<Rightarrow> (st, Inl e)
     | Inr (ns, child) \<Rightarrow>
         (case map_of (EventFollowRules st) childID of
            None \<Rightarrow> (st, Inl (NotFollowing (Name child)))
          | Some rule \<Rightarrow>
              let remaining = (if ns = [] then [] else removeEventFollowClasses (Events rule) ns)
              in if \<not> saved then (st, Inl FollowNotSaved)
                 else if remaining = []
                 then (st\<lparr>EventFollowRules := map_delete childID (EventFollowRules st)\<rparr>,
                       Inr (rule\<lparr>Events := [], LastDelivered := []\<rparr>))
                 else let rule' = pruneLastDelivered (rule\<lparr>Events := remaining, fr_UpdatedAt := now\<rparr>)
                      in (st\<lparr>EventFollowRules := map_put childID rule' (EventFollowRules st)\<rparr>, Inr rule')))"

text \<open>The rules a caller may see, as pairs of child and parent with the rule.\<close>

definition EventFollowing :: "authContext \<Rightarrow> MetaState \<Rightarrow> (string \<times> string \<times> EventFollowRuleState) list" where
  "EventFollowing ac st =
    List.map_filter (\<lambda>(childID, rule).
      case map_of (meta_sessions st) childID of
        None \<Rightarrow> None
      | Some child \<Rightarrow>
          (case map_of (meta_sessions st) (ParentID child) of
             None \<Rightarrow> None
           | Some parent \<Rightarrow>
               if SystemKind parent = SystemKindOrchestrator then None
               else if \<not> isLocalHuman ac \<and> (\<not> authenticated ac \<or> sessionID ac \<noteq> ParentID child) then None
               else Some (childID, ParentID child, rule)))
      (EventFollowRules st)"

definition handleEventFollowing ::
  "authContext \<Rightarrow> MetaState \<Rightarrow> (follow_error, (string \<times> string \<times> EventFollowRuleState) list) result" where
  "handleEventFollowing ac st =
    (if \<not> isLocalHuman ac \<and> \<not> authenticated ac then Inl FollowNotAuthorized else Inr (EventFollowing ac st))"

section \<open>Delivery\<close>

record prData =
  pr_Number :: int
  pr_HeadRefOid :: string
  pr_CIState :: string

record ciFollowDelivery =
  cd_sourceID :: string
  cd_parentID :: string
  cd_dedupKey :: string
  cd_prevDedupKey :: "string option"

definition ciFollowDedupKey :: "prData \<Rightarrow> string" where
  "ciFollowDedupKey d =
    (let head = trim_space (pr_HeadRefOid d);
         head' = (if head = [] then ''unknown-head'' else head)
     in ''pr:'' @ dec_str (pr_Number d) @ '':head:'' @ head' @ '':state:'' @ pr_CIState d)"

definition isForwardableCIState :: "string \<Rightarrow> bool" where
  "isForwardableCIState state \<longleftrightarrow> state \<in> {''pending'', ''failing'', ''passing''}"

text \<open>The parent a source's events go to, if the rule is still in force; otherwise the rule is dropped.\<close>

definition follow_target :: "MetaState \<Rightarrow> string \<Rightarrow> string option" where
  "follow_target st i =
    (case map_of (meta_sessions st) i of
       None \<Rightarrow> None
     | Some source \<Rightarrow>
         if Status source = StatusDeleting \<or> IsSoftDeleted source then None
         else case map_of (meta_sessions st) (ParentID source) of
             None \<Rightarrow> None
           | Some parent \<Rightarrow>
               if Status parent = StatusCreating \<or> Status parent = StatusDeleting \<or> IsSoftDeleted parent \<or>
                  SystemKind parent = SystemKindOrchestrator
               then None else Some (ParentID source))"

definition reserveFollowedCIEvent ::
  "bool \<Rightarrow> int \<Rightarrow> string \<Rightarrow> prData \<Rightarrow> MetaState \<Rightarrow> MetaState \<times> ciFollowDelivery option" where
  "reserveFollowedCIEvent saved now i d st =
    (if \<not> isForwardableCIState (pr_CIState d) then (st, None)
     else case map_of (EventFollowRules st) i of
         None \<Rightarrow> (st, None)
       | Some rule \<Rightarrow>
           if eventFollowClassCI \<notin> set (Events rule) then (st, None)
           else case follow_target st i of
               None \<Rightarrow> (st\<lparr>EventFollowRules := map_delete i (EventFollowRules st)\<rparr>, None)
             | Some parent \<Rightarrow>
                 let key = ciFollowDedupKey d
                 in if map_of (LastDelivered rule) eventFollowClassCI = Some key then (st, None)
                    else if \<not> saved then (st, None)
                    else (st\<lparr>EventFollowRules := map_put i
                              (rule\<lparr>LastDelivered := map_put eventFollowClassCI key (LastDelivered rule), fr_UpdatedAt := now\<rparr>)
                              (EventFollowRules st)\<rparr>,
                          Some \<lparr>cd_sourceID = i, cd_parentID = parent, cd_dedupKey = key,
                                cd_prevDedupKey = map_of (LastDelivered rule) eventFollowClassCI\<rparr>))"

definition rollbackFollowedCIDelivery :: "int \<Rightarrow> ciFollowDelivery \<Rightarrow> MetaState \<Rightarrow> MetaState" where
  "rollbackFollowedCIDelivery now d st =
    (case map_of (EventFollowRules st) (cd_sourceID d) of
       None \<Rightarrow> st
     | Some rule \<Rightarrow>
         if map_of (LastDelivered rule) eventFollowClassCI \<noteq> Some (cd_dedupKey d) then st
         else st\<lparr>EventFollowRules := map_put (cd_sourceID d)
                  (rule\<lparr>LastDelivered := (case cd_prevDedupKey d of
                            Some k \<Rightarrow> map_put eventFollowClassCI k (LastDelivered rule)
                          | None \<Rightarrow> map_delete eventFollowClassCI (LastDelivered rule)),
                        fr_UpdatedAt := now\<rparr>) (EventFollowRules st)\<rparr>)"

text \<open>The result names the parent an event was forwarded to.\<close>

definition deliverFollowedCIEvent ::
  "bool \<Rightarrow> bool \<Rightarrow> int \<Rightarrow> int \<Rightarrow> string \<Rightarrow> prData \<Rightarrow> MetaState \<Rightarrow> MetaState \<times> string option" where
  "deliverFollowedCIEvent saved notified now now' i d st =
    (case reserveFollowedCIEvent saved now i d st of
       (t, None) \<Rightarrow> (t, None)
     | (t, Some del) \<Rightarrow>
         if notified then (t, Some (cd_parentID del)) else (rollbackFollowedCIDelivery now' del t, None))"

lemma ciFollowDedupKey_key: "ciFollowDedupKey d \<noteq> []"
  by (simp add: ciFollowDedupKey_def Let_def)

lemma reserve_Some:
  assumes "reserveFollowedCIEvent saved now i d st = (t, Some del)"
  obtains rule where "saved" "map_of (EventFollowRules st) i = Some rule" "isForwardableCIState (pr_CIState d)"
    "follow_target st i = Some (cd_parentID del)" "map_of (LastDelivered rule) eventFollowClassCI \<noteq> Some (ciFollowDedupKey d)"
    "del = \<lparr>cd_sourceID = i, cd_parentID = cd_parentID del, cd_dedupKey = ciFollowDedupKey d,
       cd_prevDedupKey = map_of (LastDelivered rule) eventFollowClassCI\<rparr>"
    "t = st\<lparr>EventFollowRules := map_put i
       (rule\<lparr>LastDelivered := map_put eventFollowClassCI (ciFollowDedupKey d) (LastDelivered rule), fr_UpdatedAt := now\<rparr>)
       (EventFollowRules st)\<rparr>"
  using assms by (auto simp: reserveFollowedCIEvent_def Let_def split: if_splits option.splits)

lemma follow_target_frame: "meta_sm t = meta_sm st \<Longrightarrow> follow_target t i = follow_target st i"
  unfolding follow_target_def by presburger

lemma follow_target_parent: "follow_target st i = Some p \<Longrightarrow>
    \<exists>s par. map_of (meta_sessions st) i = Some s \<and> ParentID s = p \<and> map_of (meta_sessions st) p = Some par \<and>
      SystemKind par \<noteq> SystemKindOrchestrator \<and> Status par \<noteq> StatusDeleting \<and> \<not> IsSoftDeleted par"
  by (auto simp: follow_target_def split: option.splits if_splits)

text \<open>A followed CI event goes to the right place and only once. When a delivery succeeds, the receiver is
  the source's direct parent, alive and not the orchestrator, and delivering the same result again,
  with the tree and the rules as the delivery left them, forwards nothing. When the notification fails,
  nothing counts as delivered: the next attempt with a working inbox forwards the event.\<close>

theorem ci_event_delivered_once:
  assumes "deliverFollowedCIEvent True True now now' i d st = (t, Some p)"
  shows "(\<exists>s par. map_of (meta_sessions st) i = Some s \<and> ParentID s = p \<and> map_of (meta_sessions st) p = Some par \<and>
      SystemKind par \<noteq> SystemKindOrchestrator \<and> Status par \<noteq> StatusDeleting \<and> \<not> IsSoftDeleted par) \<and>
    deliverFollowedCIEvent saved notified now2 now2' i d t = (t, None) \<and>
    (\<exists>u. deliverFollowedCIEvent True False now now' i d st = (u, None) \<and>
      snd (deliverFollowedCIEvent True True now2 now2' i d u) = Some p)"
proof -
  obtain del where res: "reserveFollowedCIEvent True now i d st = (t, Some del)" and p: "cd_parentID del = p"
    using assms by (auto simp: deliverFollowedCIEvent_def split: prod.splits option.splits)
  from res obtain rule where r: "map_of (EventFollowRules st) i = Some rule" "isForwardableCIState (pr_CIState d)"
    "follow_target st i = Some p" "map_of (LastDelivered rule) eventFollowClassCI \<noteq> Some (ciFollowDedupKey d)"
    "del = \<lparr>cd_sourceID = i, cd_parentID = p, cd_dedupKey = ciFollowDedupKey d,
       cd_prevDedupKey = map_of (LastDelivered rule) eventFollowClassCI\<rparr>"
    "t = st\<lparr>EventFollowRules := map_put i
       (rule\<lparr>LastDelivered := map_put eventFollowClassCI (ciFollowDedupKey d) (LastDelivered rule), fr_UpdatedAt := now\<rparr>)
       (EventFollowRules st)\<rparr>"
    using p by (auto elim: reserve_Some)
  have ci: "eventFollowClassCI \<in> set (Events rule)"
    using res r(1,2) by (auto simp: reserveFollowedCIEvent_def split: if_splits)
  have again: "deliverFollowedCIEvent saved notified now2 now2' i d t = (t, None)"
    using r ci follow_target_frame [of t st i]
    by (simp add: deliverFollowedCIEvent_def reserveFollowedCIEvent_def)
  let ?u = "rollbackFollowedCIDelivery now' del t"
  have u: "map_of (EventFollowRules ?u) i \<noteq> None" "meta_sm ?u = meta_sm st"
    "eventFollowClassCI \<in> set (Events (the (map_of (EventFollowRules ?u) i)))"
    "map_of (LastDelivered (the (map_of (EventFollowRules ?u) i))) eventFollowClassCI = map_of (LastDelivered rule) eventFollowClassCI"
    using r ci by (simp_all add: rollbackFollowedCIDelivery_def split: option.split)
  have "snd (deliverFollowedCIEvent True True now2 now2' i d ?u) = Some p"
    using u r(2,3,4) follow_target_frame [OF u(2), of i]
    by (auto simp: deliverFollowedCIEvent_def reserveFollowedCIEvent_def Let_def)
  moreover have "deliverFollowedCIEvent True False now now' i d st = (?u, None)"
    by (simp add: deliverFollowedCIEvent_def res)
  ultimately show ?thesis using follow_target_parent [OF r(3)] again by blast
qed

definition example_following :: MetaState where
  "example_following =
    fst (FollowEvents (\<lambda>s. s) True 1 example_agent ''b'' ['' ci''] example_meta)"

definition example_pr :: prData where
  "example_pr = \<lparr>pr_Number = 7, pr_HeadRefOid = ''abc'', pr_CIState = ''failing''\<rparr>"

theorem ci_event_delivered_once_witness:
  "snd (deliverFollowedCIEvent True True 2 3 ''b'' example_pr example_following) = Some ''a'' \<and>
   snd (deliverFollowedCIEvent True True 4 5 ''b'' example_pr
     (fst (deliverFollowedCIEvent True True 2 3 ''b'' example_pr example_following))) = None"
proof -
  let ?d = "deliverFollowedCIEvent True True 2 3 ''b'' example_pr example_following"
  have s: "snd ?d = Some ''a''" by code_simp
  then have "?d = (fst ?d, Some ''a'')" by (metis prod.collapse)
  from ci_event_delivered_once [OF this, of True True 4 5] s show ?thesis by simp
qed

section \<open>Everything that changes session metadata\<close>

definition rule_ok :: "string \<times> EventFollowRuleState \<Rightarrow> bool" where
  "rule_ok e \<longleftrightarrow> SourceSessionID (snd e) = fst e \<and> Events (snd e) \<noteq> [] \<and> distinct (Events (snd e)) \<and>
    set (Events (snd e)) \<subseteq> set allowedEventFollowClasses \<and> fst ` set (LastDelivered (snd e)) \<subseteq> set (Events (snd e))"

definition sessions_ok :: "(string \<Rightarrow> string) \<Rightarrow> sessions \<Rightarrow> bool" where
  "sessions_ok cf ss \<longleftrightarrow> distinct (map fst ss) \<and> session_forest ss \<and> (\<forall>e \<in> set ss. labels_ok cf (Labels (snd e)))"

definition meta_inv :: "(string \<Rightarrow> string) \<Rightarrow> MetaState \<Rightarrow> bool" where
  "meta_inv cf st \<longleftrightarrow> sessions_ok cf (meta_sessions st) \<and> (\<forall>e \<in> set (EventFollowRules st). rule_ok e)"

definition meta_init :: "MetaState \<Rightarrow> bool" where
  "meta_init st \<longleftrightarrow> meta_sessions st = [] \<and> EventFollowRules st = []"

definition with_sessions :: "sessions \<Rightarrow> MetaState \<Rightarrow> MetaState" where
  "with_sessions ss st = st\<lparr>meta_sm := (meta_sm st)\<lparr>Sessions := ss\<rparr>\<rparr>"

text \<open>The operations above, with the reservation and the rollback of a delivery as separate steps because
  the lock is released between them, and what the session lifecycle does to the records: a session is
  created under a new identifier that no session names as its parent, changes its status, or is
  removed; subtree deletions come and go and rules are dropped with their sessions.\<close>

inductive meta_step :: "(string \<Rightarrow> string) \<Rightarrow> (string \<Rightarrow> string) \<Rightarrow> MetaState \<Rightarrow> MetaState \<Rightarrow> bool" for cf to_lower where
  mstep_update: "meta_step cf to_lower st (fst (UpdateMetadata cf saved now i u st))"
| mstep_follow: "meta_step cf to_lower st (fst (FollowEvents to_lower saved now ac i events st))"
| mstep_unfollow: "meta_step cf to_lower st (fst (UnfollowEvents to_lower saved now ac i events st))"
| mstep_reserve: "meta_step cf to_lower st (fst (reserveFollowedCIEvent saved now i d st))"
| mstep_rollback: "meta_step cf to_lower st (rollbackFollowedCIDelivery now del st)"
| mstep_create: "i \<notin> fst ` set (meta_sessions st) \<Longrightarrow> (\<And>e. e \<in> set (meta_sessions st) \<Longrightarrow> ParentID (snd e) \<noteq> i) \<Longrightarrow>
    ParentID s \<noteq> i \<Longrightarrow> labels_ok cf (Labels s) \<Longrightarrow>
    meta_step cf to_lower st (with_sessions (map_put i s (meta_sessions st)) st)"
| mstep_status: "meta_step cf to_lower st (set_session i (\<lambda>s. s\<lparr>Status := x, DeletedAt := d\<rparr>) st)"
| mstep_remove: "meta_step cf to_lower st (with_sessions (map_delete i (meta_sessions st)) st)"
| mstep_drop_rule: "meta_step cf to_lower st (st\<lparr>EventFollowRules := map_delete i (EventFollowRules st)\<rparr>)"
| mstep_roots: "meta_step cf to_lower st (st\<lparr>subtreeDeleteRoots := rs\<rparr>)"

subsection \<open>Rules\<close>

lemma normalized_events:
  assumes "normalizeEventFollowClasses to_lower events req = Inr ns"
  shows "distinct ns \<and> set ns \<subseteq> set allowedEventFollowClasses \<and> (req \<longrightarrow> ns \<noteq> [])"
proof -
  let ?p = "event_parts to_lower events"
  have none: "find (\<lambda>e. e \<notin> set allowedEventFollowClasses) ?p = None"
    using assms by (auto simp: normalizeEventFollowClasses_def Let_def split: option.splits)
  then have ns: "ns = sort_strings (dedup [] ?p)" "req \<longrightarrow> ?p \<noteq> []"
    using assms by (auto simp: normalizeEventFollowClasses_def Let_def split: if_splits)
  have same: "set ns = set ?p" using ns(1) by (simp add: set_dedup)
  then have "req \<longrightarrow> ns \<noteq> []" using ns(2) by (metis set_empty)
  then show ?thesis using none ns(1) same by (simp add: find_None_iff distinct_dedup subset_iff)
qed

lemma rules_put: "\<forall>e \<in> set rs. rule_ok e \<Longrightarrow> rule_ok (i, r) \<Longrightarrow> \<forall>e \<in> set (map_put i r rs). rule_ok e"
  by (auto simp: map_put_def set_map_delete)

lemma rules_delete: "\<forall>e \<in> set rs. rule_ok e \<Longrightarrow> \<forall>e \<in> set (map_delete i rs). rule_ok e"
  by (auto simp: set_map_delete)

lemma rule_of: "\<forall>e \<in> set rs. rule_ok e \<Longrightarrow> map_of rs i = Some r \<Longrightarrow> rule_ok (i, r)"
  by (auto dest: map_of_SomeD)

lemma rule_ok_prune:
  "SourceSessionID r = i \<Longrightarrow> ns \<noteq> [] \<Longrightarrow> distinct ns \<Longrightarrow> set ns \<subseteq> set allowedEventFollowClasses \<Longrightarrow>
    rule_ok (i, pruneLastDelivered (r\<lparr>Events := ns, fr_UpdatedAt := now\<rparr>))"
  by (auto simp: rule_ok_def pruneLastDelivered_def)

lemma rule_ok_keys:
  "rule_ok (i, r) \<Longrightarrow> fst ` set ls \<subseteq> set (Events r) \<Longrightarrow> rule_ok (i, r\<lparr>LastDelivered := ls, fr_UpdatedAt := now\<rparr>)"
  by (simp add: rule_ok_def)

lemma follow_frame:
  "meta_sm (fst (FollowEvents to_lower saved now ac i events st)) = meta_sm st"
  "meta_sm (fst (UnfollowEvents to_lower saved now ac i events st)) = meta_sm st"
  "meta_sm (fst (reserveFollowedCIEvent saved now i d st)) = meta_sm st"
  "meta_sm (rollbackFollowedCIDelivery now del st) = meta_sm st"
  by (simp_all add: FollowEvents_def UnfollowEvents_def reserveFollowedCIEvent_def rollbackFollowedCIDelivery_def
      Let_def split: sum.split option.split prod.split)

lemma FollowEvents_rules:
  assumes "\<forall>e \<in> set (EventFollowRules st). rule_ok e"
  shows "\<forall>e \<in> set (EventFollowRules (fst (FollowEvents to_lower saved now ac i events st))). rule_ok e"
proof (cases "FollowEvents to_lower saved now ac i events st")
  case (Pair t r)
  show ?thesis
  proof (cases r)
    case (Inl e)
    then have "t = st" using Pair by (auto simp: FollowEvents_def Let_def split: sum.splits if_splits)
    then show ?thesis using assms Pair by simp
  next
    case (Inr rule)
    define old where "old = (case map_of (EventFollowRules st) i of
        None \<Rightarrow> \<lparr>SourceSessionID = i, Events = [], fr_CreatedAt = now, fr_UpdatedAt = now, LastDelivered = []\<rparr>
      | Some rule \<Rightarrow> rule)"
    have old: "SourceSessionID old = i"
      using rule_of [OF assms, of i] by (simp add: old_def rule_ok_def split: option.split)
    obtain ns where n: "normalizeEventFollowClasses to_lower events True = Inr ns"
      and t: "t = st\<lparr>EventFollowRules := map_put i (pruneLastDelivered (old\<lparr>Events := ns, fr_UpdatedAt := now\<rparr>)) (EventFollowRules st)\<rparr>"
      using Pair Inr unfolding FollowEvents_def old_def [symmetric]
      by (auto simp: Let_def rbind_Inr split: sum.splits if_splits)
    have "rule_ok (i, pruneLastDelivered (old\<lparr>Events := ns, fr_UpdatedAt := now\<rparr>))"
      using normalized_events [OF n] by (intro rule_ok_prune old) simp_all
    then show ?thesis using rules_put [OF assms] Pair t by simp
  qed
qed

lemma UnfollowEvents_rules:
  assumes "\<forall>e \<in> set (EventFollowRules st). rule_ok e"
  shows "\<forall>e \<in> set (EventFollowRules (fst (UnfollowEvents to_lower saved now ac i events st))). rule_ok e"
proof (cases "\<exists>rule ns. map_of (EventFollowRules st) i = Some rule \<and> removeEventFollowClasses (Events rule) ns \<noteq> [] \<and>
    fst (UnfollowEvents to_lower saved now ac i events st) = st\<lparr>EventFollowRules := map_put i
      (pruneLastDelivered (rule\<lparr>Events := removeEventFollowClasses (Events rule) ns, fr_UpdatedAt := now\<rparr>)) (EventFollowRules st)\<rparr>")
  case True
  then obtain rule ns where r: "map_of (EventFollowRules st) i = Some rule" "removeEventFollowClasses (Events rule) ns \<noteq> []"
    "fst (UnfollowEvents to_lower saved now ac i events st) = st\<lparr>EventFollowRules := map_put i
      (pruneLastDelivered (rule\<lparr>Events := removeEventFollowClasses (Events rule) ns, fr_UpdatedAt := now\<rparr>)) (EventFollowRules st)\<rparr>"
    by blast
  have "rule_ok (i, rule)" using rule_of [OF assms r(1)] .
  then have "rule_ok (i, pruneLastDelivered (rule\<lparr>Events := removeEventFollowClasses (Events rule) ns, fr_UpdatedAt := now\<rparr>))"
    using r(2) by (intro rule_ok_prune) (auto simp: rule_ok_def removeEventFollowClasses_def)
  then show ?thesis using rules_put [OF assms] r(3) by simp
next
  case False
  have "UnfollowEvents to_lower saved now ac i events st = (t, r) \<Longrightarrow>
      t = st \<or> t = st\<lparr>EventFollowRules := map_delete i (EventFollowRules st)\<rparr>" for t r
    using False by (auto simp: UnfollowEvents_def Let_def split: sum.splits option.splits if_splits)
  then show ?thesis using assms rules_delete [OF assms, of i]
    by (cases "UnfollowEvents to_lower saved now ac i events st") fastforce
qed

lemma reserve_rules:
  assumes "\<forall>e \<in> set (EventFollowRules st). rule_ok e"
  shows "\<forall>e \<in> set (EventFollowRules (fst (reserveFollowedCIEvent saved now i d st))). rule_ok e"
proof -
  have put: "rule_ok (i, rule\<lparr>LastDelivered := map_put eventFollowClassCI k (LastDelivered rule), fr_UpdatedAt := now\<rparr>)"
    if "map_of (EventFollowRules st) i = Some rule" "eventFollowClassCI \<in> set (Events rule)" for rule k
    using rule_of [OF assms that(1)] that(2)
    by (intro rule_ok_keys) (auto simp: rule_ok_def map_put_def set_map_delete)
  have put': "\<forall>e \<in> set (map_put i (rule\<lparr>LastDelivered := map_put eventFollowClassCI k (LastDelivered rule), fr_UpdatedAt := now\<rparr>)
      (EventFollowRules st)). rule_ok e"
    if "map_of (EventFollowRules st) i = Some rule" "eventFollowClassCI \<in> set (Events rule)" for rule k
    by (rule rules_put [OF assms put [OF that]])
  show ?thesis using assms rules_delete [OF assms, of i] put'
    by (simp add: reserveFollowedCIEvent_def Let_def split: option.split)
qed

lemma rollback_rules:
  assumes "\<forall>e \<in> set (EventFollowRules st). rule_ok e"
  shows "\<forall>e \<in> set (EventFollowRules (rollbackFollowedCIDelivery now del st)). rule_ok e"
proof (cases "map_of (EventFollowRules st) (cd_sourceID del)")
  case (Some rule)
  let ?ls = "case cd_prevDedupKey del of
      Some k \<Rightarrow> map_put eventFollowClassCI k (LastDelivered rule) | None \<Rightarrow> map_delete eventFollowClassCI (LastDelivered rule)"
  have ok: "rule_ok (cd_sourceID del, rule)" using rule_of [OF assms Some] .
  have "rule_ok (cd_sourceID del, rule\<lparr>LastDelivered := ?ls, fr_UpdatedAt := now\<rparr>)"
    if "map_of (LastDelivered rule) eventFollowClassCI = Some (cd_dedupKey del)"
  proof -
    have "eventFollowClassCI \<in> fst ` set (LastDelivered rule)" using map_of_SomeD [OF that] by force
    then have "fst ` set ?ls \<subseteq> set (Events rule)"
      using ok by (auto simp: rule_ok_def map_put_def set_map_delete split: option.split)
    then show ?thesis by (rule rule_ok_keys [OF ok])
  qed
  then have "map_of (LastDelivered rule) eventFollowClassCI = Some (cd_dedupKey del) \<Longrightarrow>
      \<forall>e \<in> set (map_put (cd_sourceID del) (rule\<lparr>LastDelivered := ?ls, fr_UpdatedAt := now\<rparr>) (EventFollowRules st)). rule_ok e"
    by (rule rules_put [OF assms])
  then show ?thesis using Some assms by (simp add: rollbackFollowedCIDelivery_def)
qed (use assms in \<open>simp add: rollbackFollowedCIDelivery_def\<close>)

lemma reparented_rules:
  assumes "\<forall>e \<in> set (EventFollowRules st). rule_ok e"
  shows "\<forall>e \<in> set (EventFollowRules (handleReparentedEventFollowRuleLocked now i p st)). rule_ok e"
proof (cases "map_of (EventFollowRules st) i")
  case (Some rule)
  have "rule_ok (i, rule\<lparr>fr_UpdatedAt := now\<rparr>)" using rule_of [OF assms Some] by (simp add: rule_ok_def)
  then show ?thesis using Some rules_delete [OF assms, of i] rules_put [OF assms]
    by (simp add: handleReparentedEventFollowRuleLocked_def Let_def split: option.split)
qed (use assms in \<open>simp add: handleReparentedEventFollowRuleLocked_def\<close>)

subsection \<open>Sessions\<close>

lemma new_labels_ok: "labels_ok cf (Labels s) \<Longrightarrow> new_labels cf s u = Inr ls \<Longrightarrow> labels_ok cf ls"
  by (auto simp: new_labels_def dest: Apply_labels_ok split: if_splits sum.splits)

lemma UpdateMetadata_inv:
  assumes "meta_inv cf st"
  shows "meta_inv cf (fst (UpdateMetadata cf saved now i u st))"
proof (cases "UpdateMetadata cf saved now i u st")
  case (Pair t r)
  have ok: "distinct (map fst (meta_sessions st))" "session_forest (meta_sessions st)"
    "\<forall>e \<in> set (meta_sessions st). labels_ok cf (Labels (snd e))" "\<forall>e \<in> set (EventFollowRules st). rule_ok e"
    using assms by (auto simp: meta_inv_def sessions_ok_def)
  have "distinct (map fst (meta_sessions t))" using UpdateMetadata_keys [OF Pair] ok(1) by simp
  moreover have "session_forest (meta_sessions t)" using UpdateMetadata_forest [OF Pair] ok by blast
  moreover have "(\<forall>e \<in> set (meta_sessions t). labels_ok cf (Labels (snd e))) \<and> (\<forall>e \<in> set (EventFollowRules t). rule_ok e)"
    using Pair
  proof (cases rule: UpdateMetadata_cases)
    case (updated s s' ls p)
    have "labels_ok cf (Labels s)" using ok(3) map_of_SomeD [OF updated(1)] by fastforce
    then have "labels_ok cf (Labels s')"
      using check_update_parent [OF updated(2)] new_labels_ok apply_update_simps(3) [OF updated(5)] by blast
    then have "\<forall>e \<in> set (meta_sessions t). labels_ok cf (Labels (snd e))"
      using ok(3) by (auto simp: apply_update_simps(1) [OF updated(5)])
    moreover have "\<forall>e \<in> set (EventFollowRules t). rule_ok e"
    proof (cases "su_ParentID u = None")
      case True
      then show ?thesis using updated(5) ok(4) by (simp add: apply_update_def Let_def)
    next
      case False
      then obtain st1 where "t = handleReparentedEventFollowRuleLocked now i p st1" "EventFollowRules st1 = EventFollowRules st"
        using updated(5) by (auto simp: apply_update_def Let_def)
      then show ?thesis using reparented_rules [of st1] ok(4) by simp
    qed
    ultimately show ?thesis by blast
  qed (use ok in simp)
  ultimately show ?thesis using Pair by (simp add: meta_inv_def sessions_ok_def)
qed

lemma forest_sub: "session_forest ss \<Longrightarrow> parent_rel ss' \<subseteq> parent_rel ss \<Longrightarrow> session_forest ss'"
  unfolding session_forest_def by (rule acyclic_subset)

lemma sessions_ok_delete:
  assumes "sessions_ok cf ss"
  shows "sessions_ok cf (map_delete i ss)"
proof -
  have "parent_rel (map_delete i ss) \<subseteq> parent_rel ss" by (auto simp: parent_rel_def split: if_splits)
  then have "session_forest (map_delete i ss)" using assms forest_sub unfolding sessions_ok_def by blast
  then show ?thesis using assms by (auto simp: sessions_ok_def set_map_delete) (simp add: map_delete_def distinct_map_filter)
qed

lemma sessions_ok_status:
  assumes "sessions_ok cf (meta_sessions st)" and "\<And>s. ParentID (f s) = ParentID s \<and> Labels (f s) = Labels s"
  shows "sessions_ok cf (meta_sessions (set_session i f st))"
proof -
  have "map fst (meta_sessions (set_session i f st)) = map fst (meta_sessions st)"
    unfolding set_session_simps by (rule fst_update_keys)
  moreover have "parent_rel (meta_sessions (set_session i f st)) = parent_rel (meta_sessions st)"
    using assms(2) by (auto simp: parent_rel_def map_of_update split: if_splits)
  moreover have "\<forall>e \<in> set (meta_sessions (set_session i f st)). labels_ok cf (Labels (snd e))"
    using assms by (auto simp: sessions_ok_def)
  ultimately show ?thesis using assms(1) unfolding sessions_ok_def session_forest_def by metis
qed

lemma sessions_ok_create:
  assumes "sessions_ok cf ss" "i \<notin> fst ` set ss" "\<And>e. e \<in> set ss \<Longrightarrow> ParentID (snd e) \<noteq> i"
    and "ParentID s \<noteq> i" "labels_ok cf (Labels s)"
  shows "sessions_ok cf (map_put i s ss)"
proof -
  have no: "(x, i) \<notin> parent_rel ss" for x
  proof
    assume "(x, i) \<in> parent_rel ss"
    then obtain s where "map_of ss x = Some s" "ParentID s = i" by (auto simp: parent_rel_def)
    then show False using assms(3) [of "(x, s)"] map_of_SomeD by fastforce
  qed
  have "(ParentID s, i) \<notin> (parent_rel ss)\<^sup>*"
    using no assms(4) by (metis rtranclE)
  moreover have "parent_rel (map_put i s ss) \<subseteq> insert (i, ParentID s) (parent_rel ss)"
    by (auto simp: parent_rel_def split: if_splits)
  ultimately have "session_forest (map_put i s ss)"
    using assms(1) unfolding session_forest_def sessions_ok_def by (blast intro: forest_insert)
  then show ?thesis using assms by (auto simp: sessions_ok_def map_put_def map_delete_new)
qed

lemma meta_inv_rules:
  assumes "meta_inv cf st" "meta_sm t = meta_sm st"
    and "\<forall>e \<in> set (EventFollowRules st). rule_ok e \<Longrightarrow> \<forall>e \<in> set (EventFollowRules t). rule_ok e"
  shows "meta_inv cf t"
  using assms by (simp add: meta_inv_def)

lemma meta_step_inv: "meta_step cf to_lower st t \<Longrightarrow> meta_inv cf st \<Longrightarrow> meta_inv cf t"
proof (induction rule: meta_step.induct)
  case (mstep_update st saved now i u)
  then show ?case by (rule UpdateMetadata_inv)
next
  case (mstep_create i st s)
  then show ?case by (simp add: meta_inv_def with_sessions_def sessions_ok_create)
next
  case (mstep_status st i x d)
  then show ?case unfolding meta_inv_def set_session_simps(2) by (auto intro: sessions_ok_status simp del: set_session_simps(1))
next
  case (mstep_follow st saved now ac i events)
  then show ?case by (rule meta_inv_rules) (simp add: follow_frame, rule FollowEvents_rules)
next
  case (mstep_unfollow st saved now ac i events)
  then show ?case by (rule meta_inv_rules) (simp add: follow_frame, rule UnfollowEvents_rules)
next
  case (mstep_reserve st saved now i d)
  then show ?case by (rule meta_inv_rules) (simp add: follow_frame, rule reserve_rules)
next
  case (mstep_rollback st now del)
  then show ?case by (rule meta_inv_rules) (simp add: follow_frame, rule rollback_rules)
next
  case (mstep_drop_rule st i)
  then show ?case by (rule meta_inv_rules) (simp_all add: rules_delete)
qed (simp_all add: meta_inv_def with_sessions_def sessions_ok_delete)

lemma meta_init_inv: "meta_init st \<Longrightarrow> meta_inv cf st"
  by (simp add: meta_init_def meta_inv_def sessions_ok_def session_forest_def parent_rel_def acyclic_def)

interpretation meta: invariant_system meta_init "meta_step cf to_lower" "meta_inv cf" for cf to_lower
  by unfold_locales (auto intro: meta_init_inv meta_step_inv)



end
