(* ===== verification/Messaging.thy ===== *)
theory Messaging
  imports Msg_Props Auth
begin

text \<open>
  The message handlers (handler_messaging.go, the \<^verbatim>\<open>msg_inbox\<close> and \<^verbatim>\<open>msg_sub\<close> cases of handler.go,
  msg_stream_read.go): who may publish under which name, read which stream, see and release
  quarantined comments, and the read/acknowledge/follow loop. A handler returns the new store and
  what it sends. Whether a send or the mutation lease succeeds is decided by the connection and
  the daemon's shutdown gate: \<open>sent\<close> and \<open>lease\<close> are parameters.
\<close>

datatype reply =
    ErrorReply
  | Published Message
  | Acked
  | TopicsList "StreamInfo list"
  | ConversationList "Message list"
  | JailList "JailedComment list"
  | JailShow JailedComment
  | JailReleased "JailedComment list"
  | MsgMessage Message
  | MsgDone
  | MsgFollowing

record MsgPubMsg =
  pub_Stream :: string
  pub_Body :: string
  pub_SenderID :: string
  pub_SenderName :: string
  pub_ThreadID :: string
  pub_ReplyTo :: string
  pub_NoReply :: bool

record MessagesConfig =
  ConversationPageSize :: int
  ConversationMaxLimit :: int

section \<open>Publishing\<close>

definition session_name :: "SessionManager \<Rightarrow> string \<Rightarrow> string \<Rightarrow> string" where
  "session_name sm sid fallback = (case map_of (Sessions sm) sid of None \<Rightarrow> fallback | Some s \<Rightarrow> Name s)"

definition applyMsgPubSenderIdentity ::
  "SessionManager \<Rightarrow> authContext \<Rightarrow> MsgPubMsg \<Rightarrow> MsgPubMsg option" where
  "applyMsgPubSenderIdentity sm ac m =
    (if role ac = roleSession \<or> role ac = roleOrchestrator
     then Some (m\<lparr>pub_SenderID := sessionID ac,
                  pub_SenderName := session_name sm (sessionID ac) (pub_SenderName m)\<rparr>)
     else if role ac = roleLocalHuman
     then Some (if pub_SenderID m \<noteq> []
                then m\<lparr>pub_SenderName := session_name sm (pub_SenderID m) (pub_SenderName m)\<rparr> else m)
     else if role ac = roleRemoteHuman
     then Some (m\<lparr>pub_SenderID := ''device:'' @ deviceID ac, pub_SenderName := ''remote device''\<rparr>)
     else None)"

definition handleMsgPub ::
  "SessionManager \<Rightarrow> authContext \<Rightarrow> MsgPubMsg \<Rightarrow> string \<Rightarrow> int \<Rightarrow> MsgStore \<Rightarrow> MsgStore \<times> reply" where
  "handleMsgPub sm ac m0 i now s =
    (case applyMsgPubSenderIdentity sm ac m0 of
       None \<Rightarrow> (s, ErrorReply)
     | Some m \<Rightarrow>
         (case Publish s \<lparr>po_Stream = pub_Stream m, po_SenderID = pub_SenderID m,
              po_SenderName = pub_SenderName m, po_Body = pub_Body m, po_ThreadID = pub_ThreadID m,
              po_ReplyTo = pub_ReplyTo m, po_NoReply = pub_NoReply m\<rparr> i now of
            (s', Inl e) \<Rightarrow> (s', ErrorReply)
          | (s', Inr p) \<Rightarrow> (s', Published p)))"

section \<open>Acknowledging and listing\<close>

definition handleMsgAck ::
  "authContext \<Rightarrow> string \<Rightarrow> string \<Rightarrow> int \<Rightarrow> MsgStore \<Rightarrow> MsgStore \<times> reply" where
  "handleMsgAck ac stream subscriber now s =
    (if authenticated ac
     then if snd (parseInboxStream stream) then (s, ErrorReply)
          else (AckLatest s stream (sessionID ac) now, Acked)
     else (AckLatest s stream subscriber now, Acked))"

definition filterInboxStreams :: "StreamInfo list \<Rightarrow> StreamInfo list" where
  "filterInboxStreams ss = filter (\<lambda>x. \<not> snd (parseInboxStream (si_Name x))) ss"

definition handleMsgTopics :: "authContext \<Rightarrow> string \<Rightarrow> bool \<Rightarrow> MsgStore \<Rightarrow> reply" where
  "handleMsgTopics ac subscriber includeSystem s =
    (let streams = ListStreams s (if authenticated ac then sessionID ac else subscriber) includeSystem
     in TopicsList (if authenticated ac then filterInboxStreams streams else streams))"

definition ConversationMaxLimitOrDefault :: "MessagesConfig \<Rightarrow> int" where
  "ConversationMaxLimitOrDefault m = (if ConversationMaxLimit m < 1 then 2000 else ConversationMaxLimit m)"

definition ConversationPageSizeOrDefault :: "MessagesConfig \<Rightarrow> int" where
  "ConversationPageSizeOrDefault m =
    (let page = (if ConversationPageSize m < 1 then 500 else ConversationPageSize m)
     in if ConversationMaxLimitOrDefault m < page then ConversationMaxLimitOrDefault m else page)"

definition ClampConversationLimit :: "MessagesConfig \<Rightarrow> int \<Rightarrow> int" where
  "ClampConversationLimit m limit =
    (if limit \<le> 0 then ConversationPageSizeOrDefault m
     else if ConversationMaxLimitOrDefault m < limit then ConversationMaxLimitOrDefault m
     else limit)"

definition handleMsgConversation ::
  "SessionManager \<Rightarrow> MessagesConfig \<Rightarrow> authContext \<Rightarrow> string \<Rightarrow> int \<Rightarrow> MsgStore option \<Rightarrow> reply" where
  "handleMsgConversation sm cfg ac target limit store =
    (case checkTarget sm ac target authSelfOrDescendant of
       Some e \<Rightarrow> ErrorReply
     | None \<Rightarrow>
         (case store of
            None \<Rightarrow> ConversationList []
          | Some s \<Rightarrow> ConversationList (Conversation s target (ClampConversationLimit cfg limit))))"

section \<open>The quarantine\<close>

definition handleMsgJailList :: "bool \<Rightarrow> MsgStore option \<Rightarrow> reply" where
  "handleMsgJailList includeReleased store =
    (case store of
       None \<Rightarrow> JailList []
     | Some s \<Rightarrow> JailList (jailedToWire (ListJailed s includeReleased) False))"

definition mayReadJailBody :: "SessionManager \<Rightarrow> authContext \<Rightarrow> bool" where
  "mayReadJailBody sm ac \<longleftrightarrow> checkJailRelease sm ac = None"

definition handleMsgJailShow :: "SessionManager \<Rightarrow> authContext \<Rightarrow> string \<Rightarrow> MsgStore option \<Rightarrow> reply" where
  "handleMsgJailShow sm ac i store =
    (case store of
       None \<Rightarrow> ErrorReply
     | Some s \<Rightarrow>
         (case GetJailed s i of
            None \<Rightarrow> ErrorReply
          | Some j \<Rightarrow> JailShow (jailedOneToWire j (mayReadJailBody sm ac))))"

definition handleMsgJailRelease ::
  "(string \<Rightarrow> string) \<Rightarrow> (string \<Rightarrow> string \<Rightarrow> string) \<Rightarrow> int \<Rightarrow> SessionManager \<Rightarrow> authContext \<Rightarrow>
    string \<Rightarrow> bool \<Rightarrow> string \<Rightarrow> (nat \<Rightarrow> string) \<Rightarrow> (nat \<Rightarrow> int) \<Rightarrow> MsgStore option \<Rightarrow>
    MsgStore option \<times> reply" where
  "handleMsgJailRelease to_lower instruct maxBody sm ac i all author ids clk store =
    (if checkJailRelease sm ac \<noteq> None then (store, ErrorReply)
     else if all then
       (if author = [] then (store, ErrorReply)
        else (case ReleaseJailedByAuthor to_lower instruct maxBody store author ids clk of
            (store', Inl e) \<Rightarrow> (store', ErrorReply)
          | (store', Inr js) \<Rightarrow> (store', JailReleased (jailedToWire js True))))
     else if i \<noteq> [] then
       (case ReleaseJailed instruct maxBody store i (ids 0) (clk 0) of
            (store', Inl e) \<Rightarrow> (store', ErrorReply)
          | (store', Inr j) \<Rightarrow> (store', JailReleased (jailedToWire [j] True)))
     else (store, ErrorReply))"

section \<open>Reading a stream\<close>

definition persistMsgStreamAck ::
  "bool \<Rightarrow> string \<Rightarrow> string \<Rightarrow> int list \<Rightarrow> bool \<Rightarrow> int \<Rightarrow> MsgStore \<Rightarrow> MsgStore option" where
  "persistMsgStreamAck lease stream subscriber seqs perMessage now s =
    (if \<not> lease then None
     else Some (if perMessage then AckMessages s stream subscriber seqs
                else Ack s stream subscriber (last seqs) now))"

text \<open>The first phase: subscribe, read, send, acknowledge. The flag is whether the follow loop starts;
  \<open>ch\<close> names the subscription's channel.\<close>

definition stream_read ::
  "(Message \<Rightarrow> bool) \<Rightarrow> bool \<Rightarrow> nat \<Rightarrow> string \<Rightarrow> string \<Rightarrow> bool \<Rightarrow> string \<Rightarrow> bool \<Rightarrow> bool \<Rightarrow> bool \<Rightarrow> int \<Rightarrow>
    MsgStore \<Rightarrow> MsgStore \<times> reply list \<times> bool" where
  "stream_read sent lease ch stream subscriber onlyUnread threadID wait follow ack now s0 =
    (let s1 = (if wait \<or> follow then Subscribe s0 stream ch else s0);
         release = (\<lambda>s. if wait \<or> follow then unsub s stream ch else s);
         msgs = Read_msgs s1 stream subscriber onlyUnread threadID;
         out = map MsgMessage (takeWhile sent msgs)
     in if \<not> list_all sent msgs then (release s1, out, False)
        else (case (if ack \<and> subscriber \<noteq> [] \<and> msgs \<noteq> []
                    then persistMsgStreamAck lease stream subscriber
                      (if threadID \<noteq> [] then map msg_Seq msgs else [msg_Seq (last msgs)])
                      (threadID \<noteq> []) now s1
                    else Some s1) of
            None \<Rightarrow> (release s1, out @ [ErrorReply], False)
          | Some s2 \<Rightarrow>
              if \<not> wait \<and> \<not> follow then (release s2, out @ [MsgDone], False)
              else if wait \<and> msgs \<noteq> [] then (release s2, out @ [MsgDone], False)
              else (s2, out @ [MsgFollowing], True)))"

definition channel_head :: "MsgStore \<Rightarrow> nat \<Rightarrow> Message option" where
  "channel_head s ch =
    (case find (\<lambda>e. ch_id (snd e) = ch) (subs s) of
       None \<Rightarrow> None
     | Some e \<Rightarrow> (case ch_queue (snd e) of [] \<Rightarrow> None | m # ms \<Rightarrow> Some m))"

datatype follow_event = FromChannel | Detach | CtxDone

text \<open>One turn of the follow loop; the flag is whether it goes on.\<close>

definition follow_turn ::
  "(Message \<Rightarrow> bool) \<Rightarrow> bool \<Rightarrow> nat \<Rightarrow> string \<Rightarrow> string \<Rightarrow> string \<Rightarrow> bool \<Rightarrow> bool \<Rightarrow> int \<Rightarrow> follow_event \<Rightarrow>
    MsgStore \<Rightarrow> MsgStore \<times> reply list \<times> bool" where
  "follow_turn sent lease ch stream subscriber threadID wait ack now ev s =
    (case ev of
       CtxDone \<Rightarrow> (unsub s stream ch, [], False)
     | Detach \<Rightarrow> (unsub s stream ch, [MsgDone], False)
     | FromChannel \<Rightarrow>
         (case channel_head s ch of
            None \<Rightarrow> (s, [], True)
          | Some m \<Rightarrow>
              let s1 = receive s ch
              in if threadID \<noteq> [] \<and> msg_ThreadID m \<noteq> threadID then (s1, [], True)
                 else if \<not> sent m then (unsub s1 stream ch, [], False)
                 else (case (if ack \<and> subscriber \<noteq> []
                             then persistMsgStreamAck lease stream subscriber [msg_Seq m] (threadID \<noteq> []) now s1
                             else Some s1) of
                     None \<Rightarrow> (unsub s1 stream ch, [MsgMessage m, ErrorReply], False)
                   | Some s2 \<Rightarrow>
                       if wait then (unsub s2 stream ch, [MsgMessage m, MsgDone], False)
                       else (s2, [MsgMessage m], True))))"

definition handleMsgInbox ::
  "authContext \<Rightarrow> (Message \<Rightarrow> bool) \<Rightarrow> bool \<Rightarrow> nat \<Rightarrow> bool \<Rightarrow> string \<Rightarrow> bool \<Rightarrow> bool \<Rightarrow> bool \<Rightarrow> int \<Rightarrow>
    MsgStore \<Rightarrow> MsgStore \<times> reply list \<times> bool" where
  "handleMsgInbox ac sent lease ch onlyUnread threadID wait follow ack now s =
    (if \<not> authenticated ac then (s, [ErrorReply], False)
     else stream_read sent lease ch (inbox_of (sessionID ac)) (sessionID ac) onlyUnread threadID wait follow ack now s)"

definition handleMsgSub ::
  "authContext \<Rightarrow> (Message \<Rightarrow> bool) \<Rightarrow> bool \<Rightarrow> nat \<Rightarrow> string \<Rightarrow> string \<Rightarrow> bool \<Rightarrow> string \<Rightarrow> bool \<Rightarrow> bool \<Rightarrow> bool \<Rightarrow> int \<Rightarrow>
    MsgStore \<Rightarrow> MsgStore \<times> reply list \<times> bool" where
  "handleMsgSub ac sent lease ch stream subscriber onlyUnread threadID wait follow ack now s =
    (if authenticated ac \<and> snd (parseInboxStream stream) then (s, [ErrorReply], False)
     else stream_read sent lease ch stream (if authenticated ac then sessionID ac else subscriber)
       onlyUnread threadID wait follow ack now s)"

section \<open>Properties\<close>

text \<open>C20: a published message carries a sender the caller may use: a session's own identifier, or the
  identifier of a paired remote device; only the local user chooses a sender, and nobody else
  publishes at all.\<close>

theorem handleMsgPub_sender:
  assumes "handleMsgPub sm ac m i now s = (t, Published p)"
  shows "msg_Stream p = pub_Stream m \<and> msg_Body p = pub_Body m \<and>
    (role ac \<in> {roleSession, roleOrchestrator} \<and> msg_SenderID p = sessionID ac \<or>
     role ac = roleRemoteHuman \<and> msg_SenderID p = ''device:'' @ deviceID ac \<or>
     role ac = roleLocalHuman \<and> msg_SenderID p = pub_SenderID m)"
proof -
  obtain m' where m': "applyMsgPubSenderIdentity sm ac m = Some m'"
    using assms by (auto simp: handleMsgPub_def split: option.splits)
  then have pub: "Publish s \<lparr>po_Stream = pub_Stream m', po_SenderID = pub_SenderID m',
      po_SenderName = pub_SenderName m', po_Body = pub_Body m', po_ThreadID = pub_ThreadID m',
      po_ReplyTo = pub_ReplyTo m', po_NoReply = pub_NoReply m'\<rparr> i now = (t, Inr p)"
    using assms by (auto simp: handleMsgPub_def split: prod.splits sum.splits)
  show ?thesis
    using Publish_Inr [OF pub] m' by (auto simp: applyMsgPubSenderIdentity_def split: if_splits)
qed

definition example_pub :: MsgPubMsg where
  "example_pub = \<lparr>pub_Stream = ''t'', pub_Body = ''b'', pub_SenderID = ''graith:system'', pub_SenderName = ''x'',
     pub_ThreadID = [], pub_ReplyTo = [], pub_NoReply = False\<rparr>"

theorem handleMsgPub_sender_witness:
  "\<exists>t p. handleMsgPub example_manager example_session_context example_pub ''1'' 0 empty_tables = (t, Published p) \<and>
    msg_SenderID p = ''a''"
proof -
  obtain t p where t: "handleMsgPub example_manager example_session_context example_pub ''1'' 0 empty_tables = (t, Published p)"
    by (auto simp: handleMsgPub_def applyMsgPubSenderIdentity_def example_session_context_def
        Publish_def Let_def empty_tables_def)
  from handleMsgPub_sender [OF t] t show ?thesis by (auto simp: example_session_context_def)
qed

lemma parseInboxStream_snd: "snd (parseInboxStream st) \<longleftrightarrow> prefix ''inbox:'' st"
  by (simp add: parseInboxStream_def)

lemma Read_msgs_stream: "m \<in> set (Read_msgs s st w u th) \<Longrightarrow> msg_Stream m = st"
  by (auto simp: Read_msgs_def)

definition shown :: "reply \<Rightarrow> Message set" where
  "shown r = (case r of MsgMessage m \<Rightarrow> {m} | ConversationList ms \<Rightarrow> set ms | _ \<Rightarrow> {})"

lemma reply_shape:
  "fst (snd (if \<not> p then (a, out, x)
      else (case r of None \<Rightarrow> (b, out @ [ErrorReply], y)
        | Some s \<Rightarrow> if c then (f s, out @ [MsgDone], z) else if d then (g s, out @ [MsgDone], z')
                   else (h s, out @ [MsgFollowing], z'')))) \<in>
    {out, out @ [ErrorReply], out @ [MsgDone], out @ [MsgFollowing]}"
  by (simp split: option.split)

lemma reply_members:
  assumes "rs \<in> {map MsgMessage (takeWhile p ms), map MsgMessage (takeWhile p ms) @ [a],
      map MsgMessage (takeWhile p ms) @ [b], map MsgMessage (takeWhile p ms) @ [c]}" "r \<in> set rs"
  shows "r \<in> MsgMessage ` set ms \<union> {a, b, c}"
  using assms by (auto dest!: set_takeWhileD)

lemma stream_read_shown:
  assumes "r \<in> set (fst (snd (stream_read sent lease ch st w u th wait follow ack now s)))"
  shows "\<forall>m \<in> shown r. msg_Stream m = st"
proof -
  let ?ms = "Read_msgs (if wait \<or> follow then Subscribe s st ch else s) st w u th"
  let ?out = "map MsgMessage (takeWhile sent ?ms)"
  have "fst (snd (stream_read sent lease ch st w u th wait follow ack now s)) \<in>
      {?out, ?out @ [ErrorReply], ?out @ [MsgDone], ?out @ [MsgFollowing]}"
    unfolding stream_read_def Let_def by (rule reply_shape)
  then have "r \<in> MsgMessage ` set ?ms \<union> {ErrorReply, MsgDone, MsgFollowing}"
    using assms by (rule reply_members)
  then show ?thesis by (auto simp: shown_def dest: Read_msgs_stream)
qed


definition example_streams :: MsgStore where
  "example_streams = fst (handleMsgPub example_manager example_session_context
     (example_pub\<lparr>pub_Stream := ''inbox:b''\<rparr>) ''2'' 1
     (fst (handleMsgPub example_manager example_session_context example_pub ''1'' 0 empty_tables)))"


end
