(* ===== verification/Jail_Props.thy ===== *)
theory Jail_Props
  imports Messaging
begin

text \<open>
  The quarantine seen from its clients: who can read a held comment, what a release does to the store
  on every branch, and where the release loops and the follow loop fall short of their documentation.
\<close>

section \<open>Releasing one comment\<close>

lemma update_where_undo:
  assumes "\<And>x. P x \<Longrightarrow> Q (f x) \<and> g (f x) = x" "\<And>x. x \<in> set xs \<Longrightarrow> \<not> P x \<Longrightarrow> \<not> Q x"
  shows "update_where Q g (update_where P f xs) = xs"
  using assms(2) by (induction xs) (auto simp: assms(1))

lemma GetJailed_unique:
  assumes "msg_inv s" "GetJailed s i = Some j" "x \<in> set (jailed s)" "jc_ID x = i"
  shows "x = j"
  using assms inj_onD [of jc_ID "set (jailed s)"]
  by (auto simp: msg_inv_def GetJailed_def distinct_map dest!: find_Some_iff_filter)

definition marked :: "string \<Rightarrow> int \<Rightarrow> MsgStore \<Rightarrow> MsgStore" where
  "marked i now s =
    s\<lparr>jailed := update_where (\<lambda>x. jc_ID x = i \<and> jc_ReleasedAt x = [])
        (\<lambda>x. x\<lparr>jc_ReleasedAt := rfc3339nano now\<rparr>) (jailed s)\<rparr>"

definition release_opts :: "(string \<Rightarrow> string \<Rightarrow> string) \<Rightarrow> int \<Rightarrow> JailedComment \<Rightarrow> PublishOpts" where
  "release_opts instruct maxBody j =
    \<lparr>po_Stream = inbox_of (jc_TargetSession j), po_SenderID = systemSenderID, po_SenderName = systemSenderName,
     po_Body = instruct (jc_TargetSession j) (releasedCommentBody j maxBody), po_ThreadID = [], po_ReplyTo = [],
     po_NoReply = False\<rparr>"

lemma unrelease_marked:
  assumes "msg_inv s" "GetJailed s i = Some j" "\<not> Released j"
  shows "fst (Unrelease (marked i now s) i) = s"
proof -
  have "update_where (\<lambda>x. jc_ID x = i \<and> jc_ReleasedAt x \<noteq> []) (\<lambda>x. x\<lparr>jc_ReleasedAt := []\<rparr>)
      (update_where (\<lambda>x. jc_ID x = i \<and> jc_ReleasedAt x = []) (\<lambda>x. x\<lparr>jc_ReleasedAt := rfc3339nano now\<rparr>) (jailed s)) =
      jailed s"
    using assms GetJailed_unique [OF assms(1,2)] rfc3339nano_nonempty [of now]
    by (intro update_where_undo) (auto simp: Released_def)
  then show ?thesis by (simp add: Unrelease_def marked_def Let_def)
qed

lemma MarkReleased_value:
  "MarkReleased s i now =
    (case GetJailed s i of None \<Rightarrow> (s, None, False)
     | Some j \<Rightarrow> if Released j then (s, Some j, False) else (marked i now s, Some j, True))"
  by (simp add: MarkReleased_def marked_def split: option.split)

lemma deliverReleased_value:
  "deliverReleased instruct s j maxBody mid now =
    (if jc_TargetSession j = [] then (s, None)
     else if mid \<in> msg_ID ` set (messages s) then (s, Some MsgConstraint)
     else (fst (Publish s (release_opts instruct maxBody j) mid now), None))"
  by (simp add: deliverReleased_def notifyFromDaemon_def release_opts_def Publish_def Let_def)

lemma claim_and_deliver_value:
  assumes "msg_inv s"
  shows "claim_and_deliver instruct maxBody s i mid now =
    (case GetJailed s i of
       None \<Rightarrow> (s, None, False, None)
     | Some j \<Rightarrow>
         if Released j then (s, Some j, False, None)
         else if jc_TargetSession j = [] then (marked i now s, Some j, True, None)
         else if mid \<in> msg_ID ` set (messages s) then (s, Some j, True, Some MsgConstraint)
         else (fst (Publish (marked i now s) (release_opts instruct maxBody j) mid now), Some j, True, None))"
proof -
  have "messages (marked i now s) = messages s" by (simp add: marked_def)
  then show ?thesis
    using unrelease_marked [OF assms]
    by (simp add: claim_and_deliver_def MarkReleased_value deliverReleased_value split: option.split)
qed

lemma GetJailed_marked:
  "msg_inv s \<Longrightarrow> GetJailed s i = Some j \<Longrightarrow> \<not> Released j \<Longrightarrow>
    GetJailed (marked i now s) i = Some (j\<lparr>jc_ReleasedAt := rfc3339nano now\<rparr>)"
proof -
  assume a: "GetJailed s i = Some j" "\<not> Released j"
  have "find (\<lambda>x. jc_ID x = i) (update_where (\<lambda>x. jc_ID x = i \<and> jc_ReleasedAt x = [])
      (\<lambda>x. x\<lparr>jc_ReleasedAt := rfc3339nano now\<rparr>) xs) =
    map_option (\<lambda>x. if jc_ReleasedAt x = [] then x\<lparr>jc_ReleasedAt := rfc3339nano now\<rparr> else x)
      (find (\<lambda>x. jc_ID x = i) xs)" for xs :: "JailedComment list"
    by (induction xs) auto
  with a show ?thesis by (simp add: GetJailed_def marked_def Released_def)
qed

text \<open>C25: releasing a quarantined comment works exactly once and never loses it. An unknown or already
  released comment is an error and nothing changes. Otherwise the comment is marked released and, if it
  has a target session, exactly one message is appended to that session's inbox, from the daemon's own
  sender; when that message cannot be stored the release is undone, so that the store is what it was
  and the release can be retried.\<close>

theorem ReleaseJailed_exact:
  assumes "msg_inv s"
  shows "case GetJailed s i of
      None \<Rightarrow> ReleaseJailed instruct maxBody (Some s) i mid now = (Some s, Inl (NoSuchComment i))
    | Some j \<Rightarrow>
        if Released j
        then ReleaseJailed instruct maxBody (Some s) i mid now = (Some s, Inl (AlreadyReleased i))
        else if jc_TargetSession j \<noteq> [] \<and> mid \<in> msg_ID ` set (messages s)
        then ReleaseJailed instruct maxBody (Some s) i mid now = (Some s, Inl (DeliveryFailed MsgConstraint))
        else \<exists>t. ReleaseJailed instruct maxBody (Some s) i mid now = (Some t, Inr j) \<and>
          GetJailed t i = Some (j\<lparr>jc_ReleasedAt := rfc3339nano now\<rparr>) \<and>
          messages t = messages s @
            (if jc_TargetSession j = [] then []
             else [new_message (release_opts instruct maxBody j) mid
                     (hwm_of s (inbox_of (jc_TargetSession j)) + 1) now])"
proof (cases "GetJailed s i")
  case None
  then show ?thesis using assms by (simp add: ReleaseJailed_def claim_and_deliver_value)
next
  case (Some j)
  have m: "messages (marked i now s) = messages s" "last_seq (marked i now s) st = hwm_of s st" for st
    using last_seq_eq [OF assms, of st] by (simp_all add: marked_def last_seq_def)
  have g: "GetJailed (fst (Publish u opts mid now)) i = GetJailed u i" for u opts
    by (simp add: Publish_def Let_def GetJailed_def)
  have st: "po_Stream (release_opts instruct maxBody j) = inbox_of (jc_TargetSession j)"
    by (simp add: release_opts_def)
  consider "Released j" | "\<not> Released j" "jc_TargetSession j = []"
    | "\<not> Released j" "jc_TargetSession j \<noteq> []" "mid \<in> msg_ID ` set (messages s)"
    | "\<not> Released j" "jc_TargetSession j \<noteq> []" "mid \<notin> msg_ID ` set (messages s)" by blast
  then show ?thesis
  proof cases
    case 4
    then have "messages (fst (Publish (marked i now s) (release_opts instruct maxBody j) mid now)) =
        messages s @ [new_message (release_opts instruct maxBody j) mid
          (hwm_of s (inbox_of (jc_TargetSession j)) + 1) now]"
      by (simp add: Publish_def Let_def m st)
    with 4 Some assms show ?thesis by (simp add: ReleaseJailed_def claim_and_deliver_value g GetJailed_marked)
  qed (use Some assms m in \<open>simp_all add: ReleaseJailed_def claim_and_deliver_value GetJailed_marked\<close>)
qed

theorem ReleaseJailed_exact_witness:
  "\<exists>t j. ReleaseJailed (\<lambda>_ b. b) 100 (Some example_jail) ''j1'' ''m1'' 5 = (Some t, Inr j) \<and>
    length (messages t) = 1 \<and> Released j = False"
proof -
  have "map_option (\<lambda>j. (Released j, jc_TargetSession j)) (GetJailed example_jail ''j1'') = Some (False, ''s'')"
    "messages example_jail = []" by code_simp+
  then obtain j where j: "GetJailed example_jail ''j1'' = Some j" "\<not> Released j" "jc_TargetSession j = ''s''"
    and ms: "messages example_jail = []" by auto
  from ReleaseJailed_exact [OF example_jail_inv, where i = "''j1''" and instruct = "\<lambda>_ b. b" and maxBody = 100
      and mid = "''m1''" and now = 5] j ms
  show ?thesis by auto
qed

section \<open>Release loops\<close>

definition released_ids :: "MsgStore \<Rightarrow> string set" where
  "released_ids s = jc_ID ` {j \<in> set (jailed s). Released j}"

lemma released_ids_marked: "released_ids (marked i now s) \<subseteq> insert i (released_ids s)"
  by (auto simp: released_ids_def marked_def Released_def elim!: in_update_whereE)

lemma jailed_Publish [simp]: "jailed (fst (Publish s opts mid now)) = jailed s"
  by (simp add: Publish_def Let_def)

lemma marked_inv: "msg_inv s \<Longrightarrow> msg_inv (marked i now s)"
  unfolding marked_def by (rule jailed_update_inv) auto

lemma claim_and_deliver_inv:
  assumes "msg_inv s"
  shows "msg_inv (fst (claim_and_deliver instruct maxBody s i mid now))"
  using assms by (auto simp: claim_and_deliver_value marked_inv Publish_inv split: option.split)

lemma claim_and_deliver_releases:
  assumes "msg_inv s"
  shows "released_ids (fst (claim_and_deliver instruct maxBody s i mid now)) \<subseteq> insert i (released_ids s)"
proof -
  have "released_ids (fst (Publish u opts mid now)) = released_ids u" for u opts
    by (simp add: released_ids_def)
  then show ?thesis
    using assms released_ids_marked [of i now s] by (auto simp: claim_and_deliver_value split: option.split)
qed

lemma release_loop_releases:
  assumes "msg_inv s"
  shows "released_ids (fst (release_loop instruct maxBody want ids clk n js s)) \<subseteq>
    released_ids s \<union> jc_ID ` {j \<in> set js. want j}"
  using assms
proof (induction js arbitrary: n s)
  case (Cons j js)
  show ?case
  proof (cases "want j")
    case False
    then show ?thesis using Cons by auto
  next
    case True
    let ?c = "claim_and_deliver instruct maxBody s (jc_ID j) (ids n) (clk n)"
    have "fst (release_loop instruct maxBody want ids clk n (j # js) s) =
        fst (release_loop instruct maxBody want ids clk (Suc n) js (fst ?c))"
      using True by (simp add: case_prod_beta)
    then show ?thesis
      using True Cons.IH [OF claim_and_deliver_inv [OF Cons.prems]] claim_and_deliver_releases [OF Cons.prems]
      by fastforce
  qed
qed simp

lemma UnreleasedJailed_members: "set (UnreleasedJailed s) \<subseteq> {j \<in> set (jailed s). \<not> Released j}"
  by (auto simp: UnreleasedJailed_def ListJailed_def newest_first_def Let_def Released_def dest!: in_set_takeD)

text \<open>The bulk releases only release what they are meant to: after a configuration reload, only
  comments whose author the current configuration trusts; on request, only comments of the named
  author.\<close>

theorem bulk_release_only_wanted:
  assumes "msg_inv s"
  shows "(\<exists>t n. autoReleaseNewlyTrusted lower upper instruct (Some c) (Some s) ids clk = (Some t, n) \<and>
      released_ids t \<subseteq> released_ids s \<union>
        jc_ID ` {j \<in> set (jailed s). \<not> Released j \<and> commentTrusted lower upper c (trust_view j)}) \<and>
    (\<exists>t r. ReleaseJailedByAuthor lower instruct maxBody (Some s) login ids clk = (Some t, r) \<and>
      released_ids t \<subseteq> released_ids s \<union>
        jc_ID ` {j \<in> set (jailed s). \<not> Released j \<and> lower (trim_space (jc_Author j)) = lower (trim_space login)})"
proof (intro conjI)
  have loop: "released_ids (fst (release_loop instruct b want ids clk 0 (UnreleasedJailed s) s)) \<subseteq>
      released_ids s \<union> jc_ID ` {j \<in> set (jailed s). \<not> Released j \<and> want j}" for b want
    using release_loop_releases [OF assms, of instruct b want ids clk 0 "UnreleasedJailed s"]
      UnreleasedJailed_members [of s] by fastforce
  show "\<exists>t n. autoReleaseNewlyTrusted lower upper instruct (Some c) (Some s) ids clk = (Some t, n) \<and>
      released_ids t \<subseteq> released_ids s \<union>
        jc_ID ` {j \<in> set (jailed s). \<not> Released j \<and> commentTrusted lower upper c (trust_view j)}"
    using loop by (simp add: autoReleaseNewlyTrusted_def case_prod_beta)
  show "\<exists>t r. ReleaseJailedByAuthor lower instruct maxBody (Some s) login ids clk = (Some t, r) \<and>
      released_ids t \<subseteq> released_ids s \<union>
        jc_ID ` {j \<in> set (jailed s). \<not> Released j \<and> lower (trim_space (jc_Author j)) = lower (trim_space login)}"
    using loop by (simp add: ReleaseJailedByAuthor_def Let_def case_prod_beta)
qed

theorem bulk_release_only_wanted_witness:
  "\<exists>t r. ReleaseJailedByAuthor id (\<lambda>_ b. b) 100 (Some example_jail) ''x'' (\<lambda>n. ''m'') (\<lambda>n. 0) = (Some t, r) \<and>
    released_ids t = {}"
proof -
  have none: "released_ids example_jail = {}"
    "{j \<in> set (jailed example_jail). \<not> Released j \<and> id (trim_space (jc_Author j)) = id (trim_space ''x'')} = {}"
    by (code_simp, code_simp)
  from bulk_release_only_wanted [OF example_jail_inv, where lower = id and instruct = "\<lambda>_ b. b" and maxBody = 100
      and login = "''x''" and ids = "\<lambda>n. ''m''" and clk = "\<lambda>n. 0"]
  show ?thesis unfolding none by auto
qed

text \<open>Releasing all comments of an author is documented to release every held one, but it works from
  the capped listing: with a cap of one and two comments of the author held, only the newest is
  released.\<close>

theorem release_by_author_capped:
  "(let s = SetJailListLimit (fst (Jail_comment example_jail (example_comment\<lparr>jc_CommentID := 8\<rparr>) ''j2'' 1000000000)) 1;
        t = the (fst (ReleaseJailedByAuthor id (\<lambda>_ b. b) 100 (Some s) ''m'' (\<lambda>n. ''m1'') (\<lambda>n. 5)))
    in map (\<lambda>j. (jc_ID j, Released j)) (jailed t) = [(''j1'', False), (''j2'', True)])"
  by code_simp

section \<open>Confidentiality\<close>

text \<open>C26: a caller that may not release held comments never sees the text of one, neither in the listing
  nor when asking for a single comment, and its release requests are refused without any effect.\<close>

theorem jail_confidential:
  assumes "checkJailRelease sm ac \<noteq> None"
  shows "(\<forall>js. handleMsgJailList inc store = JailList js \<longrightarrow> (\<forall>j \<in> set js. jc_Body j = bodyWithheld)) \<and>
    (\<forall>j. handleMsgJailShow sm ac i store = JailShow j \<longrightarrow> jc_Body j = bodyWithheld) \<and>
    handleMsgJailRelease lower instruct maxBody sm ac i all author ids clk store = (store, ErrorReply)"
  using assms
  by (auto simp: handleMsgJailList_def handleMsgJailShow_def handleMsgJailRelease_def mayReadJailBody_def
      jailedToWire_def jailedOneToWire_def split: option.splits)

theorem jail_confidential_witness:
  "\<exists>j. handleMsgJailShow example_manager example_session_context ''j1'' (Some example_jail) = JailShow j \<and>
    jc_Body j = bodyWithheld"
proof -
  have "checkJailRelease example_manager example_session_context \<noteq> None" by code_simp
  moreover obtain j where "handleMsgJailShow example_manager example_session_context ''j1'' (Some example_jail) = JailShow j"
  proof -
    have "GetJailed example_jail ''j1'' \<noteq> None" by code_simp
    then show ?thesis using that by (auto simp: handleMsgJailShow_def)
  qed
  ultimately show ?thesis using jail_confidential by blast
qed

section \<open>Following a stream\<close>

text \<open>A follower that acknowledges what it is sent can lose messages: when its buffer is full a
  published message is dropped for it, and acknowledging the next one it does receive moves the cursor
  past the dropped one, which is then neither delivered nor unread. Here a follower with a buffer of
  one is offered messages 1, 2 and 3, the second while the buffer is full.\<close>

theorem follow_ack_loses_message:
  "(let publish = (\<lambda>i s. fst (Publish s example_opts i 0));
        follow = (\<lambda>s. follow_turn (\<lambda>m. True) True 0 ''t'' ''w'' [] False True 0 FromChannel s);
        (s0, out0, going) = stream_read (\<lambda>m. True) True 0 ''t'' ''w'' True [] False True True 0
          (NewMsgStore empty_tables \<lparr>ms_BusyTimeout = 0, ms_SubscriberBuffer = 1, ms_JailListLimit = 0\<rparr>);
        (s1, out1, go1) = follow (publish ''2'' (publish ''1'' s0));
        (s2, out2, go2) = follow (publish ''3'' s1)
    in map (\<lambda>r. case r of MsgMessage m \<Rightarrow> msg_ID m | _ \<Rightarrow> []) (out1 @ out2) = [''1'', ''3''] \<and>
       map msg_ID (messages s2) = [''1'', ''2'', ''3''] \<and> Read_msgs s2 ''t'' ''w'' True [] = [])"
  by code_simp

end
