(* ===== verification/Todo_Deps.thy ===== *)
theory Todo_Deps
  imports Go_Strings
begin

text \<open>
  The tables of the task database (\<^verbatim>\<open>initTodoSchema\<close>, todostore.go) and the dependency graph over
  them (tododeps.go). A table is the list of its rows in insertion order; \<open>todo_deps\<close> holds the
  pairs (todo, dependency). The recursive query of \<open>todoDependencyReaches\<close> is the queue loop SQLite
  runs for it, and is shown to compute the reflexive transitive closure of the edges, so that
  \<open>replaceTodoDependencies\<close> refuses exactly the edge sets that would close a cycle.
\<close>

definition TodoStatusTodo :: string where "TodoStatusTodo = ''todo''"
definition TodoStatusInProgress :: string where "TodoStatusInProgress = ''in-progress''"
definition TodoStatusDone :: string where "TodoStatusDone = ''done''"
definition TodoStatusBlocked :: string where "TodoStatusBlocked = ''blocked''"

lemmas todo_status_defs =
  TodoStatusTodo_def TodoStatusInProgress_def TodoStatusDone_def TodoStatusBlocked_def

lemma todo_status_distinct [simp]:
  "TodoStatusTodo \<noteq> TodoStatusInProgress" "TodoStatusInProgress \<noteq> TodoStatusTodo"
  "TodoStatusTodo \<noteq> TodoStatusDone" "TodoStatusDone \<noteq> TodoStatusTodo"
  "TodoStatusTodo \<noteq> TodoStatusBlocked" "TodoStatusBlocked \<noteq> TodoStatusTodo"
  "TodoStatusInProgress \<noteq> TodoStatusDone" "TodoStatusDone \<noteq> TodoStatusInProgress"
  "TodoStatusInProgress \<noteq> TodoStatusBlocked" "TodoStatusBlocked \<noteq> TodoStatusInProgress"
  "TodoStatusDone \<noteq> TodoStatusBlocked" "TodoStatusBlocked \<noteq> TodoStatusDone"
  by (simp_all add: todo_status_defs)

definition validTodoStatus :: "string \<Rightarrow> bool" where
  "validTodoStatus s \<longleftrightarrow>
    s \<in> {TodoStatusTodo, TodoStatusInProgress, TodoStatusDone, TodoStatusBlocked}"

definition todoTitleHardCeiling :: int where "todoTitleHardCeiling = 500"
definition todoNoteHardCeiling :: int where "todoNoteHardCeiling = 2000"

datatype todo_error =
    ErrTodoNotFound
  | ErrEmptyTitle
  | ErrTitleTooLong int
  | ErrNoteTooLong int
  | ErrEmptyScope
  | ErrParentNotFound string
  | ErrHierarchy string
  | ErrParentScope
  | ErrConstraint
  | ErrEmptyDependency
  | ErrSelfDependency string
  | ErrDependencyNotFound string
  | ErrDependencyScope string
  | ErrDependencyCycle string string
  | ErrClaimOwner
  | ErrInvalidStatus string
  | ErrUseClaim
  | ErrCannotMove string string
  | ErrDependent string string string
  | ErrBatchEmptyKey nat
  | ErrBatchDuplicateKey string
  | ErrBatchParent string
  | ErrBatchUnknownKey string string
  | ErrBatchEntry string todo_error
  | ErrMultipleSeeds string string string

section \<open>The tables\<close>

record todo_row =
  row_id :: string
  row_title :: string
  row_status :: string
  row_scope :: string
  row_owner :: string
  row_assignee :: string
  row_parent_id :: "string option"
  row_note :: string
  row_created_by :: string
  row_created_at :: string
  row_updated_at :: string
  row_revision :: int
  row_position :: int

record todo_seed =
  seed_todo_id :: string
  seed_scope :: string
  seed_assignee :: string

record todo_db =
  todos :: "todo_row list"
  todo_tags :: "(string \<times> string) list"
  todo_deps :: "(string \<times> string) list"
  todo_seeds :: "todo_seed list"

definition find_todo :: "todo_db \<Rightarrow> string \<Rightarrow> todo_row option" where
  "find_todo db i = find (\<lambda>r. row_id r = i) (todos db)"

text \<open>The row CHECKs of the schema.\<close>

definition row_ok :: "todo_row \<Rightarrow> bool" where
  "row_ok r \<longleftrightarrow>
    int (sqlite_length (row_title r)) \<le> todoTitleHardCeiling \<and> validTodoStatus (row_status r) \<and>
    int (sqlite_length (row_note r)) \<le> todoNoteHardCeiling \<and>
    (row_status r = TodoStatusTodo \<and> row_owner r = [] \<or>
     row_status r \<noteq> TodoStatusTodo \<and> row_owner r \<noteq> [])"

text \<open>\<^verbatim>\<open>UPDATE todos SET .. WHERE p\<close>: fails as a whole when a changed row breaks a CHECK.\<close>

definition update_todos ::
  "(todo_row \<Rightarrow> bool) \<Rightarrow> (todo_row \<Rightarrow> todo_row) \<Rightarrow> todo_db \<Rightarrow> (todo_error, todo_db) result" where
  "update_todos p g db =
    (if \<forall>r \<in> set (todos db). p r \<longrightarrow> row_ok (g r)
     then Inr (db\<lparr>todos := update_where p g (todos db)\<rparr>) else Inl ErrConstraint)"

text \<open>\<^verbatim>\<open>INSERT INTO todos\<close>: the primary key, the CHECKs and the parent's foreign key.\<close>

definition insert_todo :: "todo_row \<Rightarrow> todo_db \<Rightarrow> (todo_error, todo_db) result" where
  "insert_todo r db =
    (if find_todo db (row_id r) \<noteq> None \<or> \<not> row_ok r \<or>
        (case row_parent_id r of None \<Rightarrow> False | Some p \<Rightarrow> find_todo db p = None \<and> p \<noteq> row_id r)
     then Inl ErrConstraint else Inr (db\<lparr>todos := todos db @ [r]\<rparr>))"

text \<open>\<^verbatim>\<open>INSERT OR IGNORE INTO todo_tags\<close>.\<close>

definition insert_tag :: "string \<Rightarrow> string \<Rightarrow> todo_db \<Rightarrow> todo_db" where
  "insert_tag i t db =
    (if (i, t) \<in> set (todo_tags db) then db else db\<lparr>todo_tags := todo_tags db @ [(i, t)]\<rparr>)"

text \<open>Deleting rows of \<^verbatim>\<open>todos\<close>: tags, outgoing edges and seeds go with them (ON DELETE CASCADE); an
  edge that still points at a deleted row makes the statement fail (ON DELETE RESTRICT).\<close>

definition delete_todos :: "string set \<Rightarrow> todo_db \<Rightarrow> (todo_error, todo_db) result" where
  "delete_todos ids db =
    (if \<exists>(t, d) \<in> set (todo_deps db). d \<in> ids then Inl ErrConstraint
     else Inr (db\<lparr>todos := filter (\<lambda>r. row_id r \<notin> ids) (todos db),
                  todo_tags := filter (\<lambda>(t, x). t \<notin> ids) (todo_tags db),
                  todo_deps := filter (\<lambda>(t, d). t \<notin> ids) (todo_deps db),
                  todo_seeds := filter (\<lambda>s. seed_todo_id s \<notin> ids) (todo_seeds db)\<rparr>))"

section \<open>Recursive queries\<close>

text \<open>\<^verbatim>\<open>WITH RECURSIVE r(id) AS (start UNION SELECT b FROM edges JOIN r ON a = r.id)\<close>: SQLite takes a row
  from the queue and appends the successors that were never produced before.\<close>

function recursive_query :: "(string \<times> string) list \<Rightarrow> string list \<Rightarrow> string list \<Rightarrow> string list" where
  "recursive_query es [] produced = produced"
| "recursive_query es (x # queue) produced =
    (let new = dedup produced (map snd (filter (\<lambda>e. fst e = x) es))
     in recursive_query es (queue @ new) (produced @ new))"
  by pat_completeness auto
termination
proof (relation "measure (\<lambda>(es, queue, produced). card (snd ` set es - set produced) + length queue)")
  fix es :: "(string \<times> string) list" and x queue produced new
  assume new: "new = dedup produced (map snd (filter (\<lambda>e. fst e = x) es))"
  have sub: "set new \<subseteq> snd ` set es - set produced" by (auto simp: new set_dedup)
  have "snd ` set es - set (produced @ new) = (snd ` set es - set produced) - set new" by auto
  moreover have "card (set new) = length new" by (simp add: new distinct_card distinct_dedup)
  ultimately have "card (snd ` set es - set (produced @ new)) + length new =
      card (snd ` set es - set produced)"
    using card_Diff_subset [OF _ sub] card_mono [OF _ sub] by simp
  then show "((es, queue @ new, produced @ new), (es, x # queue, produced))
      \<in> measure (\<lambda>(es, queue, produced). card (snd ` set es - set produced) + length queue)" by simp
qed simp

declare recursive_query.simps(2) [simp del]

lemma recursive_query_sound:
  assumes "\<forall>y \<in> set produced. (s, y) \<in> (set es)\<^sup>*" and "set queue \<subseteq> set produced"
    and "y \<in> set (recursive_query es queue produced)"
  shows "(s, y) \<in> (set es)\<^sup>*"
  using assms
proof (induction es queue produced rule: recursive_query.induct)
  case (1 es produced)
  then show ?case by simp
next
  case (2 es x queue produced)
  define new where "new = dedup produced (map snd (filter (\<lambda>e. fst e = x) es))"
  have "(s, x) \<in> (set es)\<^sup>*" using 2(2,3) by auto
  then have "\<forall>y \<in> set (produced @ new). (s, y) \<in> (set es)\<^sup>*"
    using 2(2) by (auto simp: new_def set_dedup intro: rtrancl_into_rtrancl)
  then show ?case using 2 by (auto simp: new_def Let_def recursive_query.simps(2))
qed

lemma recursive_query_complete:
  assumes "\<forall>x \<in> set produced - set queue. set es `` {x} \<subseteq> set produced"
    and "set queue \<subseteq> set produced"
  shows "set produced \<subseteq> set (recursive_query es queue produced) \<and>
    set es `` set (recursive_query es queue produced) \<subseteq> set (recursive_query es queue produced)"
  using assms
proof (induction es queue produced rule: recursive_query.induct)
  case (1 es produced)
  then show ?case by auto
next
  case (2 es x queue produced)
  define new where "new = dedup produced (map snd (filter (\<lambda>e. fst e = x) es))"
  have "set es `` {x} \<subseteq> set (produced @ new)" by (force simp: new_def set_dedup)
  then have "\<forall>z \<in> set (produced @ new) - set (queue @ new). set es `` {z} \<subseteq> set (produced @ new)"
    using 2(2) by fastforce
  moreover have "set (queue @ new) \<subseteq> set (produced @ new)" using 2(3) by auto
  ultimately show ?case using "2.IH" [OF new_def] by (simp add: new_def Let_def recursive_query.simps(2))
qed

lemma set_recursive_query: "set (recursive_query es [s] [s]) = (set es)\<^sup>* `` {s}"
proof (intro equalityI subsetI)
  fix y assume "y \<in> set (recursive_query es [s] [s])"
  then show "y \<in> (set es)\<^sup>* `` {s}" using recursive_query_sound [of "[s]" s es "[s]" y] by simp
next
  fix y assume "y \<in> (set es)\<^sup>* `` {s}"
  then have "(s, y) \<in> (set es)\<^sup>*" by simp
  then show "y \<in> set (recursive_query es [s] [s])"
    using recursive_query_complete [of "[s]" "[s]" es]
    by (induction rule: rtrancl_induct) auto
qed

section \<open>Dependencies\<close>

definition not_done :: "todo_db \<Rightarrow> string \<Rightarrow> bool" where
  "not_done db d \<longleftrightarrow> (case find_todo db d of None \<Rightarrow> False | Some r \<Rightarrow> row_status r \<noteq> TodoStatusDone)"

text \<open>The \<^verbatim>\<open>EXISTS (SELECT 1 FROM todo_dependencies d JOIN todos dependency ..)\<close> subquery: some dependency
  of the row is not done.\<close>

definition waiting :: "todo_db \<Rightarrow> string \<Rightarrow> bool" where
  "waiting db i \<longleftrightarrow> (\<exists>(t, d) \<in> set (todo_deps db). t = i \<and> not_done db d)"

definition todoDependencyReaches :: "todo_db \<Rightarrow> string \<Rightarrow> string \<Rightarrow> bool" where
  "todoDependencyReaches db startID targetID \<longleftrightarrow>
    targetID \<in> set (recursive_query (todo_deps db) [startID] [startID])"

lemma todoDependencyReaches_iff:
  "todoDependencyReaches db a b \<longleftrightarrow> (a, b) \<in> (set (todo_deps db))\<^sup>*"
  by (simp add: todoDependencyReaches_def set_recursive_query)

fun trim_dependencies :: "string list \<Rightarrow> (todo_error, string list) result" where
  "trim_dependencies [] = Inr []"
| "trim_dependencies (i # ids) =
    (let t = trim_space i
     in if t = [] then Inl ErrEmptyDependency
        else rbind (trim_dependencies ids) (\<lambda>ts. Inr (t # ts)))"

definition normalizeTodoDependencies :: "string list \<Rightarrow> (todo_error, string list) result" where
  "normalizeTodoDependencies ids = rbind (trim_dependencies ids) (\<lambda>ts. Inr (sort_strings (dedup [] ts)))"

definition check_dependency ::
  "todo_db \<Rightarrow> string \<Rightarrow> string \<Rightarrow> string \<Rightarrow> todo_error option" where
  "check_dependency db todoID scope dependencyID =
    (if dependencyID = todoID then Some (ErrSelfDependency todoID)
     else case find_todo db dependencyID of
         None \<Rightarrow> Some (ErrDependencyNotFound dependencyID)
       | Some r \<Rightarrow>
           if row_scope r \<noteq> scope then Some (ErrDependencyScope dependencyID)
           else if todoDependencyReaches db dependencyID todoID
             then Some (ErrDependencyCycle dependencyID todoID)
           else None)"

fun check_dependencies ::
  "todo_db \<Rightarrow> string \<Rightarrow> string \<Rightarrow> string list \<Rightarrow> todo_error option" where
  "check_dependencies db todoID scope [] = None"
| "check_dependencies db todoID scope (d # ds) =
    (case check_dependency db todoID scope d of
       Some e \<Rightarrow> Some e
     | None \<Rightarrow> check_dependencies db todoID scope ds)"

definition clear_dependencies :: "string \<Rightarrow> todo_db \<Rightarrow> todo_db" where
  "clear_dependencies i db = db\<lparr>todo_deps := filter (\<lambda>(t, d). t \<noteq> i) (todo_deps db)\<rparr>"

text \<open>\<^verbatim>\<open>INSERT INTO todo_dependencies\<close>: primary key, both foreign keys, and the self-edge CHECK.\<close>

definition insert_dependency :: "string \<Rightarrow> string \<Rightarrow> todo_db \<Rightarrow> (todo_error, todo_db) result" where
  "insert_dependency i d db =
    (if (i, d) \<in> set (todo_deps db) \<or> i = d \<or> find_todo db i = None \<or> find_todo db d = None
     then Inl ErrConstraint
     else Inr (db\<lparr>todo_deps := todo_deps db @ [(i, d)]\<rparr>))"

definition replaceTodoDependencies ::
  "string \<Rightarrow> string \<Rightarrow> string list \<Rightarrow> todo_db \<Rightarrow> (todo_error, todo_db) result" where
  "replaceTodoDependencies todoID scope ids db =
    rbind (normalizeTodoDependencies ids) (\<lambda>deps.
      case check_dependencies db todoID scope deps of
        Some e \<Rightarrow> Inl e
      | None \<Rightarrow> rfold (insert_dependency todoID) deps (clear_dependencies todoID db))"

definition directDependentsChangingReadiness :: "todo_db \<Rightarrow> string \<Rightarrow> bool \<Rightarrow> string list" where
  "directDependentsChangingReadiness db dependencyID unblocking =
    sort_strings
      [t. (t, d) \<leftarrow> todo_deps db, d = dependencyID,
          (case find_todo db t of None \<Rightarrow> False | Some r \<Rightarrow> row_status r = TodoStatusTodo),
          (if unblocking then \<not> waiting db t
           else \<not> (\<exists>(t', d') \<in> set (todo_deps db). t' = t \<and> d' \<noteq> dependencyID \<and> not_done db d'))]"

fun touchTodoIDs :: "string list \<Rightarrow> string \<Rightarrow> todo_db \<Rightarrow> (todo_error, todo_db) result" where
  "touchTodoIDs [] now db = Inr db"
| "touchTodoIDs (i # ids) now db =
    rbind (update_todos (\<lambda>r. row_id r = i)
        (\<lambda>r. r\<lparr>row_revision := row_revision r + 1, row_updated_at := now\<rparr>) db)
      (touchTodoIDs ids now)"

section \<open>The graph invariant and replacement\<close>

definition deps_ok :: "todo_db \<Rightarrow> bool" where
  "deps_ok db \<longleftrightarrow>
    distinct (todo_deps db) \<and> acyclic (set (todo_deps db)) \<and>
    (\<forall>(t, d) \<in> set (todo_deps db). \<exists>r s. find_todo db t = Some r \<and> find_todo db d = Some s \<and>
       row_scope r = row_scope s)"

lemma trim_dependencies_Inr:
  "trim_dependencies ids = Inr ts \<longleftrightarrow> [] \<notin> trim_space ` set ids \<and> ts = map trim_space ids"
  by (induction ids arbitrary: ts) (auto simp: Let_def rbind_Inr)

lemma normalizeTodoDependencies_Inr:
  "normalizeTodoDependencies ids = Inr deps \<longleftrightarrow>
    [] \<notin> trim_space ` set ids \<and> deps = sort_strings (dedup [] (map trim_space ids))"
  by (auto simp: normalizeTodoDependencies_def rbind_Inr trim_dependencies_Inr)

lemma check_dependencies_None:
  "check_dependencies db i sc ds = None \<longleftrightarrow> (\<forall>d \<in> set ds. check_dependency db i sc d = None)"
  by (induction ds) (auto split: option.splits)

lemma check_dependency_None:
  "check_dependency db i sc d = None \<longleftrightarrow>
    d \<noteq> i \<and> (\<exists>r. find_todo db d = Some r \<and> row_scope r = sc) \<and> (d, i) \<notin> (set (todo_deps db))\<^sup>*"
  by (auto simp: check_dependency_def todoDependencyReaches_iff split: option.splits)

lemma find_todo_deps_update [simp]: "find_todo (db\<lparr>todo_deps := x\<rparr>) i = find_todo db i"
  by (simp add: find_todo_def)

lemma find_todo_clear [simp]: "find_todo (clear_dependencies i db) j = find_todo db j"
  by (simp add: clear_dependencies_def)

lemma rfold_insert_dependency:
  assumes "distinct deps" and "i \<notin> set deps" and "find_todo db i \<noteq> None"
    and "\<forall>d \<in> set deps. find_todo db d \<noteq> None \<and> (i, d) \<notin> set (todo_deps db)"
  shows "rfold (insert_dependency i) deps db = Inr (db\<lparr>todo_deps := todo_deps db @ map (Pair i) deps\<rparr>)"
  using assms
proof (induction deps arbitrary: db)
  case Nil
  then show ?case by simp
next
  case (Cons a deps)
  then have "insert_dependency i a db = Inr (db\<lparr>todo_deps := todo_deps db @ [(i, a)]\<rparr>)"
    by (auto simp: insert_dependency_def)
  with Cons.prems Cons.IH [of "db\<lparr>todo_deps := todo_deps db @ [(i, a)]\<rparr>"] show ?case by auto
qed

lemma replaceTodoDependencies_Inr:
  assumes "find_todo db i \<noteq> None"
  shows "replaceTodoDependencies i sc ids db = Inr db' \<longleftrightarrow>
    (\<exists>deps. normalizeTodoDependencies ids = Inr deps \<and>
       (\<forall>d \<in> set deps. check_dependency db i sc d = None) \<and>
       db' = db\<lparr>todo_deps := filter (\<lambda>(t, d). t \<noteq> i) (todo_deps db) @ map (Pair i) deps\<rparr>)"
proof -
  have "rfold (insert_dependency i) deps (clear_dependencies i db) =
      Inr (db\<lparr>todo_deps := filter (\<lambda>(t, d). t \<noteq> i) (todo_deps db) @ map (Pair i) deps\<rparr>)"
    if "normalizeTodoDependencies ids = Inr deps"
      and "\<forall>d \<in> set deps. check_dependency db i sc d = None" for deps
  proof -
    have "distinct deps" using that(1) by (auto simp: normalizeTodoDependencies_Inr distinct_dedup)
    moreover have "i \<notin> set deps" and "\<forall>d \<in> set deps. find_todo db d \<noteq> None"
      using that(2) by (auto simp: check_dependency_None)
    ultimately show ?thesis
      using assms by (subst rfold_insert_dependency) (auto simp: clear_dependencies_def)
  qed
  then show ?thesis
    by (auto simp: replaceTodoDependencies_def rbind_Inr check_dependencies_None split: option.splits)
qed

text \<open>Adding edges out of one node closes a cycle exactly when an old path leads from one of
  the new targets back to the node.\<close>

lemma acyclic_star_edges:
  assumes "acyclic R" and "\<forall>d \<in> D. (d, i) \<notin> R\<^sup>*"
  shows "acyclic (R \<union> {i} \<times> D)"
  unfolding acyclic_def
proof (intro allI notI)
  fix x assume "(x, x) \<in> (R \<union> {i} \<times> D)\<^sup>+"
  moreover have "(x, y) \<in> R\<^sup>+ \<or> (\<exists>d \<in> D. (x, i) \<in> R\<^sup>* \<and> (d, y) \<in> R\<^sup>*)"
    if "(x, y) \<in> (R \<union> {i} \<times> D)\<^sup>+" for x y
    using that
  proof (induction rule: trancl_induct)
    case (base y)
    then show ?case by blast
  next
    case (step y z)
    from step.hyps(2) show ?case
    proof
      assume "(y, z) \<in> R"
      with step.IH show ?thesis by (meson rtrancl.rtrancl_into_rtrancl trancl.trancl_into_trancl)
    next
      assume "(y, z) \<in> {i} \<times> D"
      then have "y = i" and "z \<in> D" by auto
      with step.IH assms(2) show ?thesis by (metis rtrancl.rtrancl_refl trancl_into_rtrancl)
    qed
  qed
  ultimately have "(x, x) \<in> R\<^sup>+ \<or> (\<exists>d \<in> D. (x, i) \<in> R\<^sup>* \<and> (d, x) \<in> R\<^sup>*)" by blast
  then show False
  proof
    assume "(x, x) \<in> R\<^sup>+"
    with assms(1) show False by (simp add: acyclic_def)
  next
    assume "\<exists>d \<in> D. (x, i) \<in> R\<^sup>* \<and> (d, x) \<in> R\<^sup>*"
    with assms(2) show False by (meson rtrancl_trans)
  qed
qed

lemma replaceTodoDependencies_deps_ok:
  assumes "deps_ok db" and "find_todo db i = Some r" and "row_scope r = sc"
    and "replaceTodoDependencies i sc ids db = Inr db'"
  shows "deps_ok db'"
proof -
  obtain deps where deps: "normalizeTodoDependencies ids = Inr deps"
    "\<forall>d \<in> set deps. check_dependency db i sc d = None"
    and db': "db' = db\<lparr>todo_deps := filter (\<lambda>(t, d). t \<noteq> i) (todo_deps db) @ map (Pair i) deps\<rparr>"
    using assms(2,4) by (auto simp: replaceTodoDependencies_Inr)
  let ?R = "set (filter (\<lambda>(t, d). t \<noteq> i) (todo_deps db))"
  have "?R\<^sup>* \<subseteq> (set (todo_deps db))\<^sup>*" by (rule rtrancl_mono) auto
  then have "\<forall>d \<in> set deps. (d, i) \<notin> ?R\<^sup>*" using deps(2) by (auto simp: check_dependency_None)
  moreover have "acyclic ?R" using assms(1) by (auto simp: deps_ok_def intro: acyclic_subset)
  ultimately have "acyclic (?R \<union> {i} \<times> set deps)" by (intro acyclic_star_edges)
  moreover have "set (todo_deps db') = ?R \<union> {i} \<times> set deps" by (auto simp: db')
  moreover have "distinct (todo_deps db')"
    using assms(1) deps(1) by (auto simp: db' deps_ok_def distinct_map normalizeTodoDependencies_Inr
        distinct_dedup inj_on_def)
  ultimately show ?thesis using assms(1-3) deps(2)
    by (fastforce simp: deps_ok_def db' check_dependency_None)
qed

end
