(* ===== verification/Todo_Store.thy ===== *)
theory Todo_Store
  imports Todo_Deps Go_Time
begin

text \<open>
  The task store (todostore.go and \<open>AddBatch\<close>, the seed queries of tododeps.go). Each operation
  takes the store and what the code reads from its environment (the clock \<open>now\<close> in nanoseconds,
  the fresh identifier) and returns the new store with the result; an operation that runs in a
  transaction is a \<open>_tx\<close> function on the tables, committed by \<open>commit\<close>, which leaves the store
  alone when the transaction fails. Driver and I/O failures of SQLite are outside the model; its
  constraint failures are \<^const>\<open>ErrConstraint\<close>.
\<close>

section \<open>Data\<close>

record TodoItem =
  item_ID :: string
  item_Title :: string
  item_Status :: string
  item_Scope :: string
  item_Owner :: string
  item_Assignee :: string
  item_ParentID :: string
  item_Note :: string
  item_Tags :: "string list"
  item_DependsOn :: "string list"
  item_BlockedBy :: "string list"
  item_CreatedBy :: string
  item_CreatedAt :: string
  item_UpdatedAt :: string
  item_Revision :: int
  item_Position :: int

record TodoAdd =
  add_Scope :: string
  add_Title :: string
  add_Note :: string
  add_Tags :: "string list"
  add_ParentID :: string
  add_Assignee :: string
  add_DependsOn :: "string list"
  add_CreatedBy :: string

record TodoBatchAdd =
  batch_Key :: string
  batch_Item :: TodoAdd
  batch_DependsOnKeys :: "string list"

record TodoFilter =
  filter_Status :: string
  filter_Tag :: string
  filter_Owner :: string

record TodoTransitionResult =
  tr_Item :: TodoItem
  tr_Unblocked :: "TodoItem list"
  tr_DependencyBlocked :: "TodoItem list"

record TodoUpdateResult =
  ur_Item :: TodoItem
  ur_Unblocked :: bool
  ur_DependencyBlocked :: bool

record TodoStore =
  store_db :: todo_db
  maxTitle :: int
  maxNote :: int
  listLimit :: int

record TodoStoreSettings =
  set_BusyTimeout :: int
  set_MaxTitle :: int
  set_MaxNote :: int
  set_ListLimit :: int

section \<open>Settings and limits\<close>

definition TodoMaxTitleDefault :: int where "TodoMaxTitleDefault = 500"
definition TodoMaxNoteDefault :: int where "TodoMaxNoteDefault = 2000"
definition TodoListLimitDefault :: int where "TodoListLimitDefault = 2000"
definition TodoBusyTimeoutDefault :: int where "TodoBusyTimeoutDefault = 5000000000"
definition SQLiteBusyTimeoutResolution :: int where "SQLiteBusyTimeoutResolution = 1000000"

definition clamp_limit :: "int \<Rightarrow> int \<Rightarrow> int \<Rightarrow> int" where
  "clamp_limit ceiling def limit = (if limit < 1 \<or> ceiling < limit then def else limit)"

definition resolved_todo :: "TodoStoreSettings \<Rightarrow> TodoStoreSettings" where
  "resolved_todo s =
    s\<lparr>set_BusyTimeout :=
        (if set_BusyTimeout s \<le> 0 then TodoBusyTimeoutDefault
         else if set_BusyTimeout s < SQLiteBusyTimeoutResolution then SQLiteBusyTimeoutResolution
         else set_BusyTimeout s),
      set_MaxTitle := clamp_limit todoTitleHardCeiling TodoMaxTitleDefault (set_MaxTitle s),
      set_MaxNote := clamp_limit todoNoteHardCeiling TodoMaxNoteDefault (set_MaxNote s),
      set_ListLimit := (if set_ListLimit s < 1 then TodoListLimitDefault else set_ListLimit s)\<rparr>"

definition SetMaxTitle :: "TodoStore \<Rightarrow> int \<Rightarrow> TodoStore" where
  "SetMaxTitle s limit = s\<lparr>maxTitle := clamp_limit todoTitleHardCeiling TodoMaxTitleDefault limit\<rparr>"

definition SetMaxNote :: "TodoStore \<Rightarrow> int \<Rightarrow> TodoStore" where
  "SetMaxNote s limit = s\<lparr>maxNote := clamp_limit todoNoteHardCeiling TodoMaxNoteDefault limit\<rparr>"

definition titleLimit :: "TodoStore \<Rightarrow> int" where
  "titleLimit s = (if 1 \<le> maxTitle s then maxTitle s else TodoMaxTitleDefault)"

definition noteLimit :: "TodoStore \<Rightarrow> int" where
  "noteLimit s = (if 1 \<le> maxNote s then maxNote s else TodoMaxNoteDefault)"

definition listCap :: "TodoStore \<Rightarrow> int" where
  "listCap s = (if listLimit s < 1 then TodoListLimitDefault else listLimit s)"

section \<open>Opening\<close>

text \<open>\<^verbatim>\<open>INSERT INTO todo_scenario_seeds\<close> fails on the primary key and on UNIQUE (scope, assignee).\<close>

definition seed_conflict :: "todo_db \<Rightarrow> todo_seed \<Rightarrow> bool" where
  "seed_conflict db x \<longleftrightarrow>
    (\<exists>y \<in> set (todo_seeds db). seed_todo_id y = seed_todo_id x \<or>
       seed_scope y = seed_scope x \<and> seed_assignee y = seed_assignee x)"

definition seed_of_row :: "todo_row \<Rightarrow> todo_seed" where
  "seed_of_row r = \<lparr>seed_todo_id = row_id r, seed_scope = row_scope r, seed_assignee = row_assignee r\<rparr>"

definition backfill_seed :: "todo_row \<Rightarrow> todo_db \<Rightarrow> todo_db" where
  "backfill_seed r db =
    (if seed_conflict db (seed_of_row r) then db
     else db\<lparr>todo_seeds := todo_seeds db @ [seed_of_row r]\<rparr>)"

definition initTodoSchema :: "todo_db \<Rightarrow> todo_db" where
  "initTodoSchema db =
    fold backfill_seed
      (sort_key (\<lambda>r. (row_scope r, row_position r, row_id r))
        (filter (\<lambda>r. row_created_by r = row_scope r \<and> row_parent_id r = None \<and> row_assignee r \<noteq> [])
          (todos db))) db"

definition NewTodoStore :: "todo_db \<Rightarrow> TodoStoreSettings \<Rightarrow> TodoStore" where
  "NewTodoStore db settings =
    (let st = resolved_todo settings
     in \<lparr>store_db = initTodoSchema db, maxTitle = set_MaxTitle st, maxNote = set_MaxNote st,
         listLimit = set_ListLimit st\<rparr>)"

definition empty_db :: todo_db where
  "empty_db = \<lparr>todos = [], todo_tags = [], todo_deps = [], todo_seeds = []\<rparr>"

section \<open>Reading\<close>

definition null_string :: "string option \<Rightarrow> string" where
  "null_string v = (case v of None \<Rightarrow> [] | Some s \<Rightarrow> s)"

definition nullStr :: "string \<Rightarrow> string option" where
  "nullStr s = (if s = [] then None else Some s)"

definition loadTags :: "todo_db \<Rightarrow> string \<Rightarrow> string list" where
  "loadTags db i = sort_strings (map snd (filter (\<lambda>e. fst e = i) (todo_tags db)))"

definition scan_todo :: "todo_row \<Rightarrow> TodoItem" where
  "scan_todo r =
    \<lparr>item_ID = row_id r, item_Title = row_title r, item_Status = row_status r,
     item_Scope = row_scope r, item_Owner = row_owner r, item_Assignee = row_assignee r,
     item_ParentID = null_string (row_parent_id r), item_Note = row_note r, item_Tags = [],
     item_DependsOn = [], item_BlockedBy = [], item_CreatedBy = row_created_by r,
     item_CreatedAt = row_created_at r, item_UpdatedAt = row_updated_at r,
     item_Revision = row_revision r, item_Position = row_position r\<rparr>"

definition hydrateTodoDependencies :: "todo_db \<Rightarrow> TodoItem \<Rightarrow> TodoItem" where
  "hydrateTodoDependencies db it =
    (let ds = sort_strings [d. (t, d) \<leftarrow> todo_deps db, t = item_ID it, find_todo db d \<noteq> None];
         bs = filter (not_done db) ds
     in it\<lparr>item_DependsOn := item_DependsOn it @ ds, item_BlockedBy := item_BlockedBy it @ bs,
           item_Status :=
             (if item_Status it = TodoStatusTodo \<and> item_BlockedBy it @ bs \<noteq> []
              then TodoStatusBlocked else item_Status it)\<rparr>)"

definition hydrate :: "todo_db \<Rightarrow> todo_row \<Rightarrow> TodoItem" where
  "hydrate db r = hydrateTodoDependencies db ((scan_todo r)\<lparr>item_Tags := loadTags db (row_id r)\<rparr>)"

definition getLocked :: "todo_db \<Rightarrow> string \<Rightarrow> (todo_error, TodoItem) result" where
  "getLocked db i =
    (case find_todo db i of None \<Rightarrow> Inl ErrTodoNotFound | Some r \<Rightarrow> Inr (hydrate db r))"

definition Get :: "TodoStore \<Rightarrow> string \<Rightarrow> (todo_error, TodoItem) result" where
  "Get s i = getLocked (store_db s) i"

definition appendTodoStatusFilter :: "todo_db \<Rightarrow> string \<Rightarrow> todo_row \<Rightarrow> bool" where
  "appendTodoStatusFilter db status r \<longleftrightarrow>
    (if status = TodoStatusTodo then row_status r = TodoStatusTodo \<and> \<not> waiting db (row_id r)
     else if status = TodoStatusBlocked
       then row_status r = TodoStatusBlocked \<or> row_status r = TodoStatusTodo \<and> waiting db (row_id r)
     else row_status r = status)"

definition todo_filter_matches :: "todo_db \<Rightarrow> TodoFilter \<Rightarrow> todo_row \<Rightarrow> bool" where
  "todo_filter_matches db f r \<longleftrightarrow>
    (filter_Status f \<noteq> [] \<longrightarrow> appendTodoStatusFilter db (filter_Status f) r) \<and>
    (filter_Owner f \<noteq> [] \<longrightarrow> row_owner r = filter_Owner f) \<and>
    (filter_Tag f \<noteq> [] \<longrightarrow> (row_id r, filter_Tag f) \<in> set (todo_tags db))"

definition queryTodos :: "todo_db \<Rightarrow> todo_row list \<Rightarrow> TodoItem list" where
  "queryTodos db rows = map (hydrate db) rows"

definition List_todos :: "TodoStore \<Rightarrow> string \<Rightarrow> TodoFilter \<Rightarrow> TodoItem list" where
  "List_todos s scope f =
    queryTodos (store_db s)
      (take (nat (listCap s))
        (sort_key (\<lambda>r. (row_position r, row_id r))
          (filter (\<lambda>r. row_scope r = scope \<and> todo_filter_matches (store_db s) f r)
            (todos (store_db s)))))"

definition ListAll :: "TodoStore \<Rightarrow> TodoFilter \<Rightarrow> TodoItem list" where
  "ListAll s f =
    queryTodos (store_db s)
      (take (nat (listCap s))
        (sort_key (\<lambda>r. (row_scope r, row_position r, row_id r))
          (filter (todo_filter_matches (store_db s) f) (todos (store_db s)))))"

definition Counts :: "TodoStore \<Rightarrow> string \<Rightarrow> nat \<times> nat" where
  "Counts s scope =
    (let rs = filter (\<lambda>r. row_scope r = scope) (todos (store_db s))
     in (length (filter (\<lambda>r. row_status r = TodoStatusDone) rs), length rs))"

definition AssigneeProgress :: "TodoStore \<Rightarrow> string \<Rightarrow> (string \<times> nat \<times> nat) list" where
  "AssigneeProgress s scope =
    (let rs = filter (\<lambda>r. row_scope r = scope \<and> row_assignee r \<noteq> []) (todos (store_db s))
     in map (\<lambda>who. (who,
          length (filter (\<lambda>r. row_assignee r = who \<and> row_status r = TodoStatusDone) rs),
          length (filter (\<lambda>r. row_assignee r = who) rs))) (dedup [] (map row_assignee rs)))"

section \<open>Adding\<close>

definition normalizeTags :: "string list \<Rightarrow> string list" where
  "normalizeTags xs = sort_strings (dedup [] (filter (\<lambda>t. t \<noteq> []) (map trim_space xs)))"

definition validateAddInput :: "TodoStore \<Rightarrow> TodoAdd \<Rightarrow> (todo_error, string) result" where
  "validateAddInput s a =
    (let title = trim_space (add_Title a)
     in if title = [] then Inl ErrEmptyTitle
        else if titleLimit s < int (length title) then Inl (ErrTitleTooLong (titleLimit s))
        else if noteLimit s < int (length (add_Note a)) then Inl (ErrNoteTooLong (noteLimit s))
        else if add_Scope a = [] then Inl ErrEmptyScope
        else Inr title)"

text \<open>\<^verbatim>\<open>SELECT MAX(position)\<close>: NULL, read as 0, when the scope has no row.\<close>

definition max_position :: "todo_db \<Rightarrow> string \<Rightarrow> int" where
  "max_position db scope =
    (case map row_position (filter (\<lambda>r. row_scope r = scope) (todos db)) of
       [] \<Rightarrow> 0
     | p # ps \<Rightarrow> fold max ps p)"

definition check_parent :: "todo_db \<Rightarrow> TodoAdd \<Rightarrow> todo_error option" where
  "check_parent db a =
    (if add_ParentID a = [] then None
     else case find_todo db (add_ParentID a) of
         None \<Rightarrow> Some (ErrParentNotFound (add_ParentID a))
       | Some p \<Rightarrow>
           if null_string (row_parent_id p) \<noteq> [] then Some (ErrHierarchy (add_ParentID a))
           else if row_scope p \<noteq> add_Scope a then Some ErrParentScope
           else None)"

definition new_row :: "TodoAdd \<Rightarrow> string \<Rightarrow> string \<Rightarrow> string \<Rightarrow> int \<Rightarrow> todo_row" where
  "new_row a i title now position =
    \<lparr>row_id = i, row_title = title, row_status = TodoStatusTodo, row_scope = add_Scope a,
     row_owner = [], row_assignee = add_Assignee a, row_parent_id = nullStr (add_ParentID a),
     row_note = add_Note a, row_created_by = add_CreatedBy a, row_created_at = now,
     row_updated_at = now, row_revision = 1, row_position = position\<rparr>"

definition recordScenarioSeed :: "todo_row \<Rightarrow> todo_db \<Rightarrow> (todo_error, todo_db) result" where
  "recordScenarioSeed r db =
    (if row_created_by r \<noteq> row_scope r \<or> null_string (row_parent_id r) \<noteq> [] \<or> row_assignee r = []
     then Inr db
     else if seed_conflict db (seed_of_row r) then Inl ErrConstraint
     else Inr (db\<lparr>todo_seeds := todo_seeds db @ [seed_of_row r]\<rparr>))"

text \<open>The statements \<open>Add\<close> and \<open>AddBatch\<close> share: the row, its seed, its tags.\<close>

definition insert_item :: "todo_row \<Rightarrow> string list \<Rightarrow> todo_db \<Rightarrow> (todo_error, todo_db) result" where
  "insert_item r tags db =
    rbind (insert_todo r db) (\<lambda>db1.
    rbind (recordScenarioSeed r db1) (\<lambda>db2.
    Inr (fold (insert_tag (row_id r)) tags db2)))"

definition Add_tx ::
  "TodoAdd \<Rightarrow> string \<Rightarrow> string \<Rightarrow> int \<Rightarrow> todo_db \<Rightarrow> (todo_error, todo_db \<times> TodoItem) result" where
  "Add_tx a title i now db =
    (case check_parent db a of
       Some e \<Rightarrow> Inl e
     | None \<Rightarrow>
         (let r = new_row a i title (rfc3339nano now) (wrap64 (max_position db (add_Scope a) + 1))
          in rbind (insert_item r (normalizeTags (add_Tags a)) db) (\<lambda>db1.
             rbind (replaceTodoDependencies i (add_Scope a) (add_DependsOn a) db1) (\<lambda>db2.
             rbind (getLocked db2 i) (\<lambda>it. Inr (db2, it))))))"

definition commit ::
  "TodoStore \<Rightarrow> (todo_error, todo_db \<times> 'a) result \<Rightarrow> TodoStore \<times> (todo_error, 'a) result" where
  "commit s r = (case r of Inl e \<Rightarrow> (s, Inl e) | Inr (db, x) \<Rightarrow> (s\<lparr>store_db := db\<rparr>, Inr x))"

definition td_id :: "string \<Rightarrow> string" where
  "td_id msg_id = ''td-'' @ msg_id"

definition Add ::
  "TodoStore \<Rightarrow> TodoAdd \<Rightarrow> string \<Rightarrow> int \<Rightarrow> TodoStore \<times> (todo_error, TodoItem) result" where
  "Add s a msg_id now =
    commit s (rbind (validateAddInput s a) (\<lambda>title.
      Add_tx a title (td_id msg_id) now (store_db s)))"

section \<open>Adding a batch\<close>

definition wrap_entry :: "string \<Rightarrow> (todo_error, 'a) result \<Rightarrow> (todo_error, 'a) result" where
  "wrap_entry k r = (case r of Inl err \<Rightarrow> Inl (ErrBatchEntry k err) | Inr x \<Rightarrow> Inr x)"

lemma wrap_entry_Inr [simp]: "wrap_entry k r = Inr x \<longleftrightarrow> r = Inr x"
  by (simp add: wrap_entry_def split: sum.splits)

fun check_batch ::
  "TodoStore \<Rightarrow> nat \<Rightarrow> string list \<Rightarrow> TodoBatchAdd list \<Rightarrow> (todo_error, string list) result" where
  "check_batch s n seen [] = Inr []"
| "check_batch s n seen (e # es) =
    (if batch_Key e = [] then Inl (ErrBatchEmptyKey n)
     else if batch_Key e \<in> set seen then Inl (ErrBatchDuplicateKey (batch_Key e))
     else if add_ParentID (batch_Item e) \<noteq> [] then Inl (ErrBatchParent (batch_Key e))
     else rbind (wrap_entry (batch_Key e) (validateAddInput s (batch_Item e))) (\<lambda>title.
       rbind (check_batch s (Suc n) (batch_Key e # seen) es) (\<lambda>ts. Inr (title # ts))))"

text \<open>The insertion loop: \<open>positions\<close> is the last position handed out per scope, \<open>byKey\<close> the identifier
  and row of each entry; \<open>ids\<close> and \<open>clk\<close> give the \<open>n\<close>-th entry its fresh identifier and time.\<close>

fun batch_insert ::
  "(nat \<Rightarrow> string) \<Rightarrow> (nat \<Rightarrow> int) \<Rightarrow> nat \<Rightarrow> (string \<times> int) list \<Rightarrow> (TodoBatchAdd \<times> string) list \<Rightarrow>
    todo_db \<Rightarrow> (todo_error, todo_db \<times> (string \<times> todo_row) list) result" where
  "batch_insert ids clk n positions [] db = Inr (db, [])"
| "batch_insert ids clk n positions ((e, title) # es) db =
    (let a = batch_Item e;
         position = wrap64 ((case map_of positions (add_Scope a) of
             None \<Rightarrow> max_position db (add_Scope a) | Some p \<Rightarrow> p) + 1);
         r = new_row a (td_id (ids n)) title (rfc3339nano (clk n)) position
     in rbind (wrap_entry (batch_Key e) (insert_item r (normalizeTags (add_Tags a)) db)) (\<lambda>db1.
        rbind (batch_insert ids clk (Suc n) ((add_Scope a, position) # positions) es db1) (\<lambda>(db2, byKey).
        Inr (db2, (batch_Key e, r) # byKey))))"

fun batch_keys :: "string \<Rightarrow> (string \<times> todo_row) list \<Rightarrow> string list \<Rightarrow> (todo_error, string list) result" where
  "batch_keys k byKey [] = Inr []"
| "batch_keys k byKey (key # keys) =
    (case map_of byKey key of
       None \<Rightarrow> Inl (ErrBatchUnknownKey k key)
     | Some r \<Rightarrow> rbind (batch_keys k byKey keys) (\<lambda>ds. Inr (row_id r # ds)))"

definition batch_link ::
  "(string \<times> todo_row) list \<Rightarrow> TodoBatchAdd \<Rightarrow> todo_db \<Rightarrow> (todo_error, todo_db) result" where
  "batch_link byKey e db =
    (case map_of byKey (batch_Key e) of
       None \<Rightarrow> Inl (ErrBatchUnknownKey (batch_Key e) (batch_Key e))
     | Some r \<Rightarrow>
         rbind (batch_keys (batch_Key e) byKey (batch_DependsOnKeys e)) (\<lambda>ds.
           wrap_entry (batch_Key e)
             (replaceTodoDependencies (row_id r) (row_scope r) (add_DependsOn (batch_Item e) @ ds) db)))"

fun batch_hydrate ::
  "todo_db \<Rightarrow> (string \<times> todo_row) list \<Rightarrow> (todo_error, (string \<times> TodoItem) list) result" where
  "batch_hydrate db [] = Inr []"
| "batch_hydrate db ((k, r) # rs) =
    rbind (getLocked db (row_id r)) (\<lambda>it. rbind (batch_hydrate db rs) (\<lambda>its. Inr ((k, it) # its)))"

definition AddBatch_tx ::
  "(nat \<Rightarrow> string) \<Rightarrow> (nat \<Rightarrow> int) \<Rightarrow> TodoBatchAdd list \<Rightarrow> string list \<Rightarrow> todo_db \<Rightarrow>
    (todo_error, todo_db \<times> (string \<times> TodoItem) list) result" where
  "AddBatch_tx ids clk entries titles db =
    rbind (batch_insert ids clk 0 [] (zip entries titles) db) (\<lambda>(db1, byKey).
    rbind (rfold (batch_link byKey) entries db1) (\<lambda>db2.
    rbind (batch_hydrate db2 byKey) (\<lambda>its. Inr (db2, its))))"

definition AddBatch ::
  "TodoStore \<Rightarrow> TodoBatchAdd list \<Rightarrow> (nat \<Rightarrow> string) \<Rightarrow> (nat \<Rightarrow> int) \<Rightarrow>
    TodoStore \<times> (todo_error, (string \<times> TodoItem) list) result" where
  "AddBatch s entries ids clk =
    (if entries = [] then (s, Inr [])
     else commit s (rbind (check_batch s 0 [] entries) (\<lambda>titles.
       AddBatch_tx ids clk entries titles (store_db s))))"

section \<open>Claiming\<close>

definition claimable :: "todo_db \<Rightarrow> string \<Rightarrow> bool \<Rightarrow> todo_row \<Rightarrow> bool" where
  "claimable db owner override r \<longleftrightarrow>
    row_status r = TodoStatusTodo \<and> row_owner r = [] \<and>
    (override \<or> row_assignee r = [] \<or> row_assignee r = owner) \<and> \<not> waiting db (row_id r)"

definition claim_row :: "string \<Rightarrow> string \<Rightarrow> todo_row \<Rightarrow> todo_row" where
  "claim_row owner now r =
    r\<lparr>row_status := TodoStatusInProgress, row_owner := owner, row_revision := row_revision r + 1,
      row_updated_at := now\<rparr>"

text \<open>The guarded UPDATE and its row count.\<close>

definition claim_update ::
  "string \<Rightarrow> string \<Rightarrow> bool \<Rightarrow> string \<Rightarrow> todo_db \<Rightarrow> (todo_error, todo_db \<times> nat) result" where
  "claim_update i owner override now db =
    (let p = (\<lambda>r. row_id r = i \<and> claimable db owner override r)
     in rbind (update_todos p (claim_row owner now) db) (\<lambda>db'. Inr (db', rows_affected p (todos db))))"

definition Claim ::
  "TodoStore \<Rightarrow> string \<Rightarrow> string \<Rightarrow> bool \<Rightarrow> int \<Rightarrow> TodoStore \<times> (todo_error, TodoItem option) result" where
  "Claim s i owner override now =
    (if owner = [] then (s, Inl ErrClaimOwner)
     else case claim_update i owner override (rfc3339nano now) (store_db s) of
         Inl e \<Rightarrow> (s, Inl e)
       | Inr (db', n) \<Rightarrow>
           if n = 0 then (s\<lparr>store_db := db'\<rparr>, Inr None)
           else (s\<lparr>store_db := db'\<rparr>, rbind (getLocked db' i) (\<lambda>it. Inr (Some it))))"

definition claim_candidate :: "todo_db \<Rightarrow> string \<Rightarrow> string \<Rightarrow> bool \<Rightarrow> string option" where
  "claim_candidate db scope owner override =
    (case sort_key (\<lambda>r. (row_position r, row_id r))
        (filter (\<lambda>r. row_scope r = scope \<and> claimable db owner override r) (todos db)) of
       [] \<Rightarrow> None
     | r # _ \<Rightarrow> Some (row_id r))"

text \<open>The select/update loop. It repeats when the update hits no row; not returning is \<^const>\<open>None\<close>.\<close>

partial_function (option) ClaimNext_loop ::
  "todo_db \<Rightarrow> string \<Rightarrow> string \<Rightarrow> bool \<Rightarrow> string \<Rightarrow>
    (todo_db \<times> (todo_error, TodoItem option) result) option" where
  "ClaimNext_loop db scope owner override now =
    (case claim_candidate db scope owner override of
       None \<Rightarrow> Some (db, Inr None)
     | Some i \<Rightarrow>
         (case claim_update i owner override now db of
            Inl e \<Rightarrow> Some (db, Inl e)
          | Inr (db', n) \<Rightarrow>
              if n = 0 then ClaimNext_loop db' scope owner override now
              else Some (db', rbind (getLocked db' i) (\<lambda>it. Inr (Some it)))))"

definition ClaimNext ::
  "TodoStore \<Rightarrow> string \<Rightarrow> string \<Rightarrow> bool \<Rightarrow> int \<Rightarrow>
    (TodoStore \<times> (todo_error, TodoItem option) result) option" where
  "ClaimNext s scope owner override now =
    (if owner = [] then Some (s, Inl ErrClaimOwner)
     else map_option (\<lambda>(db, r). (s\<lparr>store_db := db\<rparr>, r))
       (ClaimNext_loop (store_db s) scope owner override (rfc3339nano now)))"

section \<open>Transitions\<close>

fun loadTodoIDs :: "todo_db \<Rightarrow> string list \<Rightarrow> (todo_error, TodoItem list) result" where
  "loadTodoIDs db [] = Inr []"
| "loadTodoIDs db (i # ids) =
    rbind (getLocked db i) (\<lambda>it. rbind (loadTodoIDs db ids) (\<lambda>its. Inr (it # its)))"

definition transition_guard :: "string \<Rightarrow> string \<Rightarrow> string \<Rightarrow> bool \<Rightarrow> todo_row \<Rightarrow> bool" where
  "transition_guard i newStatus actor override r \<longleftrightarrow>
    row_id r = i \<and>
    (if newStatus = TodoStatusDone then row_status r \<in> {TodoStatusInProgress, TodoStatusBlocked}
     else if newStatus = TodoStatusBlocked then row_status r = TodoStatusInProgress
     else row_status r \<noteq> TodoStatusTodo) \<and>
    (override \<or> row_owner r = actor)"

definition transition_row :: "string \<Rightarrow> string \<Rightarrow> string \<Rightarrow> todo_row \<Rightarrow> todo_row" where
  "transition_row newStatus note now r =
    r\<lparr>row_status := newStatus,
      row_owner := (if newStatus = TodoStatusTodo then [] else row_owner r),
      row_note := (if newStatus = TodoStatusBlocked \<and> note \<noteq> [] then note else row_note r),
      row_revision := row_revision r + 1, row_updated_at := now\<rparr>"

definition TransitionCascade_tx ::
  "string \<Rightarrow> string \<Rightarrow> string \<Rightarrow> string \<Rightarrow> bool \<Rightarrow> string \<Rightarrow> todo_db \<Rightarrow>
    (todo_error, todo_db \<times> TodoTransitionResult) result" where
  "TransitionCascade_tx i newStatus note actor override now db =
    (case find_todo db i of
       None \<Rightarrow> Inl ErrTodoNotFound
     | Some r \<Rightarrow>
         if newStatus = TodoStatusInProgress then Inl ErrUseClaim
         else rbind (update_todos (transition_guard i newStatus actor override)
             (transition_row newStatus note now) db) (\<lambda>db1.
           fail_when (rows_affected (transition_guard i newStatus actor override) (todos db) = 0)
             (ErrCannotMove i newStatus)
             (let unblockedIDs = (if newStatus = TodoStatusDone
                    then directDependentsChangingReadiness db1 i True else []);
                  blockedIDs = (if newStatus = TodoStatusTodo \<and> row_status r = TodoStatusDone
                    then directDependentsChangingReadiness db1 i False else [])
              in rbind (touchTodoIDs unblockedIDs now db1) (\<lambda>db2.
                 rbind (touchTodoIDs blockedIDs now db2) (\<lambda>db3.
                 rbind (getLocked db3 i) (\<lambda>item.
                 rbind (loadTodoIDs db3 unblockedIDs) (\<lambda>unblocked.
                 rbind (loadTodoIDs db3 blockedIDs) (\<lambda>blocked.
                 Inr (db3, \<lparr>tr_Item = item, tr_Unblocked = unblocked,
                            tr_DependencyBlocked = blocked\<rparr>)))))))))"

definition TransitionCascade ::
  "TodoStore \<Rightarrow> string \<Rightarrow> string \<Rightarrow> string \<Rightarrow> string \<Rightarrow> bool \<Rightarrow> int \<Rightarrow>
    TodoStore \<times> (todo_error, TodoTransitionResult) result" where
  "TransitionCascade s i newStatus note actor override now =
    commit s
      (fail_when (\<not> validTodoStatus newStatus) (ErrInvalidStatus newStatus)
      (fail_when (noteLimit s < int (length note)) (ErrNoteTooLong (noteLimit s))
        (TransitionCascade_tx i newStatus note actor override (rfc3339nano now) (store_db s))))"

section \<open>Updates\<close>

definition set_field :: "string \<Rightarrow> (todo_row \<Rightarrow> todo_row) \<Rightarrow> todo_db \<Rightarrow> (todo_error, todo_db) result" where
  "set_field i g db = update_todos (\<lambda>r. row_id r = i) g db"

definition update_title :: "TodoStore \<Rightarrow> string \<Rightarrow> string option \<Rightarrow> todo_db \<Rightarrow> (todo_error, todo_db) result" where
  "update_title s i title db =
    (case title of
       None \<Rightarrow> Inr db
     | Some x \<Rightarrow>
         (let t = trim_space x
          in fail_when (t = []) ErrEmptyTitle
             (fail_when (titleLimit s < int (length t)) (ErrTitleTooLong (titleLimit s))
               (set_field i (\<lambda>r. r\<lparr>row_title := t\<rparr>) db))))"

definition update_note :: "TodoStore \<Rightarrow> string \<Rightarrow> string option \<Rightarrow> todo_db \<Rightarrow> (todo_error, todo_db) result" where
  "update_note s i note db =
    (case note of
       None \<Rightarrow> Inr db
     | Some x \<Rightarrow>
         fail_when (noteLimit s < int (length x)) (ErrNoteTooLong (noteLimit s))
           (set_field i (\<lambda>r. r\<lparr>row_note := x\<rparr>) db))"

definition update_position :: "string \<Rightarrow> int option \<Rightarrow> todo_db \<Rightarrow> (todo_error, todo_db) result" where
  "update_position i position db =
    (case position of None \<Rightarrow> Inr db | Some p \<Rightarrow> set_field i (\<lambda>r. r\<lparr>row_position := p\<rparr>) db)"

definition update_tags :: "string \<Rightarrow> string list option \<Rightarrow> todo_db \<Rightarrow> todo_db" where
  "update_tags i tags db =
    (case tags of
       None \<Rightarrow> db
     | Some ts \<Rightarrow>
         fold (insert_tag i) (normalizeTags ts)
           (db\<lparr>todo_tags := filter (\<lambda>e. fst e \<noteq> i) (todo_tags db)\<rparr>))"

definition UpdateFieldsCascade_tx ::
  "TodoStore \<Rightarrow> string \<Rightarrow> string option \<Rightarrow> string option \<Rightarrow> string list option \<Rightarrow> int option \<Rightarrow>
    string list option \<Rightarrow> string \<Rightarrow> todo_db \<Rightarrow> (todo_error, todo_db \<times> TodoUpdateResult) result" where
  "UpdateFieldsCascade_tx s i title note tags position dependsOn now db =
    rbind (getLocked db i) (\<lambda>current.
    rbind (update_title s i title db) (\<lambda>db1.
    rbind (update_note s i note db1) (\<lambda>db2.
    rbind (update_position i position db2) (\<lambda>db3.
    rbind (case dependsOn of
             None \<Rightarrow> Inr (update_tags i tags db3)
           | Some ds \<Rightarrow> replaceTodoDependencies i (item_Scope current) ds (update_tags i tags db3)) (\<lambda>db4.
    rbind (set_field i (\<lambda>r. r\<lparr>row_revision := row_revision r + 1, row_updated_at := now\<rparr>) db4) (\<lambda>db5.
    rbind (getLocked db5 i) (\<lambda>it.
    Inr (db5, \<lparr>ur_Item = it,
      ur_Unblocked = (item_Status current \<noteq> item_Status it \<and> item_Status it = TodoStatusTodo \<and>
        item_BlockedBy current \<noteq> []),
      ur_DependencyBlocked = (item_Status current \<noteq> item_Status it \<and>
        item_Status it = TodoStatusBlocked \<and> item_BlockedBy it \<noteq> [])\<rparr>))))))))"

definition UpdateFieldsCascade ::
  "TodoStore \<Rightarrow> string \<Rightarrow> string option \<Rightarrow> string option \<Rightarrow> string list option \<Rightarrow> int option \<Rightarrow>
    string list option \<Rightarrow> int \<Rightarrow> TodoStore \<times> (todo_error, TodoUpdateResult) result" where
  "UpdateFieldsCascade s i title note tags position dependsOn now =
    commit s (UpdateFieldsCascade_tx s i title note tags position dependsOn (rfc3339nano now) (store_db s))"

definition Assign :: "TodoStore \<Rightarrow> string \<Rightarrow> string \<Rightarrow> int \<Rightarrow> TodoStore \<times> (todo_error, TodoItem) result" where
  "Assign s i assignee now =
    (case set_field i (\<lambda>r. r\<lparr>row_assignee := assignee, row_revision := row_revision r + 1,
         row_updated_at := rfc3339nano now\<rparr>) (store_db s) of
       Inl e \<Rightarrow> (s, Inl e)
     | Inr db' \<Rightarrow>
         if rows_affected (\<lambda>r. row_id r = i) (todos (store_db s)) = 0 then (s, Inl ErrTodoNotFound)
         else (s\<lparr>store_db := db'\<rparr>, getLocked db' i))"

section \<open>Removal\<close>

definition parent_edges :: "todo_db \<Rightarrow> (string \<times> string) list" where
  "parent_edges db = [(p, row_id r). r \<leftarrow> todos db, Some p \<leftarrow> [row_parent_id r]]"

text \<open>The \<^verbatim>\<open>deletion_set\<close> query: the row, if it exists, and everything under it.\<close>

definition deletion_set :: "todo_db \<Rightarrow> string \<Rightarrow> string list" where
  "deletion_set db i =
    (if find_todo db i = None then [] else recursive_query (parent_edges db) [i] [i])"

definition external_dependents :: "todo_db \<Rightarrow> string list \<Rightarrow> (string \<times> string) list" where
  "external_dependents db del =
    sort_key fst (filter (\<lambda>(t, d). d \<in> set del \<and> t \<notin> set del) (todo_deps db))"

definition Remove_tx :: "string \<Rightarrow> todo_db \<Rightarrow> (todo_error, todo_db \<times> unit) result" where
  "Remove_tx i db =
    (let del = deletion_set db i
     in case external_dependents db del of
          (t, d) # _ \<Rightarrow> Inl (ErrDependent i t d)
        | [] \<Rightarrow>
            rbind (delete_todos (set del)
                (db\<lparr>todo_deps := filter (\<lambda>(t, d). d \<notin> set del) (todo_deps db)\<rparr>)) (\<lambda>db'.
            fail_when (find_todo db i = None) ErrTodoNotFound (Inr (db', ()))))"

definition Remove :: "TodoStore \<Rightarrow> string \<Rightarrow> TodoStore \<times> (todo_error, unit) result" where
  "Remove s i = commit s (Remove_tx i (store_db s))"

section \<open>Reopening and sweeping\<close>

definition reopen_row :: "string \<Rightarrow> todo_row \<Rightarrow> todo_row" where
  "reopen_row now r =
    r\<lparr>row_status := TodoStatusTodo, row_owner := [], row_revision := row_revision r + 1,
      row_updated_at := now\<rparr>"

definition reopen_where ::
  "(todo_row \<Rightarrow> bool) \<Rightarrow> TodoStore \<Rightarrow> int \<Rightarrow> TodoStore \<times> (todo_error, nat) result" where
  "reopen_where p s now =
    commit s (rbind (update_todos p (reopen_row (rfc3339nano now)) (store_db s)) (\<lambda>db'.
      Inr (db', rows_affected p (todos (store_db s)))))"

definition ReopenOwnedBy :: "TodoStore \<Rightarrow> string \<Rightarrow> int \<Rightarrow> TodoStore \<times> (todo_error, nat) result" where
  "ReopenOwnedBy s ownerID now =
    (if ownerID = [] then (s, Inr 0)
     else reopen_where (\<lambda>r. row_owner r = ownerID \<and> row_status r = TodoStatusInProgress) s now)"

definition ReopenStale :: "TodoStore \<Rightarrow> int \<Rightarrow> int \<Rightarrow> TodoStore \<times> (todo_error, nat) result" where
  "ReopenStale s lease now =
    (if lease \<le> 0 then (s, Inr 0)
     else reopen_where (\<lambda>r. row_status r = TodoStatusInProgress \<and>
       row_updated_at r < rfc3339nano (now - lease)) s now)"

definition sweepable :: "todo_db \<Rightarrow> string \<Rightarrow> string list \<Rightarrow> todo_row \<Rightarrow> bool" where
  "sweepable db cutoff protected r \<longleftrightarrow>
    row_status r = TodoStatusDone \<and> row_updated_at r < cutoff \<and>
    \<not> (\<exists>c \<in> set (todos db). row_parent_id c = Some (row_id r) \<and> row_status c \<noteq> TodoStatusDone) \<and>
    row_id r \<notin> snd ` set (todo_deps db) \<and>
    \<not> (\<exists>c \<in> set (todos db). row_parent_id c = Some (row_id r) \<and> row_id c \<in> snd ` set (todo_deps db)) \<and>
    row_scope r \<notin> set protected"

text \<open>One DELETE statement: the matching rows are collected first, then deleted in table order with
  their cascades; a row an earlier cascade already took is skipped and not counted.\<close>

fun delete_rows :: "string list \<Rightarrow> todo_db \<Rightarrow> (todo_error, todo_db \<times> nat) result" where
  "delete_rows [] db = Inr (db, 0)"
| "delete_rows (i # ids) db =
    (if find_todo db i = None then delete_rows ids db
     else rbind (delete_todos (set (deletion_set db i)) db) (\<lambda>db1.
       rbind (delete_rows ids db1) (\<lambda>(db2, n). Inr (db2, Suc n))))"

definition SweepDoneExceptScopes ::
  "TodoStore \<Rightarrow> int \<Rightarrow> string list \<Rightarrow> int \<Rightarrow> TodoStore \<times> (todo_error, nat) result" where
  "SweepDoneExceptScopes s maxAge protected now =
    (if maxAge \<le> 0 then (s, Inr 0)
     else commit s (delete_rows
       (map row_id (filter (sweepable (store_db s) (rfc3339nano (now - maxAge)) protected)
         (todos (store_db s)))) (store_db s)))"

definition SweepDone :: "TodoStore \<Rightarrow> int \<Rightarrow> int \<Rightarrow> TodoStore \<times> (todo_error, nat) result" where
  "SweepDone s maxAge now = SweepDoneExceptScopes s maxAge [] now"

section \<open>Scenario seeds\<close>

definition seed_rows :: "todo_db \<Rightarrow> string \<Rightarrow> (todo_seed \<times> todo_row) list" where
  "seed_rows db scope =
    [(x, r). x \<leftarrow> todo_seeds db, seed_scope x = scope, Some r \<leftarrow> [find_todo db (seed_todo_id x)],
       row_scope r = scope]"

fun unique_ids ::
  "(string \<times> string) list \<Rightarrow> (string \<times> string) list \<Rightarrow> (todo_error, (string \<times> string) list) result" where
  "unique_ids ids [] = Inr ids"
| "unique_ids ids ((who, i) # rs) =
    (case map_of ids who of
       Some previous \<Rightarrow>
         if previous \<noteq> [] then Inl (ErrMultipleSeeds who previous i) else unique_ids (ids @ [(who, i)]) rs
     | None \<Rightarrow> unique_ids (ids @ [(who, i)]) rs)"

definition ScenarioSeedItemID :: "TodoStore \<Rightarrow> string \<Rightarrow> string \<Rightarrow> (todo_error, string) result" where
  "ScenarioSeedItemID s scope originalAssignee =
    (case filter (\<lambda>(x, r). seed_assignee x = originalAssignee) (seed_rows (store_db s) scope) of
       [] \<Rightarrow> Inl ErrTodoNotFound
     | (x, r) # _ \<Rightarrow> Inr (row_id r))"

definition ScenarioCurrentSeedItemIDs :: "TodoStore \<Rightarrow> string \<Rightarrow> (todo_error, (string \<times> string) list) result" where
  "ScenarioCurrentSeedItemIDs s scope =
    unique_ids []
      (map (\<lambda>(x, r). (row_assignee r, row_id r))
        (sort_key (\<lambda>(x, r). (row_assignee r, row_position r, row_id r))
          (filter (\<lambda>(x, r). row_assignee r \<noteq> []) (seed_rows (store_db s) scope))))"

fun load_seeds :: "todo_db \<Rightarrow> (string \<times> string) list \<Rightarrow> (todo_error, (string \<times> TodoItem) list) result" where
  "load_seeds db [] = Inr []"
| "load_seeds db ((who, i) # ids) =
    rbind (getLocked db i) (\<lambda>it. rbind (load_seeds db ids) (\<lambda>its. Inr ((who, it) # its)))"

definition ScenarioSeedItems :: "TodoStore \<Rightarrow> string \<Rightarrow> (todo_error, (string \<times> TodoItem) list) result" where
  "ScenarioSeedItems s scope =
    rbind (unique_ids []
      (map (\<lambda>(x, r). (seed_assignee x, row_id r))
        (sort_key (\<lambda>(x, r). (seed_assignee x, row_position r, row_id r))
          (seed_rows (store_db s) scope)))) (load_seeds (store_db s))"

definition ScenarioSeedItemIDs :: "TodoStore \<Rightarrow> string \<Rightarrow> (todo_error, (string \<times> string) list) result" where
  "ScenarioSeedItemIDs s scope =
    rbind (ScenarioSeedItems s scope) (\<lambda>its. Inr (map (\<lambda>(who, it). (who, item_ID it)) its))"

end
