(* ===== verification/Todo_Inv.thy ===== *)
theory Todo_Inv
  imports Todo_Store
begin

text \<open>
  The task store's invariant, that every operation keeps it, and the properties of the store's
  operations. \<open>db_inv\<close> is what the schema's constraints and the code's own checks promise of the
  tables: unique identifiers, rows inside the CHECKs with trimmed titles, a one-level hierarchy
  within a scope, an acyclic dependency graph within a scope, and tags and seeds that point at
  rows. \<open>todo_step\<close> has one rule per mutating operation.
\<close>

section \<open>The invariant\<close>

definition row_good :: "todo_row \<Rightarrow> bool" where
  "row_good r \<longleftrightarrow>
    row_ok r \<and> row_title r \<noteq> [] \<and> trim_space (row_title r) = row_title r \<and> row_scope r \<noteq> [] \<and>
    in_int64 (row_position r) \<and> row_parent_id r \<noteq> Some []"

definition parents_ok :: "todo_db \<Rightarrow> bool" where
  "parents_ok db \<longleftrightarrow>
    (\<forall>r \<in> set (todos db). \<forall>p. row_parent_id r = Some p \<longrightarrow>
       (\<exists>q. find_todo db p = Some q \<and> row_parent_id q = None \<and> row_scope q = row_scope r))"

definition tags_ok :: "todo_db \<Rightarrow> bool" where
  "tags_ok db \<longleftrightarrow> distinct (todo_tags db) \<and>
    (\<forall>(i, t) \<in> set (todo_tags db). find_todo db i \<noteq> None \<and> t \<noteq> [])"

definition seeds_ok :: "todo_db \<Rightarrow> bool" where
  "seeds_ok db \<longleftrightarrow>
    distinct (map seed_todo_id (todo_seeds db)) \<and>
    distinct (map (\<lambda>x. (seed_scope x, seed_assignee x)) (todo_seeds db)) \<and>
    (\<forall>x \<in> set (todo_seeds db). seed_assignee x \<noteq> [] \<and>
      (\<exists>r. find_todo db (seed_todo_id x) = Some r \<and> row_scope r = seed_scope x \<and> row_parent_id r = None))"

definition db_inv :: "todo_db \<Rightarrow> bool" where
  "db_inv db \<longleftrightarrow>
    distinct (map row_id (todos db)) \<and> (\<forall>r \<in> set (todos db). row_good r) \<and>
    parents_ok db \<and> deps_ok db \<and> tags_ok db \<and> seeds_ok db"

definition store_inv :: "TodoStore \<Rightarrow> bool" where
  "store_inv s \<longleftrightarrow>
    db_inv (store_db s) \<and> 1 \<le> maxTitle s \<and> maxTitle s \<le> todoTitleHardCeiling \<and>
    1 \<le> maxNote s \<and> maxNote s \<le> todoNoteHardCeiling \<and> 1 \<le> listLimit s"

lemma find_todo_Some:
  "distinct (map row_id (todos db)) \<Longrightarrow>
    find_todo db i = Some r \<longleftrightarrow> r \<in> set (todos db) \<and> row_id r = i"
  by (simp add: find_todo_def find_key_Some)

lemma find_todo_None: "find_todo db i = None \<longleftrightarrow> i \<notin> row_id ` set (todos db)"
  by (simp add: find_todo_def find_key_None)

lemma find_todo_SomeD: "find_todo db i = Some r \<Longrightarrow> r \<in> set (todos db) \<and> row_id r = i"
  by (auto simp: find_todo_def dest: find_Some_iff_filter)

lemma find_todo_cong: "todos db = todos db' \<Longrightarrow> find_todo db = find_todo db'"
  by (auto simp: find_todo_def fun_eq_iff)

lemma find_todo_field_updates [simp]:
  "find_todo (db\<lparr>todo_tags := x\<rparr>) i = find_todo db i"
  "find_todo (db\<lparr>todo_seeds := z\<rparr>) i = find_todo db i"
  by (simp_all add: find_todo_def)

lemma not_done_field_updates [simp]:
  "not_done (db\<lparr>todo_tags := x\<rparr>) i = not_done db i"
  "not_done (db\<lparr>todo_seeds := z\<rparr>) i = not_done db i"
  "not_done (db\<lparr>todo_deps := w\<rparr>) i = not_done db i"
  by (simp_all add: not_done_def)

text \<open>\<open>extends_rows db db'\<close>: every row of \<open>db\<close> is still there with its scope and parent. Edges, tags and
  seeds stay well-formed along it.\<close>

definition extends_rows :: "todo_db \<Rightarrow> todo_db \<Rightarrow> bool" where
  "extends_rows db db' \<longleftrightarrow>
    (\<forall>i r. find_todo db i = Some r \<longrightarrow>
      (\<exists>q. find_todo db' i = Some q \<and> row_scope q = row_scope r \<and> row_parent_id q = row_parent_id r))"

lemma extends_rowsD:
  assumes "extends_rows db db'" and "find_todo db i = Some r"
  obtains q where "find_todo db' i = Some q" and "row_scope q = row_scope r"
    and "row_parent_id q = row_parent_id r"
  using assms by (auto simp: extends_rows_def)

lemma deps_ok_extends:
  assumes "extends_rows db db'" and "todo_deps db' = todo_deps db" and "deps_ok db"
  shows "deps_ok db'"
proof -
  have "\<exists>r s. find_todo db' t = Some r \<and> find_todo db' d = Some s \<and> row_scope r = row_scope s"
    if e: "(t, d) \<in> set (todo_deps db)" for t d
  proof -
    obtain r s where "find_todo db t = Some r" "find_todo db d = Some s" "row_scope r = row_scope s"
      using assms(3) e by (auto simp: deps_ok_def)
    moreover from extends_rowsD [OF assms(1) this(1)] obtain r'
      where "find_todo db' t = Some r'" "row_scope r' = row_scope r" by metis
    moreover from extends_rowsD [OF assms(1) calculation(2)] obtain s'
      where "find_todo db' d = Some s'" "row_scope s' = row_scope s" by metis
    ultimately show ?thesis by simp
  qed
  then show ?thesis using assms(2,3) by (auto simp: deps_ok_def)
qed

lemma tags_ok_extends:
  assumes "extends_rows db db'" and "todo_tags db' = todo_tags db" and "tags_ok db"
  shows "tags_ok db'"
proof -
  have "find_todo db i \<noteq> None \<Longrightarrow> find_todo db' i \<noteq> None" for i
    using assms(1) by (cases "find_todo db i") (auto elim: extends_rowsD)
  then show ?thesis using assms(2,3) by (simp add: tags_ok_def split: prod.splits)
qed

lemma seeds_ok_extends:
  assumes "extends_rows db db'" and "todo_seeds db' = todo_seeds db" and "seeds_ok db"
  shows "seeds_ok db'"
proof -
  have "\<exists>r. find_todo db' (seed_todo_id x) = Some r \<and> row_scope r = seed_scope x \<and> row_parent_id r = None"
    if "x \<in> set (todo_seeds db)" for x
  proof -
    obtain r where "find_todo db (seed_todo_id x) = Some r" "row_scope r = seed_scope x"
      "row_parent_id r = None" using assms(3) \<open>x \<in> set (todo_seeds db)\<close> by (auto simp: seeds_ok_def)
    with extends_rowsD [OF assms(1) this(1)] show ?thesis by metis
  qed
  then show ?thesis using assms(2,3) by (auto simp: seeds_ok_def)
qed

lemma parent_extends:
  assumes "extends_rows db db'"
    and "\<exists>q. find_todo db p = Some q \<and> row_parent_id q = None \<and> row_scope q = sc"
  shows "\<exists>q. find_todo db' p = Some q \<and> row_parent_id q = None \<and> row_scope q = sc"
proof -
  obtain q where q: "find_todo db p = Some q" "row_parent_id q = None" "row_scope q = sc"
    using assms(2) by blast
  with extends_rowsD [OF assms(1) q(1)] show ?thesis by metis
qed

section \<open>Updates in place\<close>

definition keeps_keys :: "(todo_row \<Rightarrow> todo_row) \<Rightarrow> bool" where
  "keeps_keys g \<longleftrightarrow> (\<forall>r. row_id (g r) = row_id r \<and> row_scope (g r) = row_scope r \<and>
     row_parent_id (g r) = row_parent_id r)"

lemma find_todo_update:
  assumes "keeps_keys g"
  shows "find_todo (db\<lparr>todos := update_where p g (todos db)\<rparr>) i =
    map_option (\<lambda>r. if p r then g r else r) (find_todo db i)"
proof -
  have "find (\<lambda>r. row_id r = i) (update_where p g xs) =
      map_option (\<lambda>r. if p r then g r else r) (find (\<lambda>r. row_id r = i) xs)" for xs
    using assms by (induction xs) (auto simp: keeps_keys_def)
  then show ?thesis by (simp add: find_todo_def)
qed

lemma extends_rows_update:
  assumes "keeps_keys g"
  shows "extends_rows db (db\<lparr>todos := update_where p g (todos db)\<rparr>)"
  using assms by (auto simp: extends_rows_def find_todo_update keeps_keys_def)

lemma db_inv_update:
  assumes inv: "db_inv db" and g: "keeps_keys g"
    and good: "\<And>r. r \<in> set (todos db) \<Longrightarrow> p r \<Longrightarrow> row_good (g r)"
  shows "db_inv (db\<lparr>todos := update_where p g (todos db)\<rparr>)" (is "db_inv ?db'")
proof -
  note ext = extends_rows_update [OF g, of db p]
  have "distinct (map row_id (todos ?db'))"
    using inv g by (simp add: db_inv_def map_update_where_key keeps_keys_def)
  moreover have "\<forall>r \<in> set (todos ?db'). row_good r"
    using inv good by (auto simp: db_inv_def elim!: in_update_whereE)
  moreover have "parents_ok ?db'"
    unfolding parents_ok_def
  proof (intro ballI allI impI)
    fix r p' assume "r \<in> set (todos ?db')" and r: "row_parent_id r = Some p'"
    then obtain r0 where "r0 \<in> set (todos db)" "r = (if p r0 then g r0 else r0)"
      by (auto elim: in_update_whereE)
    then have "r0 \<in> set (todos db)" "row_parent_id r0 = Some p'" "row_scope r0 = row_scope r"
      using r g by (auto simp: keeps_keys_def split: if_splits)
    then have "\<exists>q. find_todo db p' = Some q \<and> row_parent_id q = None \<and> row_scope q = row_scope r"
      using inv by (auto simp: db_inv_def parents_ok_def)
    then show "\<exists>q. find_todo ?db' p' = Some q \<and> row_parent_id q = None \<and> row_scope q = row_scope r"
      by (rule parent_extends [OF ext])
  qed
  ultimately show ?thesis
    using inv deps_ok_extends [OF ext] tags_ok_extends [OF ext] seeds_ok_extends [OF ext]
    by (simp add: db_inv_def)
qed

text \<open>A row rewrite that keeps the keys and the presentation fields that \<open>row_good\<close> reads outside
  the CHECKs: then the CHECKs that \<open>update_todos\<close> enforces are all that matters.\<close>

definition keeps_text :: "(todo_row \<Rightarrow> todo_row) \<Rightarrow> bool" where
  "keeps_text g \<longleftrightarrow> keeps_keys g \<and>
    (\<forall>r. row_title (g r) = row_title r \<and> row_position (g r) = row_position r)"

lemma update_todos_inv:
  assumes "db_inv db" and "keeps_text g" and "update_todos p g db = Inr db'"
  shows "db_inv db'"
proof -
  have "db' = db\<lparr>todos := update_where p g (todos db)\<rparr>"
    and ok: "\<forall>r \<in> set (todos db). p r \<longrightarrow> row_ok (g r)"
    using assms(3) by (auto simp: update_todos_def split: if_splits)
  moreover have "row_good (g r)" if "r \<in> set (todos db)" "p r" for r
    using that assms(1,2) ok
    by (auto simp: row_good_def db_inv_def keeps_text_def keeps_keys_def)
  ultimately show ?thesis
    using assms(1,2) db_inv_update [of db g p] by (auto simp: keeps_text_def)
qed

lemma keeps_text_rows [simp]:
  "keeps_text (claim_row owner now)" "keeps_text (reopen_row now)"
  "keeps_text (transition_row st note now)"
  "keeps_text (\<lambda>r. r\<lparr>row_revision := row_revision r + 1, row_updated_at := now\<rparr>)"
  "keeps_text (\<lambda>r. r\<lparr>row_assignee := w, row_revision := row_revision r + 1, row_updated_at := now\<rparr>)"
  "keeps_text (\<lambda>r. r\<lparr>row_note := x\<rparr>)"
  by (simp_all add: keeps_text_def keeps_keys_def claim_row_def reopen_row_def transition_row_def)

lemma keeps_keys_rows [simp]:
  "keeps_keys (claim_row owner now)" "keeps_keys (reopen_row now)"
  "keeps_keys (transition_row st note now)"
  "keeps_keys (\<lambda>r. r\<lparr>row_revision := row_revision r + 1, row_updated_at := now\<rparr>)"
  "keeps_keys (\<lambda>r. r\<lparr>row_title := t\<rparr>)" "keeps_keys (\<lambda>r. r\<lparr>row_position := q\<rparr>)"
  "keeps_keys (\<lambda>r. r\<lparr>row_note := x\<rparr>)"
  by (simp_all add: keeps_keys_def claim_row_def reopen_row_def transition_row_def)

lemma touchTodoIDs_inv: "db_inv db \<Longrightarrow> touchTodoIDs ids now db = Inr db' \<Longrightarrow> db_inv db'"
proof (induction ids arbitrary: db)
  case Nil
  then show ?case by simp
next
  case (Cons i ids)
  then obtain db1 where "update_todos (\<lambda>r. row_id r = i)
      (\<lambda>r. r\<lparr>row_revision := row_revision r + 1, row_updated_at := now\<rparr>) db = Inr db1"
    and "touchTodoIDs ids now db1 = Inr db'" by (auto simp: rbind_Inr)
  then show ?case using Cons.IH update_todos_inv [OF Cons.prems(1)] keeps_text_rows(4) by blast
qed

section \<open>Insertion\<close>

lemma find_append: "find P (xs @ ys) = (case find P xs of Some q \<Rightarrow> Some q | None \<Rightarrow> find P ys)"
  by (induction xs) auto

lemma find_todo_append:
  "find_todo (db\<lparr>todos := todos db @ [r]\<rparr>) i =
    (case find_todo db i of Some q \<Rightarrow> Some q | None \<Rightarrow> if row_id r = i then Some r else None)"
  by (simp add: find_todo_def find_append split: option.splits)

lemma insert_todo_inv:
  assumes inv: "db_inv db" and "insert_todo r db = Inr db'" and "row_good r"
    and par: "\<And>p. row_parent_id r = Some p \<Longrightarrow>
      \<exists>q. find_todo db p = Some q \<and> row_parent_id q = None \<and> row_scope q = row_scope r"
  shows "db_inv db'"
proof -
  have db': "db' = db\<lparr>todos := todos db @ [r]\<rparr>" and new: "find_todo db (row_id r) = None"
    using assms(2) by (auto simp: insert_todo_def split: if_splits)
  have ext: "extends_rows db db'" by (simp add: extends_rows_def db' find_todo_append)
  have "distinct (map row_id (todos db'))" and "\<forall>r \<in> set (todos db'). row_good r"
    using inv new assms(3) by (auto simp: db' db_inv_def find_todo_None)
  moreover have "parents_ok db'"
    unfolding parents_ok_def
  proof (intro ballI allI impI)
    fix x p assume "x \<in> set (todos db')" and "row_parent_id x = Some p"
    then have "\<exists>q. find_todo db p = Some q \<and> row_parent_id q = None \<and> row_scope q = row_scope x"
      using inv par by (auto simp: db' db_inv_def parents_ok_def)
    then show "\<exists>q. find_todo db' p = Some q \<and> row_parent_id q = None \<and> row_scope q = row_scope x"
      by (rule parent_extends [OF ext])
  qed
  ultimately show ?thesis
    using inv deps_ok_extends [OF ext] tags_ok_extends [OF ext] seeds_ok_extends [OF ext]
    by (simp add: db_inv_def db')
qed

lemma insert_tag_inv:
  assumes "db_inv db" and "find_todo db i \<noteq> None" and "t \<noteq> []"
  shows "db_inv (insert_tag i t db)"
  using assms
  by (auto simp: insert_tag_def db_inv_def parents_ok_def deps_ok_def tags_ok_def seeds_ok_def)

lemma find_todo_insert_tag [simp]: "find_todo (insert_tag i t db) j = find_todo db j"
  by (simp add: insert_tag_def)

lemma fold_insert_tag_inv:
  assumes "db_inv db" and "find_todo db i \<noteq> None" and "[] \<notin> set ts"
  shows "db_inv (fold (insert_tag i) ts db)"
  using assms by (induction ts arbitrary: db) (auto simp: insert_tag_inv)

lemma fold_insert_tag_tables [simp]:
  "todos (fold (insert_tag i) ts db) = todos db" "todo_deps (fold (insert_tag i) ts db) = todo_deps db"
  by (induction ts arbitrary: db) (simp_all add: insert_tag_def)

lemma find_todo_fold_tag [simp]: "find_todo (fold (insert_tag i) ts db) j = find_todo db j"
  by (simp add: find_todo_def)

lemma normalizeTags_nonempty [simp]: "[] \<notin> set (normalizeTags ts)"
  by (auto simp: normalizeTags_def set_dedup)

lemma recordScenarioSeed_inv:
  assumes inv: "db_inv db" and row: "find_todo db (row_id r) = Some r"
    and rec: "recordScenarioSeed r db = Inr db'"
  shows "db_inv db' \<and> todos db' = todos db \<and> todo_deps db' = todo_deps db"
proof (cases "row_created_by r \<noteq> row_scope r \<or> null_string (row_parent_id r) \<noteq> [] \<or> row_assignee r = []")
  case True
  then show ?thesis using inv rec by (simp add: recordScenarioSeed_def)
next
  case False
  then have db': "db' = db\<lparr>todo_seeds := todo_seeds db @ [seed_of_row r]\<rparr>"
    and free: "\<not> seed_conflict db (seed_of_row r)"
    using rec by (auto simp: recordScenarioSeed_def split: if_splits)
  have "row_parent_id r \<noteq> Some []"
    using inv row by (auto simp: db_inv_def row_good_def dest!: find_todo_SomeD)
  with False have "row_parent_id r = None" by (auto simp: null_string_def split: option.splits)
  then have "seeds_ok db'"
    using inv free row False
    by (auto simp: db' db_inv_def seeds_ok_def seed_conflict_def seed_of_row_def)
  then show ?thesis
    using inv by (auto simp: db' db_inv_def parents_ok_def deps_ok_def tags_ok_def)
qed

lemma insert_item_inv:
  assumes "db_inv db" and "insert_item r tags db = Inr db'" and "row_good r" and "[] \<notin> set tags"
    and "\<And>p. row_parent_id r = Some p \<Longrightarrow>
      \<exists>q. find_todo db p = Some q \<and> row_parent_id q = None \<and> row_scope q = row_scope r"
  shows "db_inv db' \<and> find_todo db' (row_id r) = Some r \<and> todos db' = todos db @ [r] \<and>
    todo_deps db' = todo_deps db"
proof -
  obtain db1 db2 where 1: "insert_todo r db = Inr db1" and 2: "recordScenarioSeed r db1 = Inr db2"
    and db': "db' = fold (insert_tag (row_id r)) tags db2"
    using assms(2) by (auto simp: insert_item_def rbind_Inr)
  have inv1: "db_inv db1" by (rule insert_todo_inv [OF assms(1) 1 assms(3) assms(5)])
  have t1: "todos db1 = todos db @ [r]" "todo_deps db1 = todo_deps db"
    using 1 by (auto simp: insert_todo_def split: if_splits)
  then have f1: "find_todo db1 (row_id r) = Some r"
    using inv1 by (auto simp: find_todo_Some db_inv_def)
  from recordScenarioSeed_inv [OF inv1 f1 2]
  have inv2: "db_inv db2" and t2: "todos db2 = todos db1" "todo_deps db2 = todo_deps db1" by auto
  have f2: "find_todo db2 (row_id r) = Some r" using f1 find_todo_cong [OF t2(1)] by simp
  then show ?thesis
    using fold_insert_tag_inv [OF inv2 _ assms(4)] t1 t2 by (simp add: db')
qed

lemma replaceTodoDependencies_inv:
  assumes "db_inv db" and "find_todo db i = Some r" and "row_scope r = sc"
    and "replaceTodoDependencies i sc ids db = Inr db'"
  shows "db_inv db' \<and> todos db' = todos db"
proof -
  obtain deps where db': "db' = db\<lparr>todo_deps := filter (\<lambda>(t, d). t \<noteq> i) (todo_deps db) @ map (Pair i) deps\<rparr>"
    using assms(2,4) by (auto simp: replaceTodoDependencies_Inr)
  have "deps_ok db'" using replaceTodoDependencies_deps_ok [OF _ assms(2-4)] assms(1)
    by (simp add: db_inv_def)
  then show ?thesis using assms(1)
    by (auto simp: db_inv_def db' parents_ok_def tags_ok_def seeds_ok_def)
qed

section \<open>Deletion\<close>

definition closed_under_children :: "todo_db \<Rightarrow> string set \<Rightarrow> bool" where
  "closed_under_children db ids \<longleftrightarrow>
    (\<forall>r \<in> set (todos db). \<forall>p. row_parent_id r = Some p \<longrightarrow> p \<in> ids \<longrightarrow> row_id r \<in> ids)"

lemma find_todo_filter:
  "find_todo (db\<lparr>todos := filter (\<lambda>r. row_id r \<notin> ids) (todos db)\<rparr>) i =
    (if i \<in> ids then None else find_todo db i)"
proof -
  have "find (\<lambda>r. row_id r = i) (filter (\<lambda>r. row_id r \<notin> ids) xs) =
      (if i \<in> ids then None else find (\<lambda>r. row_id r = i) xs)" for xs :: "todo_row list"
    by (induction xs) auto
  then show ?thesis by (simp add: find_todo_def)
qed

lemma delete_todos_Inr:
  "delete_todos ids db = Inr db' \<longleftrightarrow>
    (\<forall>t d. (t, d) \<in> set (todo_deps db) \<longrightarrow> d \<notin> ids) \<and>
    db' = db\<lparr>todos := filter (\<lambda>r. row_id r \<notin> ids) (todos db),
             todo_tags := filter (\<lambda>(t, x). t \<notin> ids) (todo_tags db),
             todo_deps := filter (\<lambda>(t, d). t \<notin> ids) (todo_deps db),
             todo_seeds := filter (\<lambda>s. seed_todo_id s \<notin> ids) (todo_seeds db)\<rparr>"
  by (auto simp: delete_todos_def)

lemma delete_todos_find:
  "delete_todos ids db = Inr db' \<Longrightarrow> find_todo db' i = (if i \<in> ids then None else find_todo db i)"
  using find_todo_filter [of ids db i] by (auto simp: delete_todos_Inr find_todo_def)

lemma delete_todos_inv:
  assumes inv: "db_inv db" and closed: "closed_under_children db ids"
    and del: "delete_todos ids db = Inr db'"
  shows "db_inv db'"
proof -
  note find = delete_todos_find [OF del]
  have tables: "todos db' = filter (\<lambda>r. row_id r \<notin> ids) (todos db)"
    "todo_tags db' = filter (\<lambda>(t, x). t \<notin> ids) (todo_tags db)"
    "todo_deps db' = filter (\<lambda>(t, d). t \<notin> ids) (todo_deps db)"
    "todo_seeds db' = filter (\<lambda>s. seed_todo_id s \<notin> ids) (todo_seeds db)"
    and free: "\<And>t d. (t, d) \<in> set (todo_deps db) \<Longrightarrow> d \<notin> ids"
    using del by (auto simp: delete_todos_Inr)
  have "distinct (map row_id (todos db'))" and "\<forall>r \<in> set (todos db'). row_good r"
    using inv by (auto simp: tables db_inv_def distinct_map_filter_key)
  moreover have "parents_ok db'"
    unfolding parents_ok_def
  proof (intro ballI allI impI)
    fix r p assume "r \<in> set (todos db')" and p: "row_parent_id r = Some p"
    then have r: "r \<in> set (todos db)" "row_id r \<notin> ids" by (auto simp: tables)
    then have "p \<notin> ids" using closed p by (auto simp: closed_under_children_def)
    then show "\<exists>q. find_todo db' p = Some q \<and> row_parent_id q = None \<and> row_scope q = row_scope r"
      using inv r(1) p by (auto simp: find db_inv_def parents_ok_def)
  qed
  moreover have "deps_ok db'"
  proof -
    have "acyclic (set (todo_deps db'))"
      using inv by (auto simp: db_inv_def deps_ok_def tables intro: acyclic_subset)
    moreover have "\<exists>r s. find_todo db' t = Some r \<and> find_todo db' d = Some s \<and> row_scope r = row_scope s"
      if "(t, d) \<in> set (todo_deps db')" for t d
    proof -
      have "(t, d) \<in> set (todo_deps db)" "t \<notin> ids" using that by (auto simp: tables)
      then show ?thesis using inv free by (fastforce simp: find db_inv_def deps_ok_def)
    qed
    moreover have "distinct (todo_deps db')" using inv by (auto simp: db_inv_def deps_ok_def tables)
    ultimately show ?thesis unfolding deps_ok_def by blast
  qed
  moreover have "tags_ok db'"
  proof -
    have "distinct (todo_tags db')" using inv by (auto simp: db_inv_def tags_ok_def tables)
    moreover have "find_todo db' i \<noteq> None \<and> t \<noteq> []" if "(i, t) \<in> set (todo_tags db')" for i t
    proof -
      have "(i, t) \<in> set (todo_tags db)" "i \<notin> ids" using that by (auto simp: tables)
      then show ?thesis using inv by (auto simp: find db_inv_def tags_ok_def)
    qed
    ultimately show ?thesis unfolding tags_ok_def by blast
  qed
  moreover have "seeds_ok db'"
    using inv by (auto simp: db_inv_def seeds_ok_def tables find distinct_map_filter_key)
  ultimately show ?thesis by (simp add: db_inv_def)
qed

lemma parent_edges_iff:
  "(p, c) \<in> set (parent_edges db) \<longleftrightarrow> (\<exists>r \<in> set (todos db). row_parent_id r = Some p \<and> row_id r = c)"
  by (force simp: parent_edges_def split: option.splits)

lemma set_deletion_set:
  "set (deletion_set db i) =
    (if find_todo db i = None then {} else (set (parent_edges db))\<^sup>* `` {i})"
  by (simp add: deletion_set_def set_recursive_query)

lemma deletion_set_closed: "closed_under_children db (set (deletion_set db i))"
  unfolding closed_under_children_def
proof (intro ballI allI impI)
  fix r p assume "r \<in> set (todos db)" "row_parent_id r = Some p" and p: "p \<in> set (deletion_set db i)"
  then have "(p, row_id r) \<in> set (parent_edges db)" by (auto simp: parent_edges_iff)
  with p show "row_id r \<in> set (deletion_set db i)"
    by (auto simp: set_deletion_set split: if_splits intro: rtrancl_into_rtrancl)
qed

text \<open>With a one-level hierarchy the set is the row and its direct sub-items.\<close>

lemma deletion_set_one_level:
  assumes "db_inv db" and "find_todo db i \<noteq> None"
  shows "set (deletion_set db i) = insert i {row_id c | c. c \<in> set (todos db) \<and> row_parent_id c = Some i}"
proof -
  have top: "(x, y) \<notin> set (parent_edges db)" if e: "(i, x) \<in> set (parent_edges db)" for x y
  proof
    assume "(x, y) \<in> set (parent_edges db)"
    then obtain r where "r \<in> set (todos db)" "row_parent_id r = Some x" by (auto simp: parent_edges_iff)
    then obtain q where "find_todo db x = Some q" "row_parent_id q = None"
      using assms(1) unfolding db_inv_def parents_ok_def by blast
    moreover obtain c where "c \<in> set (todos db)" "row_parent_id c = Some i" "row_id c = x"
      using e by (auto simp: parent_edges_iff)
    moreover have "find_todo db x = Some c"
      using calculation(3-5) assms(1) by (auto simp: db_inv_def find_todo_Some)
    ultimately show False by simp
  qed
  have "(i, y) \<in> (set (parent_edges db))\<^sup>* \<longleftrightarrow> y = i \<or> (i, y) \<in> set (parent_edges db)" for y
  proof
    assume "(i, y) \<in> (set (parent_edges db))\<^sup>*"
    then show "y = i \<or> (i, y) \<in> set (parent_edges db)"
      by (induction rule: rtrancl_induct) (use top in auto)
  qed auto
  then show ?thesis using assms(2) by (auto simp: set_deletion_set parent_edges_iff)
qed

section \<open>Every operation keeps the invariant\<close>

lemma commit_Inr:
  "commit s r = (s', Inr x) \<longleftrightarrow> (\<exists>db. r = Inr (db, x) \<and> s' = s\<lparr>store_db := db\<rparr>)"
  by (auto simp: commit_def split: sum.splits prod.splits)

lemma commit_Inl: "commit s r = (s', Inl e) \<longleftrightarrow> r = Inl e \<and> s' = s"
  by (auto simp: commit_def split: sum.splits prod.splits)

lemma commit_inv:
  assumes "store_inv s" and "\<And>db x. r = Inr (db, x) \<Longrightarrow> db_inv db"
  shows "store_inv (fst (commit s r))"
  using assms by (auto simp: commit_def store_inv_def split: sum.splits prod.splits)

lemma getLocked_Inr: "getLocked db i = Inr it \<longleftrightarrow> (\<exists>r. find_todo db i = Some r \<and> it = hydrate db r)"
  by (auto simp: getLocked_def split: option.splits)

lemma hydrate_fields [simp]:
  "item_ID (hydrate db r) = row_id r" "item_Scope (hydrate db r) = row_scope r"
  "item_Owner (hydrate db r) = row_owner r" "item_Assignee (hydrate db r) = row_assignee r"
  "item_Title (hydrate db r) = row_title r" "item_Position (hydrate db r) = row_position r"
  by (simp_all add: hydrate_def hydrateTodoDependencies_def scan_todo_def Let_def)

lemma validateAddInput_Inr:
  assumes "store_inv s" and "validateAddInput s a = Inr title"
  shows "title = trim_space (add_Title a) \<and> title \<noteq> [] \<and> add_Scope a \<noteq> [] \<and>
    int (length title) \<le> todoTitleHardCeiling \<and> int (length (add_Note a)) \<le> todoNoteHardCeiling"
  using assms
  by (auto simp: validateAddInput_def Let_def store_inv_def titleLimit_def noteLimit_def split: if_splits)

lemma new_row_good:
  assumes "store_inv s" and "validateAddInput s a = Inr title" and "in_int64 position"
  shows "row_good (new_row a i title now position)"
proof -
  note v = validateAddInput_Inr [OF assms(1,2)]
  have "int (sqlite_length title) \<le> todoTitleHardCeiling"
    and "int (sqlite_length (add_Note a)) \<le> todoNoteHardCeiling"
    using v sqlite_length_le [of title] sqlite_length_le [of "add_Note a"] by linarith+
  with v assms(3) show ?thesis
    by (auto simp: row_good_def row_ok_def new_row_def validTodoStatus_def nullStr_def trim_space_idem)
qed

lemma check_parent_None:
  assumes "db_inv db" and "check_parent db a = None" and "nullStr (add_ParentID a) = Some p"
  shows "\<exists>q. find_todo db p = Some q \<and> row_parent_id q = None \<and> row_scope q = add_Scope a"
proof -
  obtain q where q: "find_todo db p = Some q" "null_string (row_parent_id q) = []"
    "row_scope q = add_Scope a"
    using assms(2,3) by (auto simp: check_parent_def nullStr_def split: if_splits option.splits)
  have "row_parent_id q \<noteq> Some []"
    using assms(1) q(1) by (auto simp: db_inv_def row_good_def dest!: find_todo_SomeD)
  with q show ?thesis by (cases "row_parent_id q") (auto simp: null_string_def)
qed

lemma Add_tx_inv:
  assumes "store_inv s" and "validateAddInput s a = Inr title"
    and "Add_tx a title i now (store_db s) = Inr (db', it)"
  shows "db_inv db'"
proof -
  let ?r = "new_row a i title (rfc3339nano now) (wrap64 (max_position (store_db s) (add_Scope a) + 1))"
  obtain db1 where par: "check_parent (store_db s) a = None"
    and 1: "insert_item ?r (normalizeTags (add_Tags a)) (store_db s) = Inr db1"
    and 2: "replaceTodoDependencies i (add_Scope a) (add_DependsOn a) db1 = Inr db'"
    using assms(3) by (auto simp: Add_tx_def Let_def rbind_Inr split: option.splits)
  have inv: "db_inv (store_db s)" using assms(1) by (simp add: store_inv_def)
  have r: "row_parent_id ?r = nullStr (add_ParentID a)" "row_scope ?r = add_Scope a" "row_id ?r = i"
    by (simp_all add: new_row_def)
  have "row_good ?r" by (rule new_row_good [OF assms(1,2) wrap64_in_range])
  then have "db_inv db1 \<and> find_todo db1 (row_id ?r) = Some ?r"
    using insert_item_inv [OF inv 1] check_parent_None [OF inv par] r by simp
  then show ?thesis using replaceTodoDependencies_inv [OF _ _ _ 2] r by auto
qed

lemma Add_inv: "store_inv s \<Longrightarrow> store_inv (fst (Add s a msg_id now))"
  unfolding Add_def by (rule commit_inv) (auto simp: rbind_Inr dest: Add_tx_inv)

lemma update_todos_commit_inv:
  assumes "db_inv db" and "keeps_text g" and "rbind (update_todos p g db) (\<lambda>db'. Inr (db', x)) = Inr (db2, y)"
  shows "db_inv db2"
  using assms by (auto simp: rbind_Inr intro: update_todos_inv)

lemma claim_update_inv: "db_inv db \<Longrightarrow> claim_update i w ov now db = Inr (db', n) \<Longrightarrow> db_inv db'"
  by (auto simp: claim_update_def Let_def intro: update_todos_commit_inv [OF _ keeps_text_rows(1)])

lemma Claim_inv: "store_inv s \<Longrightarrow> store_inv (fst (Claim s i owner override now))"
  by (auto simp: Claim_def store_inv_def split: sum.splits prod.splits dest: claim_update_inv)

lemma reopen_where_inv: "store_inv s \<Longrightarrow> store_inv (fst (reopen_where p s now))"
  unfolding reopen_where_def
  by (rule commit_inv)
    (auto simp: store_inv_def intro: update_todos_commit_inv [OF _ keeps_text_rows(2)])

lemma ReopenOwnedBy_inv: "store_inv s \<Longrightarrow> store_inv (fst (ReopenOwnedBy s w now))"
  by (simp add: ReopenOwnedBy_def reopen_where_inv)

lemma ReopenStale_inv: "store_inv s \<Longrightarrow> store_inv (fst (ReopenStale s lease now))"
  by (simp add: ReopenStale_def reopen_where_inv)

lemma Assign_inv: "store_inv s \<Longrightarrow> store_inv (fst (Assign s i w now))"
  by (auto simp: Assign_def set_field_def store_inv_def split: sum.splits
      dest: update_todos_inv [OF _ keeps_text_rows(5)])

definition unblocked_ids :: "todo_db \<Rightarrow> string \<Rightarrow> string \<Rightarrow> string list" where
  "unblocked_ids db i st = (if st = TodoStatusDone then directDependentsChangingReadiness db i True else [])"

definition blocked_ids :: "todo_db \<Rightarrow> string \<Rightarrow> string \<Rightarrow> string \<Rightarrow> string list" where
  "blocked_ids db i st previous =
    (if st = TodoStatusTodo \<and> previous = TodoStatusDone
     then directDependentsChangingReadiness db i False else [])"

lemma TransitionCascade_txE:
  assumes "TransitionCascade_tx i st note actor ov now db = Inr (db3, x)"
  obtains r db1 db2 where "find_todo db i = Some r" and "st \<noteq> TodoStatusInProgress"
    and "update_todos (transition_guard i st actor ov) (transition_row st note now) db = Inr db1"
    and "0 < rows_affected (transition_guard i st actor ov) (todos db)"
    and "touchTodoIDs (unblocked_ids db1 i st) now db1 = Inr db2"
    and "touchTodoIDs (blocked_ids db1 i st (row_status r)) now db2 = Inr db3"
    and "getLocked db3 i = Inr (tr_Item x)"
    and "loadTodoIDs db3 (unblocked_ids db1 i st) = Inr (tr_Unblocked x)"
    and "loadTodoIDs db3 (blocked_ids db1 i st (row_status r)) = Inr (tr_DependencyBlocked x)"
proof (cases "find_todo db i")
  case None
  then show ?thesis using assms by (simp add: TransitionCascade_tx_def)
next
  case (Some r)
  show ?thesis
    using assms that [OF Some]
    unfolding TransitionCascade_tx_def Some option.simps
      unblocked_ids_def [symmetric] blocked_ids_def [symmetric] Let_def
    by (cases "st = TodoStatusInProgress") (auto simp: result_Inr)
qed

lemma TransitionCascade_tx_inv:
  assumes "db_inv db" and "TransitionCascade_tx i st note actor ov now db = Inr (db', x)"
  shows "db_inv db'"
  using assms(2)
  by (rule TransitionCascade_txE)
    (metis update_todos_inv [OF assms(1) keeps_text_rows(3)] touchTodoIDs_inv)

lemma TransitionCascade_inv: "store_inv s \<Longrightarrow> store_inv (fst (TransitionCascade s i st note actor ov now))"
  unfolding TransitionCascade_def
  by (rule commit_inv) (auto simp: result_Inr store_inv_def dest: TransitionCascade_tx_inv)

lemma set_field_inv:
  assumes "db_inv db" and "keeps_keys g" and "set_field i g db = Inr db'"
    and "\<And>r. r \<in> set (todos db) \<Longrightarrow> row_ok (g r) \<Longrightarrow> row_good (g r)"
  shows "db_inv db'"
  using assms db_inv_update [OF assms(1,2), of "\<lambda>r. row_id r = i"]
  by (auto simp: set_field_def update_todos_def split: if_splits)

lemma set_field_find:
  assumes "keeps_keys g" and "set_field i g db = Inr db'"
  shows "find_todo db' j = map_option (\<lambda>r. if row_id r = i then g r else r) (find_todo db j) \<and>
    todo_deps db' = todo_deps db \<and> todo_tags db' = todo_tags db"
  using assms find_todo_update [OF assms(1), of "\<lambda>r. row_id r = i" db j]
  by (auto simp: set_field_def update_todos_def split: if_splits)

lemma update_title_inv:
  assumes "db_inv db" and "update_title s i title db = Inr db'"
  shows "db_inv db'"
proof (cases title)
  case None
  then show ?thesis using assms by (simp add: update_title_def)
next
  case (Some x)
  then have "trim_space x \<noteq> []" "set_field i (\<lambda>r. r\<lparr>row_title := trim_space x\<rparr>) db = Inr db'"
    using assms(2) by (auto simp: update_title_def Let_def fail_when_Inr)
  moreover have "row_good (r\<lparr>row_title := trim_space x\<rparr>)"
    if "r \<in> set (todos db)" "row_ok (r\<lparr>row_title := trim_space x\<rparr>)" for r
    using that assms(1) calculation(1) by (auto simp: db_inv_def row_good_def trim_space_idem)
  ultimately show ?thesis using set_field_inv [OF assms(1) keeps_keys_rows(5)] by blast
qed

lemma update_note_inv:
  assumes "db_inv db" and "update_note s i note db = Inr db'"
  shows "db_inv db'"
  using assms update_todos_inv [OF assms(1) keeps_text_rows(6)]
  by (auto simp: update_note_def fail_when_Inr set_field_def split: option.splits)

lemma update_position_inv:
  assumes "db_inv db" and "\<And>p. position = Some p \<Longrightarrow> in_int64 p"
    and "update_position i position db = Inr db'"
  shows "db_inv db'"
proof (cases position)
  case None
  then show ?thesis using assms by (simp add: update_position_def)
next
  case (Some p)
  then have "set_field i (\<lambda>r. r\<lparr>row_position := p\<rparr>) db = Inr db'"
    using assms(3) by (simp add: update_position_def)
  moreover have "row_good (r\<lparr>row_position := p\<rparr>)" if "r \<in> set (todos db)" for r
    using that assms(1,2) Some by (auto simp: db_inv_def row_good_def row_ok_def)
  ultimately show ?thesis using set_field_inv [OF assms(1) keeps_keys_rows(6)] by blast
qed

lemma update_tags_inv:
  assumes "db_inv db" and "find_todo db i \<noteq> None"
  shows "db_inv (update_tags i tags db)"
proof (cases tags)
  case None
  then show ?thesis using assms by (simp add: update_tags_def)
next
  case (Some ts)
  let ?db = "db\<lparr>todo_tags := filter (\<lambda>e. fst e \<noteq> i) (todo_tags db)\<rparr>"
  have "db_inv ?db" using assms(1)
    by (auto simp: db_inv_def parents_ok_def deps_ok_def tags_ok_def seeds_ok_def)
  moreover have "find_todo ?db i \<noteq> None" using assms(2) by simp
  ultimately show ?thesis
    unfolding update_tags_def Some option.simps by (intro fold_insert_tag_inv) auto
qed

lemma update_tags_tables [simp]:
  "todos (update_tags i tags db) = todos db" "todo_deps (update_tags i tags db) = todo_deps db"
  by (simp_all add: update_tags_def split: option.splits)

lemma find_todo_update_tags [simp]: "find_todo (update_tags i tags db) j = find_todo db j"
  by (simp add: find_todo_def)

text \<open>The steps of an update before its dependency edges keep every row's scope.\<close>

definition same_scopes :: "todo_db \<Rightarrow> todo_db \<Rightarrow> bool" where
  "same_scopes db db' \<longleftrightarrow> (\<forall>j. map_option row_scope (find_todo db' j) = map_option row_scope (find_todo db j))"

lemma same_scopesD:
  "same_scopes db db' \<Longrightarrow> find_todo db i = Some r \<Longrightarrow> \<exists>q. find_todo db' i = Some q \<and> row_scope q = row_scope r"
  unfolding same_scopes_def by (metis map_option_eq_Some)

lemma same_scopes_refl [simp]: "same_scopes db db"
  by (simp add: same_scopes_def)

lemma same_scopes_set_field:
  assumes "keeps_keys g" and "set_field i g db = Inr db'"
  shows "same_scopes db db'"
  using set_field_find [OF assms] assms(1)
  by (auto simp: same_scopes_def option.map_comp comp_def keeps_keys_def intro: option.map_cong0)

lemma update_text_scopes:
  assumes "update_title s i title db = Inr db1" and "update_note s i note db1 = Inr db2"
    and "update_position i position db2 = Inr db3"
  shows "same_scopes db db3"
proof -
  have "same_scopes db db1"
    using assms(1) same_scopes_set_field [OF keeps_keys_rows(5)]
    by (auto simp: update_title_def Let_def fail_when_Inr split: option.splits)
  moreover have "same_scopes db1 db2"
    using assms(2) same_scopes_set_field [OF keeps_keys_rows(7)]
    by (auto simp: update_note_def fail_when_Inr split: option.splits)
  moreover have "same_scopes db2 db3"
    using assms(3) same_scopes_set_field [OF keeps_keys_rows(6)]
    by (auto simp: update_position_def split: option.splits)
  ultimately show ?thesis by (simp add: same_scopes_def)
qed

lemma UpdateFieldsCascade_txE:
  assumes "UpdateFieldsCascade_tx s i title note tags position dependsOn now db = Inr (db', x)"
  obtains current db1 db2 db3 db4 where "getLocked db i = Inr current"
    and "update_title s i title db = Inr db1" and "update_note s i note db1 = Inr db2"
    and "update_position i position db2 = Inr db3"
    and "(case dependsOn of None \<Rightarrow> Inr (update_tags i tags db3)
       | Some ds \<Rightarrow> replaceTodoDependencies i (item_Scope current) ds (update_tags i tags db3)) = Inr db4"
    and "set_field i (\<lambda>r. r\<lparr>row_revision := row_revision r + 1, row_updated_at := now\<rparr>) db4 = Inr db'"
    and "getLocked db' i = Inr (ur_Item x)"
  using assms unfolding UpdateFieldsCascade_tx_def rbind_Inr
  by (elim exE conjE) (auto intro: that)

lemma UpdateFieldsCascade_tx_inv:
  assumes inv: "db_inv db" and pos: "\<And>p. position = Some p \<Longrightarrow> in_int64 p"
    and tx: "UpdateFieldsCascade_tx s i title note tags position dependsOn now db = Inr (db', x)"
  shows "db_inv db'"
proof -
  obtain current db1 db2 db3 db4 where cur: "getLocked db i = Inr current"
    and 1: "update_title s i title db = Inr db1" and 2: "update_note s i note db1 = Inr db2"
    and 3: "update_position i position db2 = Inr db3"
    and 4: "(case dependsOn of None \<Rightarrow> Inr (update_tags i tags db3)
       | Some ds \<Rightarrow> replaceTodoDependencies i (item_Scope current) ds (update_tags i tags db3)) = Inr db4"
    and 5: "set_field i (\<lambda>r. r\<lparr>row_revision := row_revision r + 1, row_updated_at := now\<rparr>) db4 = Inr db'"
    using tx by (rule UpdateFieldsCascade_txE)
  obtain r where "find_todo db i = Some r" and scope: "item_Scope current = row_scope r"
    using cur by (auto simp: getLocked_Inr)
  then obtain q where q: "find_todo db3 i = Some q" "row_scope q = row_scope r"
    using same_scopesD [OF update_text_scopes [OF 1 2 3]] by blast
  have "db_inv db3"
    using update_position_inv [OF update_note_inv [OF update_title_inv [OF inv 1] 2] pos 3] .
  then have tags: "db_inv (update_tags i tags db3)" using q by (intro update_tags_inv) auto
  have "db_inv db4"
  proof (cases dependsOn)
    case None
    then show ?thesis using 4 tags by simp
  next
    case (Some ds)
    then show ?thesis
      using 4 replaceTodoDependencies_inv [OF tags, of i q "item_Scope current" ds db4] q scope by simp
  qed
  then show ?thesis using 5 update_todos_inv keeps_text_rows(4) unfolding set_field_def by blast
qed

lemma UpdateFieldsCascade_inv:
  assumes "store_inv s" and "\<And>p. position = Some p \<Longrightarrow> in_int64 p"
  shows "store_inv (fst (UpdateFieldsCascade s i title note tags position dependsOn now))"
  unfolding UpdateFieldsCascade_def
  using assms by (intro commit_inv) (auto simp: store_inv_def dest: UpdateFieldsCascade_tx_inv)

lemma drop_deps_inv:
  assumes "db_inv db" and "set ds \<subseteq> set (todo_deps db)" and "distinct ds"
  shows "db_inv (db\<lparr>todo_deps := ds\<rparr>)"
proof -
  have "deps_ok (db\<lparr>todo_deps := ds\<rparr>)"
    using assms acyclic_subset [of "set (todo_deps db)" "set ds"]
    by (auto simp: db_inv_def deps_ok_def)
  then show ?thesis using assms(1) by (auto simp: db_inv_def parents_ok_def tags_ok_def seeds_ok_def)
qed

lemma Remove_txE:
  assumes "Remove_tx i db = Inr (db', u)"
  obtains "find_todo db i \<noteq> None"
    and "\<And>t d. (t, d) \<in> set (todo_deps db) \<Longrightarrow> d \<in> set (deletion_set db i) \<Longrightarrow> t \<in> set (deletion_set db i)"
    and "delete_todos (set (deletion_set db i))
      (db\<lparr>todo_deps := filter (\<lambda>(t, d). d \<notin> set (deletion_set db i)) (todo_deps db)\<rparr>) = Inr db'"
proof (cases "external_dependents db (deletion_set db i)")
  case (Cons e es)
  then show ?thesis using assms by (cases e) (simp add: Remove_tx_def)
next
  case Nil
  then have "set (external_dependents db (deletion_set db i)) = {}" by simp
  then have "t \<in> set (deletion_set db i)"
    if "(t, d) \<in> set (todo_deps db)" "d \<in> set (deletion_set db i)" for t d
    using that by (auto simp: external_dependents_def)
  then show ?thesis using assms that Nil by (auto simp: Remove_tx_def Let_def result_Inr)
qed

lemma closed_under_children_deps [simp]:
  "closed_under_children (db\<lparr>todo_deps := ds\<rparr>) = closed_under_children db"
  by (simp add: closed_under_children_def fun_eq_iff)

lemma Remove_tx_inv:
  assumes "db_inv db" and "Remove_tx i db = Inr (db', u)"
  shows "db_inv db'"
  using assms(2)
proof (rule Remove_txE)
  let ?db = "db\<lparr>todo_deps := filter (\<lambda>(t, d). d \<notin> set (deletion_set db i)) (todo_deps db)\<rparr>"
  assume "delete_todos (set (deletion_set db i)) ?db = Inr db'"
  moreover have "db_inv ?db" using assms(1) by (intro drop_deps_inv) (auto simp: db_inv_def deps_ok_def)
  moreover have "closed_under_children ?db (set (deletion_set db i))"
    using deletion_set_closed [of db i] by simp
  ultimately show ?thesis by (rule delete_todos_inv [rotated 2])
qed

lemma Remove_inv: "store_inv s \<Longrightarrow> store_inv (fst (Remove s i))"
  unfolding Remove_def by (rule commit_inv) (auto simp: store_inv_def dest: Remove_tx_inv)

lemma delete_rows_inv: "db_inv db \<Longrightarrow> delete_rows ids db = Inr (db', n) \<Longrightarrow> db_inv db'"
proof (induction ids arbitrary: db n)
  case Nil
  then show ?case by simp
next
  case (Cons i ids)
  show ?case
  proof (cases "find_todo db i")
    case None
    then show ?thesis using Cons by simp
  next
    case (Some r)
    then obtain db1 m where "delete_todos (set (deletion_set db i)) db = Inr db1"
      and "delete_rows ids db1 = Inr (db', m)" using Cons.prems(2) by (auto simp: rbind_Inr)
    then show ?thesis
      using Cons.IH delete_todos_inv [OF Cons.prems(1) deletion_set_closed] by blast
  qed
qed

lemma SweepDoneExceptScopes_inv:
  assumes "store_inv s"
  shows "store_inv (fst (SweepDoneExceptScopes s maxAge protected now))"
proof -
  have "store_inv (fst (commit s (delete_rows ids (store_db s))))" for ids
    using assms by (intro commit_inv) (auto simp: store_inv_def dest: delete_rows_inv)
  then show ?thesis using assms by (simp add: SweepDoneExceptScopes_def)
qed

lemma claim_candidateD:
  assumes "claim_candidate db scope owner ov = Some i"
  shows "\<exists>r \<in> set (todos db). row_id r = i \<and> row_scope r = scope \<and> claimable db owner ov r"
proof -
  let ?rs = "sort_key (\<lambda>r. (row_position r, row_id r))
    (filter (\<lambda>r. row_scope r = scope \<and> claimable db owner ov r) (todos db))"
  obtain r rs where "?rs = r # rs" "row_id r = i"
    using assms by (auto simp: claim_candidate_def split: list.splits)
  then have "r \<in> set ?rs" by simp
  then show ?thesis using \<open>row_id r = i\<close> by auto
qed

text \<open>The select/update loop of \<open>ClaimNext\<close> never takes its retry branch: the update's guard is the
  one the candidate was selected by.\<close>

lemma ClaimNext_loop_eq:
  "ClaimNext_loop db scope owner ov now =
    Some (case claim_candidate db scope owner ov of
       None \<Rightarrow> (db, Inr None)
     | Some i \<Rightarrow> (case claim_update i owner ov now db of
         Inl e \<Rightarrow> (db, Inl e)
       | Inr (db', n) \<Rightarrow> (db', rbind (getLocked db' i) (\<lambda>it. Inr (Some it)))))"
proof (cases "claim_candidate db scope owner ov")
  case None
  then show ?thesis by (simp add: ClaimNext_loop.simps)
next
  case (Some i)
  then have "0 < rows_affected (\<lambda>r. row_id r = i \<and> claimable db owner ov r) (todos db)"
    using claim_candidateD [OF Some] by (auto simp: rows_affected_pos)
  then have "n \<noteq> 0" if "claim_update i owner ov now db = Inr (db', n)" for db' n
    using that by (auto simp: claim_update_def Let_def rbind_Inr)
  then show ?thesis
    by (subst ClaimNext_loop.simps) (auto simp: Some split: sum.splits prod.splits)
qed

lemma ClaimNext_inv:
  assumes "store_inv s" and "ClaimNext s scope owner ov now = Some (s', r)"
  shows "store_inv s'"
  using assms
  by (auto simp: ClaimNext_def ClaimNext_loop_eq store_inv_def split: if_splits option.splits
      sum.splits prod.splits dest: claim_update_inv)

section \<open>Batches and opening\<close>

lemma check_batch_Inr:
  assumes "check_batch s n seen es = Inr titles"
  shows "length titles = length es \<and>
    (\<forall>(e, title) \<in> set (zip es titles). add_ParentID (batch_Item e) = [] \<and>
      validateAddInput s (batch_Item e) = Inr title) \<and>
    distinct (map batch_Key es) \<and> set seen \<inter> set (map batch_Key es) = {}"
  using assms
proof (induction s n seen es arbitrary: titles rule: check_batch.induct)
  case (1 s n seen)
  then show ?case by simp
next
  case (2 s n seen e es)
  then obtain title ts where v: "validateAddInput s (batch_Item e) = Inr title"
    and ts: "check_batch s (Suc n) (batch_Key e # seen) es = Inr ts" "titles = title # ts"
    and e: "batch_Key e \<noteq> []" "batch_Key e \<notin> set seen" "add_ParentID (batch_Item e) = []"
    by (auto simp: rbind_Inr split: if_splits)
  from "2.IH" [OF _ _ _ ts(1)] e v ts(2) show ?case by auto
qed

lemma batch_insert_inv:
  assumes "db_inv db" and "store_inv s"
    and "\<forall>(e, title) \<in> set es. add_ParentID (batch_Item e) = [] \<and>
      validateAddInput s (batch_Item e) = Inr title"
    and "batch_insert ids clk n positions es db = Inr (db', byKey)"
  shows "db_inv db' \<and> todos db' = todos db @ map snd byKey \<and> map fst byKey = map (batch_Key \<circ> fst) es \<and>
    todo_deps db' = todo_deps db"
  using assms
proof (induction es arbitrary: n positions db byKey)
  case Nil
  then show ?case by auto
next
  case (Cons et es)
  obtain e title where et: "et = (e, title)" by force
  define r where "r = new_row (batch_Item e) (td_id (ids n)) title (rfc3339nano (clk n))
    (wrap64 ((case map_of positions (add_Scope (batch_Item e)) of
       None \<Rightarrow> max_position db (add_Scope (batch_Item e)) | Some p \<Rightarrow> p) + 1))"
  obtain db1 byKey' positions' where
    1: "insert_item r (normalizeTags (add_Tags (batch_Item e))) db = Inr db1"
    and 2: "batch_insert ids clk (Suc n) positions' es db1 = Inr (db', byKey')"
    and b: "byKey = (batch_Key e, r) # byKey'"
    using Cons.prems(4) by (auto simp: et r_def Let_def rbind_Inr)
  have "row_parent_id r = None" using Cons.prems(3) by (simp add: et r_def new_row_def nullStr_def)
  moreover have "row_good r"
    unfolding r_def using Cons.prems(2,3) by (intro new_row_good [OF _ _ wrap64_in_range]) (auto simp: et)
  ultimately have "db_inv db1" "todos db1 = todos db @ [r]" "todo_deps db1 = todo_deps db"
    using insert_item_inv [OF Cons.prems(1) 1] by auto
  with Cons.IH [OF _ Cons.prems(2) _ 2] Cons.prems(3) show ?case by (simp add: et b)
qed

lemma batch_link_inv:
  assumes "db_inv db" and "snd ` set byKey \<subseteq> set (todos db)" and "batch_link byKey e db = Inr db'"
  shows "db_inv db' \<and> todos db' = todos db"
proof -
  obtain r ds where r: "map_of byKey (batch_Key e) = Some r"
    and rep: "replaceTodoDependencies (row_id r) (row_scope r) (add_DependsOn (batch_Item e) @ ds) db = Inr db'"
    using assms(3) by (auto simp: batch_link_def rbind_Inr split: option.splits)
  have "r \<in> set (todos db)" using assms(2) map_of_SomeD [OF r] by force
  then have "find_todo db (row_id r) = Some r" using assms(1) by (simp add: db_inv_def find_todo_Some)
  then show ?thesis using replaceTodoDependencies_inv [OF assms(1) _ _ rep] by blast
qed

lemma AddBatch_tx_inv:
  assumes "store_inv s" and "check_batch s 0 [] entries = Inr titles"
    and "AddBatch_tx ids clk entries titles (store_db s) = Inr (db', its)"
  shows "db_inv db'"
proof -
  obtain db1 byKey where 1: "batch_insert ids clk 0 [] (zip entries titles) (store_db s) = Inr (db1, byKey)"
    and 2: "rfold (batch_link byKey) entries db1 = Inr db'"
    using assms(3) by (auto simp: AddBatch_tx_def rbind_Inr)
  have "db_inv db1 \<and> snd ` set byKey \<subseteq> set (todos db1)"
    using batch_insert_inv [OF _ assms(1) _ 1] check_batch_Inr [OF assms(2)] assms(1)
    by (auto simp: store_inv_def)
  then have "db_inv db' \<and> snd ` set byKey \<subseteq> set (todos db')"
  proof (rule rfold_invariant [OF 2])
    fix e db db2
    assume "db_inv db \<and> snd ` set byKey \<subseteq> set (todos db)" and "batch_link byKey e db = Inr db2"
    then show "db_inv db2 \<and> snd ` set byKey \<subseteq> set (todos db2)"
      using batch_link_inv [of db byKey e db2] by simp
  qed
  then show ?thesis ..
qed

lemma AddBatch_inv:
  assumes "store_inv s"
  shows "store_inv (fst (AddBatch s entries ids clk))"
proof -
  have "store_inv (fst (commit s (rbind (check_batch s 0 [] entries) (\<lambda>titles.
       AddBatch_tx ids clk entries titles (store_db s)))))"
    using assms by (rule commit_inv) (auto simp: rbind_Inr intro: AddBatch_tx_inv [OF assms])
  then show ?thesis using assms by (simp add: AddBatch_def)
qed

lemma backfill_seed_inv:
  assumes "db_inv db" and "r \<in> set (todos db)" and "row_parent_id r = None" and "row_assignee r \<noteq> []"
  shows "db_inv (backfill_seed r db) \<and> todos (backfill_seed r db) = todos db"
proof -
  have "find_todo db (row_id r) = Some r" using assms(1,2) by (simp add: db_inv_def find_todo_Some)
  then show ?thesis using assms
    by (auto simp: backfill_seed_def db_inv_def parents_ok_def deps_ok_def tags_ok_def seeds_ok_def
        seed_conflict_def seed_of_row_def)
qed

lemma initTodoSchema_inv:
  assumes "db_inv db"
  shows "db_inv (initTodoSchema db)"
proof -
  have "db_inv (fold backfill_seed rs db0)"
    if "\<forall>r \<in> set rs. r \<in> set (todos db0) \<and> row_parent_id r = None \<and> row_assignee r \<noteq> []" "db_inv db0"
    for rs db0
    using that by (induction rs arbitrary: db0) (auto simp: backfill_seed_inv)
  then show ?thesis using assms by (simp add: initTodoSchema_def)
qed

lemma NewTodoStore_inv: "db_inv db \<Longrightarrow> store_inv (NewTodoStore db settings)"
  by (auto simp: NewTodoStore_def Let_def store_inv_def resolved_todo_def clamp_limit_def
      initTodoSchema_inv todoTitleHardCeiling_def todoNoteHardCeiling_def TodoMaxTitleDefault_def
      TodoMaxNoteDefault_def TodoListLimitDefault_def)

lemma empty_db_inv: "db_inv empty_db"
  by (simp add: db_inv_def empty_db_def parents_ok_def deps_ok_def tags_ok_def seeds_ok_def
      acyclic_def)

end
