(* ===== verification/Todo_Props.thy ===== *)
theory Todo_Props
  imports Todo_Inv
begin

text \<open>
  The task store as a transition system, one rule per mutating method, and what its operations
  guarantee: the invariant in every reachable store, exact dependency and claim decisions, the
  exclusivity of a claim, the guards of transitions, what updates, removals and sweeps may
  change, and the effective-status view of lists. The last section evaluates the store on the
  inputs where its behaviour differs from its comments.
\<close>

section \<open>Steps\<close>

inductive todo_step :: "TodoStore \<Rightarrow> TodoStore \<Rightarrow> bool" where
  step_Add: "todo_step s (fst (Add s a msg_id now))"
| step_AddBatch: "todo_step s (fst (AddBatch s entries ids clk))"
| step_Claim: "todo_step s (fst (Claim s i owner override now))"
| step_ClaimNext: "ClaimNext s scope owner override now = Some (s', r) \<Longrightarrow> todo_step s s'"
| step_Transition: "todo_step s (fst (TransitionCascade s i newStatus note actor override now))"
| step_Update: "(\<And>p. position = Some p \<Longrightarrow> in_int64 p) \<Longrightarrow>
    todo_step s (fst (UpdateFieldsCascade s i title note tags position dependsOn now))"
| step_Assign: "todo_step s (fst (Assign s i assignee now))"
| step_Remove: "todo_step s (fst (Remove s i))"
| step_ReopenOwnedBy: "todo_step s (fst (ReopenOwnedBy s ownerID now))"
| step_ReopenStale: "todo_step s (fst (ReopenStale s lease now))"
| step_Sweep: "todo_step s (fst (SweepDoneExceptScopes s maxAge protected now))"
| step_SetMaxTitle: "todo_step s (SetMaxTitle s limit)"
| step_SetMaxNote: "todo_step s (SetMaxNote s limit)"
| step_Reopen_db: "todo_step s (NewTodoStore (store_db s) settings)"

inductive todo_init :: "TodoStore \<Rightarrow> bool" where
  "todo_init (NewTodoStore empty_db settings)"

lemma SetMax_inv:
  "store_inv s \<Longrightarrow> store_inv (SetMaxTitle s limit)" "store_inv s \<Longrightarrow> store_inv (SetMaxNote s limit)"
  by (auto simp: store_inv_def SetMaxTitle_def SetMaxNote_def clamp_limit_def
      todoTitleHardCeiling_def todoNoteHardCeiling_def TodoMaxTitleDefault_def TodoMaxNoteDefault_def)

lemmas store_op_inv [inv_intros] =
  Add_inv AddBatch_inv Claim_inv ClaimNext_inv TransitionCascade_inv UpdateFieldsCascade_inv
  Assign_inv Remove_inv ReopenOwnedBy_inv ReopenStale_inv SweepDoneExceptScopes_inv SetMax_inv

lemma todo_step_inv: "todo_step s t \<Longrightarrow> store_inv s \<Longrightarrow> store_inv t"
proof (induction rule: todo_step.induct)
  case (step_Update position s)
  then show ?case by (intro UpdateFieldsCascade_inv) auto
next
  case (step_Reopen_db s settings)
  then have "db_inv (store_db s)" by (simp add: store_inv_def)
  then show ?case by (rule NewTodoStore_inv)
qed (auto intro: inv_intros)

interpretation td: invariant_system todo_init todo_step store_inv
  by unfold_locales (auto elim: todo_init.cases intro: todo_step_inv NewTodoStore_inv [OF empty_db_inv])

text \<open>C1: in every store reachable from an empty database by any sequence of operations (failed
  ones and restarts included), identifiers are unique, every row satisfies the schema's CHECKs with
  a trimmed non-empty title, an unclaimed item has no owner and any other has one, the hierarchy is
  one level deep within a scope, the dependency graph is acyclic within a scope, tags and seeds
  refer to existing items, and the length limits stay within the database's ceilings.\<close>

theorem reachable_store_inv:
  assumes "reach todo_init todo_step s"
  shows "store_inv s"
  using assms by (rule td.reach_inv)

definition example_settings :: TodoStoreSettings where
  "example_settings = \<lparr>set_BusyTimeout = 0, set_MaxTitle = 0, set_MaxNote = 0, set_ListLimit = 0\<rparr>"

definition example_add :: TodoAdd where
  "example_add = \<lparr>add_Scope = ''u'', add_Title = '' a '', add_Note = [], add_Tags = [], add_ParentID = [],
     add_Assignee = [], add_DependsOn = [], add_CreatedBy = ''u''\<rparr>"

definition example_store :: TodoStore where
  "example_store = fst (Add (fst (Add (NewTodoStore empty_db example_settings) example_add ''1'' 0))
     (example_add\<lparr>add_DependsOn := [''td-1'']\<rparr>) ''2'' 0)"

lemma reach_Add: "reach todo_init todo_step s \<Longrightarrow> reach todo_init todo_step (fst (Add s a msg_id now))"
  by (erule reach_step [where step = todo_step]) (rule step_Add)

lemma example_store_reach: "reach todo_init todo_step example_store"
  unfolding example_store_def
  by (intro reach_Add reach_init [where step = todo_step]) (rule todo_init.intros)

lemma example_store_value:
  "example_store =
    \<lparr>store_db = \<lparr>todos =
       [\<lparr>row_id = ''td-1'', row_title = ''a'', row_status = ''todo'', row_scope = ''u'', row_owner = [],
         row_assignee = [], row_parent_id = None, row_note = [], row_created_by = ''u'',
         row_created_at = ''1970-01-01T00:00:00Z'', row_updated_at = ''1970-01-01T00:00:00Z'',
         row_revision = 1, row_position = 1\<rparr>,
        \<lparr>row_id = ''td-2'', row_title = ''a'', row_status = ''todo'', row_scope = ''u'', row_owner = [],
         row_assignee = [], row_parent_id = None, row_note = [], row_created_by = ''u'',
         row_created_at = ''1970-01-01T00:00:00Z'', row_updated_at = ''1970-01-01T00:00:00Z'',
         row_revision = 1, row_position = 2\<rparr>],
       todo_tags = [], todo_deps = [(''td-2'', ''td-1'')], todo_seeds = []\<rparr>,
     maxTitle = 500, maxNote = 2000, listLimit = 2000\<rparr>"
  by code_simp

theorem reachable_store_inv_witness: "store_inv example_store"
  by (rule reachable_store_inv [OF example_store_reach])

lemma example_store_inv: "store_inv example_store"
  by (rule td.reach_inv [OF example_store_reach])

section \<open>Dependencies\<close>

lemma rtrancl_avoid_source: "(d, i) \<in> R\<^sup>* \<Longrightarrow> (d, i) \<in> {e \<in> R. fst e \<noteq> i}\<^sup>*"
proof (induction rule: converse_rtrancl_induct)
  case base
  then show ?case by simp
next
  case (step a b)
  then show ?case
    by (cases "a = i") (auto intro: converse_rtrancl_into_rtrancl)
qed

text \<open>C15: replacing the dependencies of an item by existing items of its scope succeeds exactly when
  the resulting graph has no cycle; on success the item's edges are exactly the requested ones and
  the edges of every other item are unchanged.\<close>

theorem replaceTodoDependencies_exact:
  assumes inv: "db_inv db" and row: "find_todo db i = Some r"
    and ids: "\<forall>d \<in> set ids. trim_space d \<noteq> [] \<and>
      (\<exists>q. find_todo db (trim_space d) = Some q \<and> row_scope q = row_scope r)"
  shows "(if acyclic ({e \<in> set (todo_deps db). fst e \<noteq> i} \<union> {i} \<times> trim_space ` set ids)
    then \<exists>db'. replaceTodoDependencies i (row_scope r) ids db = Inr db' \<and>
      set (todo_deps db') = {e \<in> set (todo_deps db). fst e \<noteq> i} \<union> {i} \<times> trim_space ` set ids \<and>
      todos db' = todos db
    else \<exists>e. replaceTodoDependencies i (row_scope r) ids db = Inl e)"
proof -
  let ?new = "{e \<in> set (todo_deps db). fst e \<noteq> i} \<union> {i} \<times> trim_space ` set ids"
  define deps where "deps = sort_strings (dedup [] (map trim_space ids))"
  have norm: "normalizeTodoDependencies ids = Inr deps"
    using ids by (auto simp: normalizeTodoDependencies_Inr deps_def)
  have set: "set deps = trim_space ` set ids" by (simp add: deps_def set_dedup)
  have out: "set (todo_deps db') = ?new \<and> todos db' = todos db"
    if "replaceTodoDependencies i (row_scope r) ids db = Inr db'" for db'
    using that row set norm by (auto simp: replaceTodoDependencies_Inr)
  have "\<exists>db'. replaceTodoDependencies i (row_scope r) ids db = Inr db'" if acyc: "acyclic ?new"
  proof -
    have "check_dependency db i (row_scope r) d = None" if "d \<in> set deps" for d
    proof -
      have e: "(i, d) \<in> ?new" using that set by auto
      have "d \<noteq> i" using e acyc by (auto simp: acyclic_def)
      moreover have "(d, i) \<notin> (set (todo_deps db))\<^sup>*"
      proof
        assume "(d, i) \<in> (set (todo_deps db))\<^sup>*"
        then have "(d, i) \<in> {e \<in> set (todo_deps db). fst e \<noteq> i}\<^sup>*" by (rule rtrancl_avoid_source)
        then have "(d, i) \<in> ?new\<^sup>*" by (rule in_rtrancl_UnI [OF disjI1])
        with e have "(i, i) \<in> ?new\<^sup>+" by (rule rtrancl_into_trancl2)
        with acyc show False unfolding acyclic_def by blast
      qed
      moreover have "\<exists>q. find_todo db d = Some q \<and> row_scope q = row_scope r"
        using that set ids by auto
      ultimately show ?thesis by (simp add: check_dependency_None)
    qed
    then show ?thesis using row norm by (auto simp: replaceTodoDependencies_Inr)
  qed
  moreover have "acyclic ?new" if "replaceTodoDependencies i (row_scope r) ids db = Inr db'" for db'
    using replaceTodoDependencies_inv [OF inv row _ that] out [OF that]
    by (auto simp: db_inv_def deps_ok_def)
  ultimately have iff: "acyclic ?new \<longleftrightarrow> (\<exists>db'. replaceTodoDependencies i (row_scope r) ids db = Inr db')"
    by blast
  show ?thesis
  proof (cases "replaceTodoDependencies i (row_scope r) ids db")
    case (Inl e)
    then have "\<not> acyclic ?new" using iff by (metis sum.distinct(1))
    then show ?thesis using Inl by simp
  next
    case (Inr db')
    then have "acyclic ?new" using iff by blast
    then show ?thesis using Inr out [OF Inr] by simp
  qed
qed

lemma example_edge_cycle: "\<not> acyclic {(''td-2'', ''td-1''), (''td-1'', ''td-2'')}"
proof -
  have "(''td-2'', ''td-2'') \<in> {(''td-2'', ''td-1''), (''td-1'', ''td-2'')}\<^sup>+"
    by (rule trancl_into_trancl [OF r_into_trancl, of "''td-2''" "''td-1''"]) auto
  then show ?thesis unfolding acyclic_def by blast
qed

theorem replaceTodoDependencies_exact_witness:
  "\<exists>e. replaceTodoDependencies ''td-1'' ''u'' ['' td-2''] (store_db example_store) = Inl e"
proof -
  obtain r where r: "find_todo (store_db example_store) ''td-1'' = Some r" "row_scope r = ''u''"
    by (simp add: example_store_value find_todo_def)
  have "trim_space '' td-2'' = ''td-2''" by code_simp
  moreover have "{e \<in> set (todo_deps (store_db example_store)). fst e \<noteq> ''td-1''} = {(''td-2'', ''td-1'')}"
    by (auto simp: example_store_value)
  ultimately show ?thesis
    using replaceTodoDependencies_exact [OF _ r(1), of "['' td-2'']"] example_store_inv r(2)
      example_edge_cycle
    by (auto simp: store_inv_def example_store_value find_todo_def insert_commute)
qed

section \<open>Claims\<close>

lemma waiting_iff:
  "waiting db i \<longleftrightarrow> (\<exists>d q. (i, d) \<in> set (todo_deps db) \<and> find_todo db d = Some q \<and> row_status q \<noteq> TodoStatusDone)"
  by (fastforce simp: waiting_def not_done_def split: option.splits)

definition may_claim :: "todo_db \<Rightarrow> string \<Rightarrow> string \<Rightarrow> bool \<Rightarrow> bool" where
  "may_claim db i owner override \<longleftrightarrow>
    (\<exists>r. find_todo db i = Some r \<and> row_status r = TodoStatusTodo \<and>
      (override \<or> row_assignee r = [] \<or> row_assignee r = owner) \<and>
      (\<forall>d q. (i, d) \<in> set (todo_deps db) \<longrightarrow> find_todo db d = Some q \<longrightarrow> row_status q = TodoStatusDone))"

lemma claimable_iff:
  assumes "db_inv db" and "r \<in> set (todos db)"
  shows "claimable db owner ov r \<longleftrightarrow> may_claim db (row_id r) owner ov"
proof -
  have "find_todo db (row_id r) = Some r" using assms by (simp add: db_inv_def find_todo_Some)
  moreover have "row_status r = TodoStatusTodo \<Longrightarrow> row_owner r = []"
    using assms by (auto simp: db_inv_def row_good_def row_ok_def)
  ultimately show ?thesis by (auto simp: claimable_def may_claim_def waiting_iff)
qed

lemma claim_row_ok: "row_ok r \<Longrightarrow> owner \<noteq> [] \<Longrightarrow> row_ok (claim_row owner now r)"
  by (auto simp: row_ok_def claim_row_def validTodoStatus_def)

lemma claim_update_value:
  assumes "db_inv db" and "owner \<noteq> []"
  shows "claim_update i owner ov now db =
    (if may_claim db i owner ov
     then Inr (db\<lparr>todos := update_where (\<lambda>r. row_id r = i) (claim_row owner now) (todos db)\<rparr>, 1)
     else Inr (db, 0))"
proof -
  let ?p = "\<lambda>r. row_id r = i \<and> claimable db owner ov r"
  have ok: "\<forall>r \<in> set (todos db). ?p r \<longrightarrow> row_ok (claim_row owner now r)"
    using assms by (auto simp: db_inv_def row_good_def claim_row_ok)
  have eq: "?p r \<longleftrightarrow> row_id r = i \<and> may_claim db i owner ov" if "r \<in> set (todos db)" for r
    using claimable_iff [OF assms(1) that] by auto
  have dist: "distinct (map row_id (todos db))" using assms(1) by (simp add: db_inv_def)
  show ?thesis
  proof (cases "may_claim db i owner ov")
    case True
    then have "update_where ?p (claim_row owner now) (todos db) =
        update_where (\<lambda>r. row_id r = i) (claim_row owner now) (todos db)"
      using eq by (auto simp: update_where_def)
    moreover have "rows_affected ?p (todos db) = length (filter (\<lambda>r. row_id r = i) (todos db))"
      using eq True by (auto simp: rows_affected_def intro!: arg_cong [where f = length] filter_cong)
    moreover have "length (filter (\<lambda>r. row_id r = i) (todos db)) = 1"
    proof -
      obtain r where "r \<in> set (todos db)" "row_id r = i"
        using True by (auto simp: may_claim_def dest!: find_todo_SomeD)
      then have "set (filter (\<lambda>r. row_id r = i) (todos db)) = {r}"
        using dist by (auto dest: distinct_map_unique)
      moreover have "distinct (filter (\<lambda>r. row_id r = i) (todos db))"
        using dist by (simp add: distinct_map)
      ultimately show ?thesis by (metis distinct_card card.empty card_insert_disjoint empty_iff
            finite.emptyI One_nat_def)
    qed
    ultimately show ?thesis using ok True by (simp add: claim_update_def Let_def update_todos_def)
  next
    case False
    then have "\<forall>r \<in> set (todos db). \<not> ?p r" using eq by auto
    then have "rows_affected ?p (todos db) = 0" by (simp add: rows_affected_zero)
    moreover from this have "update_where ?p (claim_row owner now) (todos db) = todos db"
      by (rule update_where_none)
    ultimately show ?thesis
      using ok False by (simp add: claim_update_def Let_def update_todos_def)
  qed
qed

lemma todo_db_todos_id [simp]: "(db\<lparr>todos := todos db\<rparr>) = db"
  by simp

lemma hydrate_status:
  "item_Status (hydrate db r) =
    (if row_status r = TodoStatusTodo \<and> waiting db (row_id r) then TodoStatusBlocked else row_status r)"
proof -
  have "filter (not_done db) [d. (t, d) \<leftarrow> todo_deps db, t = row_id r, find_todo db d \<noteq> None] = [] \<longleftrightarrow>
      \<not> waiting db (row_id r)"
    by (auto simp: filter_empty_conv waiting_def not_done_def split: option.splits)
  then have "filter (not_done db)
      (sort_strings [d. (t, d) \<leftarrow> todo_deps db, t = row_id r, find_todo db d \<noteq> None]) = [] \<longleftrightarrow>
      \<not> waiting db (row_id r)"
    by (simp only: filter_empty_conv sort_strings_props)
  then show ?thesis
    by (simp add: hydrate_def hydrateTodoDependencies_def scan_todo_def Let_def)
qed

lemma Claim_value:
  assumes "store_inv s" and "owner \<noteq> []"
  shows "if may_claim (store_db s) i owner ov
    then \<exists>it. Claim s i owner ov now =
      (s\<lparr>store_db := (store_db s)\<lparr>todos := update_where (\<lambda>r. row_id r = i)
           (claim_row owner (rfc3339nano now)) (todos (store_db s))\<rparr>\<rparr>, Inr (Some it)) \<and>
      item_ID it = i \<and> item_Owner it = owner \<and> item_Status it = TodoStatusInProgress
    else Claim s i owner ov now = (s, Inr None)"
proof (cases "may_claim (store_db s) i owner ov")
  case False
  then show ?thesis
    using assms claim_update_value [of "store_db s" owner] by (simp add: Claim_def store_inv_def)
next
  case True
  then obtain r where r: "find_todo (store_db s) i = Some r" by (auto simp: may_claim_def)
  let ?db = "(store_db s)\<lparr>todos := update_where (\<lambda>r. row_id r = i)
           (claim_row owner (rfc3339nano now)) (todos (store_db s))\<rparr>"
  have "row_id r = i" using find_todo_SomeD [OF r] by simp
  then have "find_todo ?db i = Some (claim_row owner (rfc3339nano now) r)"
    by (simp add: find_todo_update r)
  then show ?thesis
    using True assms claim_update_value [of "store_db s" owner] \<open>row_id r = i\<close>
    by (simp add: Claim_def store_inv_def getLocked_def hydrate_status) (simp add: claim_row_def)
qed

text \<open>C16: a claim by a named owner succeeds exactly when the item is unclaimed, unassigned or assigned
  to the claimant (or the caller overrides), and every dependency is done. On success that item
  alone changes: it becomes in-progress and owned by the claimant; otherwise the store is unchanged
  and the claim reports failure without an error.\<close>

theorem Claim_exact:
  assumes "store_inv s" and "owner \<noteq> []"
  shows "if may_claim (store_db s) i owner ov
    then \<exists>it. Claim s i owner ov now =
      (s\<lparr>store_db := (store_db s)\<lparr>todos := update_where (\<lambda>r. row_id r = i)
           (claim_row owner (rfc3339nano now)) (todos (store_db s))\<rparr>\<rparr>, Inr (Some it)) \<and>
      item_ID it = i \<and> item_Owner it = owner \<and> item_Status it = TodoStatusInProgress
    else Claim s i owner ov now = (s, Inr None)"
  using assms by (rule Claim_value)

lemma example_claims:
  "may_claim (store_db example_store) ''td-1'' ''s'' False"
  "\<not> may_claim (store_db example_store) ''td-2'' ''s'' True"
  by (auto simp: may_claim_def example_store_value find_todo_def todo_status_defs)

theorem Claim_exact_witness:
  "(\<exists>t it. Claim example_store ''td-1'' ''s'' False 0 = (t, Inr (Some it)) \<and> item_Owner it = ''s'') \<and>
    Claim example_store ''td-2'' ''s'' True 0 = (example_store, Inr None)"
  using Claim_exact [OF example_store_inv, of "''s''" "''td-1''" False 0] example_claims
    Claim_exact [OF example_store_inv, of "''s''" "''td-2''" True 0]
  by (simp, metis)

subsection \<open>A claimed item stays claimed until it is reopened\<close>

definition open_in :: "string \<Rightarrow> todo_db \<Rightarrow> bool" where
  "open_in k db \<longleftrightarrow> (\<exists>r \<in> set (todos db). row_id r = k \<and> row_status r = TodoStatusTodo)"

definition claim_available :: "string \<Rightarrow> TodoStore \<Rightarrow> bool" where
  "claim_available k s \<longleftrightarrow> open_in k (store_db s)"

definition claim_take :: "string \<times> bool \<times> int \<Rightarrow> string \<Rightarrow> TodoStore \<Rightarrow> TodoStore option" where
  "claim_take a k s =
    (case a of (owner, ov, now) \<Rightarrow>
      (case Claim s k owner ov now of (t, Inr (Some it)) \<Rightarrow> Some t | _ \<Rightarrow> None))"

text \<open>Everything the daemon may do between two claims of an item, short of reopening it (a
  transition to todo, \<open>ReopenOwnedBy\<close>, \<open>ReopenStale\<close>) or drawing its identifier again.\<close>

inductive claim_env :: "string \<Rightarrow> TodoStore \<Rightarrow> TodoStore \<Rightarrow> bool" for k where
  "td_id msg_id \<noteq> k \<Longrightarrow> claim_env k s (fst (Add s a msg_id now))"
| "claim_env k s (fst (Claim s i owner override now))"
| "ClaimNext s scope owner override now = Some (s', r) \<Longrightarrow> claim_env k s s'"
| "newStatus \<noteq> TodoStatusTodo \<Longrightarrow>
    claim_env k s (fst (TransitionCascade s i newStatus note actor override now))"
| "(\<And>p. position = Some p \<Longrightarrow> in_int64 p) \<Longrightarrow>
    claim_env k s (fst (UpdateFieldsCascade s i title note tags position dependsOn now))"
| "claim_env k s (fst (Assign s i assignee now))"
| "claim_env k s (fst (Remove s i))"
| "claim_env k s (fst (SweepDoneExceptScopes s maxAge protected now))"

lemma claim_env_step: "claim_env k s t \<Longrightarrow> todo_step s t"
  by (induction rule: claim_env.induct) (auto intro: todo_step.intros)

lemma open_in_update:
  assumes "update_todos p g db = Inr db'" and "open_in k db'"
    and "\<And>r. row_id (g r) = row_id r" and "\<And>r. row_status (g r) = TodoStatusTodo \<Longrightarrow> row_status r = TodoStatusTodo"
  shows "open_in k db"
proof -
  have "todos db' = update_where p g (todos db)" using assms(1) by (auto simp: update_todos_def split: if_splits)
  then show ?thesis using assms(2-4) by (fastforce simp: open_in_def elim!: in_update_whereE split: if_splits)
qed

lemma open_in_subset: "set (todos db') \<subseteq> set (todos db) \<Longrightarrow> open_in k db' \<Longrightarrow> open_in k db"
  by (auto simp: open_in_def)

lemma open_in_touch: "touchTodoIDs ids now db = Inr db' \<Longrightarrow> open_in k db' \<Longrightarrow> open_in k db"
proof (induction ids arbitrary: db)
  case Nil
  then show ?case by simp
next
  case (Cons i ids)
  then obtain db1 where "update_todos (\<lambda>r. row_id r = i)
      (\<lambda>r. r\<lparr>row_revision := row_revision r + 1, row_updated_at := now\<rparr>) db = Inr db1"
    and "touchTodoIDs ids now db1 = Inr db'" by (auto simp: rbind_Inr)
  with Cons show ?case by (auto elim!: open_in_update)
qed

lemma open_in_claim_update: "claim_update i owner ov now db = Inr (db', n) \<Longrightarrow> open_in k db' \<Longrightarrow> open_in k db"
  by (auto simp: claim_update_def Let_def rbind_Inr claim_row_def elim!: open_in_update)

lemma open_in_delete: "delete_todos ids db = Inr db' \<Longrightarrow> open_in k db' \<Longrightarrow> open_in k db"
  by (rule open_in_subset) (auto simp: delete_todos_Inr)

lemma open_in_delete_rows: "delete_rows ids db = Inr (db', n) \<Longrightarrow> open_in k db' \<Longrightarrow> open_in k db"
proof (induction ids arbitrary: db n)
  case (Cons i ids)
  then show ?case
    by (cases "find_todo db i") (auto simp: rbind_Inr dest: open_in_delete)
qed simp

lemma replaceTodoDependencies_todos:
  "replaceTodoDependencies i sc ids db = Inr db' \<Longrightarrow> todos db' = todos db"
proof -
  have "todos db' = todos db" if "rfold (insert_dependency i) ds db0 = Inr db'" "todos db0 = todos db" for ds db0
    using that(2)
    by (rule rfold_invariant [OF that(1)]) (auto simp: insert_dependency_def split: if_splits)
  then show "replaceTodoDependencies i sc ids db = Inr db' \<Longrightarrow> todos db' = todos db"
    by (auto simp: replaceTodoDependencies_def rbind_Inr clear_dependencies_def split: option.splits)
qed

lemma insert_item_todos: "insert_item r tags db = Inr db' \<Longrightarrow> todos db' = todos db @ [r]"
  by (auto simp: insert_item_def rbind_Inr insert_todo_def recordScenarioSeed_def split: if_splits)

lemma Add_tx_todos:
  assumes "Add_tx a title i now db = Inr (db', it)"
  shows "todos db' = todos db @
    [new_row a i title (rfc3339nano now) (wrap64 (max_position db (add_Scope a) + 1))]"
  using assms
  by (auto simp: Add_tx_def Let_def rbind_Inr split: option.splits
      dest!: insert_item_todos replaceTodoDependencies_todos)

lemma open_in_Add:
  assumes "Add_tx a title i now db = Inr (db', it)" and "i \<noteq> k" and "open_in k db'"
  shows "open_in k db"
  using assms Add_tx_todos [OF assms(1)] by (auto simp: open_in_def new_row_def)

lemma open_in_Transition:
  assumes "TransitionCascade_tx i st note actor ov now db = Inr (db', x)" and "st \<noteq> TodoStatusTodo"
    and "open_in k db'"
  shows "open_in k db"
  using assms(1)
proof (rule TransitionCascade_txE)
  fix r db1 db2
  assume "update_todos (transition_guard i st actor ov) (transition_row st note now) db = Inr db1"
    and "touchTodoIDs (unblocked_ids db1 i st) now db1 = Inr db2"
    and "touchTodoIDs (blocked_ids db1 i st (row_status r)) now db2 = Inr db'"
  then show ?thesis
    using assms(2,3) by (auto simp: transition_row_def dest!: open_in_touch elim!: open_in_update)
qed

lemma open_in_set_field:
  assumes "set_field i g db = Inr db'" and "open_in k db'"
    and "\<And>r. row_id (g r) = row_id r \<and> row_status (g r) = row_status r"
  shows "open_in k db"
  using assms open_in_update [of "\<lambda>r. row_id r = i" g db db' k] by (simp add: set_field_def)

lemma open_in_Update:
  assumes "UpdateFieldsCascade_tx s i title note tags position dependsOn now db = Inr (db', x)"
    and "open_in k db'"
  shows "open_in k db"
proof -
  obtain current db1 db2 db3 db4 where "getLocked db i = Inr current"
    and 1: "update_title s i title db = Inr db1" and 2: "update_note s i note db1 = Inr db2"
    and 3: "update_position i position db2 = Inr db3"
    and 4: "(case dependsOn of None \<Rightarrow> Inr (update_tags i tags db3)
       | Some ds \<Rightarrow> replaceTodoDependencies i (item_Scope current) ds (update_tags i tags db3)) = Inr db4"
    and 5: "set_field i (\<lambda>r. r\<lparr>row_revision := row_revision r + 1, row_updated_at := now\<rparr>) db4 = Inr db'"
    using assms(1) by (rule UpdateFieldsCascade_txE)
  have "todos db4 = todos db3" using 4 by (auto split: option.splits dest: replaceTodoDependencies_todos)
  moreover have "open_in k db4" using open_in_set_field [OF 5 assms(2)] by simp
  ultimately have "open_in k db3" by (simp add: open_in_def)
  then have "open_in k db2"
    using 3 by (auto simp: update_position_def split: option.splits dest: open_in_set_field)
  then have "open_in k db1"
    using 2 by (auto simp: update_note_def fail_when_Inr split: option.splits dest: open_in_set_field)
  then show ?thesis
    using 1 by (auto simp: update_title_def Let_def fail_when_Inr split: option.splits dest: open_in_set_field)
qed

lemma open_in_commit:
  assumes "open_in k (store_db (fst (commit s r)))"
    and "\<And>db x. r = Inr (db, x) \<Longrightarrow> open_in k db \<Longrightarrow> open_in k (store_db s)"
  shows "open_in k (store_db s)"
  using assms by (auto simp: commit_def split: sum.splits prod.splits)

lemma claim_env_keeps: "claim_env k s t \<Longrightarrow> claim_available k t \<Longrightarrow> claim_available k s"
  unfolding claim_available_def
proof (induction rule: claim_env.induct)
  case (1 msg_id s a now)
  then show ?case unfolding Add_def by (elim open_in_commit) (auto simp: rbind_Inr dest: open_in_Add)
next
  case (2 s i owner override now)
  then show ?case
    by (auto simp: Claim_def split: if_splits sum.splits prod.splits dest: open_in_claim_update)
next
  case (3 s scope owner override now s' r)
  then show ?case
    by (auto simp: ClaimNext_def ClaimNext_loop_eq split: if_splits option.splits sum.splits prod.splits
        dest: open_in_claim_update)
next
  case (4 newStatus s)
  then show ?case
    unfolding TransitionCascade_def by (elim open_in_commit) (auto simp: result_Inr dest: open_in_Transition)
next
  case (5 position s)
  then show ?case
    unfolding UpdateFieldsCascade_def by (elim open_in_commit) (auto dest: open_in_Update)
next
  case (6 s i assignee now)
  then show ?case
    by (auto simp: Assign_def split: if_splits sum.splits dest: open_in_set_field)
next
  case (7 s i)
  then show ?case
    unfolding Remove_def
    by (elim open_in_commit) (auto elim!: Remove_txE dest!: open_in_delete simp: open_in_def)
next
  case (8 s maxAge protected now)
  have "open_in k (store_db (fst (commit s (delete_rows ids (store_db s))))) \<Longrightarrow> open_in k (store_db s)" for ids
    by (elim open_in_commit) (auto dest: open_in_delete_rows)
  with 8 show ?case by (auto simp: SweepDoneExceptScopes_def split: if_splits)
qed

lemma claim_take_Some:
  assumes "store_inv s" and "claim_take a k s = Some t"
  shows "claim_available k s \<and> \<not> claim_available k t \<and> store_inv t"
proof -
  obtain owner ov now it where a: "a = (owner, ov, now)" and cl: "Claim s k owner ov now = (t, Inr (Some it))"
    using assms(2) by (auto simp: claim_take_def split: prod.splits sum.splits option.splits)
  have "owner \<noteq> []" using cl by (auto simp: Claim_def)
  then have may: "may_claim (store_db s) k owner ov"
    and t: "t = s\<lparr>store_db := (store_db s)\<lparr>todos := update_where (\<lambda>r. row_id r = k)
           (claim_row owner (rfc3339nano now)) (todos (store_db s))\<rparr>\<rparr>"
    using cl Claim_value [OF assms(1), of owner k ov now] by (auto split: if_splits)
  have "claim_available k s"
    using may by (auto simp: may_claim_def claim_available_def open_in_def dest!: find_todo_SomeD)
  moreover have "\<not> claim_available k t"
    by (auto simp: t claim_available_def open_in_def claim_row_def elim!: in_update_whereE split: if_splits)
  moreover have "store_inv t" using Claim_inv [OF assms(1), of k owner ov now] cl by simp
  ultimately show ?thesis by simp
qed

interpretation claim: one_shot claim_take claim_available claim_env store_inv
  using claim_take_Some claim_env_keeps todo_step_inv [OF claim_env_step]
  by unfold_locales blast+



lemma sort_key_head_le:
  assumes "sort_key f xs = y # ys" and "x \<in> set xs"
  shows "f y \<le> f x"
proof -
  have "x \<in> set (y # ys)" using assms set_sort [of f xs] by simp
  moreover have "sorted (map f (y # ys))" using assms(1) sorted_sort_key [of f xs] by simp
  ultimately show ?thesis by auto
qed

lemma claim_candidate_least:
  assumes "claim_candidate db scope owner ov = Some i" and "distinct (map row_id (todos db))"
  shows "\<exists>r. find_todo db i = Some r \<and> row_scope r = scope \<and> claimable db owner ov r \<and>
    (\<forall>x \<in> set (todos db). row_scope x = scope \<and> claimable db owner ov x \<longrightarrow>
      (row_position r, i) \<le> (row_position x, row_id x))"
proof -
  let ?xs = "filter (\<lambda>r. row_scope r = scope \<and> claimable db owner ov r) (todos db)"
  obtain r rs where s: "sort_key (\<lambda>r. (row_position r, row_id r)) ?xs = r # rs" and i: "row_id r = i"
    using assms(1) by (auto simp: claim_candidate_def split: list.splits)
  have "r \<in> set (sort_key (\<lambda>r. (row_position r, row_id r)) ?xs)" by (simp only: s list.set_intros)
  then have "r \<in> set ?xs" by (simp only: set_sort)
  moreover have "(row_position r, row_id r) \<le> (row_position x, row_id x)" if "x \<in> set ?xs" for x
    using sort_key_head_le [OF s that] .
  ultimately show ?thesis using i assms(2) by (intro exI [of _ r]) (auto simp: find_todo_Some)
qed

lemma claim_candidate_None:
  "claim_candidate db scope owner ov = None \<longleftrightarrow>
    (\<forall>x \<in> set (todos db). row_scope x = scope \<longrightarrow> \<not> claimable db owner ov x)"
proof -
  let ?xs = "filter (\<lambda>r. row_scope r = scope \<and> claimable db owner ov r) (todos db)"
  let ?f = "\<lambda>r. (row_position r, row_id r)"
  have "claim_candidate db scope owner ov = None \<longleftrightarrow> sort_key ?f ?xs = []"
    by (simp add: claim_candidate_def split: list.splits)
  also have "\<dots> \<longleftrightarrow> ?xs = []"
    using length_sort [of ?f ?xs] by (simp only: length_0_conv [symmetric])
  also have "\<dots> \<longleftrightarrow> (\<forall>x \<in> set (todos db). row_scope x = scope \<longrightarrow> \<not> claimable db owner ov x)"
    by (auto simp: filter_empty_conv)
  finally show ?thesis .
qed

lemma ClaimNext_Claim:
  assumes "owner \<noteq> []" and "claim_candidate (store_db s) scope owner ov = Some i"
  shows "ClaimNext s scope owner ov now = Some (Claim s i owner ov now)"
proof -
  have "0 < rows_affected (\<lambda>r. row_id r = i \<and> claimable (store_db s) owner ov r) (todos (store_db s))"
    using claim_candidateD [OF assms(2)] by (auto simp: rows_affected_pos)
  then show ?thesis
    using assms
    by (auto simp: ClaimNext_def ClaimNext_loop_eq Claim_def claim_update_def Let_def rbind_Inr
        split: sum.splits prod.splits)
qed

lemma ClaimNext_value:
  assumes "store_inv s" and "owner \<noteq> []"
  shows "if \<exists>x \<in> set (todos (store_db s)). row_scope x = scope \<and> may_claim (store_db s) (row_id x) owner ov
    then \<exists>r. find_todo (store_db s) (row_id r) = Some r \<and> row_scope r = scope \<and>
      may_claim (store_db s) (row_id r) owner ov \<and>
      ClaimNext s scope owner ov now = Some (Claim s (row_id r) owner ov now) \<and>
      (\<forall>x \<in> set (todos (store_db s)). row_scope x = scope \<longrightarrow> may_claim (store_db s) (row_id x) owner ov \<longrightarrow>
        (row_position r, row_id r) \<le> (row_position x, row_id x))
    else ClaimNext s scope owner ov now = Some (s, Inr None)"
proof -
  have inv: "db_inv (store_db s)" and dist: "distinct (map row_id (todos (store_db s)))"
    using assms(1) by (auto simp: store_inv_def db_inv_def)
  note cl = claimable_iff [OF inv]
  show ?thesis
  proof (cases "claim_candidate (store_db s) scope owner ov")
    case None
    then have "\<not> (\<exists>x \<in> set (todos (store_db s)). row_scope x = scope \<and> may_claim (store_db s) (row_id x) owner ov)"
      using cl by (auto simp: claim_candidate_None)
    moreover have "ClaimNext s scope owner ov now = Some (s, Inr None)"
      using None assms(2) by (simp add: ClaimNext_def ClaimNext_loop_eq)
    ultimately show ?thesis by (simp only: if_False)
  next
    case (Some i)
    obtain r where r: "find_todo (store_db s) i = Some r" "row_scope r = scope"
      "claimable (store_db s) owner ov r"
      "\<forall>x \<in> set (todos (store_db s)). row_scope x = scope \<and> claimable (store_db s) owner ov x \<longrightarrow>
        (row_position r, i) \<le> (row_position x, row_id x)"
      using claim_candidate_least [OF Some dist] by blast
    then have mem: "r \<in> set (todos (store_db s))" and i: "row_id r = i" using find_todo_SomeD by blast+
    have "\<exists>x \<in> set (todos (store_db s)). row_scope x = scope \<and> may_claim (store_db s) (row_id x) owner ov"
      using mem r(2,3) cl by blast
    moreover have "ClaimNext s scope owner ov now = Some (Claim s (row_id r) owner ov now)"
      using ClaimNext_Claim [OF assms(2) Some] i by simp
    ultimately show ?thesis using r mem i cl by (auto intro!: exI [of _ r])
  qed
qed

text \<open>Claiming the next item of a scope always returns; it reports none exactly when the scope has
  no item the caller may claim, and then changes nothing; otherwise its effect is that of claiming
  one claimable item of the scope, the one with the lowest position (ties broken by identifier).\<close>

theorem ClaimNext_exact:
  assumes "store_inv s" and "owner \<noteq> []"
  shows "if \<exists>x \<in> set (todos (store_db s)). row_scope x = scope \<and> may_claim (store_db s) (row_id x) owner ov
    then \<exists>r. find_todo (store_db s) (row_id r) = Some r \<and> row_scope r = scope \<and>
      may_claim (store_db s) (row_id r) owner ov \<and>
      ClaimNext s scope owner ov now = Some (Claim s (row_id r) owner ov now) \<and>
      (\<forall>x \<in> set (todos (store_db s)). row_scope x = scope \<longrightarrow> may_claim (store_db s) (row_id x) owner ov \<longrightarrow>
        (row_position r, row_id r) \<le> (row_position x, row_id x))
    else ClaimNext s scope owner ov now = Some (s, Inr None)"
  using assms by (rule ClaimNext_value)

theorem ClaimNext_exact_witness:
  "\<exists>r :: todo_row. ClaimNext example_store ''u'' ''s'' False 0 = Some (Claim example_store (row_id r) ''s'' False 0) \<and>
    may_claim (store_db example_store) (row_id r) ''s'' False"
proof -
  have "\<exists>x \<in> set (todos (store_db example_store)). row_scope x = ''u'' \<and>
      may_claim (store_db example_store) (row_id x) ''s'' False"
    using example_claims(1) by (auto simp: example_store_value)
  note ex = this
  have n: "''s'' \<noteq> []" by simp
  show ?thesis
    using ClaimNext_exact [OF example_store_inv n, of "''u''" False 0, unfolded if_P [OF ex]]
    by blast
qed

section \<open>Transitions\<close>

text \<open>Rows up to the revision counter and the modification time.\<close>

definition untouched :: "todo_row \<Rightarrow> todo_row" where
  "untouched r = r\<lparr>row_revision := 0, row_updated_at := []\<rparr>"

definition same_rows :: "todo_db \<Rightarrow> todo_db \<Rightarrow> bool" where
  "same_rows db db' \<longleftrightarrow> todo_deps db' = todo_deps db \<and>
    (\<forall>j. map_option untouched (find_todo db' j) = map_option untouched (find_todo db j))"

lemma same_rows_refl [simp]: "same_rows db db"
  by (simp add: same_rows_def)

lemma same_rows_trans: "same_rows a b \<Longrightarrow> same_rows b c \<Longrightarrow> same_rows a c"
  by (simp add: same_rows_def)

lemma untouched_eqD:
  assumes "untouched q = untouched r"
  shows "row_status q = row_status r \<and> row_owner q = row_owner r \<and> row_id q = row_id r \<and> row_scope q = row_scope r"
proof -
  have "row_status (untouched q) = row_status (untouched r)" "row_owner (untouched q) = row_owner (untouched r)"
    "row_id (untouched q) = row_id (untouched r)" "row_scope (untouched q) = row_scope (untouched r)"
    using assms by simp_all
  then show ?thesis by (simp add: untouched_def)
qed

lemma same_rows_find:
  assumes "same_rows db db'" and "find_todo db j = Some r"
  shows "\<exists>q. find_todo db' j = Some q \<and> untouched q = untouched r"
proof -
  have "map_option untouched (find_todo db' j) = Some (untouched r)"
    using assms by (simp add: same_rows_def)
  then show ?thesis by auto
qed

definition status_of :: "todo_db \<Rightarrow> string \<Rightarrow> string option" where
  "status_of db j = map_option row_status (find_todo db j)"

lemma same_rows_status: "same_rows db db' \<Longrightarrow> status_of db' j = status_of db j"
proof (cases "find_todo db j")
  case None
  moreover assume "same_rows db db'"
  ultimately have "map_option untouched (find_todo db' j) = None" by (simp add: same_rows_def)
  then show ?thesis using None by (simp add: status_of_def)
next
  case (Some r)
  moreover assume "same_rows db db'"
  ultimately obtain q where "find_todo db' j = Some q" "untouched q = untouched r"
    using same_rows_find by blast
  with untouched_eqD [OF this(2)] show ?thesis using Some by (simp add: status_of_def)
qed

lemma not_done_status: "not_done db d \<longleftrightarrow> status_of db d \<noteq> None \<and> status_of db d \<noteq> Some TodoStatusDone"
  by (auto simp: not_done_def status_of_def split: option.splits)

lemma waiting_same:
  assumes "todo_deps db' = todo_deps db" and "\<And>d. not_done db' d = not_done db d"
  shows "waiting db' t = waiting db t"
  using assms by (simp add: waiting_def)

lemma same_rows_waiting: "same_rows db db' \<Longrightarrow> waiting db' t = waiting db t"
  by (rule waiting_same) (simp_all add: not_done_status same_rows_status, simp add: same_rows_def)

lemma touchTodoIDs_total:
  assumes "db_inv db"
  shows "\<exists>db'. touchTodoIDs ids now db = Inr db' \<and> same_rows db db' \<and> db_inv db'"
  using assms
proof (induction ids arbitrary: db)
  case Nil
  then show ?case by simp
next
  case (Cons i ids)
  let ?g = "\<lambda>r. r\<lparr>row_revision := row_revision r + 1, row_updated_at := now\<rparr>"
  let ?db1 = "db\<lparr>todos := update_where (\<lambda>r. row_id r = i) ?g (todos db)\<rparr>"
  have "row_ok (?g r)" if "r \<in> set (todos db)" for r
    using that Cons.prems by (auto simp: db_inv_def row_good_def row_ok_def)
  then have u: "update_todos (\<lambda>r. row_id r = i) ?g db = Inr ?db1" by (simp add: update_todos_def)
  have "untouched (if row_id r = i then ?g r else r) = untouched r" for r
    by (simp add: untouched_def)
  then have "same_rows db ?db1"
    unfolding same_rows_def find_todo_update [OF keeps_keys_rows(4)]
    by (simp add: option.map_comp comp_def)
  moreover have "db_inv ?db1" by (rule update_todos_inv [OF Cons.prems keeps_text_rows(4) u])
  ultimately show ?case using Cons.IH u by (auto intro: same_rows_trans)
qed

lemma loadTodoIDs_total:
  "(\<forall>i \<in> set ids. find_todo db i \<noteq> None) \<Longrightarrow>
    \<exists>its. loadTodoIDs db ids = Inr its \<and> map item_ID its = ids"
proof (induction ids)
  case (Cons i ids)
  then obtain r its where "find_todo db i = Some r" "loadTodoIDs db ids = Inr its" "map item_ID its = ids"
    by auto
  moreover have "row_id r = i" using calculation(1) find_todo_SomeD by blast
  ultimately show ?case by (simp add: getLocked_def)
qed simp

lemma readiness_ids:
  "set (directDependentsChangingReadiness db i b) =
    {t. (t, i) \<in> set (todo_deps db) \<and> status_of db t = Some TodoStatusTodo \<and>
      (if b then \<not> waiting db t
       else \<not> (\<exists>d. (t, d) \<in> set (todo_deps db) \<and> d \<noteq> i \<and> not_done db d))}"
  by (auto simp: directDependentsChangingReadiness_def status_of_def split: option.splits)

definition may_transition :: "todo_row \<Rightarrow> string \<Rightarrow> string \<Rightarrow> bool \<Rightarrow> bool" where
  "may_transition r st actor ov \<longleftrightarrow>
    (ov \<or> row_owner r = actor) \<and>
    (st = TodoStatusDone \<and> row_status r \<in> {TodoStatusInProgress, TodoStatusBlocked} \<or>
     st = TodoStatusBlocked \<and> row_status r = TodoStatusInProgress \<or>
     st = TodoStatusTodo \<and> row_status r \<noteq> TodoStatusTodo)"

lemma transition_guard_iff:
  assumes "st \<in> {TodoStatusDone, TodoStatusBlocked, TodoStatusTodo}"
  shows "transition_guard i st actor ov r \<longleftrightarrow> row_id r = i \<and> may_transition r st actor ov"
  using assms by (auto simp: transition_guard_def may_transition_def)

lemma transition_row_ok:
  assumes "row_ok r" and "may_transition r st actor ov" and "int (length note) \<le> todoNoteHardCeiling"
  shows "row_ok (transition_row st note now r)"
  using assms sqlite_length_le [of "note"]
  by (auto simp: row_ok_def may_transition_def transition_row_def validTodoStatus_def)

text \<open>The tables after the guarded UPDATE.\<close>

definition moved :: "string \<Rightarrow> string \<Rightarrow> string \<Rightarrow> string \<Rightarrow> todo_db \<Rightarrow> todo_db" where
  "moved i st note now db =
    db\<lparr>todos := update_where (\<lambda>r. row_id r = i) (transition_row st note now) (todos db)\<rparr>"

lemma find_todo_moved:
  "find_todo (moved i st note now db) j =
    (if j = i then map_option (transition_row st note now) (find_todo db j) else find_todo db j)"
  by (cases "find_todo db j")
    (auto simp: moved_def find_todo_update dest: find_todo_SomeD)

lemma status_of_moved:
  "find_todo db i = Some r \<Longrightarrow>
    status_of (moved i st note now db) j = (if j = i then Some st else status_of db j)"
  by (simp add: status_of_def find_todo_moved transition_row_def)

lemma transition_update:
  assumes inv: "db_inv db" and r: "find_todo db i = Some r"
    and st: "st \<in> {TodoStatusDone, TodoStatusBlocked, TodoStatusTodo}"
    and len: "int (length note) \<le> todoNoteHardCeiling"
  shows "if may_transition r st actor ov
    then update_todos (transition_guard i st actor ov) (transition_row st note now) db =
        Inr (moved i st note now db) \<and> 0 < rows_affected (transition_guard i st actor ov) (todos db)
    else rows_affected (transition_guard i st actor ov) (todos db) = 0 \<and>
      update_todos (transition_guard i st actor ov) (transition_row st note now) db = Inr db"
proof -
  have mem: "r \<in> set (todos db)" and i: "row_id r = i" using find_todo_SomeD [OF r] by auto
  have uniq: "transition_guard i st actor ov x \<longleftrightarrow> row_id x = i \<and> may_transition r st actor ov"
    if "x \<in> set (todos db)" for x
    using that mem i inv transition_guard_iff [OF st]
    by (auto simp: db_inv_def dest: distinct_map_unique [of row_id "todos db" r x])
  have ok: "row_ok (transition_row st note now x)"
    if "x \<in> set (todos db)" "transition_guard i st actor ov x" for x
    using that inv transition_row_ok [OF _ _ len] transition_guard_iff [OF st]
    by (auto simp: db_inv_def row_good_def)
  show ?thesis
  proof (cases "may_transition r st actor ov")
    case True
    then have "update_where (transition_guard i st actor ov) (transition_row st note now) (todos db) =
        update_where (\<lambda>x. row_id x = i) (transition_row st note now) (todos db)"
      using uniq by (auto simp: update_where_def)
    then show ?thesis
      using True ok mem i uniq by (auto simp: update_todos_def moved_def rows_affected_pos)
  next
    case False
    then have z: "rows_affected (transition_guard i st actor ov) (todos db) = 0"
      using uniq by (auto simp: rows_affected_zero)
    then show ?thesis using False ok update_where_none [OF z] by (simp add: update_todos_def)
  qed
qed

lemma TransitionCascade_tx_total:
  assumes inv: "db_inv db" and r: "find_todo db i = Some r"
    and st: "st \<in> {TodoStatusDone, TodoStatusBlocked, TodoStatusTodo}"
    and len: "int (length note) \<le> todoNoteHardCeiling" and may: "may_transition r st actor ov"
  shows "\<exists>db' x. TransitionCascade_tx i st note actor ov now db = Inr (db', x) \<and>
    same_rows (moved i st note now db) db' \<and>
    map item_ID (tr_Unblocked x) = unblocked_ids (moved i st note now db) i st \<and>
    map item_ID (tr_DependencyBlocked x) = blocked_ids (moved i st note now db) i st (row_status r)"
proof -
  let ?db1 = "moved i st note now db"
  let ?us = "unblocked_ids ?db1 i st" and ?bs = "blocked_ids ?db1 i st (row_status r)"
  have u: "update_todos (transition_guard i st actor ov) (transition_row st note now) db = Inr ?db1"
    and n: "rows_affected (transition_guard i st actor ov) (todos db) \<noteq> 0"
    using transition_update [OF inv r st len, of actor ov now] may by simp_all
  have "db_inv ?db1" by (rule update_todos_inv [OF inv keeps_text_rows(3) u])
  then obtain db2 where 2: "touchTodoIDs ?us now ?db1 = Inr db2" "same_rows ?db1 db2" "db_inv db2"
    using touchTodoIDs_total by blast
  then obtain db3 where 3: "touchTodoIDs ?bs now db2 = Inr db3" "same_rows db2 db3"
    using touchTodoIDs_total by blast
  have same: "same_rows ?db1 db3" using 2 3 same_rows_trans by blast
  have ex: "find_todo db3 j \<noteq> None" if "status_of ?db1 j \<noteq> None" for j
    using that same_rows_status [OF same, of j] by (auto simp: status_of_def)
  have "status_of ?db1 i \<noteq> None" using status_of_moved [OF r] by simp
  then obtain q where q: "find_todo db3 i = Some q" using ex by blast
  have "\<forall>j \<in> set ?us. find_todo db3 j \<noteq> None" and "\<forall>j \<in> set ?bs. find_todo db3 j \<noteq> None"
    using ex by (auto simp: unblocked_ids_def blocked_ids_def readiness_ids)
  then obtain un bl where "loadTodoIDs db3 ?us = Inr un" "map item_ID un = ?us"
    "loadTodoIDs db3 ?bs = Inr bl" "map item_ID bl = ?bs" using loadTodoIDs_total by metis
  moreover have "st \<noteq> TodoStatusInProgress" using st by auto
  ultimately show ?thesis
    unfolding TransitionCascade_tx_def unblocked_ids_def [symmetric] blocked_ids_def [symmetric]
    using r u n 2(1) 3(1) q same by (simp add: fail_when_def Let_def getLocked_def)
qed

definition transition_allowed :: "TodoStore \<Rightarrow> string \<Rightarrow> string \<Rightarrow> string \<Rightarrow> string \<Rightarrow> bool \<Rightarrow> bool" where
  "transition_allowed s i st note actor ov \<longleftrightarrow>
    st \<in> {TodoStatusDone, TodoStatusBlocked, TodoStatusTodo} \<and> int (length note) \<le> noteLimit s \<and>
    (\<exists>r. find_todo (store_db s) i = Some r \<and> may_transition r st actor ov)"

lemma TransitionCascade_value:
  assumes inv: "store_inv s"
  shows "if transition_allowed s i st note actor ov
    then \<exists>r db' x. find_todo (store_db s) i = Some r \<and> may_transition r st actor ov \<and>
      TransitionCascade s i st note actor ov now = (s\<lparr>store_db := db'\<rparr>, Inr x) \<and>
      same_rows (moved i st note (rfc3339nano now) (store_db s)) db' \<and>
      map item_ID (tr_Unblocked x) = unblocked_ids (moved i st note (rfc3339nano now) (store_db s)) i st \<and>
      map item_ID (tr_DependencyBlocked x) =
        blocked_ids (moved i st note (rfc3339nano now) (store_db s)) i st (row_status r)
    else \<exists>e. TransitionCascade s i st note actor ov now = (s, Inl e)"
proof (cases "transition_allowed s i st note actor ov")
  case True
  then obtain r where st: "st \<in> {TodoStatusDone, TodoStatusBlocked, TodoStatusTodo}"
    and lim: "int (length note) \<le> noteLimit s"
    and r: "find_todo (store_db s) i = Some r" "may_transition r st actor ov"
    by (auto simp: transition_allowed_def)
  have len: "int (length note) \<le> todoNoteHardCeiling"
    using lim inv by (auto simp: noteLimit_def store_inv_def)
  have "validTodoStatus st" using st by (auto simp: validTodoStatus_def)
  moreover obtain db' x where
    "TransitionCascade_tx i st note actor ov (rfc3339nano now) (store_db s) = Inr (db', x)"
    "same_rows (moved i st note (rfc3339nano now) (store_db s)) db'"
    "map item_ID (tr_Unblocked x) = unblocked_ids (moved i st note (rfc3339nano now) (store_db s)) i st"
    "map item_ID (tr_DependencyBlocked x) =
      blocked_ids (moved i st note (rfc3339nano now) (store_db s)) i st (row_status r)"
    using TransitionCascade_tx_total [OF _ r(1) st len r(2), of "rfc3339nano now"] inv
    by (auto simp: store_inv_def)
  ultimately show ?thesis
    using True lim r by (auto simp: TransitionCascade_def fail_when_def commit_def)
next
  case False
  have "\<not> (\<exists>db' x. fail_when (\<not> validTodoStatus st) (ErrInvalidStatus st)
      (fail_when (noteLimit s < int (length note)) (ErrNoteTooLong (noteLimit s))
        (TransitionCascade_tx i st note actor ov (rfc3339nano now) (store_db s))) = Inr (db', x))"
  proof (intro notI, elim exE)
    fix db' x assume "fail_when (\<not> validTodoStatus st) (ErrInvalidStatus st)
      (fail_when (noteLimit s < int (length note)) (ErrNoteTooLong (noteLimit s))
        (TransitionCascade_tx i st note actor ov (rfc3339nano now) (store_db s))) = Inr (db', x)"
    then have v: "validTodoStatus st" "int (length note) \<le> noteLimit s"
      and tx: "TransitionCascade_tx i st note actor ov (rfc3339nano now) (store_db s) = Inr (db', x)"
      by (auto simp: fail_when_Inr)
    from tx obtain r where "find_todo (store_db s) i = Some r" "st \<noteq> TodoStatusInProgress"
      "0 < rows_affected (transition_guard i st actor ov) (todos (store_db s))"
      by (rule TransitionCascade_txE)
    moreover from this v have "st \<in> {TodoStatusDone, TodoStatusBlocked, TodoStatusTodo}"
      by (auto simp: validTodoStatus_def)
    ultimately show False
      using False v inv transition_update [of "store_db s" i r st "note" actor ov]
      by (auto simp: transition_allowed_def store_inv_def noteLimit_def split: if_splits)
  qed
  then show ?thesis using False unfolding TransitionCascade_def
    by (auto simp: commit_def split: sum.splits)
qed


lemma example_not_allowed: "\<not> transition_allowed example_store ''td-1'' ''done'' [] ''s'' True"
  by (auto simp: transition_allowed_def may_transition_def example_store_value find_todo_def todo_status_defs)


text \<open>An accepted status change reports exactly the unclaimed items whose readiness it changed:
  \<open>Unblocked\<close> lists those that waited on an unfinished dependency before and no longer do, and
  \<open>DependencyBlocked\<close> those that did not wait before and do now.\<close>

theorem TransitionCascade_readiness:
  assumes inv: "store_inv s" and tr: "TransitionCascade s i st note actor ov now = (t, Inr x)"
  shows "item_ID ` set (tr_Unblocked x) =
      {j. status_of (store_db t) j = Some TodoStatusTodo \<and> waiting (store_db s) j \<and> \<not> waiting (store_db t) j} \<and>
    item_ID ` set (tr_DependencyBlocked x) =
      {j. status_of (store_db t) j = Some TodoStatusTodo \<and> \<not> waiting (store_db s) j \<and> waiting (store_db t) j}"
proof -
  let ?db1 = "moved i st note (rfc3339nano now) (store_db s)"
  have "transition_allowed s i st note actor ov"
    using TransitionCascade_value [OF inv, of i st "note" actor ov now] tr by (auto split: if_splits)
  then obtain r where r: "find_todo (store_db s) i = Some r" "may_transition r st actor ov"
    and same: "same_rows ?db1 (store_db t)" and u: "map item_ID (tr_Unblocked x) = unblocked_ids ?db1 i st"
    and b: "map item_ID (tr_DependencyBlocked x) = blocked_ids ?db1 i st (row_status r)"
    using TransitionCascade_value [OF inv, of i st "note" actor ov now] tr by auto
  have nd: "not_done ?db1 d \<longleftrightarrow> (if d = i then st \<noteq> TodoStatusDone else not_done (store_db s) d)" for d
    using status_of_moved [OF r(1), of st "note" "rfc3339nano now" d] by (auto simp: not_done_status)
  have nd0: "not_done (store_db s) i \<longleftrightarrow> row_status r \<noteq> TodoStatusDone"
    using r(1) by (simp add: not_done_def)
  have deps: "todo_deps ?db1 = todo_deps (store_db s)" by (simp add: moved_def)
  have w0: "waiting (store_db s) j \<longleftrightarrow> (\<exists>d. (j, d) \<in> set (todo_deps (store_db s)) \<and> not_done (store_db s) d)"
    for j by (auto simp: waiting_def)
  have w1: "waiting ?db1 j \<longleftrightarrow> (\<exists>d. (j, d) \<in> set (todo_deps (store_db s)) \<and>
      (if d = i then st \<noteq> TodoStatusDone else not_done (store_db s) d))" for j
    by (auto simp: waiting_def deps nd)
  note rules = same_rows_waiting [OF same] same_rows_status [OF same]
  have "set (unblocked_ids ?db1 i st) = {j. status_of ?db1 j = Some TodoStatusTodo \<and>
      waiting (store_db s) j \<and> \<not> waiting ?db1 j}"
  proof (cases "st = TodoStatusDone")
    case True
    then have "not_done (store_db s) i" using nd0 r(2) by (auto simp: may_transition_def)
    then show ?thesis
      unfolding unblocked_ids_def readiness_ids if_P [OF True] if_True deps w0 w1 using True by auto
  next
    case False
    then have "not_done (store_db s) d \<Longrightarrow> not_done ?db1 d" for d by (auto simp: nd)
    then have "waiting (store_db s) j \<Longrightarrow> waiting ?db1 j" for j by (auto simp: waiting_def deps)
    then show ?thesis using False by (auto simp: unblocked_ids_def)
  qed
  moreover have "set (blocked_ids ?db1 i st (row_status r)) =
      {j. status_of ?db1 j = Some TodoStatusTodo \<and> \<not> waiting (store_db s) j \<and> waiting ?db1 j}"
  proof (cases "st = TodoStatusTodo \<and> row_status r = TodoStatusDone")
    case True
    then have "\<not> not_done (store_db s) i" "st \<noteq> TodoStatusDone" using nd0 by auto
    then show ?thesis
      unfolding blocked_ids_def readiness_ids if_P [OF True] if_False deps w0 w1 nd by auto
  next
    case False
    then have "not_done ?db1 d \<Longrightarrow> not_done (store_db s) d" for d
      using r(2) nd0 by (auto simp: nd may_transition_def split: if_splits)
    then have "waiting ?db1 j \<Longrightarrow> waiting (store_db s) j" for j by (auto simp: waiting_def deps)
    then show ?thesis using False by (auto simp: blocked_ids_def)
  qed
  ultimately show ?thesis
    using arg_cong [OF u, of set] arg_cong [OF b, of set] by (simp add: rules)
qed

definition claimed_store :: TodoStore where
  "claimed_store = fst (Claim example_store ''td-1'' ''s'' False 0)"

lemma claimed_store_inv: "store_inv claimed_store"
  unfolding claimed_store_def by (rule Claim_inv [OF example_store_inv])

theorem TransitionCascade_readiness_witness:
  "\<exists>t x. TransitionCascade claimed_store ''td-1'' ''done'' [] ''s'' False 0 = (t, Inr x) \<and>
    ''td-2'' \<in> item_ID ` set (tr_Unblocked x)"
proof -
  obtain t x where t: "TransitionCascade claimed_store ''td-1'' ''done'' [] ''s'' False 0 = (t, Inr x)"
    "t = fst (TransitionCascade claimed_store ''td-1'' ''done'' [] ''s'' False 0)"
  proof -
    have "case snd (TransitionCascade claimed_store ''td-1'' ''done'' [] ''s'' False 0) of Inl e \<Rightarrow> False | Inr x \<Rightarrow> True"
      by code_simp
    then show thesis
      using that by (cases "TransitionCascade claimed_store ''td-1'' ''done'' [] ''s'' False 0")
        (auto split: sum.splits)
  qed
  have "status_of (store_db t) ''td-2'' = Some TodoStatusTodo" unfolding t(2) by code_simp
  moreover have "waiting (store_db claimed_store) ''td-2''" by code_simp
  moreover have "\<not> waiting (store_db t) ''td-2''" unfolding t(2) by code_simp
  ultimately show ?thesis
    using TransitionCascade_readiness [OF claimed_store_inv t(1)] t(1) by blast
qed

end
