(* ===== verification/Todo_Retention.thy ===== *)
theory Todo_Retention
  imports Todo_Props
begin

text \<open>
  What the remaining operations of the task store may change: field updates, removal with its
  cascade, reopening, the retention sweep, and what a list shows. The last section evaluates the
  store on the inputs where its behaviour differs from its comments.
\<close>

section \<open>Field updates\<close>

definition identity_fields where
  "identity_fields r = (row_id r, row_status r, row_scope r, row_owner r, row_assignee r, row_parent_id r,
     row_created_by r, row_created_at r)"

definition update_frame :: "string \<Rightarrow> todo_db \<Rightarrow> todo_db \<Rightarrow> bool" where
  "update_frame i db db' \<longleftrightarrow>
    map identity_fields (todos db') = map identity_fields (todos db) \<and>
    filter (\<lambda>r. row_id r \<noteq> i) (todos db') = filter (\<lambda>r. row_id r \<noteq> i) (todos db) \<and>
    filter (\<lambda>e. fst e \<noteq> i) (todo_tags db') = filter (\<lambda>e. fst e \<noteq> i) (todo_tags db) \<and>
    filter (\<lambda>e. fst e \<noteq> i) (todo_deps db') = filter (\<lambda>e. fst e \<noteq> i) (todo_deps db) \<and>
    todo_seeds db' = todo_seeds db"

lemma update_frame_refl [simp]: "update_frame i db db"
  by (simp add: update_frame_def)

lemma update_frame_trans: "update_frame i a b \<Longrightarrow> update_frame i b c \<Longrightarrow> update_frame i a c"
  by (simp add: update_frame_def)

lemma update_frame_set_field:
  assumes "set_field i g db = Inr db'" and "\<And>r. identity_fields (g r) = identity_fields r"
  shows "update_frame i db db'"
proof -
  have db': "db' = db\<lparr>todos := update_where (\<lambda>r. row_id r = i) g (todos db)\<rparr>"
    using assms(1) by (auto simp: set_field_def update_todos_def split: if_splits)
  have "row_id (g r) = row_id r" for r using assms(2) [of r] by (simp add: identity_fields_def)
  then have "filter (\<lambda>r. row_id r \<noteq> i) (update_where (\<lambda>r. row_id r = i) g xs) = filter (\<lambda>r. row_id r \<noteq> i) xs" for xs
    by (induction xs) auto
  then show ?thesis using assms(2) by (simp add: update_frame_def db' map_update_where_key)
qed

lemma update_frame_tags: "update_frame i db (update_tags i tags db)"
proof -
  have "filter (\<lambda>e. fst e \<noteq> i) (todo_tags (fold (insert_tag i) ts db0)) = filter (\<lambda>e. fst e \<noteq> i) (todo_tags db0)"
    for ts db0 by (induction ts arbitrary: db0) (simp_all add: insert_tag_def)
  moreover have "todo_seeds (fold (insert_tag i) ts db0) = todo_seeds db0" for ts db0
    by (induction ts arbitrary: db0) (simp_all add: insert_tag_def)
  ultimately show ?thesis by (simp add: update_frame_def update_tags_def split: option.splits)
qed

lemma update_frame_dependencies:
  assumes "replaceTodoDependencies i sc ids db = Inr db'"
  shows "update_frame i db db'"
proof -
  have "update_frame i db db'" if "rfold (insert_dependency i) ds db0 = Inr db'" "update_frame i db db0" for ds db0
    using that(2)
    by (rule rfold_invariant [OF that(1)]) (auto simp: insert_dependency_def update_frame_def split: if_splits)
  moreover have "update_frame i db (clear_dependencies i db)"
    by (auto simp: update_frame_def clear_dependencies_def intro: filter_cong)
  ultimately show ?thesis
    using assms by (auto simp: replaceTodoDependencies_def rbind_Inr split: option.splits)
qed

lemma UpdateFieldsCascade_tx_frame:
  assumes "UpdateFieldsCascade_tx s i title note tags position dependsOn now db = Inr (db', x)"
  shows "update_frame i db db'"
  using assms
proof (rule UpdateFieldsCascade_txE)
  fix current db1 db2 db3 db4
  assume 1: "update_title s i title db = Inr db1" and 2: "update_note s i note db1 = Inr db2"
    and 3: "update_position i position db2 = Inr db3"
    and 4: "(case dependsOn of None \<Rightarrow> Inr (update_tags i tags db3)
       | Some ds \<Rightarrow> replaceTodoDependencies i (item_Scope current) ds (update_tags i tags db3)) = Inr db4"
    and 5: "set_field i (\<lambda>r. r\<lparr>row_revision := row_revision r + 1, row_updated_at := now\<rparr>) db4 = Inr db'"
  have "update_frame i db db1"
    using 1 by (auto simp: update_title_def Let_def fail_when_Inr identity_fields_def split: option.splits
        intro: update_frame_set_field)
  moreover have "update_frame i db1 db2"
    using 2 by (auto simp: update_note_def fail_when_Inr identity_fields_def split: option.splits
        intro: update_frame_set_field)
  moreover have "update_frame i db2 db3"
    using 3 by (auto simp: update_position_def identity_fields_def split: option.splits
        intro: update_frame_set_field)
  moreover have "update_frame i db3 db4"
    using 4 update_frame_tags [of i db3 tags]
    by (auto split: option.splits intro: update_frame_trans dest: update_frame_dependencies)
  moreover have "update_frame i db4 db'"
    using 5 by (rule update_frame_set_field) (simp add: identity_fields_def)
  ultimately show ?thesis using update_frame_trans by blast
qed

text \<open>Editing an item never changes the status, scope, owner, assignee, parent or creation data of
  any item, and leaves every other item, its tags and its dependencies alone; a failed edit leaves
  the whole store unchanged.\<close>

theorem UpdateFieldsCascade_frame:
  "update_frame i (store_db s)
      (store_db (fst (UpdateFieldsCascade s i title note tags position dependsOn now))) \<and>
   (\<forall>e. snd (UpdateFieldsCascade s i title note tags position dependsOn now) = Inl e \<longrightarrow>
      fst (UpdateFieldsCascade s i title note tags position dependsOn now) = s)"
proof (cases "UpdateFieldsCascade_tx s i title note tags position dependsOn (rfc3339nano now) (store_db s)")
  case (Inl e)
  then show ?thesis by (simp add: UpdateFieldsCascade_def commit_def)
next
  case (Inr y)
  obtain db' x where y: "y = (db', x)" by force
  show ?thesis
    using UpdateFieldsCascade_tx_frame [of s i title "note" tags position dependsOn] Inr
    by (simp add: UpdateFieldsCascade_def commit_def y)
qed

theorem UpdateFieldsCascade_frame_witness:
  "update_frame ''td-2'' (store_db example_store)
    (store_db (fst (UpdateFieldsCascade example_store ''td-2'' (Some ''b'') None (Some [''x'']) (Some 9)
      (Some []) 7)))"
  using UpdateFieldsCascade_frame [of "''td-2''" example_store "Some ''b''" None "Some [''x'']" "Some 9" "Some []" 7]
  by blast

section \<open>Removal\<close>

definition item_and_children :: "todo_db \<Rightarrow> string \<Rightarrow> string set" where
  "item_and_children db i = insert i {row_id c | c. c \<in> set (todos db) \<and> row_parent_id c = Some i}"

lemma external_dependents_Nil:
  "external_dependents db del = [] \<longleftrightarrow>
    (\<forall>t d. (t, d) \<in> set (todo_deps db) \<longrightarrow> d \<in> set del \<longrightarrow> t \<in> set del)"
proof -
  have "external_dependents db del = [] \<longleftrightarrow>
      filter (\<lambda>(t, d). d \<in> set del \<and> t \<notin> set del) (todo_deps db) = []"
    using length_sort [of fst "filter (\<lambda>(t, d). d \<in> set del \<and> t \<notin> set del) (todo_deps db)"]
    by (simp only: external_dependents_def length_0_conv [symmetric])
  then show ?thesis by (auto simp: filter_empty_conv)
qed

text \<open>An item is removed exactly when it exists and no item outside it and its sub-items depends on
  one of them. Removal deletes the item, its sub-items, their tags and their dependencies and
  nothing else; otherwise the store is unchanged and an error is returned.\<close>

theorem Remove_exact:
  assumes inv: "store_inv s"
  shows "if find_todo (store_db s) i \<noteq> None \<and>
      (\<forall>t d. (t, d) \<in> set (todo_deps (store_db s)) \<longrightarrow> d \<in> item_and_children (store_db s) i \<longrightarrow>
        t \<in> item_and_children (store_db s) i)
    then \<exists>t. Remove s i = (t, Inr ()) \<and>
      todos (store_db t) = filter (\<lambda>r. row_id r \<noteq> i \<and> row_parent_id r \<noteq> Some i) (todos (store_db s)) \<and>
      set (todo_deps (store_db t)) =
        {(a, d) \<in> set (todo_deps (store_db s)). a \<notin> item_and_children (store_db s) i} \<and>
      set (todo_tags (store_db t)) =
        {(a, x) \<in> set (todo_tags (store_db s)). a \<notin> item_and_children (store_db s) i}
    else \<exists>e. Remove s i = (s, Inl e)"
proof (cases "find_todo (store_db s) i")
  case None
  then have "external_dependents (store_db s) (deletion_set (store_db s) i) = []"
    by (simp add: external_dependents_Nil deletion_set_def)
  then show ?thesis
    using None by (simp add: Remove_def Remove_tx_def Let_def fail_when_def delete_todos_def commit_def
        deletion_set_def)
next
  case (Some r)
  let ?db = "store_db s" and ?D = "item_and_children (store_db s) i"
  have dinv: "db_inv ?db" using inv by (simp add: store_inv_def)
  then have D: "set (deletion_set ?db i) = ?D"
    using deletion_set_one_level [of ?db i] Some by (simp add: item_and_children_def)
  have rows: "filter (\<lambda>r. row_id r \<notin> ?D) (todos ?db) =
      filter (\<lambda>r. row_id r \<noteq> i \<and> row_parent_id r \<noteq> Some i) (todos ?db)"
  proof (rule filter_cong [OF refl])
    fix x assume x: "x \<in> set (todos ?db)"
    have "x = c" if "c \<in> set (todos ?db)" "row_id x = row_id c" for c
      using dinv x that by (auto simp: db_inv_def dest: distinct_map_unique)
    then show "row_id x \<notin> ?D \<longleftrightarrow> row_id x \<noteq> i \<and> row_parent_id x \<noteq> Some i"
      using x by (auto simp: item_and_children_def)
  qed
  show ?thesis
  proof (cases "external_dependents ?db (deletion_set ?db i)")
    case Nil
    then have ext: "\<forall>t d. (t, d) \<in> set (todo_deps ?db) \<longrightarrow> d \<in> ?D \<longrightarrow> t \<in> ?D"
      by (simp only: external_dependents_Nil D)
    have "Remove s i = (s\<lparr>store_db := ?db\<lparr>
        todos := filter (\<lambda>r. row_id r \<notin> ?D) (todos ?db),
        todo_tags := filter (\<lambda>(t, x). t \<notin> ?D) (todo_tags ?db),
        todo_deps := filter (\<lambda>(t, d). t \<notin> ?D) (filter (\<lambda>(t, d). d \<notin> ?D) (todo_deps ?db)),
        todo_seeds := filter (\<lambda>s. seed_todo_id s \<notin> ?D) (todo_seeds ?db)\<rparr>\<rparr>, Inr ())"
      using Nil Some by (auto simp: Remove_def Remove_tx_def Let_def fail_when_def delete_todos_def commit_def D)
    then show ?thesis using ext Some rows by auto
  next
    case (Cons e es)
    then have "\<not> (\<forall>t d. (t, d) \<in> set (todo_deps ?db) \<longrightarrow> d \<in> ?D \<longrightarrow> t \<in> ?D)"
      using external_dependents_Nil [of ?db "deletion_set ?db i"] unfolding D by (metis list.distinct(1))
    moreover have "\<exists>err. Remove s i = (s, Inl err)"
      using Cons by (cases e) (simp add: Remove_def Remove_tx_def commit_def)
    ultimately show ?thesis by (metis (mono_tags, lifting))
  qed
qed

theorem Remove_exact_witness: "\<exists>e. Remove example_store ''td-1'' = (example_store, Inl e)"
proof -
  have "row_parent_id c = None" if "c \<in> set (todos (store_db example_store))" for c
    using that by (auto simp: example_store_value)
  then have D: "item_and_children (store_db example_store) ''td-1'' = {''td-1''}"
    by (fastforce simp: item_and_children_def)
  have "(''td-2'', ''td-1'') \<in> set (todo_deps (store_db example_store))"
    by (simp add: example_store_value)
  then have "\<not> (\<forall>t d. (t, d) \<in> set (todo_deps (store_db example_store)) \<longrightarrow>
      d \<in> {''td-1''} \<longrightarrow> t \<in> {''td-1''})" by fastforce
  then show ?thesis using Remove_exact [OF example_store_inv, of "''td-1''", unfolded D] by argo
qed

section \<open>Reopening\<close>

lemma reopen_where_value:
  assumes "store_inv s"
  shows "reopen_where p s now =
    (s\<lparr>store_db := (store_db s)\<lparr>todos := update_where p (reopen_row (rfc3339nano now)) (todos (store_db s))\<rparr>\<rparr>,
     Inr (rows_affected p (todos (store_db s))))"
proof -
  have "row_ok (reopen_row (rfc3339nano now) r)" if "r \<in> set (todos (store_db s))" for r
    using assms that by (auto simp: store_inv_def db_inv_def row_good_def row_ok_def reopen_row_def
        validTodoStatus_def)
  then show ?thesis by (simp add: reopen_where_def update_todos_def commit_def)
qed

text \<open>When a session stops, reopening its work leaves it with no in-progress item, returns every one
  of them (and only them) to the unclaimed state with its assignee kept, and reports their number.\<close>

theorem ReopenOwnedBy_exact:
  assumes "store_inv s" and "owner \<noteq> []"
  shows "\<exists>t. ReopenOwnedBy s owner now =
      (t, Inr (length (filter (\<lambda>r. row_owner r = owner \<and> row_status r = TodoStatusInProgress) (todos (store_db s))))) \<and>
    \<not> (\<exists>r \<in> set (todos (store_db t)). row_owner r = owner \<and> row_status r = TodoStatusInProgress) \<and>
    map row_assignee (todos (store_db t)) = map row_assignee (todos (store_db s)) \<and>
    (\<forall>r \<in> set (todos (store_db s)). if row_owner r = owner \<and> row_status r = TodoStatusInProgress
       then reopen_row (rfc3339nano now) r \<in> set (todos (store_db t)) else r \<in> set (todos (store_db t)))"
proof -
  let ?p = "\<lambda>r. row_owner r = owner \<and> row_status r = TodoStatusInProgress"
  let ?ts = "update_where ?p (reopen_row (rfc3339nano now)) (todos (store_db s))"
  have "map row_assignee ?ts = map row_assignee (todos (store_db s))"
    by (rule map_update_where_key) (simp add: reopen_row_def)
  moreover have "\<not> (\<exists>r \<in> set ?ts. ?p r)"
    by (auto simp: reopen_row_def elim!: in_update_whereE split: if_splits)
  moreover have "if ?p r then reopen_row (rfc3339nano now) r \<in> set ?ts else r \<in> set ?ts"
    if "r \<in> set (todos (store_db s))" for r
    using in_update_whereI [OF that, of ?p "reopen_row (rfc3339nano now)"] by (cases "?p r") auto
  ultimately show ?thesis
    using assms by (simp add: ReopenOwnedBy_def reopen_where_value rows_affected_def)
qed

theorem ReopenOwnedBy_exact_witness:
  "\<exists>t. ReopenOwnedBy claimed_store ''s'' 0 =
    (t, Inr (length (filter (\<lambda>r. row_owner r = ''s'' \<and> row_status r = TodoStatusInProgress)
      (todos (store_db claimed_store)))))"
  using ReopenOwnedBy_exact [OF claimed_store_inv, of "''s''" 0] by auto

section \<open>The retention sweep\<close>

text \<open>The tables during the sweep only lose rows and edges.\<close>

definition sub_db :: "todo_db \<Rightarrow> todo_db \<Rightarrow> bool" where
  "sub_db db' db \<longleftrightarrow> set (todos db') \<subseteq> set (todos db) \<and> set (todo_deps db') \<subseteq> set (todo_deps db)"

lemma delete_rows_sweep:
  assumes "db_inv db0" and "db_inv db" and "sub_db db db0"
    and "\<forall>i \<in> set ids. \<forall>(t, d) \<in> set (todo_deps db0). d \<notin> item_and_children db0 i"
  shows "\<exists>db' n. delete_rows ids db = Inr (db', n) \<and> sub_db db' db \<and>
    (\<forall>r \<in> set (todos db'). row_id r \<notin> set ids) \<and>
    (\<forall>r \<in> set (todos db) - set (todos db'). \<exists>i \<in> set ids. row_id r \<in> item_and_children db0 i)"
  using assms(2-4)
proof (induction ids arbitrary: db)
  case Nil
  then show ?case by (simp add: sub_db_def)
next
  case (Cons i ids)
  have pre: "\<forall>i \<in> set ids. \<forall>(t, d) \<in> set (todo_deps db0). d \<notin> item_and_children db0 i"
    using Cons.prems(3) by simp
  show ?case
  proof (cases "find_todo db i")
    case None
    then have i: "\<forall>r \<in> set (todos db). row_id r \<noteq> i" by (auto simp: find_todo_None)
    obtain db' n where "delete_rows ids db = Inr (db', n)" "sub_db db' db"
      "\<forall>r \<in> set (todos db'). row_id r \<notin> set ids"
      "\<forall>r \<in> set (todos db) - set (todos db'). \<exists>i \<in> set ids. row_id r \<in> item_and_children db0 i"
      using Cons.IH [OF Cons.prems(1,2) pre] by blast
    then show ?thesis using i None by (auto simp: sub_db_def)
  next
    case (Some r)
    let ?D = "set (deletion_set db i)"
    have D: "?D = item_and_children db i"
      using deletion_set_one_level [OF Cons.prems(1)] Some by (simp add: item_and_children_def)
    have sub: "?D \<subseteq> item_and_children db0 i"
      using Cons.prems(2) unfolding D by (auto simp: item_and_children_def sub_db_def)
    then have "\<forall>t d. (t, d) \<in> set (todo_deps db) \<longrightarrow> d \<notin> ?D"
      using Cons.prems(2,3) by (fastforce simp: sub_db_def)
    then obtain db1 where del: "delete_todos ?D db = Inr db1" using delete_todos_Inr by blast
    have t1: "todos db1 = filter (\<lambda>r. row_id r \<notin> ?D) (todos db)" "set (todo_deps db1) \<subseteq> set (todo_deps db)"
      using del by (auto simp: delete_todos_Inr)
    have "db_inv db1" by (rule delete_todos_inv [OF Cons.prems(1) deletion_set_closed del])
    moreover have "sub_db db1 db0" using Cons.prems(2) t1 by (auto simp: sub_db_def)
    ultimately obtain db' n where ih: "delete_rows ids db1 = Inr (db', n)" "sub_db db' db1"
      "\<forall>r \<in> set (todos db'). row_id r \<notin> set ids"
      "\<forall>r \<in> set (todos db1) - set (todos db'). \<exists>i \<in> set ids. row_id r \<in> item_and_children db0 i"
      using Cons.IH [OF _ _ pre] by blast
    have "i \<in> ?D" unfolding D by (simp add: item_and_children_def)
    then have "\<forall>r \<in> set (todos db'). row_id r \<noteq> i" using ih(2) t1 by (auto simp: sub_db_def)
    moreover have "\<exists>i' \<in> set (i # ids). row_id x \<in> item_and_children db0 i'"
      if "x \<in> set (todos db) - set (todos db')" for x
      using that ih(4) t1(1) sub by (cases "x \<in> set (todos db1)") auto
    moreover have "sub_db db' db" using ih(2) t1 by (auto simp: sub_db_def)
    ultimately show ?thesis using ih(1,3) del Some by auto
  qed
qed

lemma SweepDoneExceptScopes_value:
  assumes inv: "store_inv s" and age: "0 < maxAge"
  shows "\<exists>t n. SweepDoneExceptScopes s maxAge protected now = (t, Inr n) \<and>
    set (todos (store_db t)) \<subseteq> set (todos (store_db s)) \<and>
    (\<forall>r \<in> set (todos (store_db s)). sweepable (store_db s) (rfc3339nano (now - maxAge)) protected r \<longrightarrow>
       r \<notin> set (todos (store_db t))) \<and>
    (\<forall>r \<in> set (todos (store_db s)) - set (todos (store_db t)).
       row_status r = TodoStatusDone \<and> row_scope r \<notin> set protected \<and>
       row_id r \<notin> snd ` set (todo_deps (store_db s)) \<and>
       (sweepable (store_db s) (rfc3339nano (now - maxAge)) protected r \<or>
        (\<exists>p \<in> set (todos (store_db s)). row_parent_id r = Some (row_id p) \<and>
           sweepable (store_db s) (rfc3339nano (now - maxAge)) protected p)))"
proof -
  let ?db = "store_db s" and ?sw = "sweepable (store_db s) (rfc3339nano (now - maxAge)) protected"
  let ?ids = "map row_id (filter ?sw (todos ?db))"
  have dinv: "db_inv ?db" using inv by (simp add: store_inv_def)
  have uniq: "x = y" if "x \<in> set (todos ?db)" "y \<in> set (todos ?db)" "row_id x = row_id y" for x y
    using dinv that by (auto simp: db_inv_def dest: distinct_map_unique)
  have "\<forall>i \<in> set ?ids. \<forall>(t, d) \<in> set (todo_deps ?db). d \<notin> item_and_children ?db i"
    by (force simp: sweepable_def item_and_children_def)
  then obtain db' n where d: "delete_rows ?ids ?db = Inr (db', n)" "sub_db db' ?db"
    "\<forall>r \<in> set (todos db'). row_id r \<notin> set ?ids"
    "\<forall>r \<in> set (todos ?db) - set (todos db'). \<exists>i \<in> set ?ids. row_id r \<in> item_and_children ?db i"
    using delete_rows_sweep [OF dinv dinv, of ?ids] by (auto simp: sub_db_def)
  have "row_status r = TodoStatusDone \<and> row_scope r \<notin> set protected \<and>
      row_id r \<notin> snd ` set (todo_deps ?db) \<and>
      (?sw r \<or> (\<exists>p \<in> set (todos ?db). row_parent_id r = Some (row_id p) \<and> ?sw p))"
    if gone: "r \<in> set (todos ?db) - set (todos db')" for r
  proof -
    obtain h where h: "h \<in> set (todos ?db)" "?sw h" "row_id r \<in> item_and_children ?db (row_id h)"
      using bspec [OF d(4) gone] by auto
    show ?thesis
    proof (cases "row_id r = row_id h")
      case True
      then have "r = h" using uniq h(1) gone by blast
      then show ?thesis using h(2) by (auto simp: sweepable_def)
    next
      case False
      then have par: "row_parent_id r = Some (row_id h)"
        using h(3) gone uniq by (auto simp: item_and_children_def)
      moreover have "row_scope h = row_scope r"
        using par gone dinv h(1) uniq by (fastforce simp: db_inv_def parents_ok_def find_todo_Some)
      ultimately show ?thesis using h(1,2) gone by (auto simp: sweepable_def)
    qed
  qed
  moreover have "SweepDoneExceptScopes s maxAge protected now = (s\<lparr>store_db := db'\<rparr>, Inr n)"
    using age d(1) by (simp add: SweepDoneExceptScopes_def commit_def)
  moreover have "set (todos db') \<subseteq> set (todos ?db)" using d(2) by (simp add: sub_db_def)
  moreover have "r \<notin> set (todos db')" if "r \<in> set (todos ?db)" "?sw r" for r
    using d(3) that by auto
  ultimately show ?thesis by auto
qed



section \<open>Lists\<close>

lemma status_filter_effective:
  "appendTodoStatusFilter db st r \<longleftrightarrow> item_Status (hydrate db r) = st"
  by (auto simp: appendTodoStatusFilter_def hydrate_status)

definition list_matches :: "todo_db \<Rightarrow> string \<Rightarrow> TodoFilter \<Rightarrow> todo_row \<Rightarrow> bool" where
  "list_matches db scope f r \<longleftrightarrow>
    row_scope r = scope \<and> filter_Status f \<in> {[], item_Status (hydrate db r)} \<and>
    filter_Owner f \<in> {[], row_owner r} \<and> (filter_Tag f = [] \<or> (row_id r, filter_Tag f) \<in> set (todo_tags db))"

lemma list_matches_iff:
  "row_scope r = scope \<and> todo_filter_matches db f r \<longleftrightarrow> list_matches db scope f r"
  unfolding list_matches_def todo_filter_matches_def status_filter_effective by auto

lemma sorted_take: "sorted xs \<Longrightarrow> sorted (take n xs)"
  by (rule sorted_wrt_take)

text \<open>A list shows items of the scope whose effective status (an unclaimed item that waits on an
  unfinished dependency counts as blocked), owner and tag pass the filter, ordered by position and
  identifier and never more than the store's limit; when the limit is not reached it shows all.\<close>

theorem List_todos_exact:
  "(let matching = filter (list_matches (store_db s) scope f) (todos (store_db s));
        shown = List_todos s scope f
    in sorted (map (\<lambda>it. (item_Position it, item_ID it)) shown) \<and>
       length shown = min (nat (listCap s)) (length matching) \<and>
       set shown \<subseteq> hydrate (store_db s) ` set matching \<and>
       (length matching \<le> nat (listCap s) \<longrightarrow> set shown = hydrate (store_db s) ` set matching))"
proof -
  let ?m = "filter (list_matches (store_db s) scope f) (todos (store_db s))"
  let ?f = "\<lambda>r :: todo_row. (row_position r, row_id r)"
  have eq: "List_todos s scope f = map (hydrate (store_db s)) (take (nat (listCap s)) (sort_key ?f ?m))"
    unfolding List_todos_def queryTodos_def list_matches_iff ..
  have "(\<lambda>it. (item_Position it, item_ID it)) \<circ> hydrate (store_db s) = ?f" by (simp add: fun_eq_iff)
  then have "map (\<lambda>it. (item_Position it, item_ID it)) (List_todos s scope f) =
      take (nat (listCap s)) (map ?f (sort_key ?f ?m))"
    by (simp only: eq map_map take_map)
  then have "sorted (map (\<lambda>it. (item_Position it, item_ID it)) (List_todos s scope f))"
    by (simp add: sorted_take)
  moreover have "set (List_todos s scope f) \<subseteq> hydrate (store_db s) ` set ?m"
  proof -
    have "set (take (nat (listCap s)) (sort_key ?f ?m)) \<subseteq> set ?m"
      by (metis set_sort set_take_subset)
    then show ?thesis unfolding eq by auto
  qed
  moreover have "length (List_todos s scope f) = min (nat (listCap s)) (length ?m)"
    unfolding eq by simp
  moreover have "set (List_todos s scope f) = hydrate (store_db s) ` set ?m"
    if "length ?m \<le> nat (listCap s)"
    using that unfolding eq by (simp only: take_all length_sort length_map set_map set_sort)
  ultimately show ?thesis unfolding Let_def by blast
qed

definition blocked_filter :: TodoFilter where
  "blocked_filter = \<lparr>filter_Status = ''blocked'', filter_Tag = [], filter_Owner = []\<rparr>"

theorem List_todos_exact_witness:
  "map item_ID (List_todos example_store ''u'' blocked_filter) = [''td-2''] \<and>
   sorted (map (\<lambda>it. (item_Position it, item_ID it)) (List_todos example_store ''u'' blocked_filter))"
proof
  show "map item_ID (List_todos example_store ''u'' blocked_filter) = [''td-2'']" by code_simp
  show "sorted (map (\<lambda>it. (item_Position it, item_ID it)) (List_todos example_store ''u'' blocked_filter))"
    using List_todos_exact [of example_store "''u''" blocked_filter] by (simp only: Let_def)
qed

section \<open>Batches and seeds\<close>

lemma batch_hydrate_Inr:
  "batch_hydrate db rs = Inr its \<Longrightarrow>
    map fst its = map fst rs \<and> map (item_ID \<circ> snd) its = map (row_id \<circ> snd) rs"
proof (induction db rs arbitrary: its rule: batch_hydrate.induct)
  case (1 db)
  then show ?case by simp
next
  case (2 db k r rs)
  then obtain it its' where it: "getLocked db (row_id r) = Inr it"
    and rest: "batch_hydrate db rs = Inr its'" and its: "its = (k, it) # its'"
    by (auto simp: rbind_Inr)
  from it have "item_ID it = row_id r" by (auto simp: getLocked_Inr dest: find_todo_SomeD)
  with "2.IH" [OF rest] show ?case by (simp add: its)
qed

text \<open>A batch is all or nothing. When it succeeds the existing rows are untouched, exactly one row
  per entry is appended in the order of the entries, and the result maps the entries' keys to those
  rows; when it fails the store is unchanged.\<close>

theorem AddBatch_atomic:
  assumes inv: "store_inv s"
  shows "case AddBatch s entries ids clk of
      (t, Inl e) \<Rightarrow> t = s
    | (t, Inr its) \<Rightarrow> map fst its = map batch_Key entries \<and>
        (\<exists>new. todos (store_db t) = todos (store_db s) @ new \<and> map row_id new = map (item_ID \<circ> snd) its)"
proof (cases "entries = []")
  case True
  then show ?thesis by (simp add: AddBatch_def)
next
  case False
  show ?thesis
  proof (cases "AddBatch s entries ids clk")
    case (Pair t r)
    show ?thesis
    proof (cases r)
      case (Inl e)
      then have "t = s" using Pair False by (auto simp: AddBatch_def commit_Inl)
      then show ?thesis using Pair Inl by simp
    next
      case (Inr its)
      then obtain titles db' where titles: "check_batch s 0 [] entries = Inr titles"
        and tx: "AddBatch_tx ids clk entries titles (store_db s) = Inr (db', its)" and t: "store_db t = db'"
        using Pair False by (auto simp: AddBatch_def commit_Inr rbind_Inr)
      obtain db1 byKey where
        1: "batch_insert ids clk 0 [] (zip entries titles) (store_db s) = Inr (db1, byKey)"
        and 2: "rfold (batch_link byKey) entries db1 = Inr db'" and 3: "batch_hydrate db' byKey = Inr its"
        using tx by (auto simp: AddBatch_tx_def rbind_Inr)
      have len: "length titles = length entries" using check_batch_Inr [OF titles] by simp
      have b: "todos db1 = todos (store_db s) @ map snd byKey"
        "map fst byKey = map (batch_Key \<circ> fst) (zip entries titles)"
        using batch_insert_inv [OF _ inv _ 1] check_batch_Inr [OF titles] inv by (auto simp: store_inv_def)
      have "todos db' = todos db1"
        by (rule rfold_invariant [OF 2, of "\<lambda>db. todos db = todos db1"])
          (auto simp: batch_link_def rbind_Inr split: option.splits dest: replaceTodoDependencies_todos)
      moreover have "map (batch_Key \<circ> fst) (zip entries titles) = map batch_Key entries"
        using len by (simp flip: map_map)
      ultimately show ?thesis
        using Pair Inr t b batch_hydrate_Inr [OF 3] by auto
    qed
  qed
qed

theorem AddBatch_atomic_witness:
  "case AddBatch example_store [\<lparr>batch_Key = ''k'', batch_Item = example_add, batch_DependsOnKeys = [''z'']\<rparr>]
      (\<lambda>n. ''3'') (\<lambda>n. 0) of (t, Inl e) \<Rightarrow> t = example_store | (t, Inr its) \<Rightarrow> map fst its = [''k'']"
  using AddBatch_atomic [OF example_store_inv, of
      "[\<lparr>batch_Key = ''k'', batch_Item = example_add, batch_DependsOnKeys = [''z'']\<rparr>]" "\<lambda>n. ''3''" "\<lambda>n. 0"]
  by (auto split: prod.splits sum.splits)

lemma unique_ids_distinct:
  assumes "distinct (map fst (ids @ rs))"
  shows "unique_ids ids rs = Inr (ids @ rs)"
  using assms
proof (induction ids rs rule: unique_ids.induct)
  case (2 ids who i rs)
  then have "map_of ids who = None" by (auto simp: map_of_eq_None_iff)
  with 2 show ?case by simp
qed simp

lemma load_seeds_total:
  assumes "\<forall>(who, i) \<in> set ids. find_todo db i \<noteq> None"
  shows "\<exists>its. load_seeds db ids = Inr its \<and>
    its = map (\<lambda>(who, i). (who, hydrate db (the (find_todo db i)))) ids"
  using assms by (induction db ids rule: load_seeds.induct) (auto simp: getLocked_def)

lemma seed_rows_iff:
  "(x, r) \<in> set (seed_rows db scope) \<longleftrightarrow>
    x \<in> set (todo_seeds db) \<and> seed_scope x = scope \<and> find_todo db (seed_todo_id x) = Some r \<and> row_scope r = scope"
  by (force simp: seed_rows_def split: option.splits)

lemma seed_rows_distinct:
  assumes "seeds_ok db"
  shows "distinct (map (\<lambda>(x, r). seed_assignee x) (seed_rows db scope))"
proof -
  have "distinct (map (\<lambda>(x, r). seed_assignee x)
      [(x, r). x \<leftarrow> xs, seed_scope x = scope, Some r \<leftarrow> [find_todo db (seed_todo_id x)], row_scope r = scope])"
    if "distinct (map (\<lambda>x. (seed_scope x, seed_assignee x)) xs)" for xs
    using that
  proof (induction xs)
    case (Cons x xs)
    have new: "(seed_scope x, seed_assignee x) \<noteq> (seed_scope y, seed_assignee y)" if "y \<in> set xs" for y
      using Cons.prems that by force
    from Cons show ?case by (auto split: option.splits dest!: new)
  qed simp
  moreover have "distinct (map (\<lambda>x. (seed_scope x, seed_assignee x)) (todo_seeds db))"
    using assms by (simp add: seeds_ok_def)
  ultimately show ?thesis unfolding seed_rows_def by blast
qed

text \<open>Reading a scenario's original assignments never fails: every recorded seed of the scope is
  returned once, under its original assignee, with the current state of its item.\<close>

theorem ScenarioSeedItems_total:
  assumes "store_inv s"
  shows "\<exists>its. ScenarioSeedItems s scope = Inr its \<and> distinct (map fst its) \<and>
    set its = {(seed_assignee x, hydrate (store_db s) r) | x r. x \<in> set (todo_seeds (store_db s)) \<and>
      seed_scope x = scope \<and> find_todo (store_db s) (seed_todo_id x) = Some r}"
proof -
  let ?db = "store_db s"
  let ?k = "\<lambda>(x :: todo_seed, r :: todo_row). (seed_assignee x, row_position r, row_id r)"
  let ?rs = "map (\<lambda>(x, r). (seed_assignee x, row_id r)) (sort_key ?k (seed_rows ?db scope))"
  have ok: "seeds_ok ?db" using assms by (simp add: store_inv_def db_inv_def)
  have "distinct (map (\<lambda>(x, r). seed_assignee x) (sort_key ?k (seed_rows ?db scope)))"
    using seed_rows_distinct [OF ok, of scope] by (simp add: distinct_map)
  moreover have "map fst ?rs = map (\<lambda>(x, r). seed_assignee x) (sort_key ?k (seed_rows ?db scope))"
    by (simp add: case_prod_beta)
  ultimately have dist: "distinct (map fst ?rs)" by (simp only:)
  then have ids: "unique_ids [] ?rs = Inr ?rs" using unique_ids_distinct [of "[]" ?rs] by (simp only: append.simps)
  have set: "set ?rs = (\<lambda>(x, r). (seed_assignee x, row_id r)) ` set (seed_rows ?db scope)" by simp
  have found: "find_todo ?db (row_id r) = Some r" if "(x, r) \<in> set (seed_rows ?db scope)" for x r
    using that find_todo_SomeD by (fastforce simp: seed_rows_iff)
  have ex: "\<forall>(who, i) \<in> set ?rs. find_todo ?db i \<noteq> None" unfolding set using found by auto
  define its where "its = map (\<lambda>(who, i). (who, hydrate ?db (the (find_todo ?db i)))) ?rs"
  have A: "ScenarioSeedItems s scope = Inr its"
    using load_seeds_total [OF ex] ids by (simp add: ScenarioSeedItems_def its_def)
  have "map fst its = map fst ?rs" by (simp add: its_def case_prod_beta)
  then have B: "distinct (map fst its)" using dist by (simp only:)
  have "(x, r) \<in> set (seed_rows ?db scope) \<longleftrightarrow>
      x \<in> set (todo_seeds ?db) \<and> seed_scope x = scope \<and> find_todo ?db (seed_todo_id x) = Some r" for x r
    using ok by (fastforce simp: seed_rows_iff seeds_ok_def)
  moreover have "set its = (\<lambda>(x, r). (seed_assignee x, hydrate ?db r)) ` set (seed_rows ?db scope)"
    unfolding its_def set_map set image_image using found by (intro image_cong) auto
  then have "set its = {(seed_assignee x, hydrate ?db r) | x r. (x, r) \<in> set (seed_rows ?db scope)}"
    by auto
  ultimately show ?thesis using A B by auto
qed

theorem ScenarioSeedItems_total_witness:
  "\<exists>its. ScenarioSeedItems example_store ''u'' = Inr its \<and> distinct (map fst its)"
  using ScenarioSeedItems_total [OF example_store_inv, of "''u''"] by blast

section \<open>Timestamps and positions\<close>

text \<open>A stale-lease sweep compares timestamps as text, which is not chronological within a second:
  an item claimed 9.5 seconds ago is reopened under a lease of 10 seconds.\<close>

theorem ReopenStale_too_early:
  "snd (ReopenStale (fst (Claim example_store ''td-1'' ''s'' False 500000000)) 10000000000 10000000000) = Inr 1"
  by code_simp

text \<open>The position of a new item is computed in wrapping 64-bit arithmetic: after an item was moved to
  the largest position, the next item added to the scope gets the smallest one and is listed
  first, not last.\<close>

theorem Add_position_wraps:
  "map item_ID (List_todos
     (fst (Add (fst (UpdateFieldsCascade example_store ''td-2'' None None None (Some int64_max) None 0))
       example_add ''3'' 0)) ''u'' \<lparr>filter_Status = [], filter_Tag = [], filter_Owner = []\<rparr>) =
   [''td-3'', ''td-1'', ''td-2'']"
  by code_simp

definition family_store :: TodoStore where
  "family_store =
    (let s0 = fst (Add (NewTodoStore empty_db example_settings) example_add ''1'' 0);
         s1 = fst (Add s0 (example_add\<lparr>add_ParentID := ''td-1''\<rparr>) ''2'' 0);
         s2 = fst (Claim s1 ''td-1'' ''s'' False 0);
         s3 = fst (Claim s2 ''td-2'' ''s'' False 0);
         s4 = fst (TransitionCascade s3 ''td-1'' ''done'' [] ''s'' False 0)
     in fst (TransitionCascade s4 ''td-2'' ''done'' [] ''s'' False 100000000000))"

text \<open>The sweep's age limit does not protect sub-items: a sub-item finished at the very moment of the
  sweep is deleted with its parent that was finished long before.\<close>

theorem SweepDone_takes_fresh_child:
  "map row_id (todos (store_db family_store)) = [''td-1'', ''td-2''] \<and>
   todos (store_db (fst (SweepDone family_store 50000000000 100000000000))) = []"
  by code_simp

end
