(* ===== verification/Todo_Live.thy ===== *)
theory Todo_Live
  imports Todo_Retention
begin

text \<open>
  Progress of a task list: because the dependency graph is kept acyclic, work in a scope can never be
  stuck on dependencies alone, and a worker that keeps claiming the next item and finishing it
  completes the scope.
\<close>

definition scope_view :: "todo_db \<Rightarrow> string \<Rightarrow> (string \<times> string) option" where
  "scope_view db i = map_option (\<lambda>r. (row_scope r, row_status r)) (find_todo db i)"

text \<open>The unfinished items of a scope, and a scope in which nobody holds an item.\<close>

definition remaining :: "todo_db \<Rightarrow> string \<Rightarrow> string set" where
  "remaining db scope = {i. \<exists>st. scope_view db i = Some (scope, st) \<and> st \<noteq> TodoStatusDone}"

definition idle :: "todo_db \<Rightarrow> string \<Rightarrow> bool" where
  "idle db scope \<longleftrightarrow> (\<forall>i st. scope_view db i = Some (scope, st) \<longrightarrow> st = TodoStatusTodo \<or> st = TodoStatusDone)"

text \<open>One round of a worker: claim the next item (with override) and finish it.\<close>

definition work_round :: "string \<Rightarrow> string \<Rightarrow> int \<Rightarrow> TodoStore \<Rightarrow> TodoStore" where
  "work_round scope owner now s =
    (case ClaimNext s scope owner True now of
       Some (t, Inr (Some it)) \<Rightarrow> fst (TransitionCascade t (item_ID it) TodoStatusDone [] owner False now)
     | Some (t, _) \<Rightarrow> t
     | None \<Rightarrow> s)"

lemma finite_remaining: "finite (remaining db scope)"
proof (rule finite_subset)
  show "remaining db scope \<subseteq> row_id ` set (todos db)"
    by (auto simp: remaining_def scope_view_def dest: find_todo_SomeD)
qed simp

lemma ready_exists:
  assumes inv: "db_inv db" and idle: "idle db scope" and ne: "remaining db scope \<noteq> {}"
  shows "\<exists>x \<in> set (todos db). row_scope x = scope \<and> may_claim db (row_id x) owner True"
proof -
  have deps: "acyclic (set (todo_deps db))"
    "\<And>t d. (t, d) \<in> set (todo_deps db) \<Longrightarrow>
      \<exists>r s. find_todo db t = Some r \<and> find_todo db d = Some s \<and> row_scope r = row_scope s"
    using inv by (auto simp: db_inv_def deps_ok_def)
  have "wf ((set (todo_deps db))\<inverse>)" using deps(1) by (simp add: finite_acyclic_wf_converse)
  then obtain i where i: "i \<in> remaining db scope"
    and least: "\<And>d. (i, d) \<in> set (todo_deps db) \<Longrightarrow> d \<notin> remaining db scope"
    using ne by (metis converse_iff wfE_min')
  from i obtain r where r: "find_todo db i = Some r" "row_scope r = scope" "row_status r \<noteq> TodoStatusDone"
    by (auto simp: remaining_def scope_view_def)
  then have "row_status r = TodoStatusTodo" using idle by (auto simp: idle_def scope_view_def)
  moreover have "row_status q = TodoStatusDone" if "(i, d) \<in> set (todo_deps db)" "find_todo db d = Some q" for d q
    using deps(2) [OF that(1)] least [OF that(1)] r that(2) by (auto simp: remaining_def scope_view_def)
  ultimately have "may_claim db i owner True" using r(1) by (auto simp: may_claim_def)
  moreover have "r \<in> set (todos db)" "row_id r = i" using r(1) find_todo_SomeD by blast+
  ultimately show ?thesis using r(2) by blast
qed

lemma same_rows_view: "same_rows db db' \<Longrightarrow> scope_view db' = scope_view db"
proof
  fix j
  assume "same_rows db db'"
  then have "map_option untouched (find_todo db' j) = map_option untouched (find_todo db j)"
    by (simp add: same_rows_def)
  then show "scope_view db' j = scope_view db j"
    by (cases "find_todo db j"; cases "find_todo db' j") (auto simp: scope_view_def dest: untouched_eqD)
qed

lemma claim_view:
  assumes "find_todo db i = Some r"
  shows "find_todo (db\<lparr>todos := update_where (\<lambda>r. row_id r = i) (claim_row owner now) (todos db)\<rparr>) i =
      Some (claim_row owner now r)"
    and "scope_view (db\<lparr>todos := update_where (\<lambda>r. row_id r = i) (claim_row owner now) (todos db)\<rparr>) =
      (scope_view db)(i \<mapsto> (row_scope r, TodoStatusInProgress))"
proof -
  have keys: "keeps_keys (claim_row owner now)" by simp
  have find: "find_todo (db\<lparr>todos := update_where (\<lambda>r. row_id r = i) (claim_row owner now) (todos db)\<rparr>) j =
      map_option (\<lambda>r. if row_id r = i then claim_row owner now r else r) (find_todo db j)" for j
    using find_todo_update [OF keys] by simp
  show "find_todo (db\<lparr>todos := update_where (\<lambda>r. row_id r = i) (claim_row owner now) (todos db)\<rparr>) i =
      Some (claim_row owner now r)"
    using assms find_todo_SomeD [OF assms] by (simp add: find)
  show "scope_view (db\<lparr>todos := update_where (\<lambda>r. row_id r = i) (claim_row owner now) (todos db)\<rparr>) =
      (scope_view db)(i \<mapsto> (row_scope r, TodoStatusInProgress))"
  proof
    fix j
    show "scope_view (db\<lparr>todos := update_where (\<lambda>r. row_id r = i) (claim_row owner now) (todos db)\<rparr>) j =
      ((scope_view db)(i \<mapsto> (row_scope r, TodoStatusInProgress))) j"
      using assms by (cases "find_todo db j")
        (auto simp: scope_view_def find claim_row_def dest: find_todo_SomeD)
  qed
qed

lemma work_round_value:
  assumes inv: "store_inv s" and owner: "owner \<noteq> []"
    and idle: "idle (store_db s) scope" and ne: "remaining (store_db s) scope \<noteq> {}"
  shows "store_inv (work_round scope owner now s) \<and>
    (\<exists>i \<in> remaining (store_db s) scope.
      scope_view (store_db (work_round scope owner now s)) =
        (scope_view (store_db s))(i \<mapsto> (scope, TodoStatusDone)))"
proof -
  let ?db = "store_db s" and ?now = "rfc3339nano now"
  have dbinv: "db_inv ?db" and limit: "0 \<le> noteLimit s" using inv by (auto simp: store_inv_def noteLimit_def)
  from ClaimNext_value [OF inv owner, of scope True now] ready_exists [OF dbinv idle ne, of owner]
  obtain r where r: "find_todo ?db (row_id r) = Some r" "row_scope r = scope"
      "may_claim ?db (row_id r) owner True"
    and cn: "ClaimNext s scope owner True now = Some (Claim s (row_id r) owner True now)"
    by (auto simp: if_P)
  let ?cdb = "?db\<lparr>todos := update_where (\<lambda>x. row_id x = row_id r) (claim_row owner ?now) (todos ?db)\<rparr>"
  let ?t = "s\<lparr>store_db := ?cdb\<rparr>"
  from Claim_value [OF inv owner, of "row_id r" True now] r(3)
  obtain it where cl: "Claim s (row_id r) owner True now = (?t, Inr (Some it))" "item_ID it = row_id r"
    by auto
  have tinv: "store_inv ?t" using Claim_inv [OF inv, of "row_id r" owner True now] cl(1) by simp
  have found: "find_todo ?cdb (row_id r) = Some (claim_row owner ?now r)"
    and view: "scope_view ?cdb = (scope_view ?db)(row_id r \<mapsto> (scope, TodoStatusInProgress))"
    using claim_view [OF r(1)] r(2) by auto
  have "transition_allowed ?t (row_id r) TodoStatusDone [] owner False"
    using found limit by (simp add: transition_allowed_def may_transition_def claim_row_def noteLimit_def TodoMaxNoteDefault_def)
  with TransitionCascade_value [OF tinv, of "row_id r" TodoStatusDone "[]" owner False now]
  obtain db' x where tr: "TransitionCascade ?t (row_id r) TodoStatusDone [] owner False now =
      (?t\<lparr>store_db := db'\<rparr>, Inr x)"
    and same: "same_rows (moved (row_id r) TodoStatusDone [] ?now ?cdb) db'" by auto
  have "scope_view (moved (row_id r) TodoStatusDone [] ?now ?cdb) =
      (scope_view ?cdb)(row_id r \<mapsto> (scope, TodoStatusDone))"
    using found r(2) by (auto simp: fun_eq_iff scope_view_def find_todo_moved transition_row_def claim_row_def)
  then have "scope_view db' = (scope_view ?db)(row_id r \<mapsto> (scope, TodoStatusDone))"
    using same_rows_view [OF same] view by simp
  moreover have "work_round scope owner now s = ?t\<lparr>store_db := db'\<rparr>"
    using cn cl tr by (simp add: work_round_def)
  moreover have "store_inv (?t\<lparr>store_db := db'\<rparr>)"
    using TransitionCascade_inv [OF tinv] tr by (metis fst_conv)
  moreover have "row_id r \<in> remaining ?db scope"
    using r by (auto simp: remaining_def scope_view_def may_claim_def)
  ultimately show ?thesis by auto
qed

lemma finish_item:
  assumes "scope_view db' = (scope_view db)(i \<mapsto> (scope, TodoStatusDone))" "i \<in> remaining db scope"
  shows "remaining db' scope = remaining db scope - {i}" "idle db scope \<Longrightarrow> idle db' scope"
  using assms by (auto simp: remaining_def idle_def)

lemma work_rounds:
  assumes "store_inv s" "owner \<noteq> []" "idle (store_db s) scope"
    and "card (remaining (store_db s) scope) = n"
  shows "remaining (store_db ((work_round scope owner now ^^ n) s)) scope = {} \<and>
    store_inv ((work_round scope owner now ^^ n) s)"
  using assms
proof (induction n arbitrary: s)
  case 0
  then show ?case using finite_remaining by simp
next
  case (Suc n)
  then have ne: "remaining (store_db s) scope \<noteq> {}" by auto
  let ?t = "work_round scope owner now s"
  obtain i where t: "store_inv ?t" and i: "i \<in> remaining (store_db s) scope"
    and view: "scope_view (store_db ?t) = (scope_view (store_db s))(i \<mapsto> (scope, TodoStatusDone))"
    using work_round_value [OF Suc.prems(1,2,3) ne] by blast
  have "card (remaining (store_db ?t) scope) = n"
    using finish_item(1) [OF view i] i Suc.prems(4) finite_remaining by simp
  then show ?case
    using Suc.IH [OF t Suc.prems(2)] finish_item(2) [OF view i Suc.prems(3)]
    by (simp add: funpow_swap1)
qed



end
