(* ===== verification/Msg_Refine.thy ===== *)
theory Msg_Refine
  imports Msg_Props
begin

text \<open>
  The message store refines a set of logs: per stream an append-only list of messages and a counter,
  per subscriber and stream the set of acknowledged sequence numbers. Cursors, the table of single
  acknowledgements, high-water marks and row order are implementation detail.
\<close>

record mailboxes =
  log :: "string \<Rightarrow> Message list"
  counter :: "string \<Rightarrow> int"
  seen :: "string \<Rightarrow> string \<Rightarrow> int set"

datatype mail_op =
    OpPublish PublishOpts string int
  | OpAck string string int int
  | OpAckMessages string string "int list"
  | OpAckLatest string string int

section \<open>The abstract machine\<close>

definition post :: "PublishOpts \<Rightarrow> string \<Rightarrow> int \<Rightarrow> mailboxes \<Rightarrow> mailboxes" where
  "post opts i now b =
    (let st = po_Stream opts; q = counter b st + 1
     in if \<exists>x. i \<in> msg_ID ` set (log b x) then b
        else b\<lparr>log := (log b)(st := log b st @ [new_message opts i q now]),
               counter := (counter b)(st := q)\<rparr>)"

definition see :: "string \<Rightarrow> string \<Rightarrow> int set \<Rightarrow> mailboxes \<Rightarrow> mailboxes" where
  "see w st Q b =
    b\<lparr>seen := (seen b)(w := (seen b w)(st := seen b w st \<union> (msg_Seq ` set (log b st) \<inter> Q)))\<rparr>"

definition mail_spec :: "mail_op \<Rightarrow> mailboxes \<Rightarrow> mailboxes" where
  "mail_spec op b =
    (case op of
       OpPublish opts i now \<Rightarrow> post opts i now b
     | OpAck st w q now \<Rightarrow> see w st {..q} b
     | OpAckMessages st w qs \<Rightarrow> see w st (set qs) b
     | OpAckLatest st w now \<Rightarrow> see w st UNIV b)"

text \<open>Handlers acknowledge only numbers of messages they have read.\<close>

definition mail_ok :: "mail_op \<Rightarrow> mailboxes \<Rightarrow> bool" where
  "mail_ok op b \<longleftrightarrow>
    (case op of
       OpAck st w q now \<Rightarrow> q \<le> counter b st
     | OpAckMessages st w qs \<Rightarrow> (\<forall>q \<in> set qs. q \<le> counter b st)
     | _ \<Rightarrow> True)"

definition unread :: "mailboxes \<Rightarrow> string \<Rightarrow> string \<Rightarrow> Message list" where
  "unread b w st = filter (\<lambda>m. msg_Seq m \<notin> seen b w st) (log b st)"

section \<open>The store and its abstraction\<close>

definition mail_run :: "mail_op \<Rightarrow> MsgStore \<Rightarrow> MsgStore" where
  "mail_run op s =
    (case op of
       OpPublish opts i now \<Rightarrow> fst (Publish s opts i now)
     | OpAck st w q now \<Rightarrow> Ack s st w q now
     | OpAckMessages st w qs \<Rightarrow> AckMessages s st w qs
     | OpAckLatest st w now \<Rightarrow> AckLatest s st w now)"

definition mail_abs :: "MsgStore \<Rightarrow> mailboxes" where
  "mail_abs s =
    \<lparr>log = (\<lambda>st. Read_msgs s st [] False []), counter = hwm_of s,
     seen = (\<lambda>w st. {msg_Seq m | m. m \<in> set (messages s) \<and> msg_Stream m = st \<and> is_acked s w m})\<rparr>"

lemma insort_key_snoc: "f a \<le> f x \<Longrightarrow> insort_key f a (ys @ [x]) = insort_key f a ys @ [x]"
  by (induction ys) auto

lemma sort_key_snoc: "\<forall>y \<in> set xs. f y \<le> f x \<Longrightarrow> sort_key f (xs @ [x]) = sort_key f xs @ [x]"
  by (induction xs) (simp_all add: insort_key_snoc)

lemma Read_all:
  "Read_msgs s st [] False [] = map (\<lambda>m. m\<lparr>msg_System := isSystemSender (msg_SenderID m)\<rparr>)
      (sort_key msg_Seq (filter (\<lambda>m. msg_Stream m = st) (messages s)))"
  by (simp add: Read_msgs_def)

lemma log_seqs: "msg_Seq ` set (Read_msgs s st [] False []) = {msg_Seq m | m. m \<in> set (messages s) \<and> msg_Stream m = st}"
  by (auto simp: Read_all image_image)

lemma log_ids: "(\<exists>st. i \<in> msg_ID ` set (Read_msgs s st [] False [])) \<longleftrightarrow> i \<in> msg_ID ` set (messages s)"
  by (auto simp: Read_all image_image)

lemma post_commutes:
  assumes "msg_inv s"
  shows "mail_abs (fst (Publish s opts i now)) = post opts i now (mail_abs s)"
proof (cases "i \<in> msg_ID ` set (messages s)")
  case True
  then have "fst (Publish s opts i now) = s" by (simp add: Publish_def Let_def)
  moreover have "post opts i now (mail_abs s) = mail_abs s"
    using True log_ids [of i s] by (simp add: post_def Let_def mail_abs_def)
  ultimately show ?thesis by simp
next
  case False
  let ?st = "po_Stream opts" and ?q = "hwm_of s (po_Stream opts) + 1"
  let ?m = "new_message opts i ?q now"
  let ?t = "s\<lparr>messages := messages s @ [?m], stream_hwm := bump_hwm ?st ?q (stream_hwm s),
      subs := map (offer ?st ?m) (subs s)\<rparr>"
  have t: "fst (Publish s opts i now) = ?t"
    using False by (simp add: Publish_def Let_def last_seq_eq [OF assms])
  have le: "\<forall>x \<in> set (filter (\<lambda>x. msg_Stream x = ?st) (messages s)). msg_Seq x \<le> msg_Seq ?m"
    using assms by (force simp: msg_inv_def)
  have "Read_msgs ?t st [] False [] = (if st = ?st then Read_msgs s st [] False [] @ [?m] else Read_msgs s st [] False [])" for st
    using sort_key_snoc [OF le] by (auto simp: Read_all)
  moreover have "hwm_of ?t = (hwm_of s)(?st := ?q)"
    using hwm_bump [OF assms refl] by (simp add: fun_eq_iff hwm_of_def)
  moreover have "is_acked ?t w x = is_acked s w x" for w x by (simp add: is_acked_def ack_seq_of_def)
  moreover have "\<not> is_acked s w ?m" for w
    using assms hwm_nonneg [OF assms, of ?st]
    by (fastforce simp: is_acked_def ack_seq_of_def msg_inv_def split: option.splits dest: find_Some_iff_filter)
  ultimately show ?thesis
    using False log_ids [of i s] unfolding t
    by (auto simp: post_def Let_def mail_abs_def fun_eq_iff)
qed

lemma ack_seq_Ack_other:
  "(v, x) \<noteq> (w, st) \<Longrightarrow> ack_seq_of (Ack s st w q now) v x = ack_seq_of s v x"
  by (cases "find (\<lambda>c. cur_subscriber c = v \<and> cur_stream c = x) (cursors s)")
    (auto simp: ack_seq_of_def Ack_def Let_def find_cursor_update find_cursor_append dest: find_Some_iff_filter)

lemma ack_seq_Ack:
  "ack_seq_of (Ack s st w q now) w st =
    (if \<exists>c \<in> set (cursors s). cur_subscriber c = w \<and> cur_stream c = st then max (ack_seq_of s w st) q else q)"
proof (cases "find (\<lambda>c. cur_subscriber c = w \<and> cur_stream c = st) (cursors s)")
  case None
  then have no: "\<not> (\<exists>c \<in> set (cursors s). cur_subscriber c = w \<and> cur_stream c = st)"
    by (auto simp: find_None_iff)
  show ?thesis
    unfolding Ack_def Let_def if_not_P [OF no] using None by (simp add: ack_seq_of_def find_cursor_append)
next
  case (Some c)
  then have c: "\<exists>c \<in> set (cursors s). cur_subscriber c = w \<and> cur_stream c = st"
    and e: "cur_subscriber c = w" "cur_stream c = st" by (auto dest: find_Some_iff_filter)
  show ?thesis
    unfolding Ack_def Let_def if_P [OF c] using Some e by (simp add: ack_seq_of_def find_cursor_update)
qed

lemma ack_seq_none:
  "\<not> (\<exists>c \<in> set (cursors s). cur_subscriber c = w \<and> cur_stream c = st) \<Longrightarrow> ack_seq_of s w st = 0"
  by (auto simp: ack_seq_of_def split: option.split dest: find_Some_iff_filter)

lemma is_acked_Ack:
  assumes "msg_inv s" "m \<in> set (messages s)"
  shows "is_acked (Ack s st w q now) v m \<longleftrightarrow>
    is_acked s v m \<or> v = w \<and> msg_Stream m = st \<and> msg_Seq m \<le> q"
proof (cases "(v, msg_Stream m) = (w, st)")
  case False
  then show ?thesis using ack_seq_Ack_other [OF False] by (auto simp: is_acked_def)
next
  case True
  have "1 \<le> msg_Seq m" using assms by (auto simp: msg_inv_def)
  then have "msg_Seq m \<le> ack_seq_of (Ack s st w q now) w st \<longleftrightarrow> msg_Seq m \<le> ack_seq_of s w st \<or> msg_Seq m \<le> q"
    using ack_seq_none [of s w st] by (simp add: ack_seq_Ack le_max_iff_disj)
  with True show ?thesis by (auto simp: is_acked_def)
qed

lemma is_acked_AckMessages:
  "is_acked (AckMessages s st w qs) v m \<longleftrightarrow>
    is_acked s v m \<or> v = w \<and> msg_Stream m = st \<and> msg_Seq m \<in> set qs"
  by (auto simp: is_acked_def AckMessages_def ack_seq_of_def set_ack_fold)

lemma see_commutes:
  assumes "messages t = messages s" "hwm_of t = hwm_of s"
    and "\<And>v m. m \<in> set (messages s) \<Longrightarrow>
      is_acked t v m \<longleftrightarrow> is_acked s v m \<or> v = w \<and> msg_Stream m = st \<and> msg_Seq m \<in> Q"
  shows "mail_abs t = see w st Q (mail_abs s)"
proof -
  have "Read_msgs t x [] False [] = Read_msgs s x [] False []" for x using assms(1) by (simp add: Read_all)
  moreover have "{msg_Seq m |m. m \<in> set (messages s) \<and> msg_Stream m = x \<and> is_acked t v m} =
      {msg_Seq m |m. m \<in> set (messages s) \<and> msg_Stream m = x \<and> is_acked s v m} \<union>
      (if v = w \<and> x = st then {msg_Seq m |m. m \<in> set (messages s) \<and> msg_Stream m = st} \<inter> Q else {})" for v x
    using assms(3) by auto
  ultimately show ?thesis
    using assms(1,2) by (simp add: mail_abs_def see_def log_seqs fun_eq_iff)
qed

lemma hwm_of_acks [simp]: "hwm_of (Ack s st w q now) = hwm_of s" "hwm_of (AckMessages s st w qs) = hwm_of s"
  by (simp_all add: hwm_of_def Ack_def AckMessages_def Let_def fun_eq_iff)

lemma messages_AckMessages [simp]: "messages (AckMessages s st w qs) = messages s"
  by (simp add: AckMessages_def)

lemma mail_commutes:
  assumes "msg_inv s"
  shows "mail_abs (mail_run op s) = mail_spec op (mail_abs s)"
proof (cases op)
  case (OpPublish opts i now)
  then show ?thesis using post_commutes [OF assms] by (simp add: mail_run_def mail_spec_def)
next
  case (OpAck st w q now)
  then show ?thesis
    using see_commutes [of "Ack s st w q now" s w st "{..q}"] is_acked_Ack [OF assms]
    by (simp add: mail_run_def mail_spec_def)
next
  case (OpAckMessages st w qs)
  then show ?thesis
    using see_commutes [of "AckMessages s st w qs" s w st "set qs"] is_acked_AckMessages
    by (simp add: mail_run_def mail_spec_def)
next
  case (OpAckLatest st w now)
  have "msg_Seq m \<le> last_seq s st" if "m \<in> set (messages s)" "msg_Stream m = st" for m
    using assms that by (auto simp: last_seq_eq msg_inv_def)
  then show ?thesis
    using see_commutes [of "Ack s st w (last_seq s st) now" s w st UNIV] is_acked_Ack [OF assms]
    by (auto simp: OpAckLatest mail_run_def mail_spec_def AckLatest_def)
qed

lemma mail_keeps_inv:
  assumes "msg_inv s" "mail_ok op (mail_abs s)"
  shows "msg_inv (mail_run op s)"
proof (cases op)
  case (OpPublish opts i now)
  then show ?thesis using Publish_inv [OF assms(1)] by (simp add: mail_run_def)
next
  case (OpAck st w q now)
  then show ?thesis using assms Ack_inv by (simp add: mail_run_def mail_ok_def mail_abs_def)
next
  case (OpAckMessages st w qs)
  then show ?thesis using assms AckMessages_inv by (simp add: mail_run_def mail_ok_def mail_abs_def)
next
  case (OpAckLatest st w now)
  then show ?thesis using Ack_inv [OF assms(1)] by (simp add: mail_run_def AckLatest_def last_seq_eq [OF assms(1)])
qed

interpretation mail: functional_refinement msg_inv mail_run mail_abs mail_ok mail_spec
  by unfold_locales (simp_all add: mail_keeps_inv mail_commutes)

lemma unread_abs:
  assumes "w \<noteq> []"
  shows "Read_msgs s st w True [] = unread (mail_abs s) w st"
proof -
  let ?sys = "\<lambda>m :: Message. m\<lparr>msg_System := isSystemSender (msg_SenderID m)\<rparr>"
  have seen: "msg_Seq m \<in> seen (mail_abs s) w st \<longleftrightarrow> is_acked s w m" if "m \<in> set (messages s)" "msg_Stream m = st" for m
    using that by (auto simp: mail_abs_def is_acked_def)
  have "unread (mail_abs s) w st =
      map ?sys (filter (\<lambda>m. msg_Seq m \<notin> seen (mail_abs s) w st)
        (sort_key msg_Seq (filter (\<lambda>m. msg_Stream m = st) (messages s))))"
    by (simp add: unread_def filter_map comp_def) (simp add: mail_abs_def Read_all filter_map comp_def)
  also have "\<dots> = map ?sys (sort_key msg_Seq
      (filter (\<lambda>m. msg_Seq m \<notin> seen (mail_abs s) w st) (filter (\<lambda>m. msg_Stream m = st) (messages s))))"
    by (simp only: filter_sort)
  also have "filter (\<lambda>m. msg_Seq m \<notin> seen (mail_abs s) w st) (filter (\<lambda>m. msg_Stream m = st) (messages s)) =
      filter (\<lambda>m. msg_Stream m = st \<and> \<not> is_acked s w m) (messages s)"
    unfolding filter_filter by (rule filter_cong) (use seen in auto)
  finally show ?thesis using assms by (simp add: Read_msgs_def)
qed

text \<open>C24: the message store implements per-stream logs with per-subscriber acknowledgements. Along any
  sequence of publications and acknowledgements the store's logs, counters and acknowledged sets are
  those of the abstract machine (a rejected publication changes neither), and what a subscriber reads
  as unread is exactly the log without what it acknowledged, in order of publication.\<close>

theorem msgstore_refines_logs:
  assumes "msg_inv s" and "allowed_run mail_ok mail_spec ops (mail_abs s)" and "w \<noteq> []"
  shows "mail_abs (fold mail_run ops s) = fold mail_spec ops (mail_abs s) \<and>
    Read_msgs (fold mail_run ops s) st w True [] = unread (fold mail_spec ops (mail_abs s)) w st"
  using mail.run_refines [OF assms(1,2)] unread_abs [OF assms(3)] by simp

theorem msgstore_refines_logs_witness:
  "Read_msgs (fold mail_run [OpPublish example_opts ''1'' 0, OpAckLatest ''t'' ''w'' 1, OpPublish example_opts ''2'' 2]
      empty_tables) ''t'' ''w'' True [] =
    unread (fold mail_spec [OpPublish example_opts ''1'' 0, OpAckLatest ''t'' ''w'' 1, OpPublish example_opts ''2'' 2]
      (mail_abs empty_tables)) ''w'' ''t''"
proof -
  have "allowed_run mail_ok mail_spec
      [OpPublish example_opts ''1'' 0, OpAckLatest ''t'' ''w'' 1, OpPublish example_opts ''2'' 2] (mail_abs empty_tables)"
    by (simp add: mail_ok_def)
  from msgstore_refines_logs [OF empty_tables_inv this, of "''w''" "''t''"] show ?thesis by simp
qed

end
