(* ===== verification/Todo_Ops.thy ===== *)
theory Todo_Ops
  imports Todo_Live Msg_Refine Auth
begin

text \<open>
  The task-list operations of the daemon (todo.go and the \<^verbatim>\<open>todo_*\<close> handlers of handler_todo.go): how a
  request names a list, who may reach it, who may act on an item, and the events an operation publishes
  on the message bus. The walk to a session's anchor has no bound in the code, so operations that use
  it return in the option type; \<open>json\<close> is the encoding of an event, \<open>ids\<close> and \<open>clk\<close> give the \<open>n\<close>-th
  published event its identifier and time.
\<close>

datatype todo_op_error =
    NoTodoStore
  | TodoScenarioNotFound string
  | NotInScenario string
  | NotInSessionList
  | NoSessionContext
  | AssignToOther
  | AllRestricted
  | NoSessionIdentity
  | NotAuthorizedClaim
  | ReservedFor string string
  | BlockedByDependencies string "string list"
  | ClaimFirstSelf string
  | ClaimFirstHuman string
  | ClaimFirst string
  | NotOwnerTransition
  | NotOwnerEdit
  | NotOverrideAssign
  | NotOwnerRemove
  | StoreError todo_error

record TodoScope =
  scope_Scenario :: string
  scope_Session :: string
  scope_All :: bool

record TodoAddMsg =
  am_Scope :: TodoScope
  am_Title :: string
  am_Tags :: "string list"
  am_ParentID :: string
  am_Note :: string
  am_Assignee :: string
  am_DependsOn :: "string list"

record todoAccess =
  acc_inScope :: bool
  acc_owner :: bool
  acc_override :: bool
  acc_human :: bool

record TodoWorld =
  w_sm :: SessionManager
  w_todos :: "TodoStore option"
  w_messages :: "MsgStore option"
  w_EmitEvents :: string

section \<open>Scopes and access\<close>

definition todoInSubtreeLocked :: "SessionManager \<Rightarrow> string \<Rightarrow> string \<Rightarrow> bool option" where
  "todoInSubtreeLocked sm caller root =
    (if caller = [] then Some False
     else map_option (\<lambda>r. r = root) (subtreeRootLocked (Sessions sm) caller))"

definition findScenarioByNameLocked :: "SessionManager \<Rightarrow> string \<Rightarrow> scenario option" where
  "findScenarioByNameLocked sm name = find (\<lambda>sc. ScenarioName sc = name) (map snd (Scenarios sm))"

definition findScenarioByIDLocked :: "SessionManager \<Rightarrow> string \<Rightarrow> scenario option" where
  "findScenarioByIDLocked sm i = find (\<lambda>sc. ScenarioID sc = i) (map snd (Scenarios sm))"

definition todoScenarioMemberLocked :: "authContext \<Rightarrow> scenario \<Rightarrow> bool" where
  "todoScenarioMemberLocked ac sc \<longleftrightarrow>
    isHuman ac \<or> sessionID ac \<noteq> [] \<and> (sessionID ac = OrchestratorID sc \<or> sessionID ac \<in> set (SessionIDs sc))"

definition resolveTodoScope ::
  "SessionManager \<Rightarrow> authContext \<Rightarrow> TodoScope \<Rightarrow> (todo_op_error, string) result option" where
  "resolveTodoScope sm ac sc =
    (if scope_Scenario sc \<noteq> [] then
       Some (case findScenarioByNameLocked sm (scope_Scenario sc) of
           None \<Rightarrow> Inl (TodoScenarioNotFound (scope_Scenario sc))
         | Some s \<Rightarrow>
             if \<not> todoScenarioMemberLocked ac s then Inl (NotInScenario (scope_Scenario sc))
             else Inr (''scenario:'' @ ScenarioID s))
     else if scope_Session sc \<noteq> [] then
       Option.bind (subtreeRootLocked (Sessions sm) (scope_Session sc)) (\<lambda>root.
         if isHuman ac then Some (Inr (''session:'' @ root))
         else map_option (\<lambda>inside. if inside then Inr (''session:'' @ root) else Inl NotInSessionList)
           (todoInSubtreeLocked sm (sessionID ac) root))
     else if sessionID ac = [] then Some (Inl NoSessionContext)
     else map_option (\<lambda>root. Inr (''session:'' @ root)) (subtreeRootLocked (Sessions sm) (sessionID ac)))"

text \<open>The access of a caller to an item of a scope, given the item's owner.\<close>

definition accessForItem :: "SessionManager \<Rightarrow> authContext \<Rightarrow> string \<Rightarrow> string \<Rightarrow> todoAccess option" where
  "accessForItem sm ac scope owner =
    (let human = isHuman ac;
         acc = \<lparr>acc_inScope = human, acc_owner = sessionID ac \<noteq> [] \<and> sessionID ac = owner,
                acc_override = human, acc_human = human\<rparr>
     in if prefix ''session:'' scope then
          (let root = trim_prefix scope ''session:''
           in map_option (\<lambda>inside.
                acc\<lparr>acc_inScope := human \<or> inside,
                    acc_override := human \<or> sessionID ac \<noteq> [] \<and> sessionID ac = root\<rparr>)
              (todoInSubtreeLocked sm (sessionID ac) root))
        else if prefix ''scenario:'' scope then
          Some (case findScenarioByIDLocked sm (trim_prefix scope ''scenario:'') of
              None \<Rightarrow> acc
            | Some sc \<Rightarrow>
                acc\<lparr>acc_inScope := human \<or> todoScenarioMemberLocked ac sc,
                    acc_override := human \<or> sessionID ac \<noteq> [] \<and> sessionID ac = OrchestratorID sc\<rparr>)
        else Some acc)"

section \<open>Events\<close>

definition EmitMode :: "string \<Rightarrow> string" where
  "EmitMode e = (if e = ''all'' \<or> e = ''off'' then e else ''scenario'')"

definition emitTodoEvent ::
  "(string \<Rightarrow> TodoItem \<Rightarrow> string \<Rightarrow> string) \<Rightarrow> string \<Rightarrow> string \<Rightarrow> TodoItem \<Rightarrow> string \<Rightarrow> int \<Rightarrow> TodoWorld \<Rightarrow> TodoWorld" where
  "emitTodoEvent json scope event item mid now w =
    (case w_messages w of
       None \<Rightarrow> w
     | Some s \<Rightarrow>
         let mode = EmitMode (w_EmitEvents w)
         in if mode = ''off'' \<or> mode = ''scenario'' \<and> \<not> prefix ''scenario:'' scope then w
            else w\<lparr>w_messages := Some (fst (Publish s
              \<lparr>po_Stream = ''todo:'' @ scope, po_SenderID = systemSenderID, po_SenderName = systemSenderName,
               po_Body = json event item scope, po_ThreadID = [], po_ReplyTo = [], po_NoReply = False\<rparr> mid now))\<rparr>)"

fun emit_all ::
  "(string \<Rightarrow> TodoItem \<Rightarrow> string \<Rightarrow> string) \<Rightarrow> string \<Rightarrow> (nat \<Rightarrow> string) \<Rightarrow> (nat \<Rightarrow> int) \<Rightarrow> nat \<Rightarrow> TodoItem list \<Rightarrow>
    TodoWorld \<Rightarrow> TodoWorld" where
  "emit_all json event ids clk n [] w = w"
| "emit_all json event ids clk n (it # its) w =
    emit_all json event ids clk (Suc n) its (emitTodoEvent json (item_Scope it) event it (ids n) (clk n) w)"

section \<open>Operations\<close>

text \<open>An operation on the store whose error goes to the caller; \<open>k\<close> continues with the new world.\<close>

definition with_store ::
  "TodoWorld \<Rightarrow> TodoStore \<times> (todo_error, 'a) result \<Rightarrow> ('a \<Rightarrow> TodoWorld \<Rightarrow> TodoWorld \<times> (todo_op_error, 'b) result) \<Rightarrow>
    TodoWorld \<times> (todo_op_error, 'b) result" where
  "with_store w r k =
    (case snd r of
       Inl e \<Rightarrow> (w\<lparr>w_todos := Some (fst r)\<rparr>, Inl (StoreError e))
     | Inr x \<Rightarrow> k x (w\<lparr>w_todos := Some (fst r)\<rparr>))"

definition TodoAddOp ::
  "(string \<Rightarrow> TodoItem \<Rightarrow> string \<Rightarrow> string) \<Rightarrow> authContext \<Rightarrow> TodoAddMsg \<Rightarrow> string \<Rightarrow> int \<Rightarrow> (nat \<Rightarrow> string) \<Rightarrow> (nat \<Rightarrow> int) \<Rightarrow>
    TodoWorld \<Rightarrow> (TodoWorld \<times> (todo_op_error, TodoItem) result) option" where
  "TodoAddOp json ac m msg_id now ids clk w =
    (case w_todos w of
       None \<Rightarrow> Some (w, Inl NoTodoStore)
     | Some s \<Rightarrow>
         Option.bind (resolveTodoScope (w_sm w) ac (am_Scope m)) (\<lambda>r.
           case r of
             Inl e \<Rightarrow> Some (w, Inl e)
           | Inr scope \<Rightarrow>
               Option.bind
                 (if am_Assignee m \<noteq> [] \<and> am_Assignee m \<noteq> sessionID ac
                  then map_option acc_override (accessForItem (w_sm w) ac scope []) else Some True) (\<lambda>may.
               if \<not> may then Some (w, Inl AssignToOther)
               else Some (with_store w
                 (Add s \<lparr>add_Scope = scope, add_Title = am_Title m, add_Note = am_Note m, add_Tags = am_Tags m,
                    add_ParentID = am_ParentID m, add_Assignee = am_Assignee m, add_DependsOn = am_DependsOn m,
                    add_CreatedBy = (if sessionID ac = [] then ''user'' else sessionID ac)\<rparr> msg_id now)
                 (\<lambda>item w'. (emitTodoEvent json scope ''added'' item (ids 0) (clk 0) w', Inr item))))))"

definition TodoListOp ::
  "authContext \<Rightarrow> TodoScope \<Rightarrow> string \<Rightarrow> string \<Rightarrow> TodoWorld \<Rightarrow> (todo_op_error, TodoItem list) result option" where
  "TodoListOp ac sc status tag w =
    (case w_todos w of
       None \<Rightarrow> Some (Inl NoTodoStore)
     | Some s \<Rightarrow>
         let f = \<lparr>filter_Status = status, filter_Tag = tag, filter_Owner = []\<rparr>
         in if scope_All sc then
              Some (if \<not> isHuman ac \<and> role ac \<noteq> roleOrchestrator then Inl AllRestricted else Inr (ListAll s f))
            else map_option (\<lambda>r. case r of Inl e \<Rightarrow> Inl e | Inr scope \<Rightarrow> Inr (List_todos s scope f))
              (resolveTodoScope (w_sm w) ac sc))"

definition claim_reply ::
  "(string \<Rightarrow> TodoItem \<Rightarrow> string \<Rightarrow> string) \<Rightarrow> (nat \<Rightarrow> string) \<Rightarrow> (nat \<Rightarrow> int) \<Rightarrow> TodoItem \<Rightarrow> TodoWorld \<Rightarrow>
    TodoWorld \<times> (todo_op_error, TodoItem option) result" where
  "claim_reply json ids clk claimed w =
    (emitTodoEvent json (item_Scope claimed) ''claimed'' claimed (ids 0) (clk 0) w, Inr (Some claimed))"

definition TodoClaimOp ::
  "(string \<Rightarrow> TodoItem \<Rightarrow> string \<Rightarrow> string) \<Rightarrow> authContext \<Rightarrow> string \<Rightarrow> TodoScope \<Rightarrow> int \<Rightarrow> (nat \<Rightarrow> string) \<Rightarrow> (nat \<Rightarrow> int) \<Rightarrow>
    TodoWorld \<Rightarrow> (TodoWorld \<times> (todo_op_error, TodoItem option) result) option" where
  "TodoClaimOp json ac i sc now ids clk w =
    (case w_todos w of
       None \<Rightarrow> Some (w, Inl NoTodoStore)
     | Some s \<Rightarrow>
         let owner = sessionID ac
         in if owner = [] then Some (w, Inl NoSessionIdentity)
            else if i \<noteq> [] then
              (case Get s i of
                 Inl e \<Rightarrow> Some (w, Inl (StoreError e))
               | Inr item \<Rightarrow>
                   map_option (\<lambda>acc.
                     if \<not> acc_inScope acc then (w, Inl NotAuthorizedClaim)
                     else if item_Assignee item \<noteq> [] \<and> item_Assignee item \<noteq> owner \<and> \<not> acc_override acc
                     then (w, Inl (ReservedFor i (item_Assignee item)))
                     else with_store w (Claim s i owner (acc_override acc) now) (\<lambda>r w'.
                       case r of
                         Some claimed \<Rightarrow> claim_reply json ids clk claimed w'
                       | None \<Rightarrow>
                           (case Get (fst (Claim s i owner (acc_override acc) now)) i of
                              Inl e \<Rightarrow> (w', Inl (StoreError e))
                            | Inr latest \<Rightarrow>
                                if item_BlockedBy latest \<noteq> [] \<and> item_Owner latest = []
                                then (w', Inl (BlockedByDependencies i (item_BlockedBy latest)))
                                else (w', Inr None))))
                   (accessForItem (w_sm w) ac (item_Scope item) (item_Owner item)))
            else Option.bind (resolveTodoScope (w_sm w) ac sc) (\<lambda>r.
              case r of
                Inl e \<Rightarrow> Some (w, Inl e)
              | Inr scope \<Rightarrow>
                  Option.bind (accessForItem (w_sm w) ac scope []) (\<lambda>acc.
                    map_option (\<lambda>res. with_store w res (\<lambda>r w'.
                        case r of None \<Rightarrow> (w', Inr None) | Some claimed \<Rightarrow> claim_reply json ids clk claimed w'))
                      (ClaimNext s scope owner (acc_override acc) now))))"

definition TodoTransitionOp ::
  "(string \<Rightarrow> TodoItem \<Rightarrow> string \<Rightarrow> string) \<Rightarrow> authContext \<Rightarrow> string \<Rightarrow> string \<Rightarrow> string \<Rightarrow> int \<Rightarrow> (nat \<Rightarrow> string) \<Rightarrow> (nat \<Rightarrow> int) \<Rightarrow>
    TodoWorld \<Rightarrow> (TodoWorld \<times> (todo_op_error, TodoItem) result) option" where
  "TodoTransitionOp json ac i status nt now ids clk w =
    (case w_todos w of
       None \<Rightarrow> Some (w, Inl NoTodoStore)
     | Some s \<Rightarrow>
         (case Get s i of
            Inl e \<Rightarrow> Some (w, Inl (StoreError e))
          | Inr item \<Rightarrow>
              map_option (\<lambda>acc.
                let unclaimed = status = TodoStatusDone \<and> item_Status item = TodoStatusTodo \<and> item_Owner item = []
                in if unclaimed \<and> acc_inScope acc \<and> sessionID ac \<noteq> [] \<and> item_Assignee item = sessionID ac
                   then (w, Inl (ClaimFirstSelf i))
                   else if unclaimed \<and> acc_human acc then (w, Inl (ClaimFirstHuman i))
                   else if unclaimed \<and> acc_override acc \<and> sessionID ac \<noteq> [] then (w, Inl (ClaimFirst i))
                   else if \<not> acc_owner acc \<and> \<not> acc_override acc then (w, Inl NotOwnerTransition)
                   else with_store w (TransitionCascade s i status nt (sessionID ac) (acc_override acc) now)
                     (\<lambda>res w'.
                       let updated = tr_Item res;
                           event = (if status = TodoStatusTodo \<and> item_BlockedBy updated \<noteq> []
                                    then ''dependency-blocked'' else status);
                           n = length (tr_Unblocked res)
                       in (emit_all json ''dependency-blocked'' ids clk (Suc n) (tr_DependencyBlocked res)
                             (emit_all json ''unblocked'' ids clk 1 (tr_Unblocked res)
                               (emitTodoEvent json (item_Scope updated) event updated (ids 0) (clk 0) w')),
                           Inr updated)))
              (accessForItem (w_sm w) ac (item_Scope item) (item_Owner item))))"

definition TodoUpdateOp ::
  "(string \<Rightarrow> TodoItem \<Rightarrow> string \<Rightarrow> string) \<Rightarrow> authContext \<Rightarrow> string \<Rightarrow> string option \<Rightarrow> string option \<Rightarrow> string list option \<Rightarrow>
    int option \<Rightarrow> string list option \<Rightarrow> int \<Rightarrow> (nat \<Rightarrow> string) \<Rightarrow> (nat \<Rightarrow> int) \<Rightarrow>
    TodoWorld \<Rightarrow> (TodoWorld \<times> (todo_op_error, TodoItem) result) option" where
  "TodoUpdateOp json ac i title nt tags position dependsOn now ids clk w =
    (case w_todos w of
       None \<Rightarrow> Some (w, Inl NoTodoStore)
     | Some s \<Rightarrow>
         (case Get s i of
            Inl e \<Rightarrow> Some (w, Inl (StoreError e))
          | Inr item \<Rightarrow>
              map_option (\<lambda>acc.
                if \<not> acc_owner acc \<and> \<not> acc_override acc then (w, Inl NotOwnerEdit)
                else with_store w (UpdateFieldsCascade s i title nt tags position dependsOn now)
                  (\<lambda>res w'.
                    let updated = ur_Item res;
                        event = (if ur_DependencyBlocked res then ''dependency-blocked''
                                 else if ur_Unblocked res then ''unblocked'' else ''updated'')
                    in (emitTodoEvent json (item_Scope updated) event updated (ids 0) (clk 0) w', Inr updated)))
              (accessForItem (w_sm w) ac (item_Scope item) (item_Owner item))))"

definition TodoAssignOp ::
  "(string \<Rightarrow> TodoItem \<Rightarrow> string \<Rightarrow> string) \<Rightarrow> authContext \<Rightarrow> string \<Rightarrow> string \<Rightarrow> int \<Rightarrow> (nat \<Rightarrow> string) \<Rightarrow> (nat \<Rightarrow> int) \<Rightarrow>
    TodoWorld \<Rightarrow> (TodoWorld \<times> (todo_op_error, TodoItem) result) option" where
  "TodoAssignOp json ac i assignee now ids clk w =
    (case w_todos w of
       None \<Rightarrow> Some (w, Inl NoTodoStore)
     | Some s \<Rightarrow>
         (case Get s i of
            Inl e \<Rightarrow> Some (w, Inl (StoreError e))
          | Inr item \<Rightarrow>
              map_option (\<lambda>acc.
                if \<not> acc_override acc then (w, Inl NotOverrideAssign)
                else with_store w (Assign s i assignee now)
                  (\<lambda>updated w'. (emitTodoEvent json (item_Scope updated) ''assigned'' updated (ids 0) (clk 0) w', Inr updated)))
              (accessForItem (w_sm w) ac (item_Scope item) (item_Owner item))))"

definition TodoRemoveOp ::
  "(string \<Rightarrow> TodoItem \<Rightarrow> string \<Rightarrow> string) \<Rightarrow> authContext \<Rightarrow> string \<Rightarrow> (nat \<Rightarrow> string) \<Rightarrow> (nat \<Rightarrow> int) \<Rightarrow>
    TodoWorld \<Rightarrow> (TodoWorld \<times> (todo_op_error, unit) result) option" where
  "TodoRemoveOp json ac i ids clk w =
    (case w_todos w of
       None \<Rightarrow> Some (w, Inl NoTodoStore)
     | Some s \<Rightarrow>
         (case Get s i of
            Inl e \<Rightarrow> Some (w, Inl (StoreError e))
          | Inr item \<Rightarrow>
              map_option (\<lambda>acc.
                if \<not> acc_owner acc \<and> \<not> acc_override acc then (w, Inl NotOwnerRemove)
                else with_store w (Remove s i)
                  (\<lambda>_ w'. (emitTodoEvent json (item_Scope item) ''removed'' item (ids 0) (clk 0) w', Inr ())))
              (accessForItem (w_sm w) ac (item_Scope item) (item_Owner item))))"

section \<open>Background operations\<close>

definition activeScenarioPolicyTodoScopes :: "SessionManager \<Rightarrow> string list" where
  "activeScenarioPolicyTodoScopes sm =
    map (\<lambda>(i, sc). ''scenario:'' @ i)
      (filter (\<lambda>(i, sc). case Policy sc of None \<Rightarrow> False | Some p \<Rightarrow> PolicyActive p \<and> PolicyOutcome p = [])
        (Scenarios sm))"

text \<open>One tick of \<^verbatim>\<open>RunTodoSweepLoop\<close>; a failed sweep is logged and the other still runs.\<close>

definition todo_sweep_tick :: "int \<Rightarrow> int \<Rightarrow> int \<Rightarrow> int \<Rightarrow> TodoWorld \<Rightarrow> TodoWorld" where
  "todo_sweep_tick lease retention now now' w =
    (case w_todos w of
       None \<Rightarrow> w
     | Some s \<Rightarrow>
         w\<lparr>w_todos := Some (fst (SweepDoneExceptScopes (fst (ReopenStale s lease now)) retention
             (activeScenarioPolicyTodoScopes (w_sm w)) now'))\<rparr>)"

definition reopenTodosForSession :: "string \<Rightarrow> int \<Rightarrow> TodoWorld \<Rightarrow> TodoWorld" where
  "reopenTodosForSession i now w =
    (case w_todos w of
       None \<Rightarrow> w
     | Some s \<Rightarrow> if i = [] then w else w\<lparr>w_todos := Some (fst (ReopenOwnedBy s i now))\<rparr>)"

definition anchorScopesFor :: "SessionManager \<Rightarrow> string list \<Rightarrow> string option list" where
  "anchorScopesFor sm is = map (\<lambda>i. map_option (\<lambda>r. ''session:'' @ r) (subtreeRootLocked (Sessions sm) i)) is"

section \<open>Export\<close>

definition safe_scope :: "string \<Rightarrow> string" where
  "safe_scope scope = map (\<lambda>c. if c = CHR '':'' \<or> c = CHR ''/'' then CHR ''-'' else c) scope"

definition export_line :: "TodoItem \<Rightarrow> string" where
  "export_line it =
    (if item_ParentID it \<noteq> [] then ''  - '' else ''- '') @ ''['' @
    (if item_Status it = TodoStatusDone then ''x'' else '' '') @ ''] '' @ item_Title it @ '' _('' @ item_Status it @
    (if item_Owner it \<noteq> [] then '', owner '' @ item_Owner it else []) @
    (if item_Tags it \<noteq> [] then '', tags '' @ join_with (item_Tags it) '','' else []) @
    (if item_BlockedBy it \<noteq> [] then '', blocked by '' @ join_with (item_BlockedBy it) '','' else []) @
    '')_'' @ newline"

definition renderTodoExport :: "(TodoItem list \<Rightarrow> string) \<Rightarrow> string \<Rightarrow> string \<Rightarrow> TodoItem list \<Rightarrow> string \<times> string" where
  "renderTodoExport json_items scope format items =
    (if format = ''json'' then (json_items items, ''todos/'' @ safe_scope scope @ ''.json'')
     else (''# Todo export: '' @ scope @ newline @ newline @
             (if items = [] then ''_(no items)_'' @ newline else []) @ concat (map export_line items),
           ''todos/'' @ safe_scope scope @ ''.md''))"

section \<open>Requests\<close>

text \<open>The mutating \<^verbatim>\<open>todo_*\<close> control messages as the handlers dispatch them: the reply is the operation's
  error, if any.\<close>

datatype todo_request =
    RAdd TodoAddMsg
  | RClaim string TodoScope
  | RTransition string string string
  | RUpdate string "string option" "string option" "string list option" "int option" "string list option"
  | RAssign string string
  | RRemove string

definition error_of :: "('e, 'a) result \<Rightarrow> 'e option" where
  "error_of r = (case r of Inl e \<Rightarrow> Some e | Inr x \<Rightarrow> None)"

definition handle_todo ::
  "(string \<Rightarrow> TodoItem \<Rightarrow> string \<Rightarrow> string) \<Rightarrow> authContext \<Rightarrow> todo_request \<Rightarrow> string \<Rightarrow> int \<Rightarrow> (nat \<Rightarrow> string) \<Rightarrow> (nat \<Rightarrow> int) \<Rightarrow>
    TodoWorld \<Rightarrow> (TodoWorld \<times> todo_op_error option) option" where
  "handle_todo json ac req msg_id now ids clk w =
    (case req of
       RAdd m \<Rightarrow> map_option (apsnd error_of) (TodoAddOp json ac m msg_id now ids clk w)
     | RClaim i sc \<Rightarrow> map_option (apsnd error_of) (TodoClaimOp json ac i sc now ids clk w)
     | RTransition i status nt \<Rightarrow>
         map_option (apsnd error_of) (TodoTransitionOp json ac i status nt now ids clk w)
     | RUpdate i title nt tags position dependsOn \<Rightarrow>
         map_option (apsnd error_of) (TodoUpdateOp json ac i title nt tags position dependsOn now ids clk w)
     | RAssign i assignee \<Rightarrow> map_option (apsnd error_of) (TodoAssignOp json ac i assignee now ids clk w)
     | RRemove i \<Rightarrow> map_option (apsnd error_of) (TodoRemoveOp json ac i ids clk w))"

subsection \<open>Who may do what\<close>

definition reaches_scope :: "SessionManager \<Rightarrow> authContext \<Rightarrow> string \<Rightarrow> bool" where
  "reaches_scope sm ac scope \<longleftrightarrow>
    isHuman ac \<or>
    sessionID ac \<noteq> [] \<and>
      ((\<exists>root. subtreeRootLocked (Sessions sm) (sessionID ac) = Some root \<and> scope = ''session:'' @ root) \<or>
       (\<exists>sc \<in> snd ` set (Scenarios sm). scope = ''scenario:'' @ ScenarioID sc \<and>
          (sessionID ac = OrchestratorID sc \<or> sessionID ac \<in> set (SessionIDs sc))))"

definition overrides_scope :: "SessionManager \<Rightarrow> authContext \<Rightarrow> string \<Rightarrow> bool" where
  "overrides_scope sm ac scope \<longleftrightarrow>
    isHuman ac \<or>
    sessionID ac \<noteq> [] \<and>
      (scope = ''session:'' @ sessionID ac \<or>
       (\<exists>sc \<in> snd ` set (Scenarios sm). scope = ''scenario:'' @ ScenarioID sc \<and> sessionID ac = OrchestratorID sc))"

lemma prefix_trim: "prefix p s \<Longrightarrow> p @ trim_prefix s p = s"
  by (auto simp: trim_prefix_def prefix_def)

lemma find_scenario_mem: "find P (map snd xs) = Some sc \<Longrightarrow> sc \<in> snd ` set xs \<and> P sc"
  by (auto dest: find_Some_iff_filter)

lemma todoInSubtree_True:
  "todoInSubtreeLocked sm c root = Some b \<Longrightarrow> b \<Longrightarrow> c \<noteq> [] \<and> subtreeRootLocked (Sessions sm) c = Some root"
  by (auto simp: todoInSubtreeLocked_def split: if_splits)

lemma accessForItem_sound:
  assumes "accessForItem sm ac scope owner = Some acc"
  shows "acc_inScope acc \<Longrightarrow> reaches_scope sm ac scope"
    and "acc_override acc \<Longrightarrow> overrides_scope sm ac scope"
    and "acc_owner acc \<longleftrightarrow> sessionID ac \<noteq> [] \<and> sessionID ac = owner"
    and "acc_human acc \<longleftrightarrow> isHuman ac"
proof -
  have "(acc_inScope acc \<longrightarrow> reaches_scope sm ac scope) \<and> (acc_override acc \<longrightarrow> overrides_scope sm ac scope) \<and>
      (acc_owner acc \<longleftrightarrow> sessionID ac \<noteq> [] \<and> sessionID ac = owner) \<and> (acc_human acc \<longleftrightarrow> isHuman ac)"
  proof (cases "prefix ''session:'' scope")
    case True
    then obtain inside where i: "todoInSubtreeLocked sm (sessionID ac) (trim_prefix scope ''session:'') = Some inside"
      and acc: "acc_inScope acc = (isHuman ac \<or> inside)"
        "acc_override acc = (isHuman ac \<or> sessionID ac \<noteq> [] \<and> sessionID ac = trim_prefix scope ''session:'')"
        "acc_owner acc = (sessionID ac \<noteq> [] \<and> sessionID ac = owner)" "acc_human acc = isHuman ac"
      using assms by (auto simp: accessForItem_def Let_def)
    show ?thesis
      using todoInSubtree_True [OF i] prefix_trim [OF True] acc
      by (auto simp: reaches_scope_def overrides_scope_def)
  next
    case False
    show ?thesis
    proof (cases "prefix ''scenario:'' scope")
      case True
      show ?thesis
      proof (cases "findScenarioByIDLocked sm (trim_prefix scope ''scenario:'')")
        case None
        then show ?thesis using assms False True
          by (auto simp: accessForItem_def Let_def reaches_scope_def overrides_scope_def)
      next
        case (Some sc)
        then have "sc \<in> snd ` set (Scenarios sm)" "scope = ''scenario:'' @ ScenarioID sc"
          using find_scenario_mem [OF Some [unfolded findScenarioByIDLocked_def]] prefix_trim [OF True] by auto
        then show ?thesis using assms False True Some
          by (auto simp: accessForItem_def Let_def reaches_scope_def overrides_scope_def todoScenarioMemberLocked_def)
      qed
    next
      case no: False
      then show ?thesis using assms False
        by (auto simp: accessForItem_def Let_def reaches_scope_def overrides_scope_def)
    qed
  qed
  then show "acc_inScope acc \<Longrightarrow> reaches_scope sm ac scope" "acc_override acc \<Longrightarrow> overrides_scope sm ac scope"
    "acc_owner acc \<longleftrightarrow> sessionID ac \<noteq> [] \<and> sessionID ac = owner" "acc_human acc \<longleftrightarrow> isHuman ac" by blast+
qed

lemma resolveTodoScope_sound:
  assumes "resolveTodoScope sm ac sc = Some (Inr scope)"
  shows "reaches_scope sm ac scope"
proof (cases "scope_Scenario sc = []")
  case False
  then obtain s where s: "findScenarioByNameLocked sm (scope_Scenario sc) = Some s"
    "todoScenarioMemberLocked ac s" "scope = ''scenario:'' @ ScenarioID s"
    using assms by (auto simp: resolveTodoScope_def split: option.splits if_splits)
  then have "s \<in> snd ` set (Scenarios sm)"
    using find_scenario_mem [OF s(1) [unfolded findScenarioByNameLocked_def]] by blast
  then show ?thesis using s by (auto simp: reaches_scope_def todoScenarioMemberLocked_def)
next
  case no: True
  show ?thesis
  proof (cases "scope_Session sc = []")
    case False
    then obtain root where r: "subtreeRootLocked (Sessions sm) (scope_Session sc) = Some root"
      and s: "scope = ''session:'' @ root"
      and "isHuman ac \<or> todoInSubtreeLocked sm (sessionID ac) root = Some True"
      using assms no by (auto simp: resolveTodoScope_def bind_eq_Some_conv split: if_splits)
    then show ?thesis using todoInSubtree_True [of sm "sessionID ac" root True] by (auto simp: reaches_scope_def)
  next
    case True
    then show ?thesis using assms no by (auto simp: resolveTodoScope_def reaches_scope_def split: if_splits)
  qed
qed

definition item_authorized ::
  "SessionManager \<Rightarrow> authContext \<Rightarrow> TodoStore \<Rightarrow> string \<Rightarrow> bool" where
  "item_authorized sm ac s i \<longleftrightarrow>
    (\<exists>r. find_todo (store_db s) i = Some r \<and>
      (sessionID ac \<noteq> [] \<and> row_owner r = sessionID ac \<or> overrides_scope sm ac (row_scope r)))"

definition request_authorized :: "SessionManager \<Rightarrow> authContext \<Rightarrow> TodoStore \<Rightarrow> todo_request \<Rightarrow> bool" where
  "request_authorized sm ac s req \<longleftrightarrow>
    (case req of
       RAdd m \<Rightarrow> (\<exists>scope. resolveTodoScope sm ac (am_Scope m) = Some (Inr scope) \<and> reaches_scope sm ac scope \<and>
         (am_Assignee m = [] \<or> am_Assignee m = sessionID ac \<or> overrides_scope sm ac scope))
     | RClaim i sc \<Rightarrow> sessionID ac \<noteq> [] \<and>
         (if i \<noteq> []
          then \<exists>r. find_todo (store_db s) i = Some r \<and> reaches_scope sm ac (row_scope r) \<and>
            (row_assignee r = [] \<or> row_assignee r = sessionID ac \<or> overrides_scope sm ac (row_scope r))
          else \<exists>scope. resolveTodoScope sm ac sc = Some (Inr scope) \<and> reaches_scope sm ac scope)
     | RTransition i status nt \<Rightarrow> item_authorized sm ac s i
     | RUpdate i title nt tags position dependsOn \<Rightarrow> item_authorized sm ac s i
     | RAssign i assignee \<Rightarrow>
         (\<exists>r. find_todo (store_db s) i = Some r \<and> overrides_scope sm ac (row_scope r))
     | RRemove i \<Rightarrow> item_authorized sm ac s i)"

lemma Get_cases:
  obtains (missing) e where "Get s i = Inl e" "find_todo (store_db s) i = None"
  | (found) r where "Get s i = Inr (hydrate (store_db s) r)" "find_todo (store_db s) i = Some r"
  by (cases "find_todo (store_db s) i") (auto simp: Get_def getLocked_def)

lemma not_item_authorized:
  assumes "\<not> item_authorized sm ac s i" "find_todo (store_db s) i = Some r"
    and "accessForItem sm ac (row_scope r) (row_owner r) = Some acc"
  shows "\<not> acc_owner acc \<and> \<not> acc_override acc"
  using assms accessForItem_sound [OF assms(3)] by (auto simp: item_authorized_def)

lemma refused_item:
  assumes "w_todos w = Some s" "\<not> item_authorized (w_sm w) ac s i"
  shows "TodoTransitionOp json ac i status nt now ids clk w = Some (w', r) \<Longrightarrow> w' = w \<and> error_of r \<noteq> None"
    and "TodoUpdateOp json ac i title nt' tags position dependsOn now ids clk w = Some (w', r) \<Longrightarrow> w' = w \<and> error_of r \<noteq> None"
    and "TodoRemoveOp json ac i ids clk w = Some (w', u) \<Longrightarrow> w' = w \<and> error_of u \<noteq> None"
  using assms not_item_authorized [OF assms(2)]
  by (cases s i rule: Get_cases; auto simp: TodoTransitionOp_def TodoUpdateOp_def TodoRemoveOp_def Let_def error_of_def
      split: if_splits)+

lemma refused_assign:
  assumes "w_todos w = Some s"
    and "\<not> (\<exists>r. find_todo (store_db s) i = Some r \<and> overrides_scope (w_sm w) ac (row_scope r))"
    and "TodoAssignOp json ac i assignee now ids clk w = Some (w', r)"
  shows "w' = w \<and> error_of r \<noteq> None"
  using assms accessForItem_sound(2)
  by (cases s i rule: Get_cases) (auto simp: TodoAssignOp_def error_of_def split: if_splits)

lemma refused_add:
  assumes "w_todos w = Some s"
    and no: "\<not> request_authorized (w_sm w) ac s (RAdd m)"
    and op: "TodoAddOp json ac m msg_id now ids clk w = Some (w', r)"
  shows "w' = w \<and> error_of r \<noteq> None"
proof -
  obtain q where q: "resolveTodoScope (w_sm w) ac (am_Scope m) = Some q"
    using op assms(1) by (auto simp: TodoAddOp_def bind_eq_Some_conv)
  show ?thesis
  proof (cases q)
    case (Inl e)
    then show ?thesis using op assms(1) q by (auto simp: TodoAddOp_def error_of_def)
  next
    case (Inr scope)
    then have reach: "reaches_scope (w_sm w) ac scope" using resolveTodoScope_sound q by blast
    then have other: "am_Assignee m \<noteq> [] \<and> am_Assignee m \<noteq> sessionID ac" "\<not> overrides_scope (w_sm w) ac scope"
      using no Inr q by (auto simp: request_authorized_def)
    then obtain acc where acc: "accessForItem (w_sm w) ac scope [] = Some acc"
      using op assms(1) q Inr by (auto simp: TodoAddOp_def bind_eq_Some_conv)
    then have "\<not> acc_override acc" using accessForItem_sound(2) other(2) by blast
    then show ?thesis using op assms(1) q Inr acc other(1) by (auto simp: TodoAddOp_def error_of_def)
  qed
qed

lemma refused_claim:
  assumes "w_todos w = Some s"
    and no: "\<not> request_authorized (w_sm w) ac s (RClaim i sc)"
    and op: "TodoClaimOp json ac i sc now ids clk w = Some (w', r)"
  shows "w' = w \<and> error_of r \<noteq> None"
proof (cases "sessionID ac = []")
  case True
  then show ?thesis using op assms(1) by (auto simp: TodoClaimOp_def error_of_def)
next
  case me: False
  show ?thesis
  proof (cases "i = []")
    case True
    then obtain q where q: "resolveTodoScope (w_sm w) ac sc = Some q"
      using op assms(1) me by (auto simp: TodoClaimOp_def Let_def bind_eq_Some_conv)
    then obtain e where "q = Inl e"
      using no me True resolveTodoScope_sound by (cases q) (auto simp: request_authorized_def)
    then show ?thesis using op assms(1) me True q by (auto simp: TodoClaimOp_def Let_def error_of_def)
  next
    case i: False
    show ?thesis
    proof (cases s i rule: Get_cases)
      case (missing e)
      then show ?thesis using op assms(1) me i by (auto simp: TodoClaimOp_def Let_def error_of_def)
    next
      case (found row)
      then obtain acc where acc: "accessForItem (w_sm w) ac (row_scope row) (row_owner row) = Some acc"
        using op assms(1) me i by (auto simp: TodoClaimOp_def Let_def)
      have "\<not> acc_inScope acc \<or> row_assignee row \<noteq> [] \<and> row_assignee row \<noteq> sessionID ac \<and> \<not> acc_override acc"
        using no me i found(2) accessForItem_sound [OF acc] by (auto simp: request_authorized_def)
      then show ?thesis
        using op assms(1) me i found acc by (cases "acc_inScope acc") (auto simp: TodoClaimOp_def Let_def error_of_def)
    qed
  qed
qed

text \<open>C22: a task-list request the caller has no right to is refused with an error and changes neither
  the task lists nor the message bus. A caller adds to lists it can reach (its own subtree's list or a
  scenario it belongs to) and assigns others only as the list's authority, claims only in lists it can
  reach and only items not reserved for somebody else, and changes, removes or assigns an item only as
  its owner or as the list's authority.\<close>

theorem todo_request_refused:
  assumes "w_todos w = Some s" and "\<not> request_authorized (w_sm w) ac s req"
    and "handle_todo json ac req msg_id now ids clk w = Some (w', e)"
  shows "w' = w \<and> e \<noteq> None"
proof (cases req)
  case (RAdd m)
  then show ?thesis using assms refused_add [OF assms(1), of ac m] by (auto simp: handle_todo_def)
next
  case (RClaim i sc)
  then show ?thesis using assms refused_claim [OF assms(1), of ac i sc] by (auto simp: handle_todo_def)
next
  case (RTransition i status nt)
  then show ?thesis using assms refused_item(1) [OF assms(1), of ac i]
    by (auto simp: handle_todo_def request_authorized_def)
next
  case (RUpdate i title nt tags position dependsOn)
  then show ?thesis using assms refused_item(2) [OF assms(1), of ac i]
    by (auto simp: handle_todo_def request_authorized_def)
next
  case (RAssign i assignee)
  then show ?thesis using assms refused_assign [OF assms(1), of i ac]
    by (auto simp: handle_todo_def request_authorized_def)
next
  case (RRemove i)
  then show ?thesis using assms refused_item(3) [OF assms(1), of ac i]
    by (auto simp: handle_todo_def request_authorized_def)
qed

section \<open>Requests return and keep the stores' invariants\<close>

definition world_inv :: "TodoWorld \<Rightarrow> bool" where
  "world_inv w \<longleftrightarrow> (\<forall>s. w_todos w = Some s \<longrightarrow> store_inv s) \<and> (\<forall>m. w_messages w = Some m \<longrightarrow> msg_inv m)"

lemma emitTodoEvent_inv: "world_inv w \<Longrightarrow> world_inv (emitTodoEvent json scope event item mid now w)"
  by (auto simp: world_inv_def emitTodoEvent_def Let_def Publish_inv split: option.splits)

lemma emit_all_inv: "world_inv w \<Longrightarrow> world_inv (emit_all json event ids clk n items w)"
  by (induction items arbitrary: n w) (simp_all add: emitTodoEvent_inv)

lemma with_store_inv:
  assumes "world_inv w" "store_inv (fst r)" "\<And>x u. world_inv u \<Longrightarrow> world_inv (fst (k x u))"
  shows "world_inv (fst (with_store w r k))"
proof -
  have w: "world_inv (w\<lparr>w_todos := Some (fst r)\<rparr>)" using assms(1,2) by (simp add: world_inv_def)
  then show ?thesis using assms(3) [OF w] by (cases "snd r") (simp_all add: with_store_def)
qed

lemma subtreeRoot_defined:
  assumes "session_forest ss"
  obtains r where "subtreeRootLocked ss i = Some r"
  using subtreeRootLocked_total [OF assms] by blast

lemma todoInSubtree_total:
  assumes "session_forest (Sessions sm)"
  shows "\<exists>b. todoInSubtreeLocked sm c root = Some b"
  by (rule subtreeRoot_defined [OF assms, of c]) (auto simp: todoInSubtreeLocked_def)

lemma accessForItem_total:
  assumes "session_forest (Sessions sm)"
  shows "\<exists>acc. accessForItem sm ac scope owner = Some acc"
  using todoInSubtree_total [OF assms] by (auto simp: accessForItem_def Let_def)

lemma resolveTodoScope_total:
  assumes "session_forest (Sessions sm)"
  shows "\<exists>r. resolveTodoScope sm ac sc = Some r"
proof -
  obtain a b where "subtreeRootLocked (Sessions sm) (scope_Session sc) = Some a"
    "subtreeRootLocked (Sessions sm) (sessionID ac) = Some b"
    by (metis subtreeRoot_defined [OF assms])
  then show ?thesis using todoInSubtree_total [OF assms, of "sessionID ac" a]
    by (auto simp: resolveTodoScope_def)
qed

lemma claim_reply_inv: "world_inv w \<Longrightarrow> world_inv (fst (claim_reply json ids clk it w))"
  by (simp add: claim_reply_def emitTodoEvent_inv)

definition returns_inv :: "(TodoWorld \<times> 'r) option \<Rightarrow> bool" where
  "returns_inv x \<longleftrightarrow> (case x of None \<Rightarrow> False | Some wr \<Rightarrow> world_inv (fst wr))"

lemma returns_inv_simps [simp]: "returns_inv (Some (w, r)) \<longleftrightarrow> world_inv w"
  by (simp add: returns_inv_def)

lemma returns_with_store:
  assumes "world_inv w" "store_inv (fst r)" "\<And>x u. world_inv u \<Longrightarrow> world_inv (fst (k x u))"
  shows "returns_inv (Some (with_store w r k))"
  using with_store_inv [OF assms] by (simp add: returns_inv_def)

lemma returns_item_op:
  assumes forest: "session_forest (Sessions (w_sm w))" and inv: "world_inv w"
    and op: "\<And>s r acc. store_inv s \<Longrightarrow> accessForItem (w_sm w) ac (row_scope r) (row_owner r) = Some acc \<Longrightarrow>
      returns_inv (Some (f s (hydrate (store_db s) r) acc))"
  shows "returns_inv (case w_todos w of None \<Rightarrow> Some (w, Inl NoTodoStore)
    | Some s \<Rightarrow> (case Get s i of Inl e \<Rightarrow> Some (w, Inl (StoreError e))
        | Inr item \<Rightarrow> map_option (f s item) (accessForItem (w_sm w) ac (item_Scope item) (item_Owner item))))"
proof (cases "w_todos w")
  case None
  then show ?thesis using inv by simp
next
  case (Some s)
  then have s: "store_inv s" using inv by (simp add: world_inv_def)
  show ?thesis
  proof (cases s i rule: Get_cases)
    case (missing e)
    then show ?thesis using Some inv by simp
  next
    case (found r)
    obtain acc where "accessForItem (w_sm w) ac (row_scope r) (row_owner r) = Some acc"
      using accessForItem_total [OF forest] by blast
    then show ?thesis using Some found op [OF s] by simp
  qed
qed

lemma TransitionOp_returns:
  assumes "session_forest (Sessions (w_sm w))" "world_inv w"
  shows "returns_inv (TodoTransitionOp json ac i status nt now ids clk w)"
  unfolding TodoTransitionOp_def
proof (rule returns_item_op [OF assms], goal_cases)
  case (1 s r acc)
  then show ?case
    using assms(2) unfolding Let_def
    by (simp add: returns_with_store TransitionCascade_inv emitTodoEvent_inv emit_all_inv)
qed

lemma UpdateOp_returns:
  assumes "session_forest (Sessions (w_sm w))" "world_inv w" "\<And>p. position = Some p \<Longrightarrow> in_int64 p"
  shows "returns_inv (TodoUpdateOp json ac i title nt tags position dependsOn now ids clk w)"
  unfolding TodoUpdateOp_def
proof (rule returns_item_op [OF assms(1,2)], goal_cases)
  case (1 s r acc)
  then show ?case
    using assms(2) unfolding Let_def
    by (simp add: returns_with_store UpdateFieldsCascade_inv [OF _ assms(3)] emitTodoEvent_inv)
qed

lemma AssignOp_returns:
  assumes "session_forest (Sessions (w_sm w))" "world_inv w"
  shows "returns_inv (TodoAssignOp json ac i assignee now ids clk w)"
  unfolding TodoAssignOp_def
proof (rule returns_item_op [OF assms], goal_cases)
  case (1 s r acc)
  then show ?case using assms(2) by (simp add: returns_with_store Assign_inv emitTodoEvent_inv)
qed

lemma RemoveOp_returns:
  assumes "session_forest (Sessions (w_sm w))" "world_inv w"
  shows "returns_inv (TodoRemoveOp json ac i ids clk w)"
  unfolding TodoRemoveOp_def
proof (rule returns_item_op [OF assms], goal_cases)
  case (1 s r acc)
  then show ?case using assms(2) by (simp add: returns_with_store Remove_inv emitTodoEvent_inv)
qed

lemma AddOp_returns:
  assumes "session_forest (Sessions (w_sm w))" "world_inv w"
  shows "returns_inv (TodoAddOp json ac m msg_id now ids clk w)"
proof (cases "w_todos w")
  case None
  then show ?thesis using assms(2) by (simp add: TodoAddOp_def)
next
  case (Some s)
  then have s: "store_inv s" using assms(2) by (simp add: world_inv_def)
  obtain q where q: "resolveTodoScope (w_sm w) ac (am_Scope m) = Some q"
    using resolveTodoScope_total [OF assms(1)] by blast
  show ?thesis
  proof (cases q)
    case (Inl e)
    then show ?thesis using Some q assms(2) by (simp add: TodoAddOp_def)
  next
    case (Inr scope)
    obtain acc where "accessForItem (w_sm w) ac scope [] = Some acc"
      using accessForItem_total [OF assms(1)] by blast
    then show ?thesis using Some q Inr s assms(2)
      by (simp add: TodoAddOp_def returns_with_store Add_inv emitTodoEvent_inv)
  qed
qed

lemma ClaimNext_returns:
  assumes "store_inv s" "owner \<noteq> []"
  obtains t r where "ClaimNext s scope owner ov now = Some (t, r)" "store_inv t"
proof -
  from ClaimNext_value [OF assms, of scope ov now]
  obtain x where x: "ClaimNext s scope owner ov now = Some x" by (metis (mono_tags, lifting))
  have "store_inv (fst x)" using ClaimNext_inv [OF assms(1)] x by (cases x) simp
  with x show ?thesis using that by (cases x) simp
qed

lemma ClaimOp_returns:
  assumes "session_forest (Sessions (w_sm w))" "world_inv w"
  shows "returns_inv (TodoClaimOp json ac i sc now ids clk w)"
proof (cases "w_todos w")
  case None
  then show ?thesis using assms(2) by (simp add: TodoClaimOp_def)
next
  case (Some s)
  then have s: "store_inv s" using assms(2) by (simp add: world_inv_def)
  show ?thesis
  proof (cases "sessionID ac = []")
    case True
    then show ?thesis using Some assms(2) by (simp add: TodoClaimOp_def)
  next
    case me: False
    show ?thesis
    proof (cases "i = []")
      case i: True
      obtain q where q: "resolveTodoScope (w_sm w) ac sc = Some q"
        using resolveTodoScope_total [OF assms(1)] by blast
      show ?thesis
      proof (cases q)
        case (Inl e)
        then show ?thesis using Some me i q assms(2) by (simp add: TodoClaimOp_def Let_def)
      next
        case (Inr scope)
        obtain acc where acc: "accessForItem (w_sm w) ac scope [] = Some acc"
          using accessForItem_total [OF assms(1)] by blast
        obtain t r where t: "ClaimNext s scope (sessionID ac) (acc_override acc) now = Some (t, r)" "store_inv t"
          using ClaimNext_returns [OF s me] by blast
        have "returns_inv (Some (with_store w (t, r) (\<lambda>r w'.
            case r of None \<Rightarrow> (w', Inr None) | Some claimed \<Rightarrow> claim_reply json ids clk claimed w')))"
          using assms(2) t(2) by (intro returns_with_store) (simp_all add: claim_reply_inv split: option.split)
        then show ?thesis using Some me i q Inr acc t by (simp add: TodoClaimOp_def Let_def)
      qed
    next
      case i: False
      show ?thesis
      proof (cases s i rule: Get_cases)
        case (missing e)
        then show ?thesis using Some me i assms(2) by (simp add: TodoClaimOp_def Let_def)
      next
        case (found r)
        obtain acc where acc: "accessForItem (w_sm w) ac (row_scope r) (row_owner r) = Some acc"
          using accessForItem_total [OF assms(1)] by blast
        let ?c = "Claim s i (sessionID ac) (acc_override acc) now"
        have "returns_inv (Some (with_store w ?c (\<lambda>r w'.
            case r of
              Some claimed \<Rightarrow> claim_reply json ids clk claimed w'
            | None \<Rightarrow> (case Get (fst ?c) i of
                 Inl e \<Rightarrow> (w', Inl (StoreError e))
               | Inr latest \<Rightarrow>
                   if item_BlockedBy latest \<noteq> [] \<and> item_Owner latest = []
                   then (w', Inl (BlockedByDependencies i (item_BlockedBy latest)))
                   else (w', Inr None)))))"
          using assms(2) Claim_inv [OF s]
          by (intro returns_with_store) (simp_all add: claim_reply_inv split: option.split sum.split)
        then show ?thesis using Some me i found acc assms(2) by (simp add: TodoClaimOp_def Let_def)
      qed
    qed
  qed
qed

text \<open>A position is a 64-bit integer on the wire.\<close>

definition request_typed :: "todo_request \<Rightarrow> bool" where
  "request_typed req \<longleftrightarrow>
    (case req of RUpdate i title nt tags position dependsOn \<Rightarrow> (\<forall>p. position = Some p \<longrightarrow> in_int64 p) | _ \<Rightarrow> True)"

lemma returns_inv_map:
  "returns_inv x \<Longrightarrow> \<exists>w' e. map_option (apsnd f) x = Some (w', e) \<and> world_inv w'"
  by (cases x) (auto simp: returns_inv_def)

lemma handle_todo_returns:
  assumes "session_forest (Sessions (w_sm w))" and "world_inv w" and "request_typed req"
  shows "\<exists>w' e. handle_todo json ac req msg_id now ids clk w = Some (w', e) \<and> world_inv w'"
proof (cases req)
  case (RUpdate i title nt tags position dependsOn)
  then have "returns_inv (TodoUpdateOp json ac i title nt tags position dependsOn now ids clk w)"
    using assms(3) by (intro UpdateOp_returns assms(1,2)) (simp add: request_typed_def)
  from returns_inv_map [OF this] RUpdate show ?thesis by (simp only: handle_todo_def todo_request.case)
qed (simp_all only: handle_todo_def todo_request.case, (intro returns_inv_map AddOp_returns ClaimOp_returns
    TransitionOp_returns AssignOp_returns RemoveOp_returns assms(1,2))+)

text \<open>Every task-list request gets an answer when the parent links of the sessions form a forest
  (the walk to a session's anchor then ends), whoever sends it, and it keeps the invariants of the task
  store and of the message store it publishes events to.\<close>

theorem todo_request_returns:
  assumes "session_forest (Sessions (w_sm w))" and "world_inv w" and "request_typed req"
  shows "\<exists>w' e. handle_todo json ac req msg_id now ids clk w = Some (w', e) \<and> world_inv w'"
  using assms by (rule handle_todo_returns)

definition example_world :: TodoWorld where
  "example_world = \<lparr>w_sm = example_manager, w_todos = Some example_store, w_messages = Some empty_tables,
     w_EmitEvents = ''all''\<rparr>"

lemma example_world_inv: "world_inv example_world"
  by (simp add: world_inv_def example_world_def example_store_inv empty_tables_inv)

lemma example_world_forest: "session_forest (Sessions (w_sm example_world))"
  by (simp add: example_world_def example_manager_forest)

theorem todo_request_returns_witness:
  "\<exists>w' e. handle_todo (\<lambda>_ _ _. []) example_session_context (RClaim ''td-1'' \<lparr>scope_Scenario = [], scope_Session = [],
      scope_All = False\<rparr>) [] 0 (\<lambda>n. []) (\<lambda>n. 0) example_world = Some (w', e) \<and> world_inv w'"
  using todo_request_returns [OF example_world_forest example_world_inv] by (simp add: request_typed_def)

theorem todo_request_refused_witness:
  "\<exists>w' e. handle_todo (\<lambda>_ _ _. []) example_session_context (RRemove ''td-1'') [] 0 (\<lambda>n. []) (\<lambda>n. 0) example_world =
    Some (w', e) \<and> w' = example_world \<and> e \<noteq> None"
proof -
  have s: "w_todos example_world = Some example_store" by (simp add: example_world_def)
  have "find_todo (store_db example_store) ''td-1'' \<noteq> None"
    "map_option row_scope (find_todo (store_db example_store) ''td-1'') = Some ''u''"
    "map_option row_owner (find_todo (store_db example_store) ''td-1'') = Some []"
    by (simp_all add: example_store_value find_todo_def)
  then obtain r where r: "find_todo (store_db example_store) ''td-1'' = Some r" "row_scope r = ''u''" "row_owner r = []"
    by auto
  have no: "\<not> request_authorized (w_sm example_world) example_session_context example_store (RRemove ''td-1'')"
    using r by (simp add: request_authorized_def item_authorized_def overrides_scope_def isHuman_def
        example_session_context_def)
  obtain w' e where w: "handle_todo (\<lambda>_ _ _. []) example_session_context (RRemove ''td-1'') [] 0 (\<lambda>n. []) (\<lambda>n. 0)
      example_world = Some (w', e)"
    using handle_todo_returns [OF example_world_forest example_world_inv, of "RRemove ''td-1''"]
    by (auto simp: request_typed_def) blast
  from todo_request_refused [OF s no w] w show ?thesis by blast
qed

section \<open>The background sweep\<close>

text \<open>A tick of the background sweep never takes the work of a scenario whose policy is still
  running: every item of its list is still there afterwards, with its assignee, and a finished item is
  unchanged.\<close>

theorem sweep_keeps_active_scenarios:
  assumes "w_todos w = Some s" and inv: "store_inv s" and mem: "r \<in> set (todos (store_db s))"
    and act: "row_scope r \<in> set (activeScenarioPolicyTodoScopes (w_sm w))"
  shows "\<exists>t r'. w_todos (todo_sweep_tick lease retention now now' w) = Some t \<and> r' \<in> set (todos (store_db t)) \<and>
    row_id r' = row_id r \<and> row_assignee r' = row_assignee r \<and> (row_status r = TodoStatusDone \<longrightarrow> r' = r)"
proof -
  let ?s1 = "fst (ReopenStale s lease now)" and ?prot = "activeScenarioPolicyTodoScopes (w_sm w)"
  obtain r1 where r1: "r1 \<in> set (todos (store_db ?s1))" "row_id r1 = row_id r" "row_scope r1 = row_scope r"
    "row_assignee r1 = row_assignee r" "row_status r = TodoStatusDone \<longrightarrow> r1 = r"
  proof (cases "0 < lease")
    case False
    then show ?thesis using that mem by (simp add: ReopenStale_def)
  next
    case True
    let ?p = "\<lambda>x. row_status x = TodoStatusInProgress \<and> row_updated_at x < rfc3339nano (now - lease)"
    have "?s1 = s\<lparr>store_db := (store_db s)\<lparr>todos := update_where ?p (reopen_row (rfc3339nano now)) (todos (store_db s))\<rparr>\<rparr>"
      using True reopen_where_value [OF inv] by (simp add: ReopenStale_def)
    then have "todos (store_db ?s1) = update_where ?p (reopen_row (rfc3339nano now)) (todos (store_db s))" by simp
    moreover have "(if ?p r then reopen_row (rfc3339nano now) r else r) \<in>
        set (update_where ?p (reopen_row (rfc3339nano now)) (todos (store_db s)))"
      using mem by (auto simp: set_update_where)
    ultimately show ?thesis
      using that [of "if ?p r then reopen_row (rfc3339nano now) r else r"]
      by (auto simp: reopen_row_def TodoStatusDone_def TodoStatusInProgress_def)
  qed
  have inv1: "store_inv ?s1" by (rule ReopenStale_inv [OF inv])
  let ?t = "fst (SweepDoneExceptScopes ?s1 retention ?prot now')"
  have "r1 \<in> set (todos (store_db ?t))"
  proof (cases "0 < retention")
    case True
    then obtain t n where "SweepDoneExceptScopes ?s1 retention ?prot now' = (t, Inr n)"
      and gone: "\<And>x. x \<in> set (todos (store_db ?s1)) - set (todos (store_db t)) \<Longrightarrow> row_scope x \<notin> set ?prot"
      using SweepDoneExceptScopes_value [OF inv1 True, of ?prot now'] by blast
    then show ?thesis using r1(1,3) act gone [of r1] by auto
  next
    case False
    then show ?thesis using r1(1) by (simp add: SweepDoneExceptScopes_def)
  qed
  then show ?thesis using assms(1) r1 by (auto simp: todo_sweep_tick_def)
qed

definition scenario_world :: TodoWorld where
  "scenario_world = example_world\<lparr>
     w_sm := example_manager\<lparr>Scenarios := [(''x'', \<lparr>ScenarioID = ''x'', ScenarioName = ''n'', OrchestratorID = ''orch'',
       SessionIDs = [''a''], Policy = Some \<lparr>PolicyActive = True, PolicyOutcome = []\<rparr>\<rparr>)]\<rparr>,
     w_todos := Some (fst (Add (NewTodoStore empty_db example_settings) (example_add\<lparr>add_Scope := ''scenario:x''\<rparr>) ''1'' 0))\<rparr>"

theorem sweep_keeps_active_scenarios_witness:
  "\<exists>t r'. w_todos (todo_sweep_tick 5 5 100 100 scenario_world) = Some t \<and> r' \<in> set (todos (store_db t)) \<and>
    row_id r' = ''td-1''"
proof -
  let ?s = "fst (Add (NewTodoStore empty_db example_settings) (example_add\<lparr>add_Scope := ''scenario:x''\<rparr>) ''1'' 0)"
  have w: "w_todos scenario_world = Some ?s" by (simp add: scenario_world_def)
  have inv: "store_inv ?s" by (intro Add_inv NewTodoStore_inv empty_db_inv)
  have "map row_id (todos (store_db ?s)) = [''td-1'']" "map row_scope (todos (store_db ?s)) = [''scenario:x'']"
    by code_simp+
  then obtain r where r: "r \<in> set (todos (store_db ?s))" "row_id r = ''td-1''" "row_scope r = ''scenario:x''"
    by (cases "todos (store_db ?s)") auto
  have "row_scope r \<in> set (activeScenarioPolicyTodoScopes (w_sm scenario_world))"
    using r(3) by (simp add: scenario_world_def activeScenarioPolicyTodoScopes_def)
  from sweep_keeps_active_scenarios [OF w inv r(1) this, of 5 5 100 100] r(2) show ?thesis by auto
qed

section \<open>Session badges\<close>

text \<open>\<^verbatim>\<open>fillTodoCounts\<close>: one count query per distinct scope, remembered in a cache.\<close>

fun fill_counts :: "TodoStore \<Rightarrow> (string \<times> nat \<times> nat) list \<Rightarrow> string list \<Rightarrow> (nat \<times> nat) list" where
  "fill_counts s cache [] = []"
| "fill_counts s cache (scope # scopes) =
    (case map_of cache scope of
       Some c \<Rightarrow> c # fill_counts s cache scopes
     | None \<Rightarrow> Counts s scope # fill_counts s ((scope, Counts s scope) # cache) scopes)"

definition fillTodoCounts :: "TodoWorld \<Rightarrow> string list \<Rightarrow> (nat \<times> nat) list option" where
  "fillTodoCounts w is =
    (case w_todos w of
       None \<Rightarrow> Some (map (\<lambda>i. (0, 0)) is)
     | Some s \<Rightarrow>
         if is = [] then Some []
         else (let scopes = anchorScopesFor (w_sm w) is
               in if None \<in> set scopes then None else Some (fill_counts s [] (map the scopes))))"

lemma fill_counts_eq:
  "(\<And>scope c. map_of cache scope = Some c \<Longrightarrow> c = Counts s scope) \<Longrightarrow>
    fill_counts s cache scopes = map (Counts s) scopes"
proof (induction scopes arbitrary: cache)
  case (Cons scope scopes)
  show ?case
  proof (cases "map_of cache scope")
    case None
    have "fill_counts s ((scope, Counts s scope) # cache) scopes = map (Counts s) scopes"
      using Cons.prems by (intro Cons.IH) (auto split: if_splits)
    then show ?thesis using None by simp
  next
    case (Some c)
    then show ?thesis using Cons by simp
  qed
qed simp

text \<open>The cached computation of the session badges gives every session the counts of the list it is
  anchored to, as if each were queried on its own.\<close>

theorem fillTodoCounts_uncached:
  assumes "session_forest (Sessions (w_sm w))" and "w_todos w = Some s"
  shows "fillTodoCounts w is =
    Some (map (\<lambda>i. Counts s (''session:'' @ the (subtreeRootLocked (Sessions (w_sm w)) i))) is)"
proof -
  have tot: "\<exists>r. subtreeRootLocked (Sessions (w_sm w)) i = Some r" for i
    using subtreeRootLocked_total [OF assms(1)] .
  then have "None \<notin> set (anchorScopesFor (w_sm w) is)" by (auto simp: anchorScopesFor_def) (metis option.distinct(1))
  moreover have "map the (anchorScopesFor (w_sm w) is) =
      map (\<lambda>i. ''session:'' @ the (subtreeRootLocked (Sessions (w_sm w)) i)) is"
    using tot by (auto simp: anchorScopesFor_def option.map_sel)
  ultimately show ?thesis
    using assms(2) fill_counts_eq [of "[]" s] by (simp add: fillTodoCounts_def Let_def comp_def)
qed

theorem fillTodoCounts_uncached_witness:
  "fillTodoCounts example_world [''a'', ''b''] =
    Some (map (\<lambda>i. Counts example_store (''session:'' @ the (subtreeRootLocked (Sessions (w_sm example_world)) i))) [''a'', ''b''])"
proof -
  have "w_todos example_world = Some example_store" by (simp add: example_world_def)
  from fillTodoCounts_uncached [OF example_world_forest this] show ?thesis .
qed

end
